(* ===== verification/Prelude.thy ===== *)
theory Prelude
  imports Main "HOL-Library.Sublist" "HOL-Library.AList"
begin

text \<open>
  The vocabulary the components share.  A Rust \<open>String\<close> or \<open>&str\<close> is the list of its
  Unicode scalar values (\<open>rstr\<close>); a literal of the source is written \<open>lit ''...''\<close>.  The
  theory models what the source uses of the standard library's string, integer and
  \<open>Result\<close> operations, fixes the time unit (an instant is an \<open>int\<close> count of
  nanoseconds since the epoch), and declares the collections of rewrite rules the
  component theories add to.
\<close>

section \<open>Collections\<close>

named_theorems rust_string \<open>rewrite rules for the string operations\<close>
named_theorems time_simps \<open>unit definitions of instants and durations\<close>
named_theorems guard_defs \<open>the guards of handlers, unfolded when a branch is selected\<close>

section \<open>Strings\<close>

type_synonym rstr = "nat list"

definition lit :: "string \<Rightarrow> rstr" where
  "lit s = map of_char s"

lemma lit_eq_iff [simp]: "lit a = lit b \<longleftrightarrow> a = b"
  unfolding lit_def by (metis inj_map_eq_map inj_of_char)

lemma lit_Nil_iff [simp]: "lit a = [] \<longleftrightarrow> a = []" "[] = lit a \<longleftrightarrow> a = []"
  by (auto simp: lit_def)

lemma lit_Nil [simp]: "lit [] = []"
  by (simp add: lit_def)

text \<open>\<open>char::is_whitespace\<close>: the Unicode property White_Space.\<close>

definition is_ws :: "nat \<Rightarrow> bool" where
  "is_ws c \<longleftrightarrow> (9 \<le> c \<and> c \<le> 13) \<or> c = 0x20 \<or> c = 0x85 \<or> c = 0xA0 \<or> c = 0x1680
     \<or> (0x2000 \<le> c \<and> c \<le> 0x200A) \<or> c = 0x2028 \<or> c = 0x2029 \<or> c = 0x202F \<or> c = 0x205F \<or> c = 0x3000"

definition is_digit_c :: "nat \<Rightarrow> bool" where
  "is_digit_c c \<longleftrightarrow> 48 \<le> c \<and> c \<le> 57"

definition is_lower_c :: "nat \<Rightarrow> bool" where
  "is_lower_c c \<longleftrightarrow> 97 \<le> c \<and> c \<le> 122"

definition is_upper_c :: "nat \<Rightarrow> bool" where
  "is_upper_c c \<longleftrightarrow> 65 \<le> c \<and> c \<le> 90"

text \<open>\<open>char::is_ascii_alphanumeric\<close>.\<close>

definition is_alnum_c :: "nat \<Rightarrow> bool" where
  "is_alnum_c c \<longleftrightarrow> is_digit_c c \<or> is_lower_c c \<or> is_upper_c c"

definition trim_start :: "rstr \<Rightarrow> rstr" where
  "trim_start s = dropWhile is_ws s"

definition trim_end :: "rstr \<Rightarrow> rstr" where
  "trim_end s = rev (dropWhile is_ws (rev s))"

definition trim :: "rstr \<Rightarrow> rstr" where
  "trim s = trim_end (trim_start s)"

lemma trim_end_eq_Nil [rust_string]: "trim_end s = [] \<longleftrightarrow> (\<forall>c\<in>set s. is_ws c)"
  by (simp add: trim_end_def dropWhile_eq_Nil_conv)

lemma trim_start_eq_Nil [rust_string]: "trim_start s = [] \<longleftrightarrow> (\<forall>c\<in>set s. is_ws c)"
  by (simp add: trim_start_def dropWhile_eq_Nil_conv)

lemma set_dropWhile_all:
  "(\<forall>c\<in>set (dropWhile P s). P c) \<longleftrightarrow> (\<forall>c\<in>set s. P c)"
  by (induction s) auto

lemma trim_eq_Nil [rust_string]: "trim s = [] \<longleftrightarrow> (\<forall>c\<in>set s. is_ws c)"
  by (simp add: trim_def trim_end_eq_Nil trim_start_def set_dropWhile_all)

text \<open>\<open>str::split(c)\<close>: never empty, one piece more than there are separators.\<close>

fun split_on :: "nat \<Rightarrow> rstr \<Rightarrow> rstr list" where
  "split_on c [] = [[]]"
| "split_on c (x # xs) =
     (if x = c then [] # split_on c xs
      else case split_on c xs of [] \<Rightarrow> [[x]] | p # ps \<Rightarrow> (x # p) # ps)"

fun join :: "rstr \<Rightarrow> rstr list \<Rightarrow> rstr" where
  "join sep [] = []"
| "join sep [p] = p"
| "join sep (p # q # ps) = p @ sep @ join sep (q # ps)"

lemma split_on_not_Nil [simp]: "split_on c s \<noteq> []"
  by (cases s) (auto split: list.splits)

lemma join_split_on [rust_string]: "join [c] (split_on c s) = s"
proof (induction s)
  case (Cons x xs)
  obtain p ps where sp: "split_on c xs = p # ps"
    by (cases "split_on c xs") auto
  show ?case using Cons sp by (cases ps) auto
qed simp

lemma split_on_pieces: "p \<in> set (split_on c s) \<Longrightarrow> c \<notin> set p"
  by (induction s arbitrary: p) (auto split: if_splits list.splits)

text \<open>\<open>str::split_once\<close> on a character.\<close>

fun split_once :: "nat \<Rightarrow> rstr \<Rightarrow> (rstr \<times> rstr) option" where
  "split_once c [] = None"
| "split_once c (x # xs) =
     (if x = c then Some ([], xs)
      else map_option (\<lambda>(a, b). (x # a, b)) (split_once c xs))"

text \<open>\<open>str::rsplit_once\<close> on a character.\<close>

definition rsplit_once :: "nat \<Rightarrow> rstr \<Rightarrow> (rstr \<times> rstr) option" where
  "rsplit_once c s = map_option (\<lambda>(a, b). (rev b, rev a)) (split_once c (rev s))"

text \<open>\<open>str::split_whitespace\<close>: the maximal runs of non-blank characters.\<close>

function split_ws :: "rstr \<Rightarrow> rstr list" where
  "split_ws s = (case dropWhile is_ws s of [] \<Rightarrow> []
     | c # cs \<Rightarrow> takeWhile (\<lambda>x. \<not> is_ws x) (c # cs)
                 # split_ws (dropWhile (\<lambda>x. \<not> is_ws x) cs))"
  by auto
termination
proof (relation "measure length")
  fix s c cs assume a: "dropWhile is_ws s = c # cs"
  have "length (dropWhile (\<lambda>x. \<not> is_ws x) cs) \<le> length cs" by (rule length_dropWhile_le)
  also have "\<dots> < length (dropWhile is_ws s)" using a by simp
  also have "\<dots> \<le> length s" by (rule length_dropWhile_le)
  finally show "(dropWhile (\<lambda>x. \<not> is_ws x) cs, s) \<in> measure length" by simp
qed simp

declare split_ws.simps [simp del]

text \<open>\<open>str::strip_prefix\<close> and \<open>str::strip_suffix\<close>.\<close>

fun strip_prefix :: "rstr \<Rightarrow> rstr \<Rightarrow> rstr option" where
  "strip_prefix [] s = Some s"
| "strip_prefix (p # ps) [] = None"
| "strip_prefix (p # ps) (c # cs) = (if p = c then strip_prefix ps cs else None)"

lemma strip_prefix_Some [rust_string]: "strip_prefix p s = Some r \<longleftrightarrow> s = p @ r"
  by (induction p s rule: strip_prefix.induct) auto

lemma strip_prefix_None [rust_string]: "strip_prefix p s = None \<longleftrightarrow> \<not> prefix p s"
  by (induction p s rule: strip_prefix.induct) auto

definition strip_suffix :: "rstr \<Rightarrow> rstr \<Rightarrow> rstr option" where
  "strip_suffix p s = map_option rev (strip_prefix (rev p) (rev s))"

definition starts_with :: "rstr \<Rightarrow> rstr \<Rightarrow> bool" where
  "starts_with p s = (strip_prefix p s \<noteq> None)"

lemma starts_with_prefix [simp]: "starts_with p s \<longleftrightarrow> prefix p s"
  by (simp add: starts_with_def strip_prefix_None)

text \<open>\<open>str::lines\<close>: split after each line feed, drop a final empty piece, and strip one
  trailing carriage return from every line that was ended by a line feed.\<close>

definition strip_cr :: "rstr \<Rightarrow> rstr" where
  "strip_cr l = (if l \<noteq> [] \<and> last l = 13 then butlast l else l)"

fun lines_of_pieces :: "rstr list \<Rightarrow> rstr list" where
  "lines_of_pieces [] = []"
| "lines_of_pieces [p] = (if p = [] then [] else [p])"
| "lines_of_pieces (p # q # ps) = strip_cr p # lines_of_pieces (q # ps)"

definition str_lines :: "rstr \<Rightarrow> rstr list" where
  "str_lines s = lines_of_pieces (split_on 10 s)"

text \<open>Blank characters at the end of a text change its lines only up to trimming.\<close>

lemma trim_snoc_ws:
  assumes "is_ws c"
  shows "trim (s @ [c]) = trim s"
proof (cases "\<forall>x\<in>set s. is_ws x")
  case True
  then have "trim (s @ [c]) = []" "trim s = []" using assms by (simp_all add: trim_eq_Nil)
  then show ?thesis by simp
next
  case False
  then have "trim_start (s @ [c]) = trim_start s @ [c]"
    by (auto simp: trim_start_def dropWhile_append dropWhile_eq_Nil_conv)
  then show ?thesis using assms by (simp add: trim_def trim_end_def)
qed

lemma trim_strip_cr: "trim (strip_cr l) = trim l"
proof (cases "l \<noteq> [] \<and> last l = 13")
  case True
  then have "l = butlast l @ [13]" by (metis append_butlast_last_id)
  then show ?thesis using trim_snoc_ws[of 13 "butlast l"] True by (simp add: strip_cr_def is_ws_def)
qed (auto simp: strip_cr_def)

lemma lines_of_pieces_trim: "l \<in> set (lines_of_pieces ps) \<Longrightarrow> \<exists>p\<in>set ps. trim l = trim p \<and> set l \<subseteq> set p"
proof (induction ps rule: lines_of_pieces.induct)
  case (3 p q ps)
  have "set (strip_cr p) \<subseteq> set p" by (auto simp: strip_cr_def dest: in_set_butlastD)
  then show ?case using 3 by (auto simp: trim_strip_cr)
qed (auto split: if_splits)

lemma split_on_snoc: "split_on c (s @ [x]) =
  (if x = c then split_on c s @ [[]] else butlast (split_on c s) @ [last (split_on c s) @ [x]])"
proof (induction s)
  case (Cons y ys)
  obtain p ps where p: "split_on c ys = p # ps" by (cases "split_on c ys") auto
  show ?case using Cons p by (cases ps) (auto split: list.splits if_splits)
qed simp

lemma split_on_ws_end:
  "\<forall>x\<in>set w. is_ws x \<Longrightarrow> p \<in> set (split_on c s) \<Longrightarrow> \<exists>p'\<in>set (split_on c (s @ w)). trim p = trim p'"
proof (induction w arbitrary: s p)
  case (Cons x w)
  have "\<exists>p'\<in>set (split_on c (s @ [x])). trim p = trim p'"
  proof (cases "x = c \<or> p \<in> set (butlast (split_on c s))")
    case False
    then have "p = last (split_on c s)"
      using Cons.prems(2) by (metis append_butlast_last_id in_set_conv_decomp split_on_not_Nil set_ConsD
          Un_iff set_append list.set(1) empty_iff)
    then show ?thesis using False trim_snoc_ws[of x p] Cons.prems(1) by (auto simp: split_on_snoc)
  qed (use Cons.prems in \<open>auto simp: split_on_snoc\<close>)
  then obtain p' where "p' \<in> set (split_on c (s @ [x]))" "trim p = trim p'" by blast
  then show ?case using Cons.IH[of p' "s @ [x]"] Cons.prems(1) by auto
qed auto

lemma split_on_join:
  "ps \<noteq> [] \<Longrightarrow> \<forall>p\<in>set ps. c \<notin> set p \<Longrightarrow> split_on c (join [c] ps) = ps"
proof (induction "[c]" ps rule: join.induct)
  case (2 p)
  have "c \<notin> set q \<Longrightarrow> split_on c q = [q]" for q by (induction q) auto
  then show ?case using 2 by simp
next
  case (3 p q ps)
  have "c \<notin> set a \<Longrightarrow> split_on c (a @ c # b) = a # split_on c b" for a b by (induction a) auto
  then show ?case using 3 by simp
qed simp

lemma trim_end_split: "\<exists>w. s = trim_end s @ w \<and> (\<forall>x\<in>set w. is_ws x)"
proof (intro exI conjI)
  show "s = trim_end s @ rev (takeWhile is_ws (rev s))"
    by (metis trim_end_def rev_append rev_rev_ident takeWhile_dropWhile_id)
qed (auto dest: set_takeWhileD)

text \<open>Maps kept as association lists.\<close>

lemma length_delete_le: "length (AList.delete k xs) \<le> length xs"
  by (simp add: AList.delete_eq)

lemma length_update: "length (AList.update k v xs) = (if k \<in> fst ` set xs then length xs else Suc (length xs))"
  by (induction xs) auto

lemma map_of_update: "map_of (AList.update k v xs) = (map_of xs)(k \<mapsto> v)"
  by (simp add: AList.update_conv')

lemma find_SomeD: "find P xs = Some x \<Longrightarrow> x \<in> set xs \<and> P x"
  by (induction xs) (auto split: if_splits)

section \<open>Decimal rendering\<close>

fun show_nat :: "nat \<Rightarrow> rstr" where
  "show_nat n = (if n < 10 then [48 + n] else show_nat (n div 10) @ [48 + n mod 10])"

declare show_nat.simps [simp del]

definition show_int :: "int \<Rightarrow> rstr" where
  "show_int i = (if i < 0 then 45 # show_nat (nat (- i)) else show_nat (nat i))"

lemma show_nat_digits: "c \<in> set (show_nat n) \<Longrightarrow> is_digit_c c"
proof (induction n rule: show_nat.induct)
  case (1 n)
  then show ?case
    by (subst (asm) (2) show_nat.simps) (auto simp: is_digit_c_def split: if_splits)
qed

lemma show_nat_not_Nil [simp]: "show_nat n \<noteq> []"
  by (subst show_nat.simps) simp

fun read_digits :: "nat \<Rightarrow> rstr \<Rightarrow> nat" where
  "read_digits acc [] = acc"
| "read_digits acc (c # cs) = read_digits (acc * 10 + (c - 48)) cs"

lemma read_digits_append: "read_digits acc (xs @ ys) = read_digits (read_digits acc xs) ys"
  by (induction xs arbitrary: acc) auto

lemma read_show_nat: "read_digits 0 (show_nat n) = n"
proof (induction n rule: show_nat.induct)
  case (1 n)
  then show ?case
    by (subst show_nat.simps) (auto simp: read_digits_append)
qed

lemma show_nat_inj [simp]: "show_nat a = show_nat b \<longleftrightarrow> a = b"
  by (metis read_show_nat)

lemma split_unique:
  assumes "xs @ c # ys = xs' @ c # ys'" "c \<notin> set xs" "c \<notin> set xs'"
  shows "xs = xs' \<and> ys = ys'"
proof -
  have take: "takeWhile (\<lambda>x. x \<noteq> c) (us @ c # vs) = us" if "c \<notin> set us" for us vs
    using that by (subst takeWhile_append2) auto
  have "xs = xs'" using take[OF assms(2), of ys] take[OF assms(3), of ys'] assms(1) by metis
  then show ?thesis using assms(1) by simp
qed

lemma show_nat_sep_inj:
  assumes "show_nat a @ c # xs = show_nat b @ c # ys" and "\<not> is_digit_c c"
  shows "a = b \<and> xs = ys"
  using split_unique[OF assms(1)] assms(2) show_nat_digits by auto

text \<open>\<open>str::parse::<i64>\<close>: an optional sign, at least one ASCII digit, nothing else, in range.\<close>

definition parse_nat :: "rstr \<Rightarrow> nat option" where
  "parse_nat s = (if s \<noteq> [] \<and> list_all is_digit_c s then Some (read_digits 0 s) else None)"

definition parse_i64 :: "rstr \<Rightarrow> int option" where
  "parse_i64 s =
     (let (neg, digits) = (case s of
            [] \<Rightarrow> (False, [])
          | c # cs \<Rightarrow> if c = 45 then (True, cs) else if c = 43 then (False, cs) else (False, s))
      in case parse_nat digits of
           None \<Rightarrow> None
         | Some n \<Rightarrow> let i = (if neg then - int n else int n)
                     in if - (2 ^ 63) \<le> i \<and> i < 2 ^ 63 then Some i else None)"

text \<open>\<open>str::parse::<u32>\<close>: an optional plus sign, digits, in range.\<close>

definition parse_u32 :: "rstr \<Rightarrow> nat option" where
  "parse_u32 s = (let digits = (case s of c # cs \<Rightarrow> if c = 43 then cs else s | [] \<Rightarrow> [])
     in case parse_nat digits of Some n \<Rightarrow> if n < 2 ^ 32 then Some n else None | None \<Rightarrow> None)"

lemma parse_u32_show: "n < 2 ^ 32 \<Longrightarrow> parse_u32 (show_nat n) = Some n"
proof -
  assume n: "n < 2 ^ 32"
  obtain c cs where c: "show_nat n = c # cs" by (cases "show_nat n") auto
  then have "is_digit_c c" using show_nat_digits[of c n] by simp
  then have "c \<noteq> 43" by (auto simp: is_digit_c_def)
  moreover have "parse_nat (show_nat n) = Some n"
    using show_nat_digits by (auto simp: parse_nat_def read_show_nat list_all_iff)
  ultimately show ?thesis using n c by (simp add: parse_u32_def Let_def)
qed

section \<open>Results, machine integers and instants\<close>

text \<open>\<open>Result<T, E>\<close> is \<open>'e + 'a\<close>: \<open>Inl\<close> the error, \<open>Inr\<close> the value.\<close>

definition is_ok :: "'e + 'a \<Rightarrow> bool" where
  "is_ok r = (case r of Inl _ \<Rightarrow> False | Inr _ \<Rightarrow> True)"

lemma is_ok_simps [simp]: "is_ok (Inl e) = False" "is_ok (Inr a) = True"
  by (simp_all add: is_ok_def)

text \<open>Rust's integer division rounds towards zero.\<close>

definition rust_div :: "int \<Rightarrow> int \<Rightarrow> int" where
  "rust_div a b = sgn a * sgn b * (\<bar>a\<bar> div \<bar>b\<bar>)"

lemma int_le_div_iff:
  fixes a d w :: int
  assumes "0 < d"
  shows "w \<le> a div d \<longleftrightarrow> w * d \<le> a"
proof
  assume "w \<le> a div d"
  then have "w * d \<le> (a div d) * d" using assms by simp
  also have "\<dots> \<le> a" using assms by (metis add_increasing2 mod_mult_div_eq mult.commute pos_mod_sign order_refl add.commute le_add_same_cancel1)
  finally show "w * d \<le> a" .
next
  assume "w * d \<le> a"
  then have "(w * d) div d \<le> a div d" using assms by (rule zdiv_mono1)
  then show "w \<le> a div d" using assms by simp
qed

lemma rust_div_ge_iff:
  assumes "0 < d" "0 < w"
  shows "w \<le> rust_div a d \<longleftrightarrow> w * d \<le> a"
proof (cases "0 \<le> a")
  case True
  then have "rust_div a d = a div d"
    using assms by (cases "a = 0") (auto simp: rust_div_def)
  then show ?thesis using assms by (simp add: int_le_div_iff)
next
  case False
  then have "rust_div a d \<le> 0" using assms
    by (auto simp: rust_div_def sgn_if pos_imp_zdiv_nonneg_iff)
  moreover have "a < w * d" using False assms by (smt (verit) mult_pos_pos)
  ultimately show ?thesis using assms by linarith
qed

type_synonym instant = int

definition second :: int where [time_simps]: "second = 1000000000"
definition minute :: int where [time_simps]: "minute = 60 * second"

lemma minute_pos [simp]: "0 < minute" by (simp add: time_simps)
lemma minute_neq [simp]: "minute \<noteq> 0" using minute_pos by linarith
lemma minute_nonneg [simp]: "0 \<le> minute" "\<not> minute \<le> 0" "\<not> minute < 0"
  using minute_pos by linarith+
lemma second_pos [simp]: "0 < second" by (simp add: time_simps)

text \<open>\<open>Duration::num_minutes\<close>, \<open>Duration::num_seconds\<close> and \<open>DateTime::timestamp\<close> (which floors).\<close>

definition num_minutes :: "int \<Rightarrow> int" where "num_minutes d = rust_div d minute"
definition num_seconds :: "int \<Rightarrow> int" where "num_seconds d = rust_div d second"
definition timestamp :: "instant \<Rightarrow> int" where "timestamp t = t div second"

section \<open>JSON values\<close>

text \<open>The shape of a \<open>serde_json::Value\<close>; a number keeps its integer value when it has one,
  and is otherwise the text it was written as.\<close>

datatype json =
  JNull
| JBool bool
| JInt int
| JFloat rstr
| JString rstr
| JArray "json list"
| JObject "(rstr \<times> json) list"

text \<open>Accessors of a decoded value; \<open>null\<close> is \<open>None\<close> for an optional field.\<close>

fun as_str :: "json \<Rightarrow> rstr option" where
  "as_str (JString s) = Some s"
| "as_str _ = None"

fun as_u64 :: "json \<Rightarrow> nat option" where
  "as_u64 (JInt i) = (if 0 \<le> i \<and> i < 2 ^ 64 then Some (nat i) else None)"
| "as_u64 _ = None"

definition object_get :: "rstr \<Rightarrow> json \<Rightarrow> json option" where
  "object_get k j = (case j of JObject kvs \<Rightarrow> map_of kvs k | _ \<Rightarrow> None)"

definition opt_value :: "json option \<Rightarrow> json option" where
  "opt_value j = (case j of Some JNull \<Rightarrow> None | _ \<Rightarrow> j)"

end
