(* ===== verification/Notify.thy ===== *)
theory Notify
  imports Prelude
begin

text \<open>
  The notification layer's data (\<open>dotagent-notify/src/lib.rs\<close> and the driver modules' config
  structs): a manifest's \<open>[[notifiers]]\<close> entry, the driver it names, and the event filter that
  decides whether it fires.  The drivers' transports are I/O and are not modelled; what they
  return is a parameter of the code that calls them (theory Hooks).
\<close>

record desktop_config =
  dk_title :: "rstr option"
  dk_subtitle :: "rstr option"
  dk_sound :: "bool option"
  dk_urgency :: "rstr option"
  dk_icon :: "rstr option"
  dk_expire_ms :: "nat option"

record slack_config =
  sl_webhook_url :: rstr
  sl_channel :: "rstr option"
  sl_username :: "rstr option"
  sl_icon_emoji :: "rstr option"

record ntfy_config =
  nt_base_url :: rstr
  nt_topic :: rstr
  nt_token :: "rstr option"
  nt_priority :: "nat option"
  nt_title :: "rstr option"
  nt_tags :: "rstr list"

record pushover_config =
  po_token :: rstr
  po_user :: rstr
  po_priority :: "int option"
  po_title :: "rstr option"

datatype parse_mode = MarkdownV2 | Html | MarkdownLegacy

record telegram_config =
  tg_bot_token :: rstr
  tg_chat_id :: rstr
  tg_parse_mode :: "parse_mode option"
  tg_disable_notification :: "bool option"

record imessage_config =
  im_to :: rstr
  im_rate_limit_minutes :: "nat option"

record plugin_notifier_config =
  pn_name :: rstr
  pn_config :: json
  pn_events :: "rstr list"

datatype notifier_config =
  Desktop desktop_config
| Slack slack_config
| Ntfy ntfy_config
| Pushover pushover_config
| Telegram telegram_config
| Imessage imessage_config
| Plugin plugin_notifier_config

record notifier_entry =
  ne_config :: notifier_config
  ne_events :: "rstr list"

definition matches_event :: "notifier_entry \<Rightarrow> rstr \<Rightarrow> bool" where
  "matches_event e event = (
     let extra_events = (case ne_config e of Plugin p \<Rightarrow> pn_events p | _ \<Rightarrow> []) in
     if ne_events e \<noteq> [] then list_ex (\<lambda>x. x = event) (ne_events e)
     else if extra_events \<noteq> [] then list_ex (\<lambda>x. x = event) extra_events
     else True)"

fun driver_name :: "notifier_config \<Rightarrow> rstr" where
  "driver_name (Desktop _) = lit ''desktop''"
| "driver_name (Slack _) = lit ''slack''"
| "driver_name (Ntfy _) = lit ''ntfy''"
| "driver_name (Pushover _) = lit ''pushover''"
| "driver_name (Telegram _) = lit ''telegram''"
| "driver_name (Imessage _) = lit ''imessage''"
| "driver_name (Plugin _) = lit ''plugin''"

definition as_plugin :: "notifier_entry \<Rightarrow> plugin_notifier_config option" where
  "as_plugin e = (case ne_config e of Plugin p \<Rightarrow> Some p | _ \<Rightarrow> None)"

definition is_native :: "notifier_entry \<Rightarrow> bool" where
  "is_native e = (as_plugin e = None)"

lemma driver_name_plugin_iff: "driver_name c = lit ''plugin'' \<longleftrightarrow> (\<exists>p. c = Plugin p)"
  by (cases c) auto

lemma matches_event_iff:
  "matches_event e ev \<longleftrightarrow>
     (if ne_events e \<noteq> [] then ev \<in> set (ne_events e)
      else case as_plugin e of
             Some p \<Rightarrow> pn_events p = [] \<or> ev \<in> set (pn_events p)
           | None \<Rightarrow> True)"
  by (auto simp: matches_event_def as_plugin_def list_ex_iff Let_def split: notifier_config.splits)

end
