(* ===== verification/Manifest.thy ===== *)
theory Manifest
  imports Notify
begin

text \<open>
  The agent manifest: \<open>dotagent-core/src/manifest.rs\<close> with \<open>lifecycle.rs\<close>, \<open>security.rs\<close>,
  \<open>assistant.rs\<close> and the policy half of \<open>power.rs\<close>, and the two persisted records
  \<open>Heartbeat\<close> (\<open>heartbeat.rs\<close>) and \<open>WindowState\<close> (\<open>state.rs\<close>).  Field names carry a
  two-letter prefix; \<open>u8\<close>, \<open>u32\<close> and \<open>u64\<close> fields are \<open>nat\<close>, \<open>i32\<close> and \<open>i64\<close> fields
  \<open>int\<close>.  \<open>validate\<close> is the gate every manifest passes before the daemon schedules it.
\<close>

section \<open>Power policy (power.rs)\<close>

datatype power_policy = Run | Defer

datatype power_source = Ac | Battery "nat option" | Unknown

record power_config =
  pc_on_battery :: power_policy
  pc_min_battery_percent :: nat

definition default_power_config :: power_config where
  "default_power_config = \<lparr> pc_on_battery = Run, pc_min_battery_percent = 0 \<rparr>"

fun should_defer :: "power_source \<Rightarrow> power_policy \<Rightarrow> nat \<Rightarrow> bool" where
  "should_defer (Battery percent) policy min_battery_percent =
     (if policy = Defer then True
      else case percent of
             Some p \<Rightarrow> if 0 < min_battery_percent then p < min_battery_percent else False
           | None \<Rightarrow> False)"
| "should_defer _ policy min_battery_percent = False"

section \<open>Lifecycle (lifecycle.rs)\<close>

datatype lifecycle_mode = Oneshot | Persistent

record lifecycle_config =
  lc_mode :: lifecycle_mode
  lc_idle_timeout_seconds :: nat
  lc_max_invocations :: nat
  lc_startup_timeout_seconds :: nat
  lc_key :: "rstr option"
  lc_max_instances :: nat

definition default_lifecycle :: lifecycle_config where
  "default_lifecycle = \<lparr> lc_mode = Oneshot, lc_idle_timeout_seconds = 1800,
     lc_max_invocations = 120, lc_startup_timeout_seconds = 30, lc_key = None,
     lc_max_instances = 8 \<rparr>"

definition is_persistent :: "lifecycle_config \<Rightarrow> bool" where
  "is_persistent c = (case lc_mode c of Persistent \<Rightarrow> True | Oneshot \<Rightarrow> False)"

datatype lifecycle_error =
  IdleTimeoutZero
| MaxInstancesZero
| StartupTimeoutZero
| StartupNotBelowTimeout nat nat
| KeyEmpty

definition validate_lifecycle :: "lifecycle_config \<Rightarrow> nat \<Rightarrow> lifecycle_error + unit" where
  "validate_lifecycle c agent_timeout_seconds = (
     if \<not> is_persistent c then Inr ()
     else if lc_idle_timeout_seconds c = 0 then Inl IdleTimeoutZero
     else if lc_max_instances c = 0 then Inl MaxInstancesZero
     else if lc_startup_timeout_seconds c = 0 then Inl StartupTimeoutZero
     else if lc_startup_timeout_seconds c \<ge> agent_timeout_seconds
       then Inl (StartupNotBelowTimeout (lc_startup_timeout_seconds c) agent_timeout_seconds)
     else case lc_key c of
            Some key \<Rightarrow> if trim key = [] then Inl KeyEmpty else Inr ()
          | None \<Rightarrow> Inr ())"

section \<open>Security (security.rs)\<close>

datatype network_mode = Allow | Deny
datatype network_policy = Mode network_mode | Allowlist "rstr list"

record security_config =
  sc_allowed_commands :: "rstr list"
  sc_allowed_plugins :: "rstr list"
  sc_network :: network_policy
  sc_filesystem_writable :: "rstr list"
  sc_env_passthrough :: "rstr list"

definition default_security :: security_config where
  "default_security = \<lparr> sc_allowed_commands = [], sc_allowed_plugins = [],
     sc_network = Mode Allow, sc_filesystem_writable = [], sc_env_passthrough = [] \<rparr>"

definition is_explicit :: "security_config \<Rightarrow> bool" where
  "is_explicit c \<longleftrightarrow> sc_allowed_commands c \<noteq> [] \<or> sc_allowed_plugins c \<noteq> []
     \<or> sc_filesystem_writable c \<noteq> [] \<or> sc_env_passthrough c \<noteq> []
     \<or> \<not> (case sc_network c of Mode Allow \<Rightarrow> True | _ \<Rightarrow> False)"

section \<open>The manifest's data (manifest.rs)\<close>

record agent_meta =
  am_name :: rstr
  am_description :: "rstr option"
  am_monitor :: bool
  am_timeout_seconds :: nat
  am_version :: "rstr option"

record run_config =
  rc_command :: rstr
  rc_args :: "rstr list"
  rc_working_dir :: "rstr option"
  rc_protocol :: "rstr option"

record env_config =
  ec_inherit :: bool
  ec_extra :: "(rstr \<times> rstr) list"

record assistant_extractor =
  ax_command :: rstr
  ax_args :: "rstr list"
  ax_timeout_seconds :: nat

record agent_memory_config =
  mc_capture :: bool
  mc_topics :: "rstr list"
  mc_extractor :: "assistant_extractor option"

definition default_agent_memory :: agent_memory_config where
  "default_agent_memory = \<lparr> mc_capture = True, mc_topics = [], mc_extractor = None \<rparr>"

definition captures :: "agent_memory_config \<Rightarrow> bool" where
  "captures c = mc_capture c"

datatype toolkit_server = Dotagent | Http rstr | Stdio rstr "rstr list"

fun server_name :: "toolkit_server \<Rightarrow> rstr" where
  "server_name Dotagent = lit ''dotagent''"
| "server_name (Http _) = lit ''mcp''"
| "server_name (Stdio _ _) = lit ''stdio''"

record assistant_config =
  ac_enabled :: bool
  ac_memory :: bool
  ac_transcript_bytes_max :: "nat option"
  ac_toolkit :: "toolkit_server list"
  ac_extractor :: "assistant_extractor option"

record schedule_defaults =
  sd_max_retries :: "nat option"
  sd_retry_backoff_minutes :: "nat list option"
  sd_stale_after_minutes :: "nat option"

record schedule_overrides =
  ov_max_retries :: "nat option"
  ov_retry_backoff_minutes :: "nat list option"
  ov_stale_after_minutes :: "nat option"
  ov_on_battery :: "power_policy option"

definition no_overrides :: schedule_overrides where
  "no_overrides = \<lparr> ov_max_retries = None, ov_retry_backoff_minutes = None,
     ov_stale_after_minutes = None, ov_on_battery = None \<rparr>"

datatype schedule =
  Cron (sched_id: rstr) (cron_weekdays: "nat list") (cron_hours: "nat list")
       (cron_minute: nat) (sched_args: "rstr list") (sched_overrides: schedule_overrides)
| Interval (sched_id: rstr) (interval_minutes: nat)
       (sched_args: "rstr list") (sched_overrides: schedule_overrides)
| Expression (sched_id: rstr) (expr_text: rstr)
       (sched_args: "rstr list") (sched_overrides: schedule_overrides)

record plugin_ref =
  pr_plugin :: rstr
  pr_config :: json
  pr_events :: "rstr list"
  pr_remediation :: "rstr option"
  pr_timeout_seconds :: "nat option"

record agent_manifest =
  mf_agent :: agent_meta
  mf_run :: run_config
  mf_env :: "env_config option"
  mf_lifecycle :: lifecycle_config
  mf_assistant :: "assistant_config option"
  mf_memory :: "agent_memory_config option"
  mf_defaults :: schedule_defaults
  mf_schedules :: "schedule list"
  mf_preflight :: "plugin_ref list"
  mf_notifiers :: "notifier_entry list"
  mf_on_success :: "plugin_ref list"
  mf_on_failure :: "plugin_ref list"
  mf_security :: security_config

section \<open>Validation\<close>

definition assistant_protocol_v1 :: rstr where
  "assistant_protocol_v1 = lit ''assistant-v1''"

datatype manifest_error =
  NameEmpty
| CommandEmpty
| UnsupportedProtocol rstr
| ProtocolNeedsOneshot
| TranscriptCeilingZero
| DuplicateServer rstr
| DuplicateSchedule rstr
| IntervalZero rstr
| LifecycleInvalid lifecycle_error

text \<open>The two \<open>HashSet\<close> loops, with the set of names seen so far.\<close>

fun check_servers :: "rstr set \<Rightarrow> toolkit_server list \<Rightarrow> manifest_error + unit" where
  "check_servers names [] = Inr ()"
| "check_servers names (s # ss) =
     (if server_name s \<in> names then Inl (DuplicateServer (server_name s))
      else check_servers (insert (server_name s) names) ss)"

definition is_zero_interval :: "schedule \<Rightarrow> bool" where
  "is_zero_interval s = (case s of Interval _ n _ _ \<Rightarrow> n = 0 | _ \<Rightarrow> False)"

fun check_schedules :: "rstr set \<Rightarrow> schedule list \<Rightarrow> manifest_error + unit" where
  "check_schedules ids [] = Inr ()"
| "check_schedules ids (s # ss) =
     (if sched_id s \<in> ids then Inl (DuplicateSchedule (sched_id s))
      else if is_zero_interval s then Inl (IntervalZero (sched_id s))
      else check_schedules (insert (sched_id s) ids) ss)"

definition check_assistant :: "assistant_config option \<Rightarrow> manifest_error + unit" where
  "check_assistant a = (case a of
     None \<Rightarrow> Inr ()
   | Some c \<Rightarrow> if ac_transcript_bytes_max c = Some 0 then Inl TranscriptCeilingZero
               else check_servers {} (ac_toolkit c))"

definition validate :: "agent_manifest \<Rightarrow> manifest_error + unit" where
  "validate m = (
     if am_name (mf_agent m) = [] then Inl NameEmpty
     else if rc_command (mf_run m) = [] then Inl CommandEmpty
     else case (case rc_protocol (mf_run m) of
                  Some p \<Rightarrow> if p \<noteq> assistant_protocol_v1 then Some p else None
                | None \<Rightarrow> None) of
       Some p \<Rightarrow> Inl (UnsupportedProtocol p)
     | None \<Rightarrow>
       if rc_protocol (mf_run m) = Some assistant_protocol_v1 \<and> is_persistent (mf_lifecycle m)
       then Inl ProtocolNeedsOneshot
       else case check_assistant (mf_assistant m) of
         Inl e \<Rightarrow> Inl e
       | Inr _ \<Rightarrow>
         (case check_schedules {} (mf_schedules m) of
            Inl e \<Rightarrow> Inl e
          | Inr _ \<Rightarrow>
            (case validate_lifecycle (mf_lifecycle m) (am_timeout_seconds (mf_agent m)) of
               Inl e \<Rightarrow> Inl (LifecycleInvalid e)
             | Inr _ \<Rightarrow> Inr ())))"

text \<open>What the gate means: the shape every later component relies on.\<close>

definition lifecycle_wf :: "lifecycle_config \<Rightarrow> nat \<Rightarrow> bool" where
  "lifecycle_wf c timeout \<longleftrightarrow> (is_persistent c \<longrightarrow>
     0 < lc_idle_timeout_seconds c \<and> 0 < lc_max_instances c
     \<and> 0 < lc_startup_timeout_seconds c \<and> lc_startup_timeout_seconds c < timeout
     \<and> (\<forall>k. lc_key c = Some k \<longrightarrow> (\<exists>ch\<in>set k. \<not> is_ws ch)))"

definition schedules_wf :: "schedule list \<Rightarrow> bool" where
  "schedules_wf ss \<longleftrightarrow> distinct (map sched_id ss) \<and> (\<forall>s\<in>set ss. \<not> is_zero_interval s)"

definition assistant_wf :: "assistant_config option \<Rightarrow> bool" where
  "assistant_wf a \<longleftrightarrow> (\<forall>c. a = Some c \<longrightarrow>
     ac_transcript_bytes_max c \<noteq> Some 0 \<and> distinct (map server_name (ac_toolkit c)))"

definition manifest_wf :: "agent_manifest \<Rightarrow> bool" where
  "manifest_wf m \<longleftrightarrow>
     am_name (mf_agent m) \<noteq> [] \<and> rc_command (mf_run m) \<noteq> []
     \<and> rc_protocol (mf_run m) \<in> {None, Some assistant_protocol_v1}
     \<and> \<not> (rc_protocol (mf_run m) = Some assistant_protocol_v1 \<and> is_persistent (mf_lifecycle m))
     \<and> assistant_wf (mf_assistant m)
     \<and> schedules_wf (mf_schedules m)
     \<and> lifecycle_wf (mf_lifecycle m) (am_timeout_seconds (mf_agent m))"

lemma validate_lifecycle_ok: "is_ok (validate_lifecycle c t) \<longleftrightarrow> lifecycle_wf c t"
  by (auto simp: validate_lifecycle_def lifecycle_wf_def trim_eq_Nil split: option.split)

lemma check_servers_ok:
  "is_ok (check_servers names ss) \<longleftrightarrow>
     distinct (map server_name ss) \<and> server_name ` set ss \<inter> names = {}"
  by (induction names ss rule: check_servers.induct) auto

lemma check_servers_error:
  "check_servers names ss = Inl e \<Longrightarrow>
     \<exists>pre s post. ss = pre @ s # post \<and> e = DuplicateServer (server_name s)
       \<and> server_name s \<in> names \<union> server_name ` set pre"
proof (induction names ss rule: check_servers.induct)
  case (2 names s ss)
  show ?case
  proof (cases "server_name s \<in> names")
    case True
    then show ?thesis using 2(2) by (intro exI[of _ "[]"]) auto
  next
    case False
    then obtain pre t post where "ss = pre @ t # post" "e = DuplicateServer (server_name t)"
      "server_name t \<in> insert (server_name s) names \<union> server_name ` set pre"
      using 2 by auto
    then show ?thesis by (intro exI[of _ "s # pre"] exI[of _ t] exI[of _ post]) auto
  qed
qed simp

lemma check_schedules_ok:
  "is_ok (check_schedules ids ss) \<longleftrightarrow> schedules_wf ss \<and> sched_id ` set ss \<inter> ids = {}"
  by (induction ids ss rule: check_schedules.induct) (auto simp: schedules_wf_def)

lemma check_assistant_ok: "is_ok (check_assistant a) \<longleftrightarrow> assistant_wf a"
  by (auto simp: check_assistant_def assistant_wf_def check_servers_ok split: option.split)

lemma is_ok_case: "is_ok (case r of Inl e \<Rightarrow> Inl (f e) | Inr x \<Rightarrow> g x) \<longleftrightarrow> (\<exists>x. r = Inr x \<and> is_ok (g x))"
  by (cases r) auto

lemma is_ok_unit: "r = Inr (u::unit) \<longleftrightarrow> is_ok r"
  by (cases r) (auto simp: is_ok_def)

text \<open>C1. a manifest loads exactly when it is well formed: it has a name and a command, speaks a
  protocol the daemon knows (and not the streaming one as a persistent process), its toolkit
  servers and its schedules have distinct names, no schedule has a zero interval, no transcript
  ceiling is zero, and a persistent lifecycle has positive limits that fit the deadline.\<close>

theorem validate_iff_wf: "is_ok (validate m) \<longleftrightarrow> manifest_wf m"
  by (auto simp: validate_def manifest_wf_def is_ok_case is_ok_unit check_assistant_ok
      check_schedules_ok validate_lifecycle_ok split: option.split)

lemma validate_schedules_wf: "validate m = Inr () \<Longrightarrow> schedules_wf (mf_schedules m)"
  using check_schedules_ok[of "{}" "mf_schedules m"]
  by (auto simp: validate_def is_ok_unit[symmetric] split: if_splits option.splits sum.splits)

section \<open>Persisted run state (heartbeat.rs, state.rs)\<close>

record heartbeat =
  hb_name :: rstr
  hb_slug :: rstr
  hb_args :: "rstr list"
  hb_started_at :: int
  hb_started_at_iso :: rstr
  hb_finished_at :: "int option"
  hb_finished_at_iso :: "rstr option"
  hb_exit_code :: "int option"
  hb_duration_seconds :: "int option"
  hb_last_success_at :: "int option"
  hb_last_success_at_iso :: "rstr option"

definition is_last_run_success :: "heartbeat \<Rightarrow> bool" where
  "is_last_run_success hb = (case hb_exit_code hb of Some c \<Rightarrow> c = 0 | None \<Rightarrow> False)"

definition is_running :: "heartbeat \<Rightarrow> bool" where
  "is_running hb = (hb_finished_at hb = None)"

record window_state =
  ws_agent :: rstr
  ws_schedule_id :: rstr
  ws_expected_at :: int
  ws_attempts :: nat
  ws_last_attempt_at :: "int option"
  ws_last_attempt_exit_code :: "int option"
  ws_last_attempt_stderr :: "rstr option"
  ws_given_up :: bool
  ws_given_up_at :: "int option"

definition default_window :: window_state where
  "default_window = \<lparr> ws_agent = [], ws_schedule_id = [], ws_expected_at = 0, ws_attempts = 0,
     ws_last_attempt_at = None, ws_last_attempt_exit_code = None,
     ws_last_attempt_stderr = None, ws_given_up = False, ws_given_up_at = None \<rparr>"

section \<open>Power lemmas\<close>

lemma should_defer_iff:
  "should_defer src policy floor \<longleftrightarrow>
     (\<exists>pct. src = Battery pct \<and> (policy = Defer \<or> (\<exists>p. pct = Some p \<and> p < floor)))"
  by (cases src) (auto split: option.splits)

text \<open>A manifest with nothing but a name and a command, for the witnesses.\<close>

definition plain_manifest :: "schedule list \<Rightarrow> agent_manifest" where
  "plain_manifest ss = \<lparr> mf_agent = \<lparr> am_name = lit ''probe'', am_description = None,
       am_monitor = True, am_timeout_seconds = 1800, am_version = None \<rparr>,
     mf_run = \<lparr> rc_command = lit ''true'', rc_args = [], rc_working_dir = None, rc_protocol = None \<rparr>,
     mf_env = None, mf_lifecycle = default_lifecycle, mf_assistant = None, mf_memory = None,
     mf_defaults = \<lparr> sd_max_retries = None, sd_retry_backoff_minutes = None,
       sd_stale_after_minutes = None \<rparr>,
     mf_schedules = ss, mf_preflight = [], mf_notifiers = [], mf_on_success = [],
     mf_on_failure = [], mf_security = default_security \<rparr>"

end
