(* ===== verification/Ladder.thy ===== *)
theory Ladder
  imports Prelude
begin

text \<open>
  The contract two operations of the program share: a saturating backoff ladder.  After the
  n-th try the next one waits \<open>steps ! min (n - 1) (length steps - 1)\<close>, the last rung repeating.
  \<open>should_retry\<close> (scheduler, runs) and \<open>should_notify\<close> (alert episodes) both promise it; what
  follows from it about a whole sequence of tries is proved once here, and interpreted in the
  theories Scheduler and Dedup.
\<close>

definition rung :: "int list \<Rightarrow> nat \<Rightarrow> int" where
  "rung steps n = (if steps = [] then 0 else steps ! min (n - 1) (length steps - 1))"

fun ladder_sum :: "int list \<Rightarrow> nat \<Rightarrow> nat \<Rightarrow> int" where
  "ladder_sum steps n 0 = 0"
| "ladder_sum steps n (Suc k) = rung steps n + ladder_sum steps (Suc n) k"

text \<open>A run of tries: \<open>t\<close> is the time of the \<open>n\<close>-th try and every later time in \<open>ts\<close> was let
  through by \<open>ready\<close>, on a clock that does not run backwards.\<close>

fun paced :: "(nat \<Rightarrow> int \<Rightarrow> int \<Rightarrow> bool) \<Rightarrow> nat \<Rightarrow> int \<Rightarrow> int list \<Rightarrow> bool" where
  "paced ready n t [] = True"
| "paced ready n t (u # us) = (t \<le> u \<and> ready n t u \<and> paced ready (Suc n) u us)"

text \<open>Trying at the earliest moment each rung allows.\<close>

fun earliest :: "int list \<Rightarrow> nat \<Rightarrow> int \<Rightarrow> nat \<Rightarrow> int list" where
  "earliest steps n t 0 = []"
| "earliest steps n t (Suc k) =
     (t + rung steps n) # earliest steps (Suc n) (t + rung steps n) k"

lemma rung_saturated: "length steps \<le> n \<Longrightarrow> steps \<noteq> [] \<Longrightarrow> rung steps n = last steps"
  by (simp add: rung_def last_conv_nth min_def) (metis diff_le_mono le_antisym)

lemma ladder_sum_saturated:
  "length steps \<le> n \<Longrightarrow> steps \<noteq> [] \<Longrightarrow> ladder_sum steps n k = int k * last steps"
  by (induction k arbitrary: n) (simp_all add: rung_saturated algebra_simps)

locale backoff_ladder =
  fixes steps :: "int list"
    and ready :: "nat \<Rightarrow> int \<Rightarrow> int \<Rightarrow> bool"
  assumes steps_nonneg: "s \<in> set steps \<Longrightarrow> 0 \<le> s"
    and ready_iff: "t \<le> now \<Longrightarrow> ready n t now \<longleftrightarrow> t + rung steps n \<le> now"
begin

lemma rung_nonneg: "0 \<le> rung steps n"
proof (cases "steps = []")
  case False
  then have "steps ! min (n - 1) (length steps - 1) \<in> set steps"
    by (intro nth_mem) (simp add: min_less_iff_disj)
  then show ?thesis using steps_nonneg by (simp add: rung_def)
qed (simp add: rung_def)

lemma ready_eventually: "t + rung steps n \<le> now \<Longrightarrow> ready n t now"
  using rung_nonneg[of n] by (simp add: ready_iff)

lemma ready_mono: "ready n t a \<Longrightarrow> t \<le> a \<Longrightarrow> a \<le> b \<Longrightarrow> ready n t b"
  using ready_iff[of t a n] ready_iff[of t b n] by simp

lemma not_ready_before: "t \<le> now \<Longrightarrow> now < t + rung steps n \<Longrightarrow> \<not> ready n t now"
  by (simp add: ready_iff)

lemma paced_span:
  "paced ready n t us \<Longrightarrow> t + ladder_sum steps n (length us) \<le> last (t # us)"
proof (induction us arbitrary: n t)
  case (Cons u us)
  then have "u + ladder_sum steps (Suc n) (length us) \<le> last (u # us)" by simp
  moreover have "t + rung steps n \<le> u" using Cons.prems ready_iff[of t u n] by simp
  ultimately show ?case by simp
qed simp

lemma earliest_paced: "paced ready n t (earliest steps n t k)"
  by (induction k arbitrary: n t) (auto simp: rung_nonneg ready_eventually)

lemma earliest_span: "last (t # earliest steps n t k) = t + ladder_sum steps n k"
  by (induction k arbitrary: n t) (auto simp: algebra_simps split: if_splits)

end

end
