(* ===== verification/Scheduler.thy ===== *)
theory Scheduler
  imports Manifest Ladder
begin

text \<open>
  \<open>dotagent-scheduler/src/lib.rs\<close>: when a schedule is due, when it is due next, and how its
  health reads.  Every function of the source is pure over \<open>DateTime<Local>\<close>.  An instant is an
  \<open>int\<close> of nanoseconds; what the code asks of the time zone is the record \<open>tz\<close>: the civil date
  (a day number), hour and minute of an instant, the weekday of a date,
  \<open>with_ymd_and_hms(d, h, m, 0).single()\<close> (\<open>tz_resolve\<close>: \<open>None\<close> in a gap, in an overlap and for
  an impossible hour or minute), \<open>timestamp_opt(s, 0).single()\<close> (\<open>tz_epoch\<close>) and the renderings
  \<open>%Y-%m-%d-%H%M\<close> (\<open>tz_label\<close>) and \<open>%Y-%m-%dT%H:%M:%S%z\<close> (\<open>tz_iso\<close>).  \<open>u32\<close> policy fields are
  \<open>nat\<close>.
\<close>

section \<open>Civil time\<close>

record tz =
  tz_date :: "instant \<Rightarrow> int"
  tz_weekday :: "int \<Rightarrow> nat"
  tz_hour :: "instant \<Rightarrow> nat"
  tz_minute :: "instant \<Rightarrow> nat"
  tz_resolve :: "int \<Rightarrow> nat \<Rightarrow> nat \<Rightarrow> instant option"
  tz_epoch :: "int \<Rightarrow> instant option"
  tz_label :: "instant \<Rightarrow> rstr"
  tz_iso :: "instant \<Rightarrow> rstr"

definition hour :: int where [time_simps]: "hour = 60 * minute"
definition day :: int where [time_simps]: "day = 24 * hour"

definition day_of_weekday :: "tz \<Rightarrow> instant \<Rightarrow> nat" where
  "day_of_weekday z t = tz_weekday z (tz_date z t)"

text \<open>The laws the scheduler relies on: a resolved civil time reads back as itself, and a civil
  time that resolves uniquely is not after an instant of the same date whose clock shows that
  minute or a later one.\<close>

locale local_time =
  fixes z :: tz
  assumes resolve_date: "tz_resolve z d h m = Some t \<Longrightarrow> tz_date z t = d"
    and resolve_hour: "tz_resolve z d h m = Some t \<Longrightarrow> tz_hour z t = h"
    and resolve_minute: "tz_resolve z d h m = Some t \<Longrightarrow> tz_minute z t = m"
    and resolve_past: "tz_resolve z d h m = Some t \<Longrightarrow> tz_date z now = d \<Longrightarrow>
      h < tz_hour z now \<or> h = tz_hour z now \<and> m \<le> tz_minute z now \<Longrightarrow> t \<le> now"
    and epoch_exact: "tz_epoch z s = Some t \<Longrightarrow> t = s * second"

section \<open>Policy\<close>

record resolved_policy =
  rp_max_retries :: nat
  rp_retry_backoff_minutes :: "nat list"
  rp_stale_after_minutes :: nat

definition default_backoff :: "nat list" where
  "default_backoff = [5, 15, 30]"

definition option_or :: "'a option \<Rightarrow> 'a option \<Rightarrow> 'a option" where
  "option_or a b = (case a of Some x \<Rightarrow> Some x | None \<Rightarrow> b)"

definition unwrap_or :: "'a option \<Rightarrow> 'a \<Rightarrow> 'a" where
  "unwrap_or a d = (case a of Some x \<Rightarrow> x | None \<Rightarrow> d)"

definition resolve :: "agent_manifest \<Rightarrow> schedule \<Rightarrow> resolved_policy" where
  "resolve manifest schedule = (
     let defaults = mf_defaults manifest; ov = sched_overrides schedule
     in \<lparr> rp_max_retries = unwrap_or (option_or (ov_max_retries ov) (sd_max_retries defaults)) 3,
          rp_retry_backoff_minutes = unwrap_or (option_or (ov_retry_backoff_minutes ov)
             (sd_retry_backoff_minutes defaults)) default_backoff,
          rp_stale_after_minutes = unwrap_or (option_or (ov_stale_after_minutes ov)
             (sd_stale_after_minutes defaults)) 120 \<rparr>)"

section \<open>Windows\<close>

definition positive_interval :: "nat \<Rightarrow> int option" where
  "positive_interval n = (if n = 0 then None else Some (int n))"

text \<open>The loop over \<open>hours\<close>: the greatest listed hour whose time has come.\<close>

fun latest_hour :: "nat list \<Rightarrow> nat \<Rightarrow> nat \<Rightarrow> nat \<Rightarrow> nat option \<Rightarrow> nat option" where
  "latest_hour [] mnt now_h now_m last_h = last_h"
| "latest_hour (h # hs) mnt now_h now_m last_h =
     latest_hour hs mnt now_h now_m
       (if h < now_h \<or> (h = now_h \<and> mnt \<le> now_m)
        then Some (case last_h of Some prev \<Rightarrow> if prev > h then prev else h | None \<Rightarrow> h)
        else last_h)"

definition cron_expected_at ::
    "tz \<Rightarrow> nat list \<Rightarrow> nat list \<Rightarrow> nat \<Rightarrow> instant \<Rightarrow> instant option" where
  "cron_expected_at z weekdays hours mnt now = (
     if day_of_weekday z now \<notin> set weekdays then None
     else case latest_hour hours mnt (tz_hour z now) (tz_minute z now) None of
            None \<Rightarrow> None
          | Some h \<Rightarrow> tz_resolve z (tz_date z now) h mnt)"

fun expected_at :: "tz \<Rightarrow> schedule \<Rightarrow> instant \<Rightarrow> instant option \<Rightarrow> instant option" where
  "expected_at z (Cron i weekdays hours mnt args ov) now last_success =
     cron_expected_at z weekdays hours mnt now"
| "expected_at z (Interval i interval args ov) now last_success =
     (case last_success of
        None \<Rightarrow> None
      | Some ls \<Rightarrow>
          (case positive_interval interval of
             None \<Rightarrow> Some ls
           | Some iv \<Rightarrow>
               (let ticks = max (num_minutes (now - ls) div iv) 0
                in Some (ls + (ticks * iv) * minute))))"
| "expected_at z (Expression i e args ov) now last_success = None"

fun first_missed_window :: "schedule \<Rightarrow> instant option \<Rightarrow> instant option" where
  "first_missed_window (Interval i interval args ov) last_success =
     (case positive_interval interval of
        None \<Rightarrow> None
      | Some iv \<Rightarrow> map_option (\<lambda>ls. ls + iv * minute) last_success)"
| "first_missed_window s last_success = None"

definition last_success_of :: "tz \<Rightarrow> heartbeat option \<Rightarrow> instant option" where
  "last_success_of z hb =
     Option.bind (Option.bind hb hb_last_success_at) (tz_epoch z)"

definition window_key ::
    "tz \<Rightarrow> schedule \<Rightarrow> heartbeat option \<Rightarrow> instant option \<Rightarrow> instant \<Rightarrow> instant option" where
  "window_key z schedule hb last_dispatched now = (
     let last_success = last_success_of z hb
     in case expected_at z schedule now last_success of
          None \<Rightarrow> None
        | Some expected \<Rightarrow>
            if \<not> (case last_success of Some ls \<Rightarrow> ls \<ge> expected | None \<Rightarrow> False)
            then Some expected
            else Some (case last_dispatched of
                         Some w \<Rightarrow> if w \<le> expected then w else expected
                       | None \<Rightarrow> expected))"

definition is_stale :: "instant \<Rightarrow> nat \<Rightarrow> instant \<Rightarrow> bool" where
  "is_stale expected stale_after_min now = (num_minutes (now - expected) > int stale_after_min)"

section \<open>The next occurrence\<close>

text \<open>The inner loop: \<open>Inl r\<close> is a \<open>return r\<close> of the function (\<open>None\<close> when \<open>single()?\<close> finds no
  unique instant), \<open>Inr ()\<close> falls through to the next day.\<close>

fun try_hours :: "tz \<Rightarrow> int \<Rightarrow> nat \<Rightarrow> instant \<Rightarrow> nat list \<Rightarrow> instant option + unit" where
  "try_hours z d mnt now [] = Inr ()"
| "try_hours z d mnt now (h # hs) =
     (case tz_resolve z d h mnt of
        None \<Rightarrow> Inl None
      | Some candidate \<Rightarrow>
          if candidate > now then Inl (Some candidate) else try_hours z d mnt now hs)"

fun try_days :: "tz \<Rightarrow> nat list \<Rightarrow> nat list \<Rightarrow> nat \<Rightarrow> instant \<Rightarrow> int list \<Rightarrow> instant option" where
  "try_days z weekdays hours mnt now [] = None"
| "try_days z weekdays hours mnt now (off # offs) =
     (let candidate_day = now + off * day
      in if day_of_weekday z candidate_day \<notin> set weekdays
         then try_days z weekdays hours mnt now offs
         else case try_hours z (tz_date z candidate_day) mnt now hours of
                Inl r \<Rightarrow> r
              | Inr _ \<Rightarrow> try_days z weekdays hours mnt now offs)"

definition cron_next_occurrence ::
    "tz \<Rightarrow> nat list \<Rightarrow> nat list \<Rightarrow> nat \<Rightarrow> instant \<Rightarrow> instant option" where
  "cron_next_occurrence z weekdays hours mnt now = (
     if weekdays = [] \<or> hours = [] then None
     else try_days z weekdays (sort hours) mnt now [0..7])"

fun next_occurrence :: "tz \<Rightarrow> schedule \<Rightarrow> instant \<Rightarrow> instant option \<Rightarrow> instant option" where
  "next_occurrence z (Cron i weekdays hours mnt args ov) now last_success =
     cron_next_occurrence z weekdays hours mnt now"
| "next_occurrence z (Interval i interval args ov) now last_success =
     (case positive_interval interval of
        None \<Rightarrow> None
      | Some iv \<Rightarrow>
          (let anchor = (case last_success of Some ls \<Rightarrow> ls | None \<Rightarrow> now);
               next = anchor + iv * minute
           in if next > now then Some next
              else let n = num_minutes (now - anchor) div iv + 1
                   in Some (anchor + (n * iv) * minute)))"
| "next_occurrence z (Expression i e args ov) now last_success = None"

record agent_schedule_pair =
  ap_agent_name :: rstr
  ap_schedule :: schedule
  ap_last_success :: "instant option"

definition compute_next_event :: "tz \<Rightarrow> agent_schedule_pair list \<Rightarrow> instant \<Rightarrow> instant option" where
  "compute_next_event z agents now = (
     case List.map_filter (\<lambda>p. next_occurrence z (ap_schedule p) now (ap_last_success p)) agents of
       [] \<Rightarrow> None
     | t # ts \<Rightarrow> Some (fold min ts t))"

section \<open>Health\<close>

datatype health_state = Ok | Degraded | Failing | Stale

definition human_age :: "int \<Rightarrow> rstr" where
  "human_age minutes = (
     let m = max minutes 0; d = m div 1440; h = (m mod 1440) div 60; rem = m mod 60
     in if d > 0 then show_int d @ lit ''d '' @ show_int h @ lit ''h''
        else if h > 0 then show_int h @ lit ''h '' @ show_int rem @ lit ''m''
        else show_int rem @ lit ''min'')"

definition attempts_label :: "nat \<Rightarrow> rstr" where
  "attempts_label n = (if n = 1 then lit ''1 attempt'' else show_nat n @ lit '' attempts'')"

definition failed_attempts :: "window_state \<Rightarrow> nat" where
  "failed_attempts ws =
     (if ws_last_attempt_exit_code ws = Some 0 then ws_attempts ws - 1 else ws_attempts ws)"

definition health_state :: "tz \<Rightarrow> schedule \<Rightarrow> resolved_policy \<Rightarrow> heartbeat option
    \<Rightarrow> window_state option \<Rightarrow> instant \<Rightarrow> health_state \<times> rstr" where
  "health_state z schedule policy hb window now = (
     let last_success = last_success_of z hb;
         expected = expected_at z schedule now last_success
     in case (expected, last_success) of
          (None, None) \<Rightarrow> (Stale, lit ''never ran'')
        | (None, Some _) \<Rightarrow> (Ok, lit ''no window today '' @ [0xB7] @ lit '' last success ok'')
        | (Some ex, ls) \<Rightarrow>
            if (case ls of Some l \<Rightarrow> l \<ge> ex | None \<Rightarrow> False) then
              (let failed = (case window of Some ws \<Rightarrow> failed_attempts ws | None \<Rightarrow> 0)
               in if failed > 0
                  then (Degraded, lit ''recovered after '' @ attempts_label failed)
                  else (Ok, lit ''ok''))
            else
              (let stale_ref = (case first_missed_window schedule last_success of
                                  Some w \<Rightarrow> w | None \<Rightarrow> ex)
               in if is_stale stale_ref (rp_stale_after_minutes policy) now
                  then (Stale, lit ''window missed '' @ human_age (num_minutes (now - stale_ref))
                               @ lit '' ago (stale)'')
                  else case window of
                         Some ws \<Rightarrow>
                           if ws_given_up ws
                           then (Failing, lit ''gave up after '' @ attempts_label (ws_attempts ws))
                           else (Failing, attempts_label (ws_attempts ws) @ lit '', will retry'')
                       | None \<Rightarrow>
                           (Failing, lit ''window due '' @ human_age (num_minutes (now - ex))
                                     @ lit '' ago, no attempt'')))"

definition should_retry :: "nat \<Rightarrow> instant option \<Rightarrow> nat list \<Rightarrow> instant \<Rightarrow> bool" where
  "should_retry attempts last_attempt backoffs now = (case last_attempt of
     None \<Rightarrow> True
   | Some prev \<Rightarrow>
       if backoffs = [] then True
       else let idx = min (attempts - 1) (length backoffs - 1)
            in num_minutes (now - prev) \<ge> int (backoffs ! idx))"

section \<open>Zones with at most one change of offset\<close>

text \<open>The zones the laws are discharged on: a fixed offset before the instant \<open>chg\<close> and another
  from it on.  Equal offsets give a fixed zone; a larger second offset is the spring gap, a
  smaller one the autumn overlap.  The two renderings are the numbers of the civil minute and
  second, the information chrono's formats carry.\<close>

definition zone_offset :: "instant \<Rightarrow> int \<Rightarrow> int \<Rightarrow> instant \<Rightarrow> int" where
  "zone_offset chg o1 o2 t = (if t < chg then o1 else o2)"

definition civil_of :: "int \<Rightarrow> nat \<Rightarrow> nat \<Rightarrow> int" where
  "civil_of d h m = ((d * 24 + int h) * 60 + int m) * minute"

definition transition_zone :: "instant \<Rightarrow> int \<Rightarrow> int \<Rightarrow> tz" where
  "transition_zone chg o1 o2 = \<lparr>
     tz_date = (\<lambda>t. ((t + zone_offset chg o1 o2 t) div minute) div 1440),
     tz_weekday = (\<lambda>d. nat ((d + 4) mod 7)),
     tz_hour = (\<lambda>t. nat ((((t + zone_offset chg o1 o2 t) div minute) div 60) mod 24)),
     tz_minute = (\<lambda>t. nat (((t + zone_offset chg o1 o2 t) div minute) mod 60)),
     tz_resolve = (\<lambda>d h m.
       if 24 \<le> h \<or> 60 \<le> m then None
       else let a = civil_of d h m - o1; b = civil_of d h m - o2
            in if a < chg \<and> \<not> chg \<le> b then Some a
               else if \<not> a < chg \<and> chg \<le> b then Some b else None),
     tz_epoch = (\<lambda>s. Some (s * second)),
     tz_label = (\<lambda>t. show_int ((t + zone_offset chg o1 o2 t) div minute)),
     tz_iso = (\<lambda>t. show_int ((t + zone_offset chg o1 o2 t) div second)) \<rparr>"

definition utc :: tz where
  "utc = transition_zone 0 0 0"

lemma civil_of_fields:
  assumes "h < 24" "m < 60"
  shows "(civil_of d h m div minute) div 1440 = d"
    and "nat (((civil_of d h m div minute) div 60) mod 24) = h"
    and "nat ((civil_of d h m div minute) mod 60) = m"
proof -
  define n where "n = (d * 24 + int h) * 60 + int m"
  have c: "civil_of d h m div minute = n"
    using minute_pos unfolding civil_of_def n_def by (simp add: less_imp_neq[symmetric])
  show "(civil_of d h m div minute) div 1440 = d"
    unfolding c using assms by (simp add: n_def)
  show "nat (((civil_of d h m div minute) div 60) mod 24) = h"
  proof -
    have "n div 60 = d * 24 + int h" using assms by (simp add: n_def)
    then show ?thesis unfolding c using assms by simp
  qed
  have "n mod 60 = int m mod 60" unfolding n_def by (rule mod_mult_self3)
  then show "nat ((civil_of d h m div minute) mod 60) = m"
    unfolding c using assms by simp
qed

lemma resolve_cases:
  assumes "tz_resolve (transition_zone chg o1 o2) d h m = Some t"
  shows "h < 24" "m < 60" "t + zone_offset chg o1 o2 t = civil_of d h m"
    and "chg \<le> t \<Longrightarrow> chg \<le> civil_of d h m - o1"
  using assms by (auto simp: transition_zone_def zone_offset_def Let_def split: if_splits)

lemma civil_le:
  assumes "n div 1440 = d" "h < nat ((n div 60) mod 24) \<or> h = nat ((n div 60) mod 24) \<and> m \<le> nat (n mod 60)"
    and "m < 60"
  shows "(d * 24 + int h) * 60 + int m \<le> (n::int)"
proof -
  have "n = (d * 24 + (n div 60) mod 24) * 60 + n mod 60"
  proof -
    have "d = (n div 60) div 24" using assms(1) zdiv_zmult2_eq[of 24 n 60] by simp
    then have "d * 24 + (n div 60) mod 24 = n div 60" by simp
    then show ?thesis by simp
  qed
  moreover define a b where "a = (n div 60) mod 24" and "b = n mod 60"
  ultimately have n: "n = (d * 24 + a) * 60 + b" by simp
  have "0 \<le> a" "0 \<le> b" by (simp_all add: a_def b_def)
  then have "int h < a \<or> int h = a \<and> int m \<le> b"
    using assms(2) by (auto simp: a_def[symmetric] b_def[symmetric])
  then have "int h + 1 \<le> a \<or> int h = a \<and> int m \<le> b" by auto
  then show ?thesis using assms(3) \<open>0 \<le> b\<close> unfolding n by auto
qed

interpretation zone: local_time "transition_zone chg o1 o2" for chg o1 o2
proof
  fix d h m t assume r: "tz_resolve (transition_zone chg o1 o2) d h m = Some t"
  note c = resolve_cases[OF r]
  show "tz_date (transition_zone chg o1 o2) t = d" "tz_hour (transition_zone chg o1 o2) t = h"
    "tz_minute (transition_zone chg o1 o2) t = m"
    using civil_of_fields[OF c(1,2)] by (simp_all add: transition_zone_def c(3))
  fix now assume dn: "tz_date (transition_zone chg o1 o2) now = d"
    and hm: "h < tz_hour (transition_zone chg o1 o2) now
      \<or> h = tz_hour (transition_zone chg o1 o2) now \<and> m \<le> tz_minute (transition_zone chg o1 o2) now"
  let ?cn = "now + zone_offset chg o1 o2 now"
  have "(d * 24 + int h) * 60 + int m \<le> ?cn div minute"
    using dn hm c(2) by (intro civil_le) (simp_all add: transition_zone_def)
  then have "civil_of d h m \<le> ?cn"
    by (simp add: civil_of_def int_le_div_iff)
  then show "t \<le> now"
    using c(3,4) by (cases "t < chg"; cases "now < chg") (auto simp: zone_offset_def)
next
  show "t = s * second" if "tz_epoch (transition_zone chg o1 o2) s = Some t" for s t
    using that by (simp add: transition_zone_def)
qed

lemma utc_local_time: "local_time utc"
  unfolding utc_def by (rule zone.local_time_axioms)

section \<open>Facts about the windows\<close>

lemma resolve_epoch [simp]: "tz_epoch (transition_zone chg o1 o2) s = Some (s * second)"
  by (simp add: transition_zone_def)

lemma positive_interval_Some [simp]: "0 < n \<Longrightarrow> positive_interval n = Some (int n)"
  by (simp add: positive_interval_def)

lemma abs_minute [simp]: "\<bar>minute\<bar> = minute"
  by (rule abs_of_pos) simp

lemma num_minutes_nonneg: "0 \<le> d \<Longrightarrow> num_minutes d = d div minute"
  by (cases "d = 0") (simp_all add: num_minutes_def rust_div_def)

lemma num_minutes_neg: "d < 0 \<Longrightarrow> num_minutes d \<le> 0"
  by (simp add: num_minutes_def rust_div_def pos_imp_zdiv_nonneg_iff)

lemma num_minutes_gt: "0 \<le> w \<Longrightarrow> w < num_minutes d \<longleftrightarrow> (w + 1) * minute \<le> d"
  using rust_div_ge_iff[of minute "w + 1" d] by (simp add: num_minutes_def add1_zle_eq)

lemma num_minutes_ge: "0 \<le> d \<Longrightarrow> 0 \<le> w \<Longrightarrow> w \<le> num_minutes d \<longleftrightarrow> w * minute \<le> d"
  by (simp add: num_minutes_nonneg int_le_div_iff)

lemma ticks_eq:
  assumes "0 < iv"
  shows "max (num_minutes d div iv) 0 = (if 0 \<le> d then d div (minute * iv) else 0)"
proof (cases "0 \<le> d")
  case True
  then have "num_minutes d div iv = d div (minute * iv)"
    using assms by (simp add: num_minutes_nonneg zdiv_zmult2_eq)
  moreover have "0 \<le> d div (minute * iv)"
    using True assms by (simp add: pos_imp_zdiv_nonneg_iff)
  ultimately show ?thesis using True by simp
next
  case False
  then have "num_minutes d div iv \<le> 0" using num_minutes_neg[of d] assms
    by (simp add: div_nonpos_pos_le0)
  then show ?thesis using False by simp
qed

lemma interval_expected:
  assumes "0 < n"
  shows "expected_at z (Interval i n args ov) now (Some ls) =
    Some (ls + (if ls \<le> now then (now - ls) div (minute * int n) else 0) * (minute * int n))"
  using assms ticks_eq[of "int n" "now - ls"] by (simp add: Let_def mult_ac)

lemma div_bounds:
  fixes d p :: int
  assumes "0 < p"
  shows "d div p * p \<le> d" "d < (d div p + 1) * p"
proof -
  have "d div p * p + d mod p = d" "0 \<le> d mod p" "d mod p < p" using assms by simp_all
  then show "d div p * p \<le> d" "d < (d div p + 1) * p" unfolding distrib_right by linarith+
qed

text \<open>C2. an interval schedule's window is the greatest tick of the sequence
  \<open>last_success + k * interval\<close> that is not after \<open>now\<close>, so the sequence keeps advancing while
  runs fail; a clock that jumped behind the last success gives the anchor itself.\<close>

theorem interval_expected_greatest_tick:
  assumes "0 < n"
  shows "\<exists>k\<ge>0. expected_at z (Interval i n args ov) now (Some ls) = Some (ls + k * (minute * int n))
    \<and> (if now < ls then k = 0
       else ls + k * (minute * int n) \<le> now \<and> now < ls + (k + 1) * (minute * int n))"
proof (cases "ls \<le> now")
  case True
  have p: "0 < minute * int n" using assms by simp
  show ?thesis
    using True div_bounds[OF p, of "now - ls"] p
    by (intro exI[of _ "(now - ls) div (minute * int n)"])
      (auto simp: interval_expected[OF assms] pos_imp_zdiv_nonneg_iff simp del: expected_at.simps)
next
  case False
  then show ?thesis
    by (intro exI[of _ 0]) (simp add: interval_expected[OF assms] del: expected_at.simps)
qed

theorem interval_expected_greatest_tick_witness:
  "\<exists>k\<ge>0. expected_at utc (Interval [] 90 [] no_overrides) (200 * minute) (Some 0) = Some (0 + k * (minute * int 90))
    \<and> (if 200 * minute < (0::int) then k = 0
       else 0 + k * (minute * int 90) \<le> 200 * minute \<and> 200 * minute < 0 + (k + 1) * (minute * int 90))"
  by (rule interval_expected_greatest_tick) simp

definition hour_due :: "nat \<Rightarrow> nat \<Rightarrow> nat \<Rightarrow> nat \<Rightarrow> bool" where
  "hour_due mnt now_h now_m h \<longleftrightarrow> h < now_h \<or> h = now_h \<and> mnt \<le> now_m"

lemma latest_hour_Some:
  "latest_hour hs mnt nh nm acc = Some h \<Longrightarrow>
    (h \<in> set hs \<and> hour_due mnt nh nm h \<or> acc = Some h)
    \<and> (\<forall>h'\<in>set hs. hour_due mnt nh nm h' \<longrightarrow> h' \<le> h) \<and> (\<forall>a. acc = Some a \<longrightarrow> a \<le> h)"
proof (induction hs arbitrary: acc)
  case (Cons x xs)
  show ?case
    using Cons.IH[OF Cons.prems[unfolded latest_hour.simps]]
    by (auto simp: hour_due_def split: if_splits option.splits)
qed simp

lemma latest_hour_None:
  "latest_hour hs mnt nh nm acc = None \<longleftrightarrow> acc = None \<and> (\<forall>h\<in>set hs. \<not> hour_due mnt nh nm h)"
  by (induction hs arbitrary: acc) (auto simp: hour_due_def)

lemma latest_hour_eqI:
  assumes "h \<in> set hs" "hour_due mnt nh nm h" "\<And>h'. h' \<in> set hs \<Longrightarrow> hour_due mnt nh nm h' \<Longrightarrow> h' \<le> h"
  shows "latest_hour hs mnt nh nm None = Some h"
proof (cases "latest_hour hs mnt nh nm None")
  case None
  then show ?thesis using assms by (auto simp: latest_hour_None)
next
  case (Some x)
  from latest_hour_Some[OF Some] show ?thesis using Some assms by (auto intro!: le_antisym)
qed

context local_time
begin

lemma latest_hour_resolves_past:
  assumes "latest_hour hours mnt (tz_hour z now) (tz_minute z now) None = Some h"
    and "tz_resolve z (tz_date z now) h mnt = Some t"
  shows "t \<le> now"
  using latest_hour_Some[OF assms(1)] resolve_past[OF assms(2) refl] by (auto simp: hour_due_def)

lemma cron_expected_cases:
  "case cron_expected_at z weekdays hours mnt now of
    Some t \<Rightarrow> day_of_weekday z t \<in> set weekdays \<and> tz_date z t = tz_date z now
      \<and> tz_hour z t \<in> set hours \<and> tz_minute z t = mnt \<and> t \<le> now
      \<and> (\<forall>h\<in>set hours. hour_due mnt (tz_hour z now) (tz_minute z now) h \<longrightarrow> h \<le> tz_hour z t)
  | None \<Rightarrow> day_of_weekday z now \<notin> set weekdays
      \<or> (\<forall>h\<in>set hours. \<not> hour_due mnt (tz_hour z now) (tz_minute z now) h)
      \<or> (\<exists>h\<in>set hours. tz_resolve z (tz_date z now) h mnt = None)"
  by (auto simp: cron_expected_at_def day_of_weekday_def latest_hour_None
      resolve_date resolve_hour resolve_minute
      intro: latest_hour_resolves_past dest: latest_hour_Some split: option.splits)

end

text \<open>C3. a cron window, when there is one, is on today's date and a listed weekday, at the
  schedule's minute of the latest listed hour whose time has come, and is not in the future;
  there is none only when today is not listed, no listed hour has come, or a listed hour has no
  unique local time today.\<close>

theorem cron_expected_correct:
  assumes "local_time z"
  shows "case cron_expected_at z weekdays hours mnt now of
    Some t \<Rightarrow> day_of_weekday z t \<in> set weekdays \<and> tz_date z t = tz_date z now
      \<and> tz_hour z t \<in> set hours \<and> tz_minute z t = mnt \<and> t \<le> now
      \<and> (\<forall>h\<in>set hours. hour_due mnt (tz_hour z now) (tz_minute z now) h \<longrightarrow> h \<le> tz_hour z t)
  | None \<Rightarrow> day_of_weekday z now \<notin> set weekdays
      \<or> (\<forall>h\<in>set hours. \<not> hour_due mnt (tz_hour z now) (tz_minute z now) h)
      \<or> (\<exists>h\<in>set hours. tz_resolve z (tz_date z now) h mnt = None)"
  by (rule local_time.cron_expected_cases[OF assms])

text \<open>The witness: 1970-01-01 (a Thursday) at 09:30 UTC, a window at 09:15.\<close>

lemma utc_cron_window:
  "cron_expected_at utc [4] [7, 9, 18] 15 (570 * minute) = Some (555 * minute)"
  by (simp add: cron_expected_at_def day_of_weekday_def utc_def transition_zone_def
      zone_offset_def civil_of_def time_simps)

theorem cron_expected_correct_witness:
  "cron_expected_at utc [4] [7, 9, 18] 15 (570 * minute) = Some (555 * minute)
   \<and> tz_hour utc (555 * minute) \<in> {7, 9, 18} \<and> tz_minute utc (555 * minute) = 15"
  using cron_expected_correct[OF utc_local_time, where weekdays = "[4]"
      and hours = "[7, 9, 18]" and mnt = 15 and now = "570 * minute"]
    utc_cron_window by simp

section \<open>Facts about the next occurrence\<close>

lemma try_hours_Some:
  "try_hours z d mnt now hs = Inl (Some t) \<Longrightarrow>
     now < t \<and> (\<exists>h\<in>set hs. tz_resolve z d h mnt = Some t)"
  by (induction z d mnt now hs rule: try_hours.induct) (auto split: option.splits if_splits)

lemma try_days_Some:
  "try_days z weekdays hs mnt now offs = Some t \<Longrightarrow>
     now < t \<and> (\<exists>d h. h \<in> set hs \<and> tz_weekday z d \<in> set weekdays \<and> tz_resolve z d h mnt = Some t)"
  by (induction z weekdays hs mnt now offs rule: try_days.induct)
    (fastforce simp: Let_def day_of_weekday_def split: if_splits sum.splits dest: try_hours_Some)+

lemma cron_next_Some:
  "cron_next_occurrence z weekdays hours mnt now = Some t \<Longrightarrow>
     now < t \<and> (\<exists>d h. h \<in> set hours \<and> tz_weekday z d \<in> set weekdays \<and> tz_resolve z d h mnt = Some t)"
  using try_days_Some[of z weekdays "sort hours" mnt now "[0..7]" t]
  by (simp add: cron_next_occurrence_def split: if_splits)

lemma interval_next_eq:
  assumes "0 < n" and a: "anchor = unwrap_or ls now"
  shows "next_occurrence z (Interval i n args ov) now ls =
    Some (anchor + (if now < anchor + minute * int n then 1
                    else (now - anchor) div (minute * int n) + 1) * (minute * int n))"
proof (cases "now < anchor + minute * int n")
  case True
  then show ?thesis using assms by (cases ls) (simp_all add: Let_def unwrap_or_def mult_ac)
next
  case False
  have "0 < minute * int n" using assms(1) by simp
  then have "0 \<le> now - anchor" using False by linarith
  then have "num_minutes (now - anchor) div int n = (now - anchor) div (minute * int n)"
    by (simp add: num_minutes_nonneg zdiv_zmult2_eq)
  then show ?thesis
    using False assms by (cases ls) (simp_all add: Let_def unwrap_or_def mult_ac)
qed

lemma interval_next_bounds:
  assumes "0 < n" "next_occurrence z (Interval i n args ov) now ls = Some t"
  shows "now < t" "unwrap_or ls now \<le> now \<Longrightarrow> t \<le> now + minute * int n"
proof -
  have p: "0 < minute * int n" using assms(1) by simp
  let ?a = "unwrap_or ls now"
  note b = div_bounds[OF p, of "now - ?a"]
  show "now < t" using assms(2) b p
    unfolding interval_next_eq[OF assms(1) refl] by (auto split: if_splits)
  show "?a \<le> now \<Longrightarrow> t \<le> now + minute * int n" using assms(2) b p
    unfolding interval_next_eq[OF assms(1) refl] by (auto simp: algebra_simps split: if_splits)
qed

lemma next_occurrence_gt:
  assumes "next_occurrence z s now ls = Some t"
  shows "now < t"
proof (cases s)
  case (Interval i n args ov)
  then have "0 < n" using assms by (cases "n = 0") (simp_all add: positive_interval_def)
  then show ?thesis using interval_next_bounds(1) assms unfolding Interval by blast
qed (use assms in \<open>auto dest: cron_next_Some\<close>)

lemma map_filter_Nil: "List.map_filter f xs = [] \<longleftrightarrow> (\<forall>x\<in>set xs. f x = None)"
  by (induction xs) (auto simp: List.map_filter_simps split: option.splits)

lemma set_map_filter: "set (List.map_filter f xs) = {y. \<exists>x\<in>set xs. f x = Some y}"
  by (induction xs) (auto simp: List.map_filter_simps split: option.splits)

lemma fold_min:
  "fold min ts t \<in> insert t (set ts) \<and> (\<forall>u\<in>insert t (set ts). fold min ts t \<le> (u::int))"
proof (induction ts arbitrary: t)
  case (Cons x xs)
  from Cons.IH[of "min x t"] show ?case by (auto simp: min_def split: if_splits)
qed simp

lemma compute_next_event_Some:
  "compute_next_event z ps now = Some t \<Longrightarrow>
     (\<exists>p\<in>set ps. next_occurrence z (ap_schedule p) now (ap_last_success p) = Some t)
     \<and> (\<forall>p\<in>set ps. \<forall>u. next_occurrence z (ap_schedule p) now (ap_last_success p) = Some u \<longrightarrow> t \<le> u)"
proof -
  define ts where
    "ts = List.map_filter (\<lambda>p. next_occurrence z (ap_schedule p) now (ap_last_success p)) ps"
  assume "compute_next_event z ps now = Some t"
  then obtain x xs where x: "ts = x # xs" "t = fold min xs x"
    unfolding compute_next_event_def ts_def[symmetric] by (auto split: list.splits)
  have s: "set ts = {y. \<exists>p\<in>set ps. next_occurrence z (ap_schedule p) now (ap_last_success p) = Some y}"
    unfolding ts_def by (rule set_map_filter)
  have "t \<in> set ts" "\<forall>u\<in>set ts. t \<le> u"
    using fold_min[of xs x] x by auto
  then show ?thesis unfolding s by blast
qed

lemma compute_next_event_None:
  "compute_next_event z ps now = None \<longleftrightarrow>
     (\<forall>p\<in>set ps. next_occurrence z (ap_schedule p) now (ap_last_success p) = None)"
  by (auto simp: compute_next_event_def map_filter_Nil[symmetric] split: list.splits)

text \<open>the event the daemon sleeps until is strictly in the future, is the next occurrence of
  some schedule, and no schedule's next occurrence is earlier; there is none exactly when no
  schedule has one.\<close>

theorem next_event_earliest:
  "case compute_next_event z ps now of
     Some t \<Rightarrow> now < t
       \<and> (\<exists>p\<in>set ps. next_occurrence z (ap_schedule p) now (ap_last_success p) = Some t)
       \<and> (\<forall>u p. p \<in> set ps \<and> next_occurrence z (ap_schedule p) now (ap_last_success p) = Some u
            \<longrightarrow> t \<le> u)
   | None \<Rightarrow> (\<forall>p. p \<in> set ps
            \<longrightarrow> next_occurrence z (ap_schedule p) now (ap_last_success p) = None)"
  by (auto split: option.splits simp: compute_next_event_None
      dest: compute_next_event_Some next_occurrence_gt)

theorem next_event_earliest_witness:
  "\<exists>t. compute_next_event utc
     [\<lparr> ap_agent_name = [], ap_schedule = Interval [] 30 [] no_overrides, ap_last_success = Some 0 \<rparr>,
      \<lparr> ap_agent_name = [], ap_schedule = Interval [] 45 [] no_overrides, ap_last_success = Some 0 \<rparr>]
     (40 * minute) = Some t \<and> 40 * minute < t \<and> t \<le> 45 * minute"
proof -
  let ?ps = "[\<lparr> ap_agent_name = [], ap_schedule = Interval [] 30 [] no_overrides, ap_last_success = Some 0 \<rparr>,
      \<lparr> ap_agent_name = [], ap_schedule = Interval [] 45 [] no_overrides, ap_last_success = Some 0 \<rparr>]"
  have n: "next_occurrence utc (Interval [] 45 [] no_overrides) (40 * minute) (Some 0) = Some (45 * minute)"
    by (simp add: positive_interval_def)
  have "compute_next_event utc ?ps (40 * minute) \<noteq> None"
    using n by (simp add: compute_next_event_None del: next_occurrence.simps)
  then obtain t where t: "compute_next_event utc ?ps (40 * minute) = Some t" by blast
  have e: "40 * minute < t" "\<forall>u p. p \<in> set ?ps \<and>
      next_occurrence utc (ap_schedule p) (40 * minute) (ap_last_success p) = Some u \<longrightarrow> t \<le> u"
    using next_event_earliest[where z = utc and ps = ?ps and now = "40 * minute"]
    unfolding t option.case by blast+
  have "t \<le> 45 * minute"
    using e(2)[rule_format, of "?ps ! 1"] n by (simp del: next_occurrence.simps)
  with t e(1) show ?thesis by blast
qed

text \<open>A schedule is anchored when its windows do not depend on a success that never happened.\<close>

definition anchored :: "schedule \<Rightarrow> instant option \<Rightarrow> bool" where
  "anchored s ls = (case s of Interval _ _ _ _ \<Rightarrow> ls \<noteq> None | _ \<Rightarrow> True)"

context local_time
begin

lemma cron_wake_on_window:
  assumes "cron_next_occurrence z weekdays hours mnt now = Some t"
  shows "cron_expected_at z weekdays hours mnt t = Some t"
proof -
  from cron_next_Some[OF assms] obtain d h where
    r: "h \<in> set hours" "tz_weekday z d \<in> set weekdays" "tz_resolve z d h mnt = Some t" by blast
  note f = resolve_date[OF r(3)] resolve_hour[OF r(3)] resolve_minute[OF r(3)]
  have "latest_hour hours mnt h mnt None = Some h"
    using r(1) by (intro latest_hour_eqI) (auto simp: hour_due_def)
  then show ?thesis using r f by (simp add: cron_expected_at_def day_of_weekday_def)
qed

lemma wake_on_window:
  assumes "next_occurrence z s now ls = Some t" "anchored s ls"
  shows "expected_at z s t ls = Some t"
proof (cases s)
  case (Cron i weekdays hours mnt args ov)
  then show ?thesis using assms cron_wake_on_window by simp
next
  case (Interval i n args ov)
  then obtain l where l: "ls = Some l" and n: "0 < n"
    using assms by (cases "n = 0") (auto simp: anchored_def positive_interval_def)
  have p: "0 < minute * int n" using n by simp
  define k where "k = (if now < l + minute * int n then 1 else (now - l) div (minute * int n) + 1)"
  have t: "t = l + k * (minute * int n)"
    using assms(1) unfolding Interval l interval_next_eq[OF n refl] unwrap_or_def option.case k_def by simp
  have "0 \<le> (now - l) div (minute * int n)" if "\<not> now < l + minute * int n"
    using that p by (simp add: pos_imp_zdiv_nonneg_iff)
  then have "0 \<le> k" by (simp add: k_def)
  then have "l \<le> t" using p by (simp add: t mult_nonneg_nonneg)
  moreover have "(t - l) div (minute * int n) = k" using n by (simp add: t)
  ultimately show ?thesis
    unfolding Interval l interval_expected[OF n] by (simp add: t)
qed (use assms in simp)

end

text \<open>waking at the next occurrence finds a window due at that very instant: the two
  independent computations (when to wake, what is due) agree, for every kind of schedule.\<close>

theorem next_occurrence_is_window:
  assumes "local_time z" "next_occurrence z s now ls = Some t" "anchored s ls"
  shows "expected_at z s t ls = Some t"
  by (rule local_time.wake_on_window[OF assms])

theorem next_occurrence_is_window_witness:
  "expected_at utc (Interval [] 90 [] no_overrides) (270 * minute) (Some 0) = Some (270 * minute)"
  by (rule next_occurrence_is_window[OF utc_local_time, where now = "200 * minute"])
    (simp_all add: positive_interval_def num_minutes_def rust_div_def anchored_def time_simps)

section \<open>Facts about health and retries\<close>

lemma is_stale_iff: "is_stale ex n now \<longleftrightarrow> (int n + 1) * minute \<le> now - ex"
  by (simp add: is_stale_def num_minutes_gt)

lemma interval_covered_iff:
  assumes "0 < n" "expected_at z (Interval i n args ov) now (Some l) = Some ex"
  shows "ex \<le> l \<longleftrightarrow> now < l + minute * int n"
proof -
  have p: "0 < minute * int n" using assms(1) by simp
  let ?k = "(now - l) div (minute * int n)"
  have "ex = l + (if l \<le> now then ?k else 0) * (minute * int n)"
    using assms(2) unfolding interval_expected[OF assms(1)] by simp
  then have "ex \<le> l \<longleftrightarrow> (if l \<le> now then ?k else 0) \<le> 0"
    using assms(1) by (simp add: mult_le_0_iff)
  also have "\<dots> \<longleftrightarrow> now < l + minute * int n"
    using p int_le_div_iff[OF p, of 1 "now - l"] by auto
  finally show ?thesis .
qed

lemma interval_expected_Some: "0 < n \<Longrightarrow> \<exists>ex. expected_at z (Interval i n args ov) now (Some l) = Some ex"
  unfolding interval_expected by blast

lemma health_covered_iff:
  "fst (health_state z s policy hb w now) \<in> {Ok, Degraded} \<longleftrightarrow>
     (case expected_at z s now (last_success_of z hb) of
        None \<Rightarrow> last_success_of z hb \<noteq> None
      | Some ex \<Rightarrow> (\<exists>l. last_success_of z hb = Some l \<and> ex \<le> l))"
  by (auto simp: health_state_def Let_def split: option.splits)

lemma health_stale_iff:
  "fst (health_state z s policy hb w now) = Stale \<longleftrightarrow>
     (case expected_at z s now (last_success_of z hb) of
        None \<Rightarrow> last_success_of z hb = None
      | Some ex \<Rightarrow> \<not> (\<exists>l. last_success_of z hb = Some l \<and> ex \<le> l)
          \<and> is_stale (unwrap_or (first_missed_window s (last_success_of z hb)) ex)
              (rp_stale_after_minutes policy) now)"
  by (auto simp: health_state_def Let_def unwrap_or_def split: option.splits)

text \<open>the health of an interval schedule is judged from the first window it missed, not from
  the rolling one: it reads stale exactly when it never succeeded, or more than
  \<open>stale_after_minutes\<close> whole minutes have passed since the first window after the last success;
  and it reads ok or degraded exactly while that first window has not come.\<close>

theorem interval_health:
  assumes "0 < n" "ls = last_success_of z hb" "hs = fst (health_state z (Interval i n args ov) policy hb w now)"
  shows "(hs = Stale \<longleftrightarrow> (\<forall>l. ls = Some l \<longrightarrow>
            (int (rp_stale_after_minutes policy) + 1) * minute \<le> now - (l + minute * int n)))
    \<and> (hs \<in> {Ok, Degraded} \<longleftrightarrow> (\<exists>l. ls = Some l \<and> now < l + minute * int n))"
proof (cases ls)
  case None
  then show ?thesis
    using health_stale_iff[of z "Interval i n args ov" policy hb w now]
      health_covered_iff[of z "Interval i n args ov" policy hb w now] assms by simp
next
  case (Some l)
  obtain ex where ex: "expected_at z (Interval i n args ov) now (Some l) = Some ex"
    using interval_expected_Some[OF assms(1)] by blast
  note cov = interval_covered_iff[OF assms(1) ex]
  have m: "first_missed_window (Interval i n args ov) (Some l) = Some (l + minute * int n)"
    using assms(1) by (simp add: mult.commute)
  have "0 < (int (rp_stale_after_minutes policy) + 1) * minute" by simp
  then have neg: "now < l + minute * int n \<Longrightarrow>
      \<not> (int (rp_stale_after_minutes policy) + 1) * minute \<le> now - (l + minute * int n)"
    by linarith
  show ?thesis
    using health_stale_iff[of z "Interval i n args ov" policy hb w now]
      health_covered_iff[of z "Interval i n args ov" policy hb w now]
    unfolding assms(2)[symmetric] assms(3)[symmetric] Some ex m option.case
    by (auto simp: cov is_stale_iff unwrap_or_def dest: neg)
qed

theorem interval_health_witness:
  "fst (health_state utc (Interval [] 90 [] no_overrides) \<lparr> rp_max_retries = 3,
      rp_retry_backoff_minutes = [5], rp_stale_after_minutes = 120 \<rparr> (Some \<lparr> hb_name = [],
      hb_slug = [], hb_args = [], hb_started_at = 0, hb_started_at_iso = [], hb_finished_at = None, hb_finished_at_iso = None, hb_exit_code = None,
      hb_duration_seconds = None, hb_last_success_at = Some 0, hb_last_success_at_iso = None \<rparr>) None (100000 * minute)) = Stale"
proof -
  let ?hb = "Some \<lparr> hb_name = [], hb_slug = [], hb_args = [], hb_started_at = 0, hb_started_at_iso = [], hb_finished_at = None,
      hb_finished_at_iso = None, hb_exit_code = None, hb_duration_seconds = None,
      hb_last_success_at = Some 0, hb_last_success_at_iso = None \<rparr>"
  have "last_success_of utc ?hb = Some 0" by (simp add: last_success_of_def utc_def)
  then show ?thesis
    by (intro conjunct1[OF interval_health[OF _ refl refl], THEN iffD2])
      (simp_all add: time_simps)
qed

text \<open>A heartbeat never yields a covered window it did not succeed in: the retry ladder.\<close>

interpretation retry: backoff_ladder "map (\<lambda>b. int b * minute) backoffs"
  "\<lambda>n t now. should_retry n (Some t) backoffs now" for backoffs
proof
  show "0 \<le> s" if "s \<in> set (map (\<lambda>b. int b * minute) backoffs)" for s
    using that by auto
next
  fix t now n assume le: "t \<le> (now::int)"
  show "should_retry n (Some t) backoffs now \<longleftrightarrow>
      t + rung (map (\<lambda>b. int b * minute) backoffs) n \<le> now"
  proof (cases "backoffs = []")
    case False
    then have "min (n - 1) (length backoffs - 1) < length backoffs" by (simp add: min_less_iff_disj)
    then show ?thesis using le False
      by (auto simp: should_retry_def rung_def Let_def num_minutes_ge)
  qed (use le in \<open>simp add: should_retry_def rung_def\<close>)
qed

text \<open>A run of retries cannot hurry the ladder.  If the attempts of one window after the
  first (made at \<open>t\<close>) were each let through by \<open>should_retry\<close>, the last of \<open>k\<close> further attempts
  comes no earlier than the sum of the first \<open>k\<close> rungs, the last rung repeating; and the bound is
  attained, so the ladder never blocks a retry for longer either.\<close>

theorem retry_ladder_exact:
  assumes "rungs = map (\<lambda>b. int b * minute) backoffs"
  shows "(\<forall>us. paced (\<lambda>n t now. should_retry n (Some t) backoffs now) 1 t us \<longrightarrow>
      t + ladder_sum rungs 1 (length us) \<le> last (t # us))
    \<and> (\<forall>k. \<exists>us. length us = k \<and> paced (\<lambda>n t now. should_retry n (Some t) backoffs now) 1 t us
      \<and> last (t # us) = t + ladder_sum rungs 1 k)"
proof -
  have "length (earliest rungs n t k) = k" for n t k
    by (induction k arbitrary: n t) auto
  then show ?thesis
    unfolding assms using retry.paced_span retry.earliest_paced retry.earliest_span by blast
qed

theorem retry_ladder_exact_witness:
  "\<exists>us. length us = 3 \<and> paced (\<lambda>n t now. should_retry n (Some t) [5, 15] now) 1 0 us
     \<and> last (0 # us) = 35 * minute"
proof -
  have "ladder_sum (map (\<lambda>b. int b * minute) [5, 15]) 1 3 = 35 * minute"
    by (simp add: numeral_3_eq_3 rung_def)
  then show ?thesis
    using retry_ladder_exact[where backoffs = "[5, 15]" and t = 0, OF refl, THEN conjunct2,
      rule_format, of 3] by simp
qed

end
