(* ===== verification/Ordered_Map.thy ===== *)
theory Ordered_Map
  imports Prelude "HOL-Library.List_Lexorder"
begin

text \<open>
  \<open>std::collections::BTreeMap\<close> as the components use it: an association list in strictly
  increasing key order (a \<open>String\<close> key orders by its scalar values, which is the byte order of
  its UTF-8 form), with the eviction loop the bounded tables share: while the map is above its
  capacity, remove the entry with the smallest timestamp, the first such in key order
  (\<open>Iterator::min_by_key\<close> returns the first minimum).
\<close>

fun bt_insert :: "'k::linorder \<Rightarrow> 'v \<Rightarrow> ('k \<times> 'v) list \<Rightarrow> ('k \<times> 'v) list" where
  "bt_insert k v [] = [(k, v)]"
| "bt_insert k v ((k', v') # m) =
     (if k < k' then (k, v) # (k', v') # m
      else if k = k' then (k, v) # m
      else (k', v') # bt_insert k v m)"

definition bt_remove :: "'k \<Rightarrow> ('k \<times> 'v) list \<Rightarrow> ('k \<times> 'v) list" where
  "bt_remove k m = filter (\<lambda>e. fst e \<noteq> k) m"

definition bt_wf :: "('k::linorder \<times> 'v) list \<Rightarrow> bool" where
  "bt_wf m = sorted_wrt (<) (map fst m)"

fun min_by_key :: "('a \<Rightarrow> int) \<Rightarrow> 'a list \<Rightarrow> 'a option" where
  "min_by_key f [] = None"
| "min_by_key f (x # xs) =
     (case min_by_key f xs of
        None \<Rightarrow> Some x
      | Some y \<Rightarrow> if f x \<le> f y then Some x else Some y)"

lemma min_by_key_None [simp]: "min_by_key f xs = None \<longleftrightarrow> xs = []"
  by (cases xs) (auto split: option.splits)

lemma min_by_key_Some:
  "min_by_key f xs = Some y \<Longrightarrow> y \<in> set xs \<and> (\<forall>x\<in>set xs. f y \<le> f x)"
  by (induction xs arbitrary: y) (fastforce split: option.splits if_splits)+

lemma length_bt_remove: "k \<in> fst ` set m \<Longrightarrow> length (bt_remove k m) < length m"
  unfolding bt_remove_def by (auto intro: length_filter_less)

function evict :: "nat \<Rightarrow> ('v \<Rightarrow> int) \<Rightarrow> ('k \<times> 'v) list \<Rightarrow> ('k \<times> 'v) list" where
  "evict cap at m =
     (if cap < length m
      then case min_by_key (\<lambda>e. at (snd e)) m of
             Some e \<Rightarrow> evict cap at (bt_remove (fst e) m)
           | None \<Rightarrow> m
      else m)"
  by auto
termination
  by (relation "measure (\<lambda>(cap, at, m). length m)")
    (auto dest!: min_by_key_Some intro!: length_bt_remove)

declare evict.simps [simp del]

section \<open>Laws\<close>

lemma bt_wf_Nil [simp]: "bt_wf []"
  by (simp add: bt_wf_def)

lemma set_bt_insert: "fst ` set (bt_insert k v m) = insert k (fst ` set m)"
  by (induction k v m rule: bt_insert.induct) auto

lemma bt_insert_wf [intro]: "bt_wf m \<Longrightarrow> bt_wf (bt_insert k v m)"
proof (induction k v m rule: bt_insert.induct)
  case (2 k v k' v' m)
  then show ?case
    using set_bt_insert[of k v m] by (fastforce simp: bt_wf_def)
qed (simp add: bt_wf_def)

lemma bt_remove_wf [intro]: "bt_wf m \<Longrightarrow> bt_wf (bt_remove k m)"
  by (simp add: bt_wf_def bt_remove_def sorted_wrt_map sorted_wrt_filter)

lemma bt_wf_distinct: "bt_wf m \<Longrightarrow> distinct (map fst m)"
  unfolding bt_wf_def using strict_sorted_iff by blast

lemma map_of_bt_insert: "bt_wf m \<Longrightarrow> map_of (bt_insert k v m) = (map_of m)(k \<mapsto> v)"
  by (induction k v m rule: bt_insert.induct) (auto simp: bt_wf_def fun_eq_iff)

lemma map_of_bt_remove: "map_of (bt_remove k m) = (map_of m)(k := None)"
  by (induction m) (auto simp: bt_remove_def fun_eq_iff)

lemma length_bt_insert: "length (bt_insert k v m) \<le> Suc (length m)"
  by (induction k v m rule: bt_insert.induct) auto

lemma evict_le: "length m \<le> cap \<Longrightarrow> evict cap at m = m"
  by (subst evict.simps) simp

lemma evict_step:
  assumes "cap < length m"
  obtains k v where "min_by_key (\<lambda>e. at (snd e)) m = Some (k, v)"
    "evict cap at m = evict cap at (bt_remove k m)"
proof -
  have "m \<noteq> []" using assms by auto
  then obtain e where "min_by_key (\<lambda>e. at (snd e)) m = Some e"
    by (cases "min_by_key (\<lambda>e. at (snd e)) m") auto
  then show thesis using that[of "fst e" "snd e"] assms by (simp add: evict.simps[of cap at m])
qed

lemma evict_wf [intro]: "bt_wf m \<Longrightarrow> bt_wf (evict cap at m)"
proof (induction "length m" arbitrary: m rule: less_induct)
  case less
  show ?case
  proof (cases "cap < length m")
    case True
    then obtain k v where e: "min_by_key (\<lambda>e. at (snd e)) m = Some (k, v)"
      "evict cap at m = evict cap at (bt_remove k m)" by (rule evict_step)
    have "k \<in> fst ` set m" using min_by_key_Some[OF e(1)] by force
    then show ?thesis unfolding e(2) using less by (auto intro: length_bt_remove)
  qed (use less.prems in \<open>simp add: evict_le\<close>)
qed

lemma evict_size: "length (evict cap at m) \<le> cap"
proof (induction "length m" arbitrary: m rule: less_induct)
  case less
  show ?case
  proof (cases "cap < length m")
    case True
    then obtain k v where e: "min_by_key (\<lambda>e. at (snd e)) m = Some (k, v)"
      "evict cap at m = evict cap at (bt_remove k m)" by (rule evict_step)
    have "k \<in> fst ` set m" using min_by_key_Some[OF e(1)] by force
    then show ?thesis unfolding e(2) using less by (auto intro: length_bt_remove)
  qed (simp add: evict_le)
qed

lemma evict_subset: "map_of (evict cap at m) k \<in> {None, map_of m k}"
proof (induction "length m" arbitrary: m rule: less_induct)
  case less
  show ?case
  proof (cases "cap < length m")
    case True
    then obtain k' v where e: "min_by_key (\<lambda>e. at (snd e)) m = Some (k', v)"
      "evict cap at m = evict cap at (bt_remove k' m)" by (rule evict_step)
    have "k' \<in> fst ` set m" using min_by_key_Some[OF e(1)] by force
    then show ?thesis
      using less[OF length_bt_remove, of k'] unfolding e(2)
      by (auto simp: map_of_bt_remove split: if_splits)
  qed (simp add: evict_le)
qed

lemma length_bt_remove_eq: "bt_wf m \<Longrightarrow> k \<in> fst ` set m \<Longrightarrow> Suc (length (bt_remove k m)) = length m"
proof (induction m)
  case (Cons e m)
  have "bt_wf m" using Cons.prems by (simp add: bt_wf_def)
  moreover have "k \<notin> fst ` set m \<Longrightarrow> bt_remove k m = m"
    unfolding bt_remove_def by (intro filter_True) auto
  ultimately show ?case
    using Cons bt_wf_distinct[OF Cons.prems(1)] by (auto simp: bt_remove_def)
qed simp

text \<open>An insertion into a map within its capacity evicts at most one entry, never the new one
  unless every other entry is at least as recent.\<close>

lemma evict_insert_keeps:
  assumes "bt_wf m" "length m \<le> cap"
    and "length m < cap \<or> (\<exists>v'\<in>snd ` set (bt_remove k m). at v' < at v)"
  shows "map_of (evict cap at (bt_insert k v m)) k = Some v"
proof (cases "cap < length (bt_insert k v m)")
  case False
  then show ?thesis using assms(1) by (simp add: evict_le map_of_bt_insert)
next
  case True
  let ?m = "bt_insert k v m"
  from True obtain k' v' where e: "min_by_key (\<lambda>e. at (snd e)) ?m = Some (k', v')"
    "evict cap at ?m = evict cap at (bt_remove k' ?m)" by (rule evict_step)
  note mem = min_by_key_Some[OF e(1)]
  have wf: "bt_wf ?m" using assms(1) by blast
  have "length ?m = Suc cap" using True length_bt_insert[of k v m] assms(2) by simp
  then have "length (bt_remove k' ?m) \<le> cap"
    using length_bt_remove_eq[OF wf, of k'] mem by force
  then have ev: "evict cap at ?m = bt_remove k' ?m" unfolding e(2) by (rule evict_le)
  have full: "\<not> length m < cap" using True length_bt_insert[of k v m] assms(2) by simp
  then obtain k2 v2 where o: "(k2, v2) \<in> set m" "k2 \<noteq> k" "at v2 < at v"
    using assms(3) by (auto simp: bt_remove_def)
  have "map_of ?m k2 = Some v2"
    using o assms(1) by (simp add: map_of_bt_insert bt_wf_distinct)
  then have "(k2, v2) \<in> set ?m" by (rule map_of_SomeD)
  then have "at v' \<le> at v2" using mem by force
  moreover have "map_of ?m k' = Some v'"
    using mem wf by (simp add: bt_wf_distinct)
  ultimately have "k' \<noteq> k" using o(3) assms(1) by (auto simp: map_of_bt_insert)
  then show ?thesis unfolding ev using assms(1) by (simp add: map_of_bt_remove map_of_bt_insert)
qed

end
