(* ===== verification/Tables.thy ===== *)
theory Tables
  imports Ordered_Map
begin

text \<open>
  The two bounded lookup tables of the state crate, \<open>dotagent-state/src/thread_sessions.rs\<close>
  (which conversation a Telegram message belongs to) and \<open>sent_messages.rs\<close> (what an outbound
  notification was about).  The stores' read-modify-write under a file lock is \<open>with_locked_table\<close>:
  load (an unreadable file is the empty table), update, write; whether the write succeeds is a
  parameter.
\<close>

section \<open>Scoped keys\<close>

text \<open>\<open>str::len\<close> counts the bytes of the UTF-8 form.\<close>

definition utf8_width :: "nat \<Rightarrow> nat" where
  "utf8_width c = (if c < 0x80 then 1 else if c < 0x800 then 2 else if c < 0x10000 then 3 else 4)"

definition byte_len :: "rstr \<Rightarrow> nat" where
  "byte_len s = sum_list (map utf8_width s)"

definition scoped_key :: "rstr \<Rightarrow> int \<Rightarrow> rstr" where
  "scoped_key chat_id message_id =
     show_nat (byte_len chat_id) @ lit '':'' @ chat_id @ lit '':'' @ show_int message_id"

lemma utf8_width_pos: "0 < utf8_width c"
  by (simp add: utf8_width_def)

lemma byte_len_append: "byte_len (xs @ ys) = byte_len xs + byte_len ys"
  by (simp add: byte_len_def)

lemma byte_len_0: "byte_len xs = 0 \<longleftrightarrow> xs = []"
  by (cases xs) (auto simp: byte_len_def utf8_width_def)

lemma byte_len_prefix_eq:
  assumes "xs @ us = ys @ vs" "byte_len xs = byte_len ys"
  shows "xs = ys \<and> us = vs"
  using assms by (auto simp: append_eq_append_conv2 byte_len_append byte_len_0)

lemma show_nat_no_sign: "show_nat m \<noteq> 45 # xs"
proof
  assume "show_nat m = 45 # xs"
  then have "45 \<in> set (show_nat m)" by simp
  then show False using show_nat_digits[of 45 m] by (simp add: is_digit_c_def)
qed

lemma show_int_inj: "show_int a = show_int b \<longleftrightarrow> a = b"
  using show_nat_no_sign show_nat_no_sign[symmetric] by (auto simp: show_int_def)

lemma scoped_key_inj: "scoped_key c m = scoped_key c' m' \<longleftrightarrow> c = c' \<and> m = m'"
proof
  assume eq: "scoped_key c m = scoped_key c' m'"
  have colon: "lit '':'' = [58]" by (simp add: lit_def)
  have "show_nat (byte_len c) @ 58 # (c @ [58] @ show_int m)
      = show_nat (byte_len c') @ 58 # (c' @ [58] @ show_int m')"
    using eq by (simp add: scoped_key_def colon)
  then have "byte_len c = byte_len c'" "c @ [58] @ show_int m = c' @ [58] @ show_int m'"
    using show_nat_sep_inj[of "byte_len c" 58] by (auto simp: is_digit_c_def)
  then show "c = c' \<and> m = m'"
    using byte_len_prefix_eq[of c "[58] @ show_int m" c' "[58] @ show_int m'"]
    by (auto simp: show_int_inj)
qed simp

lemma scoped_key_not_plain: "scoped_key c m \<noteq> show_int k"
proof -
  have "58 \<in> set (scoped_key c m)" by (simp add: scoped_key_def lit_def)
  moreover have "58 \<notin> set (show_int k)"
    using show_nat_digits[of 58] by (auto simp: show_int_def is_digit_c_def)
  ultimately show ?thesis by metis
qed

section \<open>Thread sessions\<close>

definition thread_max_entries :: nat where "thread_max_entries = 1000"

record thread_session =
  ts_chat_id :: rstr
  ts_session :: rstr
  ts_at :: int

type_synonym thread_sessions = "(rstr \<times> thread_session) list"

definition thread_get_for_chat :: "thread_sessions \<Rightarrow> rstr \<Rightarrow> int \<Rightarrow> rstr option" where
  "thread_get_for_chat t chat_id message_id =
     (case map_of t (scoped_key chat_id message_id) of
        Some entry \<Rightarrow> if ts_chat_id entry = chat_id then Some (ts_session entry) else None
      | None \<Rightarrow> None)"

definition thread_insert_for_chat ::
    "thread_sessions \<Rightarrow> rstr \<Rightarrow> int \<Rightarrow> rstr \<Rightarrow> int \<Rightarrow> thread_sessions" where
  "thread_insert_for_chat t chat_id message_id session at =
     evict thread_max_entries ts_at
       (bt_insert (scoped_key chat_id message_id)
          \<lparr> ts_chat_id = chat_id, ts_session = session, ts_at = at \<rparr> t)"

section \<open>Sent messages\<close>

definition sent_max_entries :: nat where "sent_max_entries = 500"

record sent_message =
  sm_chat_id :: "rstr option"
  sm_agent :: rstr
  sm_schedule :: rstr
  sm_event :: rstr
  sm_at :: int

type_synonym sent_messages = "(rstr \<times> sent_message) list"

definition sent_get :: "sent_messages \<Rightarrow> int \<Rightarrow> sent_message option" where
  "sent_get t message_id = map_of t (show_int message_id)"

definition sent_get_for_chat :: "sent_messages \<Rightarrow> rstr \<Rightarrow> int \<Rightarrow> sent_message option" where
  "sent_get_for_chat t chat_id message_id =
     (case map_of t (scoped_key chat_id message_id) of
        Some entry \<Rightarrow> if sm_chat_id entry = Some chat_id then Some entry else None
      | None \<Rightarrow> None)"

definition sent_insert :: "sent_messages \<Rightarrow> int \<Rightarrow> sent_message \<Rightarrow> sent_messages" where
  "sent_insert t message_id entry =
     evict sent_max_entries sm_at (bt_insert (show_int message_id) entry t)"

definition sent_insert_for_chat ::
    "sent_messages \<Rightarrow> rstr \<Rightarrow> int \<Rightarrow> sent_message \<Rightarrow> sent_messages" where
  "sent_insert_for_chat t chat_id message_id entry =
     evict sent_max_entries sm_at
       (bt_insert (scoped_key chat_id message_id) (entry\<lparr> sm_chat_id := Some chat_id \<rparr>) t)"

section \<open>The contract of a reply table\<close>

text \<open>What both tables promise their readers, as an interface: a record is readable in its own
  chat or has been evicted, never touches another message's entry, and the table stays within its
  capacity.\<close>

locale reply_table =
  fixes ins :: "'t \<Rightarrow> rstr \<Rightarrow> int \<Rightarrow> 'v \<Rightarrow> 't"
    and get :: "'t \<Rightarrow> rstr \<Rightarrow> int \<Rightarrow> 'w option"
    and view :: "rstr \<Rightarrow> 'v \<Rightarrow> 'w"
    and size_of :: "'t \<Rightarrow> nat"
    and cap :: nat
    and inv :: "'t \<Rightarrow> bool"
    and empty :: 't
  assumes inv_empty: "inv empty"
    and inv_ins: "inv t \<Longrightarrow> inv (ins t c m v)"
    and get_empty: "get empty c m = None"
    and size_empty: "size_of empty \<le> cap"
    and size_ins: "size_of (ins t c m v) \<le> cap"
    and get_ins_same: "inv t \<Longrightarrow> get (ins t c m v) c m \<in> {None, Some (view c v)}"
    and get_ins_other: "inv t \<Longrightarrow> (c', m') \<noteq> (c, m) \<Longrightarrow> get (ins t c m v) c' m' \<in> {None, get t c' m'}"
begin

lemma fold_inv: "inv t \<Longrightarrow> inv (fold (\<lambda>(c, m, v) t. ins t c m v) ops t)"
  by (induction ops arbitrary: t) (auto intro: inv_ins)

lemma fold_size: "size_of t \<le> cap \<Longrightarrow> size_of (fold (\<lambda>(c, m, v) t. ins t c m v) ops t) \<le> cap"
  by (induction ops arbitrary: t) (auto simp: size_ins)

lemma fold_sound:
  assumes "inv t" "get (fold (\<lambda>(c, m, v) t. ins t c m v) ops t) c m = Some w"
  shows "get t c m = Some w \<or> (\<exists>pre v post. ops = pre @ (c, m, v) # post \<and> w = view c v
    \<and> (\<forall>(c', m', v') \<in> set post. (c', m') \<noteq> (c, m)))"
  using assms(2)
proof (induction ops arbitrary: w rule: rev_induct)
  case (snoc op ops)
  obtain c' m' v where op: "op = (c', m', v)" by (cases op)
  let ?t = "fold (\<lambda>(c, m, v) t. ins t c m v) ops t"
  have inv: "inv ?t" using assms(1) by (rule fold_inv)
  show ?case
  proof (cases "(c', m') = (c, m)")
    case True
    then have "w = view c v" using snoc.prems get_ins_same[OF inv, of c m v] by (auto simp: op)
    then show ?thesis using True op by (intro disjI2 exI[of _ ops]) auto
  next
    case False
    then have "get ?t c m = Some w"
      using snoc.prems get_ins_other[OF inv, of c m c' m' v] by (auto simp: op)
    then consider "get t c m = Some w"
      | pre v' post where "ops = pre @ (c, m, v') # post" "w = view c v'"
        "\<forall>(c', m', v') \<in> set post. (c', m') \<noteq> (c, m)"
      using snoc.IH by blast
    then show ?thesis
    proof cases
      case (2 pre v' post)
      then show ?thesis using False op
        by (intro disjI2 exI[of _ pre] exI[of _ v'] exI[of _ "post @ [op]"]) auto
    qed blast
  qed
qed simp

end

lemma map_of_evict_insert:
  assumes "bt_wf t"
  shows "map_of (evict cap at (bt_insert k v t)) k' \<in> {None, if k' = k then Some v else map_of t k'}"
  using evict_subset[of cap at "bt_insert k v t" k'] assms by (auto simp: map_of_bt_insert)


lemma sent_get_insert:
  assumes "bt_wf t"
  shows "sent_get_for_chat (sent_insert_for_chat t c m e) c' m' \<in>
    {None, if (c', m') = (c, m) then Some (e\<lparr> sm_chat_id := Some c \<rparr>) else sent_get_for_chat t c' m'}"
proof -
  let ?e = "e\<lparr> sm_chat_id := Some c \<rparr>"
  let ?m = "map_of (evict sent_max_entries sm_at (bt_insert (scoped_key c m) ?e t)) (scoped_key c' m')"
  have "?m = None \<or> ?m = (if c' = c \<and> m' = m then Some ?e else map_of t (scoped_key c' m'))"
    using map_of_evict_insert[OF assms, of sent_max_entries sm_at "scoped_key c m" ?e "scoped_key c' m'"]
    by (simp add: scoped_key_inj)
  then show ?thesis
    by (elim disjE) (simp_all add: sent_insert_for_chat_def sent_get_for_chat_def)
qed



interpretation sent: reply_table sent_insert_for_chat sent_get_for_chat
  "\<lambda>c e. e\<lparr> sm_chat_id := Some c \<rparr>" length sent_max_entries bt_wf "[]"
proof
  fix t :: sent_messages and c c' :: rstr and m m' :: int and v :: sent_message
  show "length (sent_insert_for_chat t c m v) \<le> sent_max_entries"
    by (simp add: sent_insert_for_chat_def evict_size)
  assume wf: "bt_wf t"
  show "bt_wf (sent_insert_for_chat t c m v)"
    using wf by (auto simp: sent_insert_for_chat_def)
  show "sent_get_for_chat (sent_insert_for_chat t c m v) c m \<in> {None, Some (v\<lparr> sm_chat_id := Some c \<rparr>)}"
    using sent_get_insert[OF wf, of c m v c m] by simp
  show "sent_get_for_chat (sent_insert_for_chat t c m v) c' m' \<in> {None, sent_get_for_chat t c' m'}"
    if "(c', m') \<noteq> (c, m)"
    using sent_get_insert[OF wf, of c m v c' m'] that by (simp only: if_False)
qed (simp_all add: sent_get_for_chat_def)

section \<open>The stores\<close>

datatype 'a on_disk = Absent | Corrupt | Present 'a

text \<open>\<open>load\<close> of either store.\<close>

definition load_table :: "('k \<times> 'v) list on_disk \<Rightarrow> ('k \<times> 'v) list" where
  "load_table f = (case f of Present t \<Rightarrow> t | _ \<Rightarrow> [])"

text \<open>\<open>with_locked_table\<close>: a write that fails leaves the file as it was (it is written aside and
  renamed over).\<close>

definition with_locked_table ::
    "bool \<Rightarrow> ('k \<times> 'v) list on_disk \<Rightarrow> (('k \<times> 'v) list \<Rightarrow> ('k \<times> 'v) list) \<Rightarrow> bool \<times> ('k \<times> 'v) list on_disk" where
  "with_locked_table write_ok f update =
     (if write_ok then (True, Present (update (load_table f))) else (False, f))"

definition thread_record_for_chat :: "bool \<Rightarrow> thread_sessions on_disk \<Rightarrow> rstr \<Rightarrow> int \<Rightarrow> rstr \<Rightarrow> int
    \<Rightarrow> bool \<times> thread_sessions on_disk" where
  "thread_record_for_chat ok f chat_id message_id session at =
     with_locked_table ok f (\<lambda>t. thread_insert_for_chat t chat_id message_id session at)"

definition thread_resolve_for_chat :: "thread_sessions on_disk \<Rightarrow> rstr \<Rightarrow> int \<Rightarrow> rstr option" where
  "thread_resolve_for_chat f chat_id message_id =
     thread_get_for_chat (load_table f) chat_id message_id"

definition sent_record :: "bool \<Rightarrow> sent_messages on_disk \<Rightarrow> int \<Rightarrow> sent_message
    \<Rightarrow> bool \<times> sent_messages on_disk" where
  "sent_record ok f message_id entry =
     with_locked_table ok f (\<lambda>t. sent_insert t message_id entry)"

definition sent_record_for_chat :: "bool \<Rightarrow> sent_messages on_disk \<Rightarrow> rstr \<Rightarrow> int \<Rightarrow> sent_message
    \<Rightarrow> bool \<times> sent_messages on_disk" where
  "sent_record_for_chat ok f chat_id message_id entry =
     with_locked_table ok f (\<lambda>t. sent_insert_for_chat t chat_id message_id entry)"

definition sent_resolve_for_chat :: "sent_messages on_disk \<Rightarrow> rstr \<Rightarrow> int \<Rightarrow> sent_message option" where
  "sent_resolve_for_chat f chat_id message_id =
     sent_get_for_chat (load_table f) chat_id message_id"

section \<open>Properties\<close>



text \<open>a notification recorded for a chat is resolvable there at once, with its chat id filled
  in, in a table that has room or holds an older entry; it stays invisible to every other chat
  and message id, whose own entries either survive unchanged or are evicted; and the table never
  exceeds 500 entries.\<close>

theorem sent_record_resolves:
  assumes "bt_wf t" "length t \<le> 500"
    and "length t < 500 \<or> (\<exists>e'\<in>snd ` set (bt_remove (scoped_key c m) t). sm_at e' < sm_at e)"
  shows "sent_get_for_chat (sent_insert_for_chat t c m e) c m = Some (e\<lparr> sm_chat_id := Some c \<rparr>)
    \<and> (\<forall>c' m'. (c', m') \<noteq> (c, m) \<longrightarrow> sent_get_for_chat (sent_insert_for_chat t c m e) c' m'
         \<in> {None, sent_get_for_chat t c' m'})
    \<and> length (sent_insert_for_chat t c m e) \<le> 500"
proof -
  have "map_of (sent_insert_for_chat t c m e) (scoped_key c m) = Some (e\<lparr> sm_chat_id := Some c \<rparr>)"
    unfolding sent_insert_for_chat_def sent_max_entries_def
    using assms by (intro evict_insert_keeps) auto
  then show ?thesis
    using sent.get_ins_other[OF assms(1)] sent.size_ins[of t c m e]
    by (simp add: sent_get_for_chat_def sent_max_entries_def)
qed

theorem sent_record_resolves_witness:
  "sent_get_for_chat (sent_insert_for_chat [] (lit ''-1001'') 4821 \<lparr> sm_chat_id = None,
      sm_agent = lit ''inbox'', sm_schedule = lit ''daily'', sm_event = lit ''preflight'', sm_at = 5 \<rparr>)
     (lit ''-1001'') 4821
   = Some \<lparr> sm_chat_id = Some (lit ''-1001''), sm_agent = lit ''inbox'',
      sm_schedule = lit ''daily'', sm_event = lit ''preflight'', sm_at = 5 \<rparr>"
  by (subst conjunct1[OF sent_record_resolves]) simp_all

end
