(* ===== verification/State_Store.thy ===== *)
theory State_Store
  imports Scheduler Tables
begin

text \<open>
  \<open>dotagent-state/src/lib.rs\<close> and \<open>dotagent-core/src/slug.rs\<close>: the slug that names a schedule's
  state files, the paths, and the JSON files behind them.  The file system is a map from a path
  (a string under the store's root) to what a read of it finds: nothing, something that does not
  parse, or a value.  A write is atomic (written aside, then renamed), so it either installs the
  value or leaves the file as it was; which of the two is a parameter.
\<close>

section \<open>Slugs\<close>

text \<open>\<open>str::to_lowercase\<close>, as far as the character filter that follows it can tell: ASCII letters,
  the two other characters whose lower case contains an ASCII letter (the Kelvin sign and the
  dotted capital I), and everything else unchanged.\<close>

definition lower_char :: "nat \<Rightarrow> rstr" where
  "lower_char c =
     (if is_upper_c c then [c + 32]
      else if c = 0x212A then [107]
      else if c = 0x130 then [105, 0x307]
      else [c])"

definition to_lowercase :: "rstr \<Rightarrow> rstr" where
  "to_lowercase s = concat (map lower_char s)"

definition slug_char :: "nat \<Rightarrow> bool" where
  "slug_char c \<longleftrightarrow> is_alnum_c c \<or> c = 95 \<or> c = 45"

text \<open>\<open>replace("__", "_")\<close>: one left-to-right pass over non-overlapping pairs.\<close>

fun replace_uu :: "rstr \<Rightarrow> rstr" where
  "replace_uu (x # y # s) =
     (if x = 95 \<and> y = 95 then 95 # replace_uu s else x # replace_uu (y # s))"
| "replace_uu s = s"

fun has_uu :: "rstr \<Rightarrow> bool" where
  "has_uu (x # y # s) = (x = 95 \<and> y = 95 \<or> has_uu (y # s))"
| "has_uu s = False"

lemma length_replace_uu: "length (replace_uu s) \<le> length s"
  by (induction s rule: replace_uu.induct) auto

lemma length_replace_uu_less: "has_uu s \<Longrightarrow> length (replace_uu s) < length s"
proof (induction s rule: replace_uu.induct)
  case (1 x y s)
  then show ?case using length_replace_uu[of s] by auto
qed auto

function collapse_uu :: "rstr \<Rightarrow> rstr" where
  "collapse_uu s = (if has_uu s then collapse_uu (replace_uu s) else s)"
  by auto
termination
  by (relation "measure length") (auto simp: length_replace_uu_less)

declare collapse_uu.simps [simp del]

definition trim_matches :: "nat \<Rightarrow> rstr \<Rightarrow> rstr" where
  "trim_matches c s = rev (dropWhile (\<lambda>x. x = c) (rev (dropWhile (\<lambda>x. x = c) s)))"

definition default_slug :: rstr where
  "default_slug = lit ''default''"

definition slug_from_args :: "rstr list \<Rightarrow> rstr" where
  "slug_from_args args =
     (if args = [] then default_slug
      else let parts = filter (\<lambda>p. p \<noteq> []) (map (dropWhile (\<lambda>c. c = 45)) args)
           in if parts = [] then default_slug
              else let joined = to_lowercase (join (lit ''_'') parts);
                       slug = map (\<lambda>c. if slug_char c then c else 95) joined;
                       trimmed = trim_matches 95 (collapse_uu slug)
                   in if trimmed = [] then default_slug else trimmed)"

section \<open>Keys (slug.rs)\<close>

definition max_key_len :: nat where "max_key_len = 64"

text \<open>\<open>digest\<close> is the standard library's \<open>DefaultHasher\<close>, whose function is unspecified, rendered
  with 16 hexadecimal digits.\<close>

definition sanitize_key :: "(rstr \<Rightarrow> rstr) \<Rightarrow> rstr \<Rightarrow> rstr" where
  "sanitize_key digest raw =
     (let clean = filter slug_char raw
      in if clean = [] \<or> byte_len clean \<noteq> byte_len raw \<or> byte_len clean > max_key_len
         then lit ''k'' @ digest raw
         else clean)"

definition is_valid_session_id :: "rstr \<Rightarrow> bool" where
  "is_valid_session_id s \<longleftrightarrow>
     1 \<le> byte_len s \<and> byte_len s \<le> max_key_len \<and> list_all slug_char s"

section \<open>Files\<close>

record store =
  st_heartbeats :: "rstr \<Rightarrow> heartbeat on_disk"
  st_windows :: "rstr \<Rightarrow> window_state on_disk"

datatype state_error = StateIo | StateJson | StateNoHome

definition heartbeat_path :: "rstr \<Rightarrow> rstr \<Rightarrow> rstr" where
  "heartbeat_path agent slug =
     lit ''agents/'' @ agent @ lit ''/'' @ slug @ lit ''.heartbeat.json''"

definition window_path :: "tz \<Rightarrow> rstr \<Rightarrow> rstr \<Rightarrow> instant \<Rightarrow> rstr" where
  "window_path z agent slug expected =
     lit ''windows/'' @ agent @ lit ''-'' @ slug @ lit ''-'' @ tz_label z expected @ lit ''.json''"

definition read_json :: "'a on_disk \<Rightarrow> state_error + 'a option" where
  "read_json f = (case f of
     Absent \<Rightarrow> Inr None | Corrupt \<Rightarrow> Inl StateJson | Present v \<Rightarrow> Inr (Some v))"

definition read_heartbeat :: "store \<Rightarrow> rstr \<Rightarrow> rstr \<Rightarrow> state_error + heartbeat option" where
  "read_heartbeat st agent slug = read_json (st_heartbeats st (heartbeat_path agent slug))"

definition write_heartbeat :: "bool \<Rightarrow> store \<Rightarrow> heartbeat \<Rightarrow> (state_error + unit) \<times> store" where
  "write_heartbeat ok st hb =
     (if ok
      then (Inr (), st\<lparr> st_heartbeats :=
              (st_heartbeats st)(heartbeat_path (hb_name hb) (hb_slug hb) := Present hb) \<rparr>)
      else (Inl StateIo, st))"

definition read_window ::
    "tz \<Rightarrow> store \<Rightarrow> rstr \<Rightarrow> rstr \<Rightarrow> instant \<Rightarrow> state_error + window_state option" where
  "read_window z st agent slug expected =
     read_json (st_windows st (window_path z agent slug expected))"

definition write_window ::
    "tz \<Rightarrow> bool \<Rightarrow> store \<Rightarrow> window_state \<Rightarrow> rstr \<Rightarrow> instant \<Rightarrow> (state_error + unit) \<times> store" where
  "write_window z ok st ws slug expected =
     (if ok
      then (Inr (), st\<lparr> st_windows :=
              (st_windows st)(window_path z (ws_agent ws) slug expected := Present ws) \<rparr>)
      else (Inl StateIo, st))"

definition epoch_to_local :: "tz \<Rightarrow> int \<Rightarrow> instant option" where
  "epoch_to_local z epoch = tz_epoch z epoch"

text \<open>\<open>read(...).ok().flatten()\<close>, how the daemon reads both kinds of file.\<close>

definition ok_flatten :: "'e + 'a option \<Rightarrow> 'a option" where
  "ok_flatten r = (case r of Inr (Some v) \<Rightarrow> Some v | _ \<Rightarrow> None)"

section \<open>Facts about slugs and keys\<close>

lemma collapse_uu_no_pair: "\<not> has_uu (collapse_uu s)"
proof (induction s rule: collapse_uu.induct)
  case (1 s)
  then show ?case by (subst collapse_uu.simps) auto
qed

lemma set_replace_uu: "set (replace_uu s) \<subseteq> set s"
  by (induction s rule: replace_uu.induct) auto

lemma set_collapse_uu: "set (collapse_uu s) \<subseteq> set s"
proof (induction s rule: collapse_uu.induct)
  case (1 s)
  then show ?case using set_replace_uu[of s] by (subst collapse_uu.simps) auto
qed

lemma has_uu_append: "has_uu xs \<Longrightarrow> has_uu (ys @ xs)"
proof (induction ys)
  case (Cons y ys)
  then show ?case by (cases "ys @ xs") auto
qed simp

lemma has_uu_prefix: "has_uu xs \<Longrightarrow> has_uu (xs @ ys)"
  by (induction xs rule: has_uu.induct) auto

lemma trim_matches_split: "\<exists>a b. s = a @ trim_matches c s @ b"
proof -
  let ?d = "dropWhile (\<lambda>x. x = c) s"
  have "?d = trim_matches c s @ rev (takeWhile (\<lambda>x. x = c) (rev ?d))"
    unfolding trim_matches_def by (metis rev_append rev_rev_ident takeWhile_dropWhile_id)
  moreover have "s = takeWhile (\<lambda>x. x = c) s @ ?d" by simp
  ultimately show ?thesis by metis
qed

lemma trim_matches_ends:
  assumes "trim_matches c s \<noteq> []"
  shows "hd (trim_matches c s) \<noteq> c" "last (trim_matches c s) \<noteq> c"
proof -
  let ?d = "dropWhile (\<lambda>x. x = c) s"
  have ne: "dropWhile (\<lambda>x. x = c) (rev ?d) \<noteq> []" using assms by (simp add: trim_matches_def)
  show "last (trim_matches c s) \<noteq> c"
    using hd_dropWhile[OF ne] by (simp add: trim_matches_def last_rev)
  have "?d = trim_matches c s @ rev (takeWhile (\<lambda>x. x = c) (rev ?d))"
    unfolding trim_matches_def by (metis rev_append rev_rev_ident takeWhile_dropWhile_id)
  then have "hd ?d = hd (trim_matches c s)" "?d \<noteq> []" using assms by (metis hd_append2, fastforce)
  then show "hd (trim_matches c s) \<noteq> c" using hd_dropWhile[of "\<lambda>x. x = c" s] by simp
qed

definition slug_wf :: "rstr \<Rightarrow> bool" where
  "slug_wf s \<longleftrightarrow> s \<noteq> [] \<and> list_all slug_char s \<and> \<not> has_uu s \<and> hd s \<noteq> 95 \<and> last s \<noteq> 95"

lemma slug_wf_default: "slug_wf default_slug"
  by (simp add: slug_wf_def default_slug_def lit_def slug_char_def is_alnum_c_def is_lower_c_def)

lemma slug_wf_from_args: "slug_wf (slug_from_args args)"
proof -
  have "slug_wf t" if t: "t = trim_matches 95 (collapse_uu (map (\<lambda>c. if slug_char c then c else 95) j))"
    and ne: "t \<noteq> []" for t j
  proof -
    let ?m = "map (\<lambda>c. if slug_char c then c else 95) j"
    obtain a b where ab: "collapse_uu ?m = a @ t @ b" using trim_matches_split t by blast
    have "\<not> has_uu t" using collapse_uu_no_pair[of ?m] has_uu_append has_uu_prefix unfolding ab by blast
    moreover have "set t \<subseteq> set ?m" using set_collapse_uu[of ?m] ab by auto
    moreover have "slug_char 95" by (simp add: slug_char_def)
    ultimately show ?thesis
      using trim_matches_ends[of 95 "collapse_uu ?m"] ne t by (auto simp: slug_wf_def list_all_iff)
  qed
  then show ?thesis by (auto simp: slug_from_args_def Let_def slug_wf_default)
qed

lemma slug_char_not_upper: "slug_char c \<Longrightarrow> \<not> is_upper_c c \<Longrightarrow> is_digit_c c \<or> is_lower_c c \<or> c \<in> {95, 45}"
  by (auto simp: slug_char_def is_alnum_c_def)

text \<open>Whatever the arguments, the slug that names a schedule's state files is a non-empty
  string of ASCII letters, digits, hyphens and underscores, with no two underscores in a row and
  none at either end: it can never introduce a path separator or a dot into a file name.\<close>

theorem slug_from_args_wf:
  "slug_from_args args \<noteq> [] \<and> list_all slug_char (slug_from_args args)
   \<and> \<not> has_uu (slug_from_args args)
   \<and> hd (slug_from_args args) \<noteq> 95 \<and> last (slug_from_args args) \<noteq> 95"
  using slug_wf_from_args[of args] unfolding slug_wf_def .

lemma slug_char_no_slash: "slug_wf s \<Longrightarrow> 47 \<notin> set s \<and> 46 \<notin> set s"
  by (auto simp: slug_wf_def list_all_iff slug_char_def is_alnum_c_def is_digit_c_def
      is_lower_c_def is_upper_c_def)

lemma heartbeat_path_inj:
  assumes "slug_wf s" "slug_wf s'" "heartbeat_path a s = heartbeat_path a' s'"
  shows "a = a' \<and> s = s'"
proof -
  have "a @ 47 # s = a' @ 47 # s'"
    using assms(3) by (simp add: heartbeat_path_def lit_def)
  then have "rev s @ 47 # rev a = rev s' @ 47 # rev a'"
    by (metis append_Cons append_Nil append_assoc rev.simps(2) rev_append)
  moreover have "47 \<notin> set (rev s)" "47 \<notin> set (rev s')"
    using slug_char_no_slash assms(1,2) by auto
  ultimately have "rev s = rev s' \<and> rev a = rev a'" by (rule split_unique)
  then show ?thesis by simp
qed

text \<open>Window files have no such separator: two different schedules can share one.\<close>

lemma window_path_collides:
  "window_path z (lit ''foo'') (slug_from_args [lit ''bar-default'']) t
   = window_path z (lit ''foo-bar'') (slug_from_args []) t"
proof -
  have "slug_from_args [lit ''bar-default''] = lit ''bar-default''"
    by (simp add: slug_from_args_def lit_def to_lowercase_def lower_char_def slug_char_def
        is_upper_c_def is_alnum_c_def is_digit_c_def is_lower_c_def collapse_uu.simps trim_matches_def)
  then show ?thesis by (simp add: window_path_def slug_from_args_def default_slug_def lit_def)
qed

lemma byte_len_filter_le: "byte_len (filter P s) \<le> byte_len s"
  by (induction s) (auto simp: byte_len_def)

lemma byte_len_filter_eq: "byte_len (filter P s) = byte_len s \<Longrightarrow> filter P s = s"
proof (induction s)
  case (Cons c s)
  show ?case
  proof (cases "P c")
    case True
    then show ?thesis using Cons by (simp add: byte_len_def)
  next
    case False
    then show ?thesis
      using Cons.prems byte_len_filter_le[of P s] utf8_width_pos[of c] by (simp add: byte_len_def)
  qed
qed simp

lemma sanitize_key_plain: "is_valid_session_id s \<Longrightarrow> sanitize_key digest s = s"
proof -
  assume v: "is_valid_session_id s"
  then have "filter slug_char s = s" by (simp add: is_valid_session_id_def list_all_iff filter_id_conv)
  then show ?thesis using v by (auto simp: sanitize_key_def is_valid_session_id_def byte_len_def)
qed

lemma slug_char_width: "slug_char c \<Longrightarrow> utf8_width c = 1"
  by (auto simp: slug_char_def is_alnum_c_def is_digit_c_def is_lower_c_def is_upper_c_def utf8_width_def)

lemma byte_len_slug: "list_all slug_char s \<Longrightarrow> byte_len s = length s"
  by (induction s) (auto simp: byte_len_def slug_char_width)

text \<open>C7. a key is always safe to put in a file name or a label: \<open>sanitize_key\<close> returns a valid
  session id whatever it is given, keeps a value that already is one, and so distinct plain
  identifiers stay distinct.\<close>

theorem sanitize_key_valid:
  assumes "\<And>s. length (digest s) = 16 \<and> list_all slug_char (digest s)"
  shows "is_valid_session_id (sanitize_key digest raw)
    \<and> (sanitize_key digest raw = raw \<longleftrightarrow> is_valid_session_id raw \<or> raw = lit ''k'' @ digest raw)"
proof -
  have k: "list_all slug_char (lit ''k'')" "length (lit ''k'') = 1"
    by (simp_all add: lit_def slug_char_def is_alnum_c_def is_lower_c_def)
  have d: "is_valid_session_id (lit ''k'' @ digest raw)"
    using assms[of raw] k byte_len_slug[of "lit ''k'' @ digest raw"]
    by (simp add: is_valid_session_id_def max_key_len_def)
  let ?c = "filter slug_char raw"
  have c: "is_valid_session_id ?c" if "?c \<noteq> []" "byte_len ?c \<le> max_key_len"
    using that byte_len_0[of ?c] by (auto simp: is_valid_session_id_def list_all_iff)
  have valid: "is_valid_session_id (sanitize_key digest raw)"
    using c d by (auto simp: sanitize_key_def Let_def)
  moreover have "sanitize_key digest raw = raw \<Longrightarrow> is_valid_session_id raw \<or> raw = lit ''k'' @ digest raw"
    using valid by simp
  moreover have "raw = lit ''k'' @ digest raw \<Longrightarrow> sanitize_key digest raw = raw"
    using d sanitize_key_plain by metis
  ultimately show ?thesis using sanitize_key_plain by blast
qed

theorem sanitize_key_valid_witness:
  "sanitize_key (\<lambda>_. replicate 16 48) (lit ''chat_42'') = lit ''chat_42''"
proof -
  have "is_valid_session_id (lit ''chat_42'')"
    by (simp add: is_valid_session_id_def lit_def byte_len_def utf8_width_def max_key_len_def
        slug_char_def is_alnum_c_def is_digit_c_def is_lower_c_def)
  then show ?thesis
    by (intro conjunct2[OF sanitize_key_valid, THEN iffD2])
      (simp_all add: list_all_iff slug_char_def is_alnum_c_def is_digit_c_def)
qed

text \<open>A digest and a plain identifier can be the same key: the identifier that spells the digest.\<close>

lemma sanitize_key_collides:
  assumes "length (digest x) = 16" "list_all slug_char (digest x)" "\<not> is_valid_session_id x"
  shows "sanitize_key digest (lit ''k'' @ digest x) = sanitize_key digest x"
proof -
  have "filter slug_char x \<noteq> x \<or> byte_len x > max_key_len \<or> x = []"
    using assms(3) byte_len_0[of x]
    by (auto simp: is_valid_session_id_def list_all_iff filter_id_conv)
  then have "sanitize_key digest x = lit ''k'' @ digest x"
    using byte_len_filter_eq[of slug_char x] by (auto simp: sanitize_key_def Let_def)
  moreover have "is_valid_session_id (lit ''k'' @ digest x)"
    using assms byte_len_slug[of "lit ''k'' @ digest x"]
    by (simp add: is_valid_session_id_def max_key_len_def lit_def slug_char_def is_alnum_c_def is_lower_c_def)
  ultimately show ?thesis using sanitize_key_plain by metis
qed

end
