(* ===== verification/Audit_Event.thy ===== *)
theory Audit_Event
  imports Prelude
begin

text \<open>
  \<open>dotagent-core/src/audit.rs\<close>: the events of the append-only log, with the fields in the order
  the source declares them, and the severity each one is written with.
\<close>

datatype severity = Info | Notice | Critical

datatype audit_event =
  DaemonStarted rstr nat
| DaemonStopped rstr
| AgentRun rstr rstr rstr rstr int int bool
| AgentRecovered rstr rstr nat
| AgentGivenUp rstr rstr nat int rstr
| PreflightFailed rstr rstr rstr "rstr option"
| PluginInvoked rstr rstr rstr bool
| ManifestLoaded rstr rstr rstr
| ManifestDriftDetected rstr rstr rstr rstr
| PhantomAgentDetected rstr rstr rstr
| OrphanReaped rstr rstr rstr nat nat nat
| AuditChainBroken nat rstr rstr
| AuditLogRotated rstr nat rstr rstr
| TickStarted nat
| TickCompleted nat nat "rstr option"
| ConfigReloaded rstr
| SecretsLoaded rstr nat nat
| SecretsRefused rstr rstr
| TriggerReceived rstr rstr rstr
| TriggerRejected rstr rstr rstr
| ManifestInvalid rstr rstr
| RemediationInvoked rstr rstr rstr int bool
| OsCommandInvoked rstr "rstr list" int bool
| SkillInvoked rstr rstr int bool
| SkillInvalid rstr rstr
| AgentTriggered rstr "rstr option" rstr rstr
| CommandDispatched rstr "rstr option" bool
| PersistentAgentStarted rstr rstr nat
| PersistentAgentRecycled rstr rstr rstr nat

record audit_entry =
  ent_ts :: rstr
  ent_severity :: severity
  ent_event :: audit_event
  ent_prev_hash :: rstr

fun default_severity :: "audit_event \<Rightarrow> severity" where
  "default_severity (DaemonStarted _ _) = Info"
| "default_severity (DaemonStopped _) = Info"
| "default_severity (TickStarted _) = Info"
| "default_severity (TickCompleted _ _ _) = Info"
| "default_severity (ManifestLoaded _ _ _) = Info"
| "default_severity (PluginInvoked _ _ _ ok) = (if ok then Info else Notice)"
| "default_severity (AgentRun _ _ _ _ exit_code _ _) = (if exit_code = 0 then Notice else Critical)"
| "default_severity (ConfigReloaded _) = Notice"
| "default_severity (AgentRecovered _ _ _) = Notice"
| "default_severity (SecretsLoaded _ _ _) = Notice"
| "default_severity (TriggerReceived _ _ _) = Notice"
| "default_severity (AgentTriggered _ _ _ _) = Notice"
| "default_severity (SkillInvoked _ _ _ _) = Notice"
| "default_severity (SkillInvalid _ _) = Notice"
| "default_severity (CommandDispatched _ _ _) = Notice"
| "default_severity (PersistentAgentStarted _ _ _) = Notice"
| "default_severity (AuditLogRotated _ _ _ _) = Notice"
| "default_severity (PersistentAgentRecycled _ _ reason _) =
     (if reason = lit ''crashed'' \<or> reason = lit ''timeout'' then Critical else Notice)"
| "default_severity (AgentGivenUp _ _ _ _ _) = Critical"
| "default_severity (PreflightFailed _ _ _ _) = Critical"
| "default_severity (ManifestDriftDetected _ _ _ _) = Critical"
| "default_severity (PhantomAgentDetected _ _ _) = Critical"
| "default_severity (OrphanReaped _ _ _ _ _ _) = Critical"
| "default_severity (SecretsRefused _ _) = Critical"
| "default_severity (TriggerRejected _ _ _) = Critical"
| "default_severity (ManifestInvalid _ _) = Critical"
| "default_severity (RemediationInvoked _ _ _ _ _) = Critical"
| "default_severity (OsCommandInvoked _ _ _ _) = Critical"
| "default_severity (AuditChainBroken _ _ _) = Critical"

definition genesis_hash :: rstr where
  "genesis_hash = lit ''GENESIS''"

end
