(* ===== verification/Dedup.thy ===== *)
theory Dedup
  imports Ladder "HOL-Library.Sublist"
begin

text \<open>
  \<open>dotagent-state/src/notify_dedup.rs\<close>: the episode table that decides how often a condition
  that stays true may notify again.  Times are Unix seconds (\<open>i64\<close>, here \<open>int\<close>).  The
  \<open>BTreeMap\<close> of episodes is a partial map; the file locking around the table is I/O and is not
  modelled.
\<close>

definition backoff_seconds :: "int list" where
  "backoff_seconds = [60 * 60, 6 * 60 * 60, 24 * 60 * 60]"

record alert_episode =
  ae_first_notified_at :: int
  ae_last_notified_at :: int
  ae_count :: nat

definition should_notify :: "alert_episode option \<Rightarrow> int \<Rightarrow> bool" where
  "should_notify episode now = (case episode of
     None \<Rightarrow> True
   | Some e \<Rightarrow>
       if now < ae_last_notified_at e then True
       else let step = min (max (ae_count e) 1 - 1) (length backoff_seconds - 1)
            in now - ae_last_notified_at e \<ge> backoff_seconds ! step)"

type_synonym notify_dedup = "rstr \<rightharpoonup> alert_episode"

definition alert_key :: "rstr \<Rightarrow> rstr \<Rightarrow> rstr \<Rightarrow> rstr" where
  "alert_key agent schedule event = agent @ lit ''/'' @ schedule @ lit ''/'' @ event"

definition dedup_should_notify :: "notify_dedup \<Rightarrow> rstr \<Rightarrow> int \<Rightarrow> bool" where
  "dedup_should_notify d key now = should_notify (d key) now"

definition record_alert :: "notify_dedup \<Rightarrow> rstr \<Rightarrow> int \<Rightarrow> alert_episode \<times> notify_dedup" where
  "record_alert d key now = (
     let entry = (case d key of
                    Some e \<Rightarrow> e
                  | None \<Rightarrow> \<lparr> ae_first_notified_at = now, ae_last_notified_at = now, ae_count = 0 \<rparr>);
         entry' = entry\<lparr> ae_last_notified_at := now, ae_count := ae_count entry + 1 \<rparr>
     in (entry', d(key \<mapsto> entry')))"

definition pair_prefix :: "rstr \<Rightarrow> rstr \<Rightarrow> rstr" where
  "pair_prefix agent schedule = agent @ lit ''/'' @ schedule @ lit ''/''"

definition clear_pair :: "notify_dedup \<Rightarrow> rstr \<Rightarrow> rstr \<Rightarrow> notify_dedup" where
  "clear_pair d agent schedule =
     (\<lambda>k. if starts_with (pair_prefix agent schedule) k then None else d k)"

text \<open>The \<open>bool\<close> \<open>clear_pair\<close> returns: whether any episode was removed.  The keys are the table's
  domain, given as the list the \<open>BTreeMap\<close> iterates.\<close>

definition clear_pair_found :: "rstr list \<Rightarrow> rstr \<Rightarrow> rstr \<Rightarrow> bool" where
  "clear_pair_found keys agent schedule = list_ex (starts_with (pair_prefix agent schedule)) keys"

section \<open>The ladder\<close>

interpretation notify: backoff_ladder backoff_seconds
  "\<lambda>n t now. should_notify (Some \<lparr> ae_first_notified_at = f, ae_last_notified_at = t, ae_count = n \<rparr>) now"
  for f
proof
  show "0 \<le> s" if "s \<in> set backoff_seconds" for s
    using that by (auto simp: backoff_seconds_def)
next
  fix t now n assume "t \<le> (now::int)"
  then show "should_notify (Some \<lparr>ae_first_notified_at = f, ae_last_notified_at = t, ae_count = n\<rparr>) now
      \<longleftrightarrow> t + rung backoff_seconds n \<le> now"
    by (cases n) (auto simp: should_notify_def rung_def Let_def backoff_seconds_def)
qed

end
