(* ===== verification/Memo.thy ===== *)
theory Memo
  imports Manifest Tables
begin

text \<open>
  Facts an agent's output asks to keep: \<open>dotagent-assistant/src/memo.rs\<close> (the \<open>MEMO:\<close> line
  format and the bounded recall block), \<open>commands/memory_capture.rs\<close> (capture from a plain
  agent's stdout) and \<open>merge\<close> of \<open>commands/memory_extract.rs\<close>.  The memory store itself and its
  \<open>dedup_key\<close> are parameters.
\<close>

record captured_memo =
  cm_text :: rstr
  cm_topics :: "rstr list"

definition topic_list :: "rstr \<Rightarrow> rstr list" where
  "topic_list s = filter (\<lambda>t. t \<noteq> []) (map trim (split_on 44 s))"

definition parse_memo_line :: "rstr \<Rightarrow> captured_memo option" where
  "parse_memo_line line = (
     case strip_prefix (lit ''MEMO:'') (trim line) of
       None \<Rightarrow> None
     | Some rest \<Rightarrow>
         (case (case split_once 124 rest of
                  Some (fct, tl_part) \<Rightarrow>
                    (case strip_prefix (lit ''topics:'') (trim tl_part) of
                       None \<Rightarrow> None
                     | Some ts \<Rightarrow> Some (fct, topic_list ts))
                | None \<Rightarrow> Some (rest, [])) of
            None \<Rightarrow> None
          | Some (fct, topics) \<Rightarrow>
              if trim fct = [] then None
              else Some \<lparr> cm_text = trim fct, cm_topics = topics \<rparr>))"

definition strip_memos :: "rstr \<Rightarrow> rstr \<times> captured_memo list" where
  "strip_memos reply = (
     let memos = List.map_filter parse_memo_line (str_lines reply);
         kept = filter (\<lambda>l. parse_memo_line l = None) (str_lines reply)
     in (trim_end (join (lit ''\<newline>'') kept), memos))"

section \<open>Recall block\<close>

record memory_context =
  mx_entries :: "captured_memo list"
  mx_topics :: "rstr list"

definition collapse :: "rstr \<Rightarrow> rstr" where
  "collapse text = join (lit '' '') (split_ws text)"

definition render_topics :: "rstr list \<Rightarrow> rstr option" where
  "render_topics topics = (
     let ts = filter (\<lambda>t. t \<noteq> []) (map trim topics)
     in if ts = [] then None else Some (join (lit '', '') ts))"

definition memory_header :: rstr where "memory_header = lit ''## Memory''"
definition topics_prefix :: rstr where "topics_prefix = lit ''Topics in use: ''"

definition render_bullet :: "captured_memo \<Rightarrow> rstr option" where
  "render_bullet e = (
     let text = collapse (cm_text e)
     in if text = [] then None
        else case render_topics (cm_topics e) of
               Some topics \<Rightarrow> Some (lit ''- '' @ text @ lit '' ['' @ topics @ lit '']'')
             | None \<Rightarrow> Some (lit ''- '' @ text))"

text \<open>The loop over the entries: skip one without text, stop at the first that does not fit.\<close>

fun take_bullets :: "nat \<Rightarrow> nat \<Rightarrow> captured_memo list \<Rightarrow> nat \<times> rstr list" where
  "take_bullets max_bytes used [] = (used, [])"
| "take_bullets max_bytes used (e # es) =
     (case render_bullet e of
        None \<Rightarrow> take_bullets max_bytes used es
      | Some bullet \<Rightarrow>
          if used + 1 + byte_len bullet > max_bytes then (used, [])
          else let (used', bs) = take_bullets max_bytes (used + 1 + byte_len bullet) es
               in (used', bullet # bs))"

definition assemble_context_block :: "memory_context \<Rightarrow> nat \<Rightarrow> rstr" where
  "assemble_context_block context max_bytes = (
     let (used, bullets) = take_bullets max_bytes (byte_len memory_header) (mx_entries context)
     in if bullets = [] then []
        else let block = memory_header @ lit ''\<newline>'' @ join (lit ''\<newline>'') bullets
             in case render_topics (mx_topics context) of
                  Some topics \<Rightarrow>
                    let line = topics_prefix @ topics
                    in if used + 2 + byte_len line \<le> max_bytes
                       then block @ lit ''\<newline>\<newline>'' @ line else block
                | None \<Rightarrow> block)"

section \<open>Capture from plain agents\<close>

definition harness_captures :: "agent_manifest \<Rightarrow> bool" where
  "harness_captures m = (case mf_assistant m of Some a \<Rightarrow> ac_enabled a \<and> ac_memory a | None \<Rightarrow> False)"

fun push_topics :: "rstr list \<Rightarrow> rstr list \<Rightarrow> rstr list" where
  "push_topics [] topics = topics"
| "push_topics (t # ts) topics = push_topics ts (if t \<in> set topics then topics else topics @ [t])"

definition with_topics :: "rstr list \<Rightarrow> captured_memo list \<Rightarrow> captured_memo list" where
  "with_topics ts memos = map (\<lambda>mm. mm\<lparr> cm_topics := push_topics ts (cm_topics mm) \<rparr>) memos"

definition capture :: "agent_manifest \<Rightarrow> rstr \<Rightarrow> int \<Rightarrow> captured_memo list" where
  "capture m stdout exit_code = (
     case mf_memory m of
       None \<Rightarrow> []
     | Some config \<Rightarrow>
         if \<not> mc_capture config then []
         else if harness_captures m then []
         else if exit_code \<noteq> 0 then []
         else with_topics (mc_topics config) (snd (strip_memos stdout)))"

definition memory_extractor :: "agent_manifest \<Rightarrow> assistant_extractor option" where
  "memory_extractor m = (
     case mf_memory m of
       None \<Rightarrow> None
     | Some config \<Rightarrow>
         if \<not> mc_capture config then None
         else if harness_captures m then None
         else mc_extractor config)"

definition add_topics :: "agent_manifest \<Rightarrow> captured_memo list \<Rightarrow> captured_memo list" where
  "add_topics m memos = (case mf_memory m of
     None \<Rightarrow> memos | Some config \<Rightarrow> with_topics (mc_topics config) memos)"

fun merge_memos :: "(rstr \<Rightarrow> rstr) \<Rightarrow> captured_memo list \<Rightarrow> captured_memo list \<Rightarrow> captured_memo list" where
  "merge_memos dedup_key out [] = out"
| "merge_memos dedup_key out (mm # ms) =
     (if list_ex (\<lambda>x. dedup_key (cm_text x) = dedup_key (cm_text mm)) out
      then merge_memos dedup_key out ms
      else merge_memos dedup_key (out @ [mm]) ms)"

section \<open>Facts\<close>

lemma byte_len_lit_newline [simp]: "byte_len (lit ''\<newline>'') = 1" "byte_len (lit ''\<newline>\<newline>'') = 2"
  by (simp_all add: lit_def byte_len_def utf8_width_def)

lemma byte_len_Nil [simp]: "byte_len [] = 0"
  by (simp add: byte_len_def)

lemma byte_len_join:
  "ps \<noteq> [] \<Longrightarrow> byte_len (join sep ps) + byte_len sep = sum_list (map (\<lambda>p. byte_len p + byte_len sep) ps)"
  by (induction sep ps rule: join.induct) (simp_all add: byte_len_append)

lemma take_bullets_used:
  assumes "take_bullets max_bytes used es = (used', bs)"
  shows "used' = used + sum_list (map (\<lambda>b. byte_len b + 1) bs)
    \<and> (bs \<noteq> [] \<longrightarrow> used' \<le> max_bytes)"
  using assms
proof (induction max_bytes used es arbitrary: used' bs rule: take_bullets.induct)
  case (2 max_bytes used e es)
  show ?case
  proof (cases "render_bullet e")
    case None
    then have "take_bullets max_bytes used es = (used', bs)" using 2(3) by simp
    then show ?thesis using 2(1)[OF None] by blast
  next
    case (Some b)
    show ?thesis
    proof (cases "used + 1 + byte_len b > max_bytes")
      case True
      then show ?thesis using 2(3) Some by simp
    next
      case False
      obtain u cs where r: "take_bullets max_bytes (used + 1 + byte_len b) es = (u, cs)" by fastforce
      have "used' = u" "bs = b # cs" using 2(3) Some False r by simp_all
      then show ?thesis using 2(2)[OF Some False r] False by (cases "cs = []") auto
    qed
  qed
qed simp

lemma render_bullet_not_Nil: "render_bullet e = Some b \<Longrightarrow> b \<noteq> []"
  by (auto simp: render_bullet_def Let_def split: if_splits option.splits)

lemma take_bullets_nonempty:
  "take_bullets max_bytes used es = (used', bs) \<Longrightarrow> [] \<notin> set bs"
  by (induction max_bytes used es arbitrary: used' bs rule: take_bullets.induct)
    (auto split: option.splits if_splits prod.splits dest: render_bullet_not_Nil)

text \<open>What is left of a reply after stripping shows no memo line, whatever the blank characters
  around it.\<close>

lemma parse_memo_line_trim: "trim l = trim l' \<Longrightarrow> parse_memo_line l = parse_memo_line l'"
  by (simp add: parse_memo_line_def)

lemma strip_memos_clean:
  assumes "l \<in> set (str_lines (fst (strip_memos reply)))"
  shows "parse_memo_line l = None"
proof -
  define kept where "kept = filter (\<lambda>l. parse_memo_line l = None) (str_lines reply)"
  have nl: "\<forall>p\<in>set kept. 10 \<notin> set p"
    using lines_of_pieces_trim split_on_pieces by (fastforce simp: kept_def str_lines_def)
  have f: "fst (strip_memos reply) = trim_end (join [10] kept)"
    by (simp add: strip_memos_def kept_def Let_def lit_def)
  obtain w where w: "join [10] kept = trim_end (join [10] kept) @ w" "\<forall>x\<in>set w. is_ws x"
    using trim_end_split by blast
  obtain p where p: "p \<in> set (split_on 10 (trim_end (join [10] kept)))" "trim l = trim p"
    using assms lines_of_pieces_trim unfolding f str_lines_def by blast
  obtain p' where p': "p' \<in> set (split_on 10 (join [10] kept))" "trim p = trim p'"
    using split_on_ws_end[OF w(2) p(1)] w(1) by auto
  have "kept \<noteq> []"
  proof
    assume "kept = []"
    then show False using assms unfolding f by (simp add: str_lines_def trim_end_def)
  qed
  then have "p' \<in> set kept" using p'(1) split_on_join[OF _ nl] by simp
  then have "parse_memo_line p' = None" by (simp add: kept_def)
  then show ?thesis using parse_memo_line_trim[of l p'] p(2) p'(2) by simp
qed

text \<open>The recall block injected before a run never exceeds its byte budget, and it is either
  empty or starts with its header: the header never travels alone.\<close>

theorem context_block_bounded:
  "assemble_context_block context max_bytes = []
   \<or> byte_len (assemble_context_block context max_bytes) \<le> max_bytes
     \<and> (\<exists>rest. rest \<noteq> [] \<and> assemble_context_block context max_bytes = memory_header @ lit ''\<newline>'' @ rest)"
proof -
  obtain used bs where t: "take_bullets max_bytes (byte_len memory_header) (mx_entries context) = (used, bs)"
    by fastforce
  note u = take_bullets_used[OF t]
  define block where "block = memory_header @ lit ''\<newline>'' @ join (lit ''\<newline>'') bs"
  show ?thesis
  proof (cases "bs = []")
    case True
    then show ?thesis by (simp add: assemble_context_block_def t)
  next
    case False
    have b: "byte_len block = used"
      using byte_len_join[OF False, of "lit ''\<newline>''"] u by (simp add: block_def byte_len_append)
    have ne: "join (lit ''\<newline>'') bs \<noteq> []"
      using take_bullets_nonempty[OF t] False by (cases bs; cases "tl bs") auto
    show ?thesis
      using False u b ne unfolding assemble_context_block_def t
      by (auto simp: Let_def block_def[symmetric] byte_len_append split: option.split)
        (auto simp: block_def)
  qed
qed

end
