(* ===== verification/Hooks.thy ===== *)
theory Hooks
  imports State_Store Audit_Event Dedup Memo
begin

text \<open>
  \<open>dotagent-runner/src/hooks.rs\<close> and \<open>notifiers.rs\<close>: the plugins and notifiers a run fires.  What
  the daemon can observe of the outside is the record \<open>world\<close>: the state files, the sent-message
  table, the alert episodes, and the trace of calls made so far (audit appends, plugin
  invocations, driver sends, process runs, memory writes), in order.  What the outside answers is
  the record \<open>outside\<close>, every answer a function of the trace so far: plugins, notification drivers
  and the clock may answer differently each time they are asked.  Log lines are dropped.
\<close>

section \<open>The outside\<close>

datatype plugin_kind = Notify | Preflight | Sink

record invoke_payload =
  ip_kind :: plugin_kind
  ip_agent :: rstr
  ip_schedule :: rstr
  ip_event :: rstr
  ip_message :: "rstr option"
  ip_config :: json

record plugin_response =
  rsp_ok :: bool
  rsp_error :: "rstr option"
  rsp_extra :: "(rstr \<times> json) list"

record notify_context =
  nc_agent :: rstr
  nc_schedule :: rstr
  nc_event :: rstr
  nc_message :: rstr

datatype notify_error =
  NotifyIo | NotifyJson | NotifyDesktop rstr | NotifyConfig rstr | Skipped rstr
| UnsupportedPlatform rstr | InvalidDriver rstr | Backend rstr

record telegram_send_result =
  tr_message_id :: int
  tr_chat_id :: "int option"

datatype effect =
  Audited audit_event
| Invoked rstr invoke_payload "nat option"
| Sent notifier_config notify_context
| Started rstr rstr "rstr list"
| Extracted rstr rstr "rstr option"
| Filed rstr "captured_memo list"

record world =
  wo_store :: store
  wo_sent :: "sent_messages on_disk"
  wo_dedup :: notify_dedup
  wo_trace :: "effect list"

record outside =
  or_invoke :: "effect list \<Rightarrow> rstr \<Rightarrow> invoke_payload \<Rightarrow> nat option \<Rightarrow> rstr + plugin_response"
  or_send :: "effect list \<Rightarrow> notifier_config \<Rightarrow> notify_context \<Rightarrow> notify_error + int option"
  or_telegram :: "effect list \<Rightarrow> telegram_config \<Rightarrow> notify_context
      \<Rightarrow> notify_error + telegram_send_result option"
  or_now :: "effect list \<Rightarrow> instant"
  or_write_ok :: "effect list \<Rightarrow> rstr \<Rightarrow> bool"

definition emit :: "effect \<Rightarrow> world \<Rightarrow> world" where
  "emit e w = w\<lparr> wo_trace := wo_trace w @ [e] \<rparr>"

definition audit_append :: "bool \<Rightarrow> audit_event \<Rightarrow> world \<Rightarrow> world" where
  "audit_append has_audit ev w = (if has_audit then emit (Audited ev) w else w)"

section \<open>Plugin hooks (hooks.rs)\<close>

record preflight_outcome =
  po_passed :: bool
  po_failed_plugin :: "rstr option"
  po_suggest :: "rstr option"

definition suggest_of :: "plugin_response \<Rightarrow> rstr option" where
  "suggest_of r = (case map_of (rsp_extra r) (lit ''suggest'') of
     Some (JString s) \<Rightarrow> Some s | _ \<Rightarrow> None)"

definition invoke_plugin ::
    "outside \<Rightarrow> rstr \<Rightarrow> invoke_payload \<Rightarrow> nat option \<Rightarrow> world \<Rightarrow> (rstr + plugin_response) \<times> world" where
  "invoke_plugin q plugin payload timeout w =
     (or_invoke q (wo_trace w) plugin payload timeout, emit (Invoked plugin payload timeout) w)"

fun run_preflight_refs ::
    "outside \<Rightarrow> bool \<Rightarrow> rstr \<Rightarrow> rstr \<Rightarrow> plugin_ref list \<Rightarrow> world \<Rightarrow> preflight_outcome \<times> world" where
  "run_preflight_refs q has_audit agent schedule_id [] w =
     (\<lparr> po_passed = True, po_failed_plugin = None, po_suggest = None \<rparr>, w)"
| "run_preflight_refs q has_audit agent schedule_id (pref # prefs) w =
     (let payload = \<lparr> ip_kind = Preflight, ip_agent = agent, ip_schedule = schedule_id,
                      ip_event = lit ''preflight'', ip_message = None, ip_config = pr_config pref \<rparr>;
          (result, w1) = invoke_plugin q (pr_plugin pref) payload (pr_timeout_seconds pref) w;
          ok = (case result of Inr r \<Rightarrow> rsp_ok r | Inl _ \<Rightarrow> False);
          w2 = audit_append has_audit
                 (PluginInvoked agent (pr_plugin pref) (lit ''preflight'') ok) w1
      in if \<not> ok
         then let suggest = (case result of Inr r \<Rightarrow> suggest_of r | Inl _ \<Rightarrow> None)
              in (\<lparr> po_passed = False, po_failed_plugin = Some (pr_plugin pref), po_suggest = suggest \<rparr>,
                  audit_append has_audit
                    (PreflightFailed agent schedule_id (pr_plugin pref) suggest) w2)
         else run_preflight_refs q has_audit agent schedule_id prefs w2)"

definition run_preflight ::
    "outside \<Rightarrow> bool \<Rightarrow> agent_manifest \<Rightarrow> rstr \<Rightarrow> world \<Rightarrow> preflight_outcome \<times> world" where
  "run_preflight q has_audit manifest schedule_id w =
     run_preflight_refs q has_audit (am_name (mf_agent manifest)) schedule_id (mf_preflight manifest) w"

definition event_matches :: "rstr list \<Rightarrow> rstr \<Rightarrow> bool" where
  "event_matches flt event \<longleftrightarrow> flt = [] \<or> list_ex (\<lambda>e. e = event) flt"

fun kind_name :: "plugin_kind \<Rightarrow> rstr" where
  "kind_name Notify = lit ''notify''"
| "kind_name Preflight = lit ''preflight''"
| "kind_name Sink = lit ''sink''"

fun fire_hooks :: "outside \<Rightarrow> bool \<Rightarrow> plugin_ref list \<Rightarrow> rstr \<Rightarrow> rstr \<Rightarrow> rstr \<Rightarrow> rstr
    \<Rightarrow> plugin_kind \<Rightarrow> world \<Rightarrow> world" where
  "fire_hooks q has_audit [] agent schedule_id event message kind w = w"
| "fire_hooks q has_audit (hook # hooks) agent schedule_id event message kind w =
     (if \<not> event_matches (pr_events hook) event
      then fire_hooks q has_audit hooks agent schedule_id event message kind w
      else let payload = \<lparr> ip_kind = kind, ip_agent = agent, ip_schedule = schedule_id,
                           ip_event = event, ip_message = Some message, ip_config = pr_config hook \<rparr>;
               (result, w1) = invoke_plugin q (pr_plugin hook) payload (pr_timeout_seconds hook) w;
               ok = (case result of Inr r \<Rightarrow> rsp_ok r | Inl _ \<Rightarrow> False);
               w2 = audit_append has_audit (PluginInvoked agent (pr_plugin hook) (kind_name kind) ok) w1
           in fire_hooks q has_audit hooks agent schedule_id event message kind w2)"

definition fire_on_success ::
    "outside \<Rightarrow> bool \<Rightarrow> agent_manifest \<Rightarrow> rstr \<Rightarrow> rstr \<Rightarrow> world \<Rightarrow> world" where
  "fire_on_success q has_audit manifest schedule_id message w =
     fire_hooks q has_audit (mf_on_success manifest) (am_name (mf_agent manifest)) schedule_id
       (lit ''success'') message Sink w"

definition fire_on_failure ::
    "outside \<Rightarrow> bool \<Rightarrow> agent_manifest \<Rightarrow> rstr \<Rightarrow> rstr \<Rightarrow> rstr \<Rightarrow> world \<Rightarrow> world" where
  "fire_on_failure q has_audit manifest schedule_id event message w =
     fire_hooks q has_audit (mf_on_failure manifest) (am_name (mf_agent manifest)) schedule_id
       event message Notify w"

section \<open>Built-in notifiers (notifiers.rs)\<close>

definition resolve_body :: "rstr \<Rightarrow> rstr \<Rightarrow> rstr \<Rightarrow> rstr \<Rightarrow> rstr option" where
  "resolve_body agent schedule event message =
     (if trim message \<noteq> [] then Some message
      else if event = lit ''success'' then None
      else Some (agent @ lit ''/'' @ schedule @ lit '': '' @ event @ lit '' (no output)''))"

definition sent_file :: rstr where
  "sent_file = lit ''telegram-sent''"

text \<open>The result of the store write is only logged by the caller, so it is not returned.\<close>

definition record_sent_message ::
    "outside \<Rightarrow> notifier_entry \<Rightarrow> int \<Rightarrow> rstr option \<Rightarrow> notify_context \<Rightarrow> world \<Rightarrow> world" where
  "record_sent_message q entry message_id canonical_chat_id ctx w =
     (let message = \<lparr> sm_chat_id = None, sm_agent = nc_agent ctx, sm_schedule = nc_schedule ctx,
                      sm_event = nc_event ctx, sm_at = timestamp (or_now q (wo_trace w)) \<rparr>;
          ok = or_write_ok q (wo_trace w) sent_file
      in case ne_config entry of
           Telegram config \<Rightarrow>
             (case (case canonical_chat_id of
                      Some c \<Rightarrow> Some c
                    | None \<Rightarrow> if parse_i64 (tg_chat_id config) \<noteq> None
                              then Some (tg_chat_id config) else None) of
                None \<Rightarrow> w
              | Some chat_id \<Rightarrow>
                  w\<lparr> wo_sent := snd (sent_record_for_chat ok (wo_sent w) chat_id message_id message) \<rparr>)
         | _ \<Rightarrow> w\<lparr> wo_sent := snd (sent_record ok (wo_sent w) message_id message) \<rparr>)"

definition audit_notifier :: "bool \<Rightarrow> rstr \<Rightarrow> rstr \<Rightarrow> bool \<Rightarrow> world \<Rightarrow> world" where
  "audit_notifier has_audit agent driver ok w =
     audit_append has_audit (PluginInvoked agent (lit ''notifier:'' @ driver) (lit ''notify'') ok) w"

definition send_native ::
    "outside \<Rightarrow> notifier_config \<Rightarrow> notify_context \<Rightarrow> world
     \<Rightarrow> ((notify_error + int option) \<times> rstr option) \<times> world" where
  "send_native q config ctx w =
     (let t = wo_trace w; w' = emit (Sent config ctx) w
      in case config of
           Telegram c \<Rightarrow>
             (case or_telegram q t c ctx of
                Inl e \<Rightarrow> ((Inl e, None), w')
              | Inr None \<Rightarrow> ((Inr None, None), w')
              | Inr (Some r) \<Rightarrow> ((Inr (Some (tr_message_id r)), map_option show_int (tr_chat_id r)), w'))
         | _ \<Rightarrow> ((or_send q t config ctx, None), w'))"

definition fire_entry ::
    "outside \<Rightarrow> bool \<Rightarrow> bool \<Rightarrow> notify_context \<Rightarrow> notifier_entry \<Rightarrow> world \<Rightarrow> world" where
  "fire_entry q has_plugins has_audit ctx entry w =
     (if \<not> matches_event entry (nc_event ctx) then w
      else case ne_config entry of
        Plugin p \<Rightarrow>
          if \<not> has_plugins then w
          else let payload = \<lparr> ip_kind = Notify, ip_agent = nc_agent ctx, ip_schedule = nc_schedule ctx,
                               ip_event = nc_event ctx, ip_message = Some (nc_message ctx),
                               ip_config = pn_config p \<rparr>;
                   (result, w1) = invoke_plugin q (pn_name p) payload None w;
                   ok = (case result of Inr r \<Rightarrow> rsp_ok r | Inl _ \<Rightarrow> False)
               in audit_append has_audit
                    (PluginInvoked (nc_agent ctx) (pn_name p) (lit ''notify'') ok) w1
      | config \<Rightarrow>
          let ((outcome, canonical_chat_id), w1) = send_native q config ctx w;
              w2 = (case outcome of
                      Inr (Some message_id) \<Rightarrow>
                        record_sent_message q entry message_id canonical_chat_id ctx w1
                    | _ \<Rightarrow> w1);
              ok = (case outcome of Inr _ \<Rightarrow> True | Inl (Skipped _) \<Rightarrow> True | Inl _ \<Rightarrow> False)
          in audit_notifier has_audit (nc_agent ctx) (driver_name config) ok w2)"

definition fire_notifier_entries :: "outside \<Rightarrow> bool \<Rightarrow> bool \<Rightarrow> rstr \<Rightarrow> notifier_entry list
    \<Rightarrow> rstr \<Rightarrow> rstr \<Rightarrow> rstr \<Rightarrow> world \<Rightarrow> world" where
  "fire_notifier_entries q has_plugins has_audit agent entries schedule_id event message w =
     (case resolve_body agent schedule_id event message of
        None \<Rightarrow> w
      | Some body \<Rightarrow>
          let ctx = \<lparr> nc_agent = agent, nc_schedule = schedule_id, nc_event = event,
                      nc_message = body \<rparr>
          in fold (fire_entry q has_plugins has_audit ctx) entries w)"

definition fire_notifiers ::
    "outside \<Rightarrow> bool \<Rightarrow> bool \<Rightarrow> agent_manifest \<Rightarrow> rstr \<Rightarrow> rstr \<Rightarrow> rstr \<Rightarrow> world \<Rightarrow> world" where
  "fire_notifiers q has_plugins has_audit manifest schedule_id event message w =
     fire_notifier_entries q has_plugins has_audit (am_name (mf_agent manifest))
       (mf_notifiers manifest) schedule_id event message w"

section \<open>What firing leaves alone\<close>

lemma emit_fields [simp]:
  "wo_store (emit e w) = wo_store w" "wo_sent (emit e w) = wo_sent w"
  "wo_dedup (emit e w) = wo_dedup w" "wo_trace (emit e w) = wo_trace w @ [e]"
  by (simp_all add: emit_def)

lemma audit_append_fields [simp]:
  "wo_store (audit_append b ev w) = wo_store w" "wo_sent (audit_append b ev w) = wo_sent w"
  "wo_dedup (audit_append b ev w) = wo_dedup w"
  by (simp_all add: audit_append_def)

lemma record_sent_fields [simp]:
  "wo_store (record_sent_message q e m c ctx w) = wo_store w"
  "wo_dedup (record_sent_message q e m c ctx w) = wo_dedup w"
  "wo_trace (record_sent_message q e m c ctx w) = wo_trace w"
  by (simp_all add: record_sent_message_def Let_def split: notifier_config.splits option.splits)

lemma invoke_plugin_simps [simp]:
  "invoke_plugin q p pl t w = (or_invoke q (wo_trace w) p pl t, emit (Invoked p pl t) w)"
  by (simp add: invoke_plugin_def)

lemma run_preflight_fields [simp]:
  "wo_store (snd (run_preflight q b m s w)) = wo_store w"
  "wo_dedup (snd (run_preflight q b m s w)) = wo_dedup w"
proof -
  have "wo_store (snd (run_preflight_refs q b a s ps w)) = wo_store w
      \<and> wo_dedup (snd (run_preflight_refs q b a s ps w)) = wo_dedup w" for a ps
    by (induction q b a s ps w rule: run_preflight_refs.induct) (auto simp: Let_def split: sum.splits)
  then show "wo_store (snd (run_preflight q b m s w)) = wo_store w"
    "wo_dedup (snd (run_preflight q b m s w)) = wo_dedup w"
    by (simp_all add: run_preflight_def)
qed

lemma fire_hooks_fields [simp]:
  "wo_store (fire_hooks q b hs a s ev msg k w) = wo_store w"
  "wo_dedup (fire_hooks q b hs a s ev msg k w) = wo_dedup w"
  "wo_sent (fire_hooks q b hs a s ev msg k w) = wo_sent w"
  by (induction q b hs a s ev msg k w rule: fire_hooks.induct) (simp_all add: Let_def)

lemma fire_on_fields [simp]:
  "wo_store (fire_on_success q b m s msg w) = wo_store w"
  "wo_dedup (fire_on_success q b m s msg w) = wo_dedup w"
  "wo_store (fire_on_failure q b m s ev msg w) = wo_store w"
  "wo_dedup (fire_on_failure q b m s ev msg w) = wo_dedup w"
  by (simp_all add: fire_on_success_def fire_on_failure_def)

lemma send_native_fields [simp]:
  "snd (send_native q c ctx w) = emit (Sent c ctx) w"
  by (simp add: send_native_def Let_def split: notifier_config.splits sum.splits option.splits)

lemma fire_entry_fields [simp]:
  "wo_store (fire_entry q p b ctx e w) = wo_store w"
  "wo_dedup (fire_entry q p b ctx e w) = wo_dedup w"
proof -
  have "wo_store (snd (send_native q c ctx w)) = wo_store w"
    "wo_dedup (snd (send_native q c ctx w)) = wo_dedup w" for c by simp_all
  then show "wo_store (fire_entry q p b ctx e w) = wo_store w"
    "wo_dedup (fire_entry q p b ctx e w) = wo_dedup w"
    by (auto simp: fire_entry_def audit_notifier_def Let_def case_prod_beta
        simp del: send_native_fields split: notifier_config.splits sum.splits option.splits)
qed

lemma fire_notifiers_fields [simp]:
  "wo_store (fire_notifiers q p b m s ev msg w) = wo_store w"
  "wo_dedup (fire_notifiers q p b m s ev msg w) = wo_dedup w"
proof -
  have "wo_store (fold (fire_entry q p b ctx) es w) = wo_store w
      \<and> wo_dedup (fold (fire_entry q p b ctx) es w) = wo_dedup w" for ctx es w
    by (induction es arbitrary: w) simp_all
  then show "wo_store (fire_notifiers q p b m s ev msg w) = wo_store w"
    "wo_dedup (fire_notifiers q p b m s ev msg w) = wo_dedup w"
    by (simp_all add: fire_notifiers_def fire_notifier_entries_def Let_def split: option.split)
qed

section \<open>What is called, in order\<close>

definition invoked :: "effect list \<Rightarrow> rstr list" where
  "invoked t = List.map_filter (\<lambda>e. case e of Invoked p _ _ \<Rightarrow> Some p | _ \<Rightarrow> None) t"

definition deliveries :: "effect list \<Rightarrow> (notifier_config \<times> notify_context) list" where
  "deliveries t = List.map_filter (\<lambda>e. case e of Sent c ctx \<Rightarrow> Some (c, ctx) | _ \<Rightarrow> None) t"

lemma map_filter_append: "List.map_filter f (xs @ ys) = List.map_filter f xs @ List.map_filter f ys"
  by (simp add: List.map_filter_def)

lemma invoked_simps [simp]:
  "invoked [] = []" "invoked (t @ u) = invoked t @ invoked u"
  "invoked (Invoked p pl tm # t) = p # invoked t" "invoked (Audited ev # t) = invoked t"
  "invoked (Sent c ctx # t) = invoked t"
  by (simp_all add: invoked_def map_filter_append List.map_filter_simps)

lemma deliveries_simps [simp]:
  "deliveries [] = []" "deliveries (t @ u) = deliveries t @ deliveries u"
  "deliveries (Invoked p pl tm # t) = deliveries t" "deliveries (Audited ev # t) = deliveries t"
  "deliveries (Sent c ctx # t) = (c, ctx) # deliveries t"
  by (simp_all add: deliveries_def map_filter_append List.map_filter_simps)

lemma audit_append_trace [simp]:
  "invoked (wo_trace (audit_append b ev w)) = invoked (wo_trace w)"
  "deliveries (wo_trace (audit_append b ev w)) = deliveries (wo_trace w)"
  by (simp_all add: audit_append_def)

lemma preflight_refs_order:
  "case run_preflight_refs q b a s prefs w of (out, w') \<Rightarrow>
    \<exists>run rest. prefs = run @ rest \<and> invoked (wo_trace w') = invoked (wo_trace w) @ map pr_plugin run
      \<and> (if po_passed out then rest = []
         else run \<noteq> [] \<and> po_failed_plugin out = Some (pr_plugin (last run)))"
proof (induction prefs arbitrary: w)
  case (Cons pref prefs)
  define pl where "pl = \<lparr> ip_kind = Preflight, ip_agent = a, ip_schedule = s,
    ip_event = lit ''preflight'', ip_message = None, ip_config = pr_config pref \<rparr>"
  define ok where "ok = (case or_invoke q (wo_trace w) (pr_plugin pref) pl (pr_timeout_seconds pref) of
    Inr r \<Rightarrow> rsp_ok r | Inl _ \<Rightarrow> False)"
  show ?case
  proof (cases ok)
    case False
    then show ?thesis
      by (simp add: Let_def pl_def[symmetric] ok_def[symmetric])
        (intro exI[of _ "[pref]"] exI[of _ prefs], simp)
  next
    case True
    define w2 where "w2 = audit_append b (PluginInvoked a (pr_plugin pref) (lit ''preflight'') ok)
      (emit (Invoked (pr_plugin pref) pl (pr_timeout_seconds pref)) w)"
    have "run_preflight_refs q b a s (pref # prefs) w = run_preflight_refs q b a s prefs w2"
      using True by (simp add: Let_def pl_def[symmetric] ok_def[symmetric] w2_def)
    moreover have "invoked (wo_trace w2) = invoked (wo_trace w) @ [pr_plugin pref]"
      by (simp add: w2_def)
    moreover obtain out w' where r: "run_preflight_refs q b a s prefs w2 = (out, w')"
      by fastforce
    moreover obtain run rest where "prefs = run @ rest"
      "invoked (wo_trace w') = invoked (wo_trace w2) @ map pr_plugin run"
      "if po_passed out then rest = []
       else run \<noteq> [] \<and> po_failed_plugin out = Some (pr_plugin (last run))"
      using Cons.IH[of w2] r by auto
    ultimately show ?thesis
      by (intro case_prodI2 exI[of _ "pref # run"] exI[of _ rest]) (auto split: if_splits)
  qed
qed simp

text \<open>Preflight runs the plugins in declaration order and stops at the first that does not
  answer ok: what was invoked is a prefix of the declared list, all of it exactly when the outcome
  is a pass, and otherwise ending with the plugin the outcome names; and no state file changes.\<close>

theorem preflight_short_circuits:
  "case run_preflight q b m s w of (out, w') \<Rightarrow> wo_store w' = wo_store w \<and>
    (\<exists>run rest. mf_preflight m = run @ rest
      \<and> invoked (wo_trace w') = invoked (wo_trace w) @ map pr_plugin run
      \<and> (if po_passed out then rest = []
         else run \<noteq> [] \<and> po_failed_plugin out = Some (pr_plugin (last run))))"
  using preflight_refs_order[where q = q and b = b and a = "am_name (mf_agent m)" and s = s
      and prefs = "mf_preflight m" and w = w]
    run_preflight_fields(1)[of q b m s w]
  unfolding run_preflight_def by (simp only: case_prod_beta simp_thms)

lemma fire_entry_deliveries:
  "deliveries (wo_trace (fire_entry q p b ctx e w)) = deliveries (wo_trace w) @
     (if matches_event e (nc_event ctx) \<and> is_native e then [(ne_config e, ctx)] else [])"
proof -
  have s: "wo_trace (snd (send_native q c ctx w)) = wo_trace w @ [Sent c ctx]" for c by simp
  show ?thesis
    by (auto simp: fire_entry_def audit_notifier_def Let_def case_prod_beta is_native_def as_plugin_def s
        simp del: send_native_fields split: notifier_config.splits sum.splits option.splits)
qed

lemma fire_entries_deliveries:
  "deliveries (wo_trace (fold (fire_entry q p b ctx) es w)) = deliveries (wo_trace w) @
     map (\<lambda>e. (ne_config e, ctx)) (filter (\<lambda>e. matches_event e (nc_event ctx) \<and> is_native e) es)"
  by (induction es arbitrary: w) (simp_all add: fire_entry_deliveries)

lemma resolve_body_not_blank: "resolve_body a s ev msg = Some body \<Longrightarrow> trim body \<noteq> []"
  by (auto simp: resolve_body_def trim_eq_Nil lit_def is_ws_def split: if_splits)

text \<open>An event reaches every native notifier whose filter matches it, in declaration order,
  once each and with the same body; the only event that can be dropped for lack of a body is a
  success with blank output, and no notifier is ever handed a blank message.\<close>

theorem notifier_deliveries:
  "(case resolve_body (am_name (mf_agent m)) s ev msg of
      None \<Rightarrow> ev = lit ''success'' \<and> trim msg = [] \<and> fire_notifiers q p b m s ev msg w = w
    | Some body \<Rightarrow> trim body \<noteq> [] \<and>
        deliveries (wo_trace (fire_notifiers q p b m s ev msg w)) = deliveries (wo_trace w) @
          map (\<lambda>e. (ne_config e, \<lparr> nc_agent = am_name (mf_agent m), nc_schedule = s, nc_event = ev,
                                  nc_message = body \<rparr>))
            (filter (\<lambda>e. matches_event e ev \<and> is_native e) (mf_notifiers m)))"
  by (auto simp: fire_notifiers_def fire_notifier_entries_def Let_def fire_entries_deliveries
      dest: resolve_body_not_blank split: option.splits)
    (auto simp: resolve_body_def split: if_splits)

end
