(* ===== verification/Protocol.thy ===== *)
theory Protocol
  imports Prelude
begin

text \<open>
  \<open>dotagent-runner/src/protocol.rs\<close>: the JSON-lines frames of a persistent agent.  The JSON
  parser is a parameter (\<open>rstr \<Rightarrow> json option\<close>); the lenient decoding of a parsed object into an
  \<open>InboundFrame\<close> is serde's: an absent field takes its default, a field of the wrong type fails
  the frame.
\<close>

definition protocol_version :: nat where "protocol_version = 1"

record hello_frame =
  hf_v :: nat
  hf_kind :: rstr
  hf_agent :: rstr
  hf_key :: rstr
  hf_schedule :: rstr

definition hello_new :: "rstr \<Rightarrow> rstr \<Rightarrow> rstr \<Rightarrow> hello_frame" where
  "hello_new agent key schedule = \<lparr> hf_v = protocol_version, hf_kind = lit ''hello'',
     hf_agent = agent, hf_key = key, hf_schedule = schedule \<rparr>"

record trigger_frame =
  tf_source :: rstr
  tf_session_id :: "rstr option"
  tf_actor :: "rstr option"
  tf_reply_to :: "rstr option"
  tf_payload :: "json option"

record request_frame =
  rq_v :: nat
  rq_kind :: rstr
  rq_id :: rstr
  rq_agent :: rstr
  rq_schedule :: rstr
  rq_args :: "rstr list"
  rq_deadline_seconds :: nat
  rq_trigger :: "trigger_frame option"

text \<open>\<open>iter().find\<close> over the pairs is \<open>map_of\<close>: the first one wins.\<close>

definition trigger_from_env ::
    "(rstr \<Rightarrow> json option) \<Rightarrow> (rstr \<times> rstr) list \<Rightarrow> trigger_frame option" where
  "trigger_from_env parse extra_env = (
     case map_of extra_env (lit ''AGENT_TRIGGER_SOURCE'') of
       None \<Rightarrow> None
     | Some source \<Rightarrow> Some \<lparr> tf_source = source,
         tf_session_id = map_of extra_env (lit ''AGENT_SESSION_ID''),
         tf_actor = map_of extra_env (lit ''AGENT_TRIGGER_ACTOR''),
         tf_reply_to = map_of extra_env (lit ''AGENT_TRIGGER_REPLY_TO''),
         tf_payload = Option.bind (map_of extra_env (lit ''AGENT_TRIGGER_PAYLOAD'')) parse \<rparr>)"

definition is_trigger_env :: "rstr \<Rightarrow> bool" where
  "is_trigger_env key \<longleftrightarrow> starts_with (lit ''AGENT_TRIGGER_'') key \<or> key = lit ''AGENT_SESSION_ID''"

record inbound_frame =
  if_v :: nat
  if_kind :: "rstr option"
  if_id :: "rstr option"
  if_ok :: bool
  if_output :: "rstr option"
  if_error :: "rstr option"
  if_exit_code :: "int option"

section \<open>Decoding\<close>

definition field_u32 :: "(rstr \<times> json) list \<Rightarrow> rstr \<Rightarrow> nat option" where
  "field_u32 obj key = (case map_of obj key of
     None \<Rightarrow> Some 0
   | Some (JInt i) \<Rightarrow> if 0 \<le> i \<and> i < 2 ^ 32 then Some (nat i) else None
   | Some _ \<Rightarrow> None)"

definition field_opt_string :: "(rstr \<times> json) list \<Rightarrow> rstr \<Rightarrow> rstr option option" where
  "field_opt_string obj key = (case map_of obj key of
     None \<Rightarrow> Some None
   | Some JNull \<Rightarrow> Some None
   | Some (JString s) \<Rightarrow> Some (Some s)
   | Some _ \<Rightarrow> None)"

definition field_bool :: "(rstr \<times> json) list \<Rightarrow> rstr \<Rightarrow> bool \<Rightarrow> bool option" where
  "field_bool obj key d = (case map_of obj key of
     None \<Rightarrow> Some d | Some (JBool b) \<Rightarrow> Some b | Some _ \<Rightarrow> None)"

definition field_opt_i32 :: "(rstr \<times> json) list \<Rightarrow> rstr \<Rightarrow> int option option" where
  "field_opt_i32 obj key = (case map_of obj key of
     None \<Rightarrow> Some None
   | Some JNull \<Rightarrow> Some None
   | Some (JInt i) \<Rightarrow> if - (2 ^ 31) \<le> i \<and> i < 2 ^ 31 then Some (Some i) else None
   | Some _ \<Rightarrow> None)"

definition decode_inbound :: "(rstr \<times> json) list \<Rightarrow> inbound_frame option" where
  "decode_inbound obj = (
     case (field_u32 obj (lit ''v''), field_opt_string obj (lit ''kind''),
           field_opt_string obj (lit ''id''), field_bool obj (lit ''ok'') True,
           field_opt_string obj (lit ''output''), field_opt_string obj (lit ''error''),
           field_opt_i32 obj (lit ''exit_code'')) of
       (Some v, Some k, Some i, Some b, Some out, Some e, Some c) \<Rightarrow>
         Some \<lparr> if_v = v, if_kind = k, if_id = i, if_ok = b, if_output = out, if_error = e,
                if_exit_code = c \<rparr>
     | _ \<Rightarrow> None)"

definition kind_admitted :: "(rstr \<times> json) list \<Rightarrow> bool" where
  "kind_admitted obj = (
     let has_response_field = list_ex (\<lambda>f. map_of obj f \<noteq> None)
           [lit ''id'', lit ''output'', lit ''error'', lit ''exit_code'']
     in case map_of obj (lit ''kind'') of
          Some (JString k) \<Rightarrow> k \<in> {lit ''hello'', lit ''ready'', lit ''response''}
        | Some _ \<Rightarrow> False
        | None \<Rightarrow> has_response_field)"

definition parse_inbound :: "(rstr \<Rightarrow> json option) \<Rightarrow> rstr \<Rightarrow> inbound_frame option" where
  "parse_inbound parse line = (
     let l = trim line
     in if \<not> starts_with (lit ''{'') l then None
        else case parse l of
               Some (JObject obj) \<Rightarrow> if kind_admitted obj then decode_inbound obj else None
             | _ \<Rightarrow> None)"

definition is_ready :: "inbound_frame \<Rightarrow> bool" where
  "is_ready f = (if_kind f = Some (lit ''ready''))"

definition answers :: "inbound_frame \<Rightarrow> rstr \<Rightarrow> bool" where
  "answers f i = (
     if \<not> (if_kind f = Some (lit ''response'') \<or> if_kind f = None) then False
     else case if_id f of Some got \<Rightarrow> got = i | None \<Rightarrow> True)"

definition resolved_exit_code :: "inbound_frame \<Rightarrow> int" where
  "resolved_exit_code f = (case if_exit_code f of
     Some code \<Rightarrow> code | None \<Rightarrow> if if_ok f then 0 else 1)"

lemma decode_inbound_kind:
  "decode_inbound obj = Some f \<Longrightarrow> field_opt_string obj (lit ''kind'') = Some (if_kind f)"
  unfolding decode_inbound_def by (auto split: option.splits)

lemma parse_inbound_kind:
  assumes "parse_inbound parse line = Some f"
  shows "if_kind f \<in> {None, Some (lit ''hello''), Some (lit ''ready''), Some (lit ''response'')}"
proof -
  from assms obtain obj where o: "kind_admitted obj" "decode_inbound obj = Some f"
    by (auto simp: parse_inbound_def Let_def split: if_splits option.splits json.splits)
  note k = decode_inbound_kind[OF o(2)]
  show ?thesis
  proof (cases "map_of obj (lit ''kind'')")
    case None
    then show ?thesis using k by (simp add: field_opt_string_def)
  next
    case (Some v)
    then show ?thesis using k o(1)
      by (cases v) (auto simp: field_opt_string_def kind_admitted_def Let_def)
  qed
qed

end
