(* ===== verification/Runner.thy ===== *)
theory Runner
  imports Hooks Protocol
begin

text \<open>
  \<open>dotagent-runner/src/lib.rs\<close>: one run of an agent, from preflight to the notifications, with
  the heartbeat written around it, and the request-level wrapper of the persistent pool
  (\<open>PersistentPool::dispatch\<close> in \<open>persistent.rs\<close>).  What the child process does (or what the pool's
  exchange answers) is the outside's: the exit status, whether the deadline killed it, its stdout
  lines and its stderr.  Log files and stdout taps are dropped.
\<close>

section \<open>Outcomes\<close>

record run_outcome =
  ro_exit_code :: int
  ro_timed_out :: bool
  ro_duration_seconds :: int
  ro_stdout_tail :: rstr
  ro_stderr_tail :: rstr
  ro_stdout_truncated_lines :: nat
  ro_stderr_truncated_lines :: nat

record request_lost =
  rl_reason :: rstr
  rl_duration_seconds :: int

datatype runner_error =
  RunIo | RunState state_error | RunAudit | RunSpawn rstr | RequestLost request_lost

record run_spec =
  rs_manifest :: agent_manifest
  rs_manifest_dir :: rstr
  rs_schedule_id :: rstr
  rs_args :: "rstr list"
  rs_dry_run :: bool
  rs_manifest_sha256 :: "rstr option"
  rs_slug_override :: "rstr option"
  rs_extra_env :: "(rstr \<times> rstr) list"

definition spec_slug :: "run_spec \<Rightarrow> rstr" where
  "spec_slug spec = (case rs_slug_override spec of
     Some s \<Rightarrow> s | None \<Rightarrow> slug_from_args (rs_args spec))"

definition spec_agent :: "run_spec \<Rightarrow> rstr" where
  "spec_agent spec = am_name (mf_agent (rs_manifest spec))"

datatype orchestrated_outcome =
  PreflightAborted rstr "rstr option"
| Ran run_outcome

definition tail_lines_max :: nat where "tail_lines_max = 500"
definition timed_out_exit_code :: int where "timed_out_exit_code = 124"
definition request_lost_exit_code :: int where "request_lost_exit_code = -1"

record process_exit =
  px_code :: "int option"
  px_timed_out :: bool
  px_stdout :: "rstr list"
  px_stderr :: rstr

datatype process_result =
  SpawnFailed rstr
| WaitIo
| WaitFailed rstr
| Exited process_exit

record run_outside = outside +
  or_tempdir_ok :: "effect list \<Rightarrow> bool"
  or_process :: "effect list \<Rightarrow> run_spec \<Rightarrow> process_result"
  or_exchange :: "effect list \<Rightarrow> run_spec \<Rightarrow> runner_error + run_outcome"

section \<open>Output tails\<close>

text \<open>The stdout reader keeps a ring of the last lines and a count of all of them.\<close>

definition ring_push :: "rstr \<Rightarrow> rstr list \<times> nat \<Rightarrow> rstr list \<times> nat" where
  "ring_push line st = (case st of (tail, cnt) \<Rightarrow>
     ((if length tail = tail_lines_max then tl tail else tail) @ [line], cnt + 1))"

definition read_stdout :: "rstr list \<Rightarrow> rstr list \<times> nat" where
  "read_stdout lines = fold ring_push lines ([], 0)"

definition tail_lines :: "rstr \<Rightarrow> nat \<Rightarrow> rstr \<times> nat" where
  "tail_lines s n = (
     let lines = str_lines s; start = length lines - n
     in (join (lit ''\<newline>'') (drop start lines), start))"

lemma ring_push_drop:
  assumes "st = (drop (length pre - tail_lines_max) pre, length pre)"
  shows "ring_push l st = (drop (length (pre @ [l]) - tail_lines_max) (pre @ [l]), length (pre @ [l]))"
proof (cases "tail_lines_max \<le> length pre")
  case True
  then have "Suc (length pre - tail_lines_max) = length (pre @ [l]) - tail_lines_max" by simp
  moreover have "Suc 0 - tail_lines_max = 0" by (simp add: tail_lines_max_def)
  ultimately show ?thesis using True
    by (simp add: assms ring_push_def tl_drop drop_Suc[symmetric] drop_append)
next
  case False
  then show ?thesis by (simp add: assms ring_push_def)
qed

lemma read_stdout_eq: "read_stdout lines = (drop (length lines - tail_lines_max) lines, length lines)"
proof (induction lines rule: rev_induct)
  case (snoc l lines)
  then show ?case using ring_push_drop[OF snoc, of l] by (simp add: read_stdout_def)
qed (simp add: read_stdout_def)

section \<open>The heartbeat\<close>

definition put_heartbeat :: "'a outside_scheme \<Rightarrow> heartbeat \<Rightarrow> world \<Rightarrow> (runner_error + unit) \<times> world" where
  "put_heartbeat q hb w =
     (let ok = or_write_ok q (wo_trace w) (heartbeat_path (hb_name hb) (hb_slug hb));
          (r, st) = write_heartbeat ok (wo_store w) hb
      in (case r of Inl e \<Rightarrow> Inl (RunState e) | Inr _ \<Rightarrow> Inr (), w\<lparr> wo_store := st \<rparr>))"

definition started_heartbeat ::
    "tz \<Rightarrow> rstr \<Rightarrow> rstr \<Rightarrow> rstr list \<Rightarrow> instant \<Rightarrow> heartbeat option \<Rightarrow> heartbeat" where
  "started_heartbeat z name slug args start prev =
     \<lparr> hb_name = name, hb_slug = slug, hb_args = args,
       hb_started_at = timestamp start, hb_started_at_iso = tz_iso z start,
       hb_finished_at = None, hb_finished_at_iso = None, hb_exit_code = None,
       hb_duration_seconds = None,
       hb_last_success_at = Option.bind prev hb_last_success_at,
       hb_last_success_at_iso = Option.bind prev hb_last_success_at_iso \<rparr>"

definition begin_heartbeat :: "tz \<Rightarrow> 'a outside_scheme \<Rightarrow> rstr \<Rightarrow> rstr \<Rightarrow> rstr list \<Rightarrow> instant
    \<Rightarrow> world \<Rightarrow> (runner_error + unit) \<times> world" where
  "begin_heartbeat z q name slug args start w = (
     case read_heartbeat (wo_store w) name slug of
       Inl e \<Rightarrow> (Inl (RunState e), w)
     | Inr prev \<Rightarrow> put_heartbeat q (started_heartbeat z name slug args start prev) w)"

definition close_heartbeat :: "tz \<Rightarrow> heartbeat \<Rightarrow> instant \<Rightarrow> instant \<Rightarrow> int \<Rightarrow> heartbeat" where
  "close_heartbeat z hb start finish exit_code = (
     let hb1 = hb\<lparr> hb_finished_at := Some (timestamp finish),
                   hb_finished_at_iso := Some (tz_iso z finish),
                   hb_exit_code := Some exit_code,
                   hb_duration_seconds := Some (num_seconds (finish - start)) \<rparr>
     in if exit_code = 0
        then hb1\<lparr> hb_last_success_at := Some (timestamp finish),
                  hb_last_success_at_iso := Some (tz_iso z finish) \<rparr>
        else hb1)"

definition finish_heartbeat :: "tz \<Rightarrow> 'a outside_scheme \<Rightarrow> rstr \<Rightarrow> rstr \<Rightarrow> rstr list \<Rightarrow> instant
    \<Rightarrow> instant \<Rightarrow> int \<Rightarrow> world \<Rightarrow> (runner_error + unit) \<times> world" where
  "finish_heartbeat z q name slug args start finish exit_code w = (
     case read_heartbeat (wo_store w) name slug of
       Inl e \<Rightarrow> (Inl (RunState e), w)
     | Inr found \<Rightarrow>
         let hb = (case found of
                     Some hb \<Rightarrow> hb
                   | None \<Rightarrow> started_heartbeat z name slug args start None)
         in put_heartbeat q (close_heartbeat z hb start finish exit_code) w)"

section \<open>One run\<close>

definition outcome_of :: "process_exit \<Rightarrow> int \<Rightarrow> run_outcome" where
  "outcome_of px duration = (
     let (stdout_lines, stdout_total) = read_stdout (px_stdout px);
         (stderr_tail, stderr_truncated) = tail_lines (px_stderr px) tail_lines_max
     in \<lparr> ro_exit_code = (case px_code px of Some c \<Rightarrow> c
            | None \<Rightarrow> if px_timed_out px then timed_out_exit_code else -1),
          ro_timed_out = px_timed_out px,
          ro_duration_seconds = duration,
          ro_stdout_tail = join (lit ''\<newline>'') stdout_lines,
          ro_stderr_tail = stderr_tail,
          ro_stdout_truncated_lines = stdout_total - tail_lines_max,
          ro_stderr_truncated_lines = stderr_truncated \<rparr>)"

definition run_streaming ::
    "tz \<Rightarrow> run_outside \<Rightarrow> run_spec \<Rightarrow> world \<Rightarrow> (runner_error + run_outcome) \<times> world" where
  "run_streaming z q spec w = (
     let name = spec_agent spec; slug = spec_slug spec; start = or_now q (wo_trace w)
     in case (if rs_dry_run spec then (Inr (), w)
              else begin_heartbeat z q name slug (rs_args spec) start w) of
          (Inl e, w1) \<Rightarrow> (Inl e, w1)
        | (Inr _, w1) \<Rightarrow>
            if \<not> or_tempdir_ok q (wo_trace w1) then (Inl RunIo, w1)
            else let w2 = emit (Started name (rs_schedule_id spec) (rs_args spec)) w1
            in case or_process q (wo_trace w2) spec of
                 SpawnFailed e \<Rightarrow> (Inl (RunSpawn e), w2)
               | WaitIo \<Rightarrow> (Inl RunIo, w2)
               | WaitFailed e \<Rightarrow> (Inl (RunSpawn e), w2)
               | Exited px \<Rightarrow>
                   let finish = or_now q (wo_trace w2);
                       ro = outcome_of px (num_seconds (finish - start))
                   in if rs_dry_run spec then (Inr ro, w2)
                      else case finish_heartbeat z q name slug (rs_args spec) start finish
                                  (ro_exit_code ro) w2 of
                             (Inl e, w3) \<Rightarrow> (Inl e, w3)
                           | (Inr _, w3) \<Rightarrow> (Inr ro, w3))"

text \<open>\<open>PersistentPool::dispatch\<close>: the same heartbeat around a request to a live process.\<close>

definition pool_dispatch ::
    "tz \<Rightarrow> run_outside \<Rightarrow> run_spec \<Rightarrow> world \<Rightarrow> (runner_error + run_outcome) \<times> world" where
  "pool_dispatch z q spec w = (
     let name = spec_agent spec; slug = spec_slug spec; start = or_now q (wo_trace w)
     in case (if rs_dry_run spec then (Inr (), w)
              else begin_heartbeat z q name slug (rs_args spec) start w) of
          (Inl e, w1) \<Rightarrow> (Inl e, w1)
        | (Inr _, w1) \<Rightarrow>
            let w2 = emit (Started name (rs_schedule_id spec) (rs_args spec)) w1;
                finish = or_now q (wo_trace w2)
            in case or_exchange q (wo_trace w2) spec of
                 Inl (RequestLost lost) \<Rightarrow>
                   (Inl (RequestLost lost),
                    if rs_dry_run spec then w2
                    else snd (finish_heartbeat z q name slug (rs_args spec) start finish
                                request_lost_exit_code w2))
               | Inl e \<Rightarrow> (Inl e, w2)
               | Inr ro \<Rightarrow>
                   if rs_dry_run spec then (Inr ro, w2)
                   else case finish_heartbeat z q name slug (rs_args spec) start finish
                               (ro_exit_code ro) w2 of
                          (Inl e, w3) \<Rightarrow> (Inl e, w3)
                        | (Inr _, w3) \<Rightarrow> (Inr ro, w3))"

section \<open>A run with its hooks\<close>

record run_context =
  rx_plugins :: bool
  rx_audit :: bool
  rx_persistent :: bool

definition append_agent_run_audit :: "bool \<Rightarrow> run_spec \<Rightarrow> int \<Rightarrow> int \<Rightarrow> bool \<Rightarrow> world \<Rightarrow> world" where
  "append_agent_run_audit has_audit spec exit_code duration timed_out w =
     audit_append has_audit
       (AgentRun (spec_agent spec) (rs_schedule_id spec) (spec_slug spec)
          (unwrap_or (rs_manifest_sha256 spec) []) exit_code duration timed_out) w"

definition run_event :: "run_outcome \<Rightarrow> rstr" where
  "run_event ro =
     (if ro_exit_code ro = 0 then lit ''success''
      else if ro_timed_out ro then lit ''timed_out'' else lit ''attempt_failed'')"

definition run_message :: "rstr \<Rightarrow> run_outcome \<Rightarrow> rstr" where
  "run_message name ro =
     (if ro_exit_code ro = 0 then ro_stdout_tail ro
      else if ro_stderr_tail ro = []
      then name @ lit '' exited '' @ show_int (ro_exit_code ro) @ lit '' (tail empty)''
      else name @ lit '' exited '' @ show_int (ro_exit_code ro) @ lit ''\<newline>'' @ ro_stderr_tail ro)"

definition run_with_hooks :: "tz \<Rightarrow> run_outside \<Rightarrow> run_context \<Rightarrow> run_spec \<Rightarrow> world
    \<Rightarrow> (runner_error + orchestrated_outcome) \<times> world" where
  "run_with_hooks z q ctx spec w = (
     let manifest = rs_manifest spec; sid = rs_schedule_id spec; q' = outside.truncate q;
         (pre, w1) = (if rx_plugins ctx then run_preflight q' (rx_audit ctx) manifest sid w
                      else (\<lparr> po_passed = True, po_failed_plugin = None, po_suggest = None \<rparr>, w))
     in if \<not> po_passed pre
        then let plugin = unwrap_or (po_failed_plugin pre) [];
                 suggest = po_suggest pre;
                 message = lit ''preflight aborted by plugin '' @ plugin @
                           (case suggest of Some s \<Rightarrow> lit '': '' @ s | None \<Rightarrow> []);
                 w2 = fire_on_failure q' (rx_audit ctx) manifest sid (lit ''preflight'') message w1;
                 w3 = fire_notifiers q' (rx_plugins ctx) (rx_audit ctx) manifest sid
                        (lit ''preflight'') message w2
             in (Inr (PreflightAborted plugin suggest), w3)
        else case (if rx_persistent ctx \<and> is_persistent (mf_lifecycle manifest) \<and> \<not> rs_dry_run spec
                   then pool_dispatch z q spec w1
                   else run_streaming z q spec w1) of
               (Inl (RequestLost lost), w2) \<Rightarrow>
                 (Inl (RequestLost lost),
                  append_agent_run_audit (rx_audit ctx) spec request_lost_exit_code
                    (rl_duration_seconds lost) False w2)
             | (Inl e, w2) \<Rightarrow> (Inl e, w2)
             | (Inr ro, w2) \<Rightarrow>
                 let w3 = append_agent_run_audit (rx_audit ctx) spec (ro_exit_code ro)
                            (ro_duration_seconds ro) (ro_timed_out ro) w2;
                     event = run_event ro;
                     message = run_message (spec_agent spec) ro;
                     w4 = (if rx_plugins ctx
                           then if event = lit ''success''
                                then fire_on_success q' (rx_audit ctx) manifest sid message w3
                                else fire_on_failure q' (rx_audit ctx) manifest sid event message w3
                           else w3)
                 in (Inr (Ran ro),
                     fire_notifiers q' (rx_plugins ctx) (rx_audit ctx) manifest sid event message w4))"

section \<open>What a run does to the state\<close>

definition last_success_at :: "store \<Rightarrow> rstr \<Rightarrow> int option" where
  "last_success_at st p = (case st_heartbeats st p of Present hb \<Rightarrow> hb_last_success_at hb | _ \<Rightarrow> None)"

text \<open>How a run may change the world's persistent part: only the heartbeat at its own path, and
  there the last success only forward, by a success.\<close>

definition state_step :: "rstr \<Rightarrow> bool \<Rightarrow> world \<Rightarrow> world \<Rightarrow> bool" where
  "state_step p succeeded w w' \<longleftrightarrow>
     st_windows (wo_store w') = st_windows (wo_store w) \<and> wo_dedup w' = wo_dedup w
     \<and> (\<forall>p'. p' \<noteq> p \<longrightarrow> st_heartbeats (wo_store w') p' = st_heartbeats (wo_store w) p')
     \<and> (last_success_at (wo_store w') p = last_success_at (wo_store w) p
        \<or> succeeded \<and> last_success_at (wo_store w') p \<noteq> None)"

lemma state_step_refl [intro, simp]:
  "wo_store w' = wo_store w \<Longrightarrow> wo_dedup w' = wo_dedup w \<Longrightarrow> state_step p b w w'"
  by (simp add: state_step_def)

lemma state_step_store_eq:
  "state_step p b w w' \<Longrightarrow> wo_store v' = wo_store w' \<Longrightarrow> wo_dedup v' = wo_dedup w' \<Longrightarrow>
   wo_store v = wo_store w \<Longrightarrow> wo_dedup v = wo_dedup w \<Longrightarrow> state_step p b v v'"
  by (simp add: state_step_def)

lemma put_heartbeat_cases:
  obtains (written) "put_heartbeat q hb w = (Inr (), w\<lparr> wo_store := (wo_store w)\<lparr> st_heartbeats :=
      (st_heartbeats (wo_store w))(heartbeat_path (hb_name hb) (hb_slug hb) := Present hb) \<rparr> \<rparr>)"
  | (kept) "put_heartbeat q hb w = (Inl (RunState StateIo), w)"
  by (cases "or_write_ok q (wo_trace w) (heartbeat_path (hb_name hb) (hb_slug hb))")
    (auto simp: put_heartbeat_def write_heartbeat_def)

text \<open>After \<open>begin_heartbeat\<close> the file at the run's path is its own started heartbeat, carrying the
  previous last success; or the call failed and nothing changed.\<close>

lemma begin_heartbeat_cases:
  obtains (ok) hb w1 where "begin_heartbeat z q name slug args start w = (Inr (), w1)"
    "state_step (heartbeat_path name slug) False w w1"
    "st_heartbeats (wo_store w1) (heartbeat_path name slug) = Present hb"
    "hb_name hb = name" "hb_slug hb = slug" "wo_trace w1 = wo_trace w"
  | (failed) e where "begin_heartbeat z q name slug args start w = (Inl e, w)"
proof (cases "read_heartbeat (wo_store w) name slug")
  case (Inl e)
  then show thesis using failed by (simp add: begin_heartbeat_def)
next
  case (Inr prev)
  let ?hb = "started_heartbeat z name slug args start prev"
  have n: "hb_name ?hb = name" "hb_slug ?hb = slug" by (simp_all add: started_heartbeat_def)
  have ls: "hb_last_success_at ?hb = last_success_at (wo_store w) (heartbeat_path name slug)"
    using Inr by (auto simp: started_heartbeat_def last_success_at_def read_heartbeat_def
        read_json_def split: on_disk.splits)
  show thesis
  proof (cases rule: put_heartbeat_cases[of q ?hb w])
    case written
    then show thesis using ok[of _ ?hb] Inr n ls
      by (simp add: begin_heartbeat_def state_step_def last_success_at_def)
  next
    case kept
    then show thesis using failed Inr by (simp add: begin_heartbeat_def)
  qed
qed

lemma finish_heartbeat_cases:
  assumes "st_heartbeats (wo_store w) (heartbeat_path name slug) = Present hb"
    "hb_name hb = name" "hb_slug hb = slug"
  obtains (ok) w1 where "finish_heartbeat z q name slug args start finish code w = (Inr (), w1)"
    "state_step (heartbeat_path name slug) (code = 0) w w1"
  | (failed) e where "finish_heartbeat z q name slug args start finish code w = (Inl e, w)"
proof -
  let ?hb = "close_heartbeat z hb start finish code"
  have n: "hb_name ?hb = name" "hb_slug ?hb = slug"
    using assms(2,3) by (simp_all add: close_heartbeat_def Let_def)
  have f: "finish_heartbeat z q name slug args start finish code w = put_heartbeat q ?hb w"
    using assms(1) by (simp add: finish_heartbeat_def read_heartbeat_def read_json_def)
  have ls: "hb_last_success_at ?hb = (if code = 0 then Some (timestamp finish) else hb_last_success_at hb)"
    by (simp add: close_heartbeat_def Let_def)
  show thesis
    using ok failed unfolding f
    by (cases rule: put_heartbeat_cases[of q ?hb w])
      (auto simp: state_step_def last_success_at_def assms(1) n ls)
qed

lemma state_step_trans:
  "state_step p False w w1 \<Longrightarrow> state_step p b w1 w2 \<Longrightarrow> state_step p b w w2"
  by (auto simp: state_step_def)

lemma state_step_weaken: "state_step p False w w1 \<Longrightarrow> state_step p b w w1"
  by (auto simp: state_step_def)

definition succeeded :: "runner_error + run_outcome \<Rightarrow> bool" where
  "succeeded r = (case r of Inr ro \<Rightarrow> ro_exit_code ro = 0 | Inl _ \<Rightarrow> False)"

lemma run_streaming_step:
  "state_step (heartbeat_path (spec_agent spec) (spec_slug spec))
     (succeeded (fst (run_streaming z q spec w))) w (snd (run_streaming z q spec w))"
proof (cases "rs_dry_run spec")
  case True
  then show ?thesis
    by (auto simp: run_streaming_def Let_def split: process_result.splits)
next
  case False
  let ?p = "heartbeat_path (spec_agent spec) (spec_slug spec)"
  let ?start = "or_now q (wo_trace w)"
  show ?thesis
  proof (cases rule: begin_heartbeat_cases[of z q "spec_agent spec" "spec_slug spec" "rs_args spec" ?start w])
    case (failed e)
    then show ?thesis using False by (simp add: run_streaming_def Let_def)
  next
    case (ok hb w1)
    let ?w2 = "emit (Started (spec_agent spec) (rs_schedule_id spec) (rs_args spec)) w1"
    have hb: "st_heartbeats (wo_store ?w2) ?p = Present hb" using ok(3) by simp
    have s1: "state_step ?p b w w1" "state_step ?p b w ?w2" for b
      using ok(2) state_step_weaken state_step_store_eq[OF state_step_weaken[OF ok(2)]] by auto
    show ?thesis
    proof (cases "or_process q (wo_trace ?w2) spec")
      case (Exited px)
      let ?ro = "outcome_of px (num_seconds (or_now q (wo_trace ?w2) - ?start))"
      show ?thesis
        using finish_heartbeat_cases[OF hb ok(4,5), of z q "rs_args spec" ?start
            "or_now q (wo_trace ?w2)" "ro_exit_code ?ro"] s1 False ok(1) Exited
        by cases (auto simp: run_streaming_def Let_def succeeded_def
            intro: state_step_trans[OF s1(2)])
    qed (use s1 False ok(1) in \<open>auto simp: run_streaming_def Let_def\<close>)
  qed
qed

lemma pool_dispatch_step:
  "state_step (heartbeat_path (spec_agent spec) (spec_slug spec))
     (succeeded (fst (pool_dispatch z q spec w))) w (snd (pool_dispatch z q spec w))"
proof (cases "rs_dry_run spec")
  case True
  then show ?thesis
    by (auto simp: pool_dispatch_def Let_def split: sum.splits runner_error.splits)
next
  case False
  let ?p = "heartbeat_path (spec_agent spec) (spec_slug spec)"
  let ?start = "or_now q (wo_trace w)"
  show ?thesis
  proof (cases rule: begin_heartbeat_cases[of z q "spec_agent spec" "spec_slug spec" "rs_args spec" ?start w])
    case (failed e)
    then show ?thesis using False by (simp add: pool_dispatch_def Let_def)
  next
    case (ok hb w1)
    let ?w2 = "emit (Started (spec_agent spec) (rs_schedule_id spec) (rs_args spec)) w1"
    have hb: "st_heartbeats (wo_store ?w2) ?p = Present hb" using ok(3) by simp
    have s1: "state_step ?p b w ?w2" for b
      by (rule state_step_store_eq[OF state_step_weaken[OF ok(2)]]) simp_all
    note fin = finish_heartbeat_cases[OF hb ok(4,5), of z q "rs_args spec" ?start
        "or_now q (wo_trace ?w2)"]
    have lost: "state_step ?p False w (snd (finish_heartbeat z q (spec_agent spec) (spec_slug spec)
        (rs_args spec) ?start (or_now q (wo_trace ?w2)) request_lost_exit_code ?w2))"
      using s1 by (cases rule: fin[of request_lost_exit_code])
        (auto simp: request_lost_exit_code_def intro: state_step_trans[OF s1])
    show ?thesis
    proof (cases "or_exchange q (wo_trace ?w2) spec")
      case (Inl e)
      then show ?thesis using s1 lost False ok(1)
        by (cases e) (auto simp: pool_dispatch_def Let_def succeeded_def)
    next
      case (Inr ro)
      then show ?thesis using s1 False ok(1)
        by (cases rule: fin[of "ro_exit_code ro"])
          (auto simp: pool_dispatch_def Let_def succeeded_def intro: state_step_trans[OF s1])
    qed
  qed
qed

lemma append_agent_run_audit_fields [simp]:
  "wo_store (append_agent_run_audit b spec c d t w) = wo_store w"
  "wo_dedup (append_agent_run_audit b spec c d t w) = wo_dedup w"
  by (simp_all add: append_agent_run_audit_def)

definition ran_ok :: "runner_error + orchestrated_outcome \<Rightarrow> bool" where
  "ran_ok r = (case r of Inr (Ran ro) \<Rightarrow> ro_exit_code ro = 0 | _ \<Rightarrow> False)"

lemma run_with_hooks_step:
  "state_step (heartbeat_path (spec_agent spec) (spec_slug spec))
     (ran_ok (fst (run_with_hooks z q ctx spec w))) w (snd (run_with_hooks z q ctx spec w))"
proof -
  let ?q = "outside.truncate q"
  define pw where "pw = (if rx_plugins ctx
      then run_preflight ?q (rx_audit ctx) (rs_manifest spec) (rs_schedule_id spec) w
      else (\<lparr> po_passed = True, po_failed_plugin = None, po_suggest = None \<rparr>, w))"
  have s: "wo_store (snd pw) = wo_store w" "wo_dedup (snd pw) = wo_dedup w"
    by (simp_all add: pw_def)
  define run where "run = (if rx_persistent ctx \<and> is_persistent (mf_lifecycle (rs_manifest spec))
      \<and> \<not> rs_dry_run spec then pool_dispatch z q spec (snd pw) else run_streaming z q spec (snd pw))"
  have step: "state_step (heartbeat_path (spec_agent spec) (spec_slug spec)) (succeeded (fst run))
      (snd pw) (snd run)"
    unfolding run_def using pool_dispatch_step run_streaming_step by simp
  show ?thesis
  proof (cases "po_passed (fst pw)")
    case False
    then show ?thesis
      unfolding run_with_hooks_def Let_def pw_def[symmetric] case_prod_beta using s by simp
  next
    case True
    obtain r w2 where r: "run = (r, w2)" by fastforce
    have e: "run_with_hooks z q ctx spec w = (case run of
               (Inl (RequestLost lost), w2) \<Rightarrow>
                 (Inl (RequestLost lost),
                  append_agent_run_audit (rx_audit ctx) spec request_lost_exit_code
                    (rl_duration_seconds lost) False w2)
             | (Inl e, w2) \<Rightarrow> (Inl e, w2)
             | (Inr ro, w2) \<Rightarrow>
                 let w3 = append_agent_run_audit (rx_audit ctx) spec (ro_exit_code ro)
                            (ro_duration_seconds ro) (ro_timed_out ro) w2;
                     event = run_event ro;
                     message = run_message (spec_agent spec) ro;
                     w4 = (if rx_plugins ctx
                           then if event = lit ''success''
                                then fire_on_success ?q (rx_audit ctx) (rs_manifest spec)
                                       (rs_schedule_id spec) message w3
                                else fire_on_failure ?q (rx_audit ctx) (rs_manifest spec)
                                       (rs_schedule_id spec) event message w3
                           else w3)
                 in (Inr (Ran ro),
                     fire_notifiers ?q (rx_plugins ctx) (rx_audit ctx) (rs_manifest spec)
                       (rs_schedule_id spec) event message w4))"
      unfolding run_with_hooks_def Let_def pw_def[symmetric] case_prod_beta run_def[symmetric]
      using True by simp
    show ?thesis
    proof (cases r)
      case (Inl err)
      then show ?thesis unfolding e using step r s
        by (cases err) (auto simp: succeeded_def ran_ok_def intro: state_step_store_eq)
    next
      case (Inr ro)
      then show ?thesis unfolding e using step r s
        by (auto simp: succeeded_def ran_ok_def Let_def intro: state_step_store_eq)
    qed
  qed
qed

text \<open>a run, one-shot or through the persistent pool, and whatever the process, the plugins and
  the disk do, changes no window file, no alert episode and no other heartbeat; and in its own
  heartbeat the time of the last success survives every outcome but a run that exited 0.\<close>

theorem run_preserves_last_success:
  assumes "p = heartbeat_path (spec_agent spec) (spec_slug spec)"
    and "run_with_hooks z q ctx spec w = (r, w')"
  shows "st_windows (wo_store w') = st_windows (wo_store w) \<and> wo_dedup w' = wo_dedup w
    \<and> (\<forall>p'. p' \<noteq> p \<longrightarrow> st_heartbeats (wo_store w') p' = st_heartbeats (wo_store w) p')
    \<and> (last_success_at (wo_store w') p = last_success_at (wo_store w) p
       \<or> (\<exists>ro. r = Inr (Ran ro) \<and> ro_exit_code ro = 0) \<and> last_success_at (wo_store w') p \<noteq> None)"
  using run_with_hooks_step[of spec z q ctx w] unfolding assms(2) state_step_def assms(1)[symmetric]
  by (auto simp: ran_ok_def split: sum.splits orchestrated_outcome.splits)

section \<open>A concrete instance\<close>

text \<open>A one-shot agent on an empty disk, whose process exits with a given code; the witnesses run
  the model on it.\<close>

definition plain_spec :: run_spec where
  "plain_spec = \<lparr> rs_manifest = plain_manifest [], rs_manifest_dir = [], rs_schedule_id = lit ''s'',
     rs_args = [], rs_dry_run = False, rs_manifest_sha256 = None, rs_slug_override = None,
     rs_extra_env = [] \<rparr>"

definition exiting :: "int \<Rightarrow> run_outside" where
  "exiting code = \<lparr> or_invoke = (\<lambda>_ _ _ _. Inl []), or_send = (\<lambda>_ _ _. Inr None),
     or_telegram = (\<lambda>_ _ _. Inr None), or_now = (\<lambda>t. 1000 * minute), or_write_ok = (\<lambda>_ _. True),
     or_tempdir_ok = (\<lambda>_. True),
     or_process = (\<lambda>_ _. Exited \<lparr> px_code = Some code, px_timed_out = False, px_stdout = [],
       px_stderr = [] \<rparr>),
     or_exchange = (\<lambda>_ _. Inl RunIo) \<rparr>"

definition empty_world :: world where
  "empty_world = \<lparr> wo_store = \<lparr> st_heartbeats = (\<lambda>_. Absent), st_windows = (\<lambda>_. Absent) \<rparr>,
     wo_sent = Absent, wo_dedup = Map.empty, wo_trace = [] \<rparr>"

definition bare_context :: run_context where
  "bare_context = \<lparr> rx_plugins = False, rx_audit = True, rx_persistent = False \<rparr>"

theorem run_preserves_last_success_witness:
  "wo_dedup (snd (run_with_hooks utc (exiting 1) bare_context plain_spec empty_world)) = wo_dedup empty_world"
  using run_preserves_last_success[OF refl, of utc "exiting 1" bare_context plain_spec empty_world
      "fst (run_with_hooks utc (exiting 1) bare_context plain_spec empty_world)"
      "snd (run_with_hooks utc (exiting 1) bare_context plain_spec empty_world)"] by simp

end
