(* ===== verification/Alerts.thy ===== *)
theory Alerts
  imports Runner
begin

text \<open>
  The alert half of \<open>commands/daemon.rs\<close>: which condition of a schedule is worth an alert
  (\<open>alert_verdict\<close>), under which event name it is delivered (\<open>notify_channel\<close>), what it says
  (\<open>alert_message\<close>), and the claim on the episode table that decides whether it may speak now
  (\<open>claim_alert\<close>).  A character outside Latin-1 is written as its code point.
\<close>

section \<open>Verdict and channel\<close>

datatype alert_verdict = Healthy | Quiet | Alert rstr

definition alert_verdict :: "health_state \<Rightarrow> instant option \<Rightarrow> instant option \<Rightarrow> window_state option
    \<Rightarrow> alert_verdict" where
  "alert_verdict health expected last_success window = (case health of
     Stale \<Rightarrow> if expected \<noteq> None \<or> last_success \<noteq> None then Alert (lit ''stale'') else Quiet
   | Failing \<Rightarrow> if (case window of Some ws \<Rightarrow> ws_given_up ws | None \<Rightarrow> False)
                then Alert (lit ''given_up'') else Quiet
   | _ \<Rightarrow> if expected = None then Quiet else Healthy)"

definition anyone_listening :: "agent_manifest \<Rightarrow> rstr \<Rightarrow> bool" where
  "anyone_listening m event \<longleftrightarrow>
     list_ex (\<lambda>n. matches_event n event) (mf_notifiers m)
     \<or> list_ex (\<lambda>h. pr_events h = [] \<or> list_ex (\<lambda>e. e = event) (pr_events h)) (mf_on_failure m)"

definition notify_channel :: "agent_manifest \<Rightarrow> rstr \<Rightarrow> rstr option" where
  "notify_channel m event =
     (if anyone_listening m event then Some event
      else if event = lit ''stale'' \<and> anyone_listening m (lit ''given_up'') then Some (lit ''given_up'')
      else None)"

section \<open>The message\<close>

definition human_duration :: "int \<Rightarrow> rstr" where
  "human_duration seconds = (
     let s = max seconds 0; d = s div 86400; h = (s mod 86400) div 3600; m = (s mod 3600) div 60
     in if d > 0 then show_int d @ lit ''d '' @ show_int h @ lit ''h''
        else if h > 0 then show_int h @ lit ''h '' @ show_int m @ lit ''m''
        else show_int m @ lit ''m'')"

definition stderr_tail_max :: nat where "stderr_tail_max = 400"

definition stderr_tail :: "window_state option \<Rightarrow> rstr" where
  "stderr_tail window = (
     let raw = trim (unwrap_or (Option.bind window ws_last_attempt_stderr) [])
     in if raw = [] then []
        else if length raw \<le> stderr_tail_max then lit ''\<newline>'' @ raw
        else lit ''\<newline>'' @ [0x2026] @ drop (length raw - stderr_tail_max) raw)"

definition alert_message :: "rstr \<Rightarrow> rstr \<Rightarrow> rstr \<Rightarrow> instant option \<Rightarrow> window_state option
    \<Rightarrow> alert_episode \<Rightarrow> instant \<Rightarrow> rstr" where
  "alert_message event agent schedule last_success window episode now = (
     let repeat = (if ae_count episode > 1
                   then lit '' (notice #'' @ show_nat (ae_count episode) @ lit '')'' else []);
         attempts = unwrap_or (map_option ws_attempts window) 0;
         exit_code = unwrap_or (Option.bind window ws_last_attempt_exit_code) (-1);
         body =
           (if event = lit ''stale'' then
              (let age = (case last_success of
                            Some ls \<Rightarrow> lit ''no successful run in ''
                                       @ human_duration (num_seconds (now - ls))
                          | None \<Rightarrow> lit ''it has never run successfully'')
               in [0x23F0] @ lit '' '' @ agent @ lit ''/'' @ schedule
                  @ lit '' is not being scheduled '' @ [0x2014] @ lit '' '' @ age @ repeat @ lit ''.'')
            else if ae_count episode \<le> 1 then
              [0x1F6A8] @ lit '' '' @ agent @ lit ''/'' @ schedule @ lit '' gave up after ''
              @ show_nat attempts @ lit '' attempts (exit '' @ show_int exit_code @ lit '')''
            else
              (let since = (case Option.bind window ws_given_up_at of
                              Some t \<Rightarrow> human_duration (timestamp now - t)
                            | None \<Rightarrow> lit ''?'')
               in [0x1F6A8] @ lit '' '' @ agent @ lit ''/'' @ schedule @ lit '' still given up after ''
                  @ show_nat attempts @ lit '' attempts (exit '' @ show_int exit_code @ lit ''), ''
                  @ since @ lit '' ago'' @ repeat @ lit ''.''))
     in body @ stderr_tail window)"

section \<open>Firing\<close>

definition fire_on_failure_event ::
    "outside \<Rightarrow> agent_manifest \<Rightarrow> rstr \<Rightarrow> rstr \<Rightarrow> rstr \<Rightarrow> world \<Rightarrow> world" where
  "fire_on_failure_event q m schedule_id event message w =
     fire_notifiers q True True m schedule_id event message
       (fire_on_failure q True m schedule_id event message w)"

definition dedup_file :: rstr where
  "dedup_file = lit ''notify-dedup''"

text \<open>The store's load, check, record and save; a save that fails keeps the table as it was, and
  the alert is still sent.\<close>

definition claim_alert ::
    "outside \<Rightarrow> rstr \<Rightarrow> rstr \<Rightarrow> rstr \<Rightarrow> int \<Rightarrow> world \<Rightarrow> alert_episode option \<times> world" where
  "claim_alert q agent schedule event now w = (
     let key = alert_key agent schedule event
     in if \<not> dedup_should_notify (wo_dedup w) key now then (None, w)
        else let (episode, table) = record_alert (wo_dedup w) key now
             in (Some episode,
                 if or_write_ok q (wo_trace w) dedup_file then w\<lparr> wo_dedup := table \<rparr> else w))"

section \<open>Facts\<close>

lemma fire_on_failure_event_fields [simp]:
  "wo_store (fire_on_failure_event q m s ev msg w) = wo_store w"
  "wo_dedup (fire_on_failure_event q m s ev msg w) = wo_dedup w"
  by (simp_all add: fire_on_failure_event_def)

lemma claim_alert_fields [simp]:
  "wo_store (snd (claim_alert q a s ev t w)) = wo_store w"
  "wo_trace (snd (claim_alert q a s ev t w)) = wo_trace w"
  by (auto simp: claim_alert_def Let_def split: prod.splits)

lemma alert_verdict_alert:
  "alert_verdict h ex ls win = Alert ev \<Longrightarrow>
     (ev = lit ''stale'' \<and> h = Stale) \<or> (ev = lit ''given_up'' \<and> h = Failing \<and> (\<exists>ws. win = Some ws \<and> ws_given_up ws))"
  by (auto simp: alert_verdict_def split: health_state.splits if_splits option.splits)

end
