(* ===== verification/Dispatch.thy ===== *)
theory Dispatch
  imports Alerts
begin

text \<open>
  The run loop of \<open>commands/daemon.rs\<close>: \<open>dispatch_due_runs\<close>, \<open>dispatch_one\<close>, \<open>give_up\<close> and the dry
  run \<open>tick_dry_run\<close>, with the power gate of \<open>dotagent/src/power.rs\<close>.  \<open>dispatch_one\<close> is split at
  its stages: \<open>due_window\<close> (every gate up to the backoff), \<open>remember\<close> (what the run learned goes to
  the memory store), \<open>after_run\<close> (the outcome written into the window) and \<open>give_up\<close>.
  \<open>u32\<close> attempt counters are \<open>nat\<close>; that they stay below \<open>max_retries\<close> is proved.
\<close>

section \<open>The power gate (dotagent/src/power.rs)\<close>

record power_gate =
  pg_source :: power_source
  pg_on_battery :: power_policy
  pg_min_battery_percent :: nat

definition would_probe :: "power_config \<Rightarrow> schedule list \<Rightarrow> bool" where
  "would_probe config schedules \<longleftrightarrow>
     pc_on_battery config \<noteq> Run \<or> pc_min_battery_percent config > 0
     \<or> list_ex (\<lambda>s. case ov_on_battery (sched_overrides s) of Some p \<Rightarrow> p \<noteq> Run | None \<Rightarrow> False) schedules"

definition power_gate_new :: "power_source \<Rightarrow> power_config \<Rightarrow> power_gate" where
  "power_gate_new source config = \<lparr> pg_source = source, pg_on_battery = pc_on_battery config,
     pg_min_battery_percent = pc_min_battery_percent config \<rparr>"

text \<open>\<open>PowerGate::detect\<close>, given what the probe would read.\<close>

definition power_gate_detect :: "power_source \<Rightarrow> power_config \<Rightarrow> schedule list \<Rightarrow> power_gate" where
  "power_gate_detect reading config schedules =
     power_gate_new (if would_probe config schedules then reading else Unknown) config"

definition defers :: "power_gate \<Rightarrow> schedule \<Rightarrow> bool" where
  "defers g s = should_defer (pg_source g)
     (unwrap_or (ov_on_battery (sched_overrides s)) (pg_on_battery g)) (pg_min_battery_percent g)"

section \<open>The gates\<close>

record discovered_agent =
  da_manifest :: agent_manifest
  da_dir :: rstr

definition da_name :: "discovered_agent \<Rightarrow> rstr" where
  "da_name a = am_name (mf_agent (da_manifest a))"

definition last_success_for :: "tz \<Rightarrow> agent_manifest \<Rightarrow> schedule \<Rightarrow> store \<Rightarrow> instant option" where
  "last_success_for z m s st =
     Option.bind
       (Option.bind (ok_flatten (read_heartbeat st (am_name (mf_agent m)) (slug_from_args (sched_args s))))
         hb_last_success_at)
       (tz_epoch z)"

record due_run =
  dr_slug :: rstr
  dr_expected :: instant
  dr_window :: window_state
  dr_policy :: resolved_policy

definition fresh_window :: "rstr \<Rightarrow> rstr \<Rightarrow> instant \<Rightarrow> window_state" where
  "fresh_window agent schedule_id expected = default_window\<lparr> ws_agent := agent,
     ws_schedule_id := schedule_id, ws_expected_at := timestamp expected \<rparr>"

definition due_window ::
    "tz \<Rightarrow> power_gate \<Rightarrow> discovered_agent \<Rightarrow> schedule \<Rightarrow> store \<Rightarrow> instant \<Rightarrow> due_run option" where
  "due_window z pwr agent sched st now = (
     let m = da_manifest agent; last_success = last_success_for z m sched st
     in case expected_at z sched now last_success of
          None \<Rightarrow> None
        | Some expected \<Rightarrow>
            if expected > now then None
            else if (case last_success of Some ls \<Rightarrow> ls \<ge> expected | None \<Rightarrow> False) then None
            else let policy = resolve m sched
            in if is_stale expected (rp_stale_after_minutes policy) now then None
            else if defers pwr sched then None
            else let slug = slug_from_args (sched_args sched);
                     window = unwrap_or (ok_flatten (read_window z st (da_name agent) slug expected))
                                (fresh_window (da_name agent) (sched_id sched) expected)
            in if ws_given_up window then None
            else let last_attempt = Option.bind (ws_last_attempt_at window) (tz_epoch z)
            in if \<not> should_retry (ws_attempts window) last_attempt (rp_retry_backoff_minutes policy) now
               then None
               else Some \<lparr> dr_slug = slug, dr_expected = expected, dr_window = window,
                           dr_policy = policy \<rparr>)"

section \<open>Outcomes\<close>

record dispatch_outside = run_outside +
  or_manifest_sha :: "effect list \<Rightarrow> rstr \<Rightarrow> rstr option"
  or_extract :: "effect list \<Rightarrow> assistant_extractor \<Rightarrow> rstr \<Rightarrow> rstr \<Rightarrow> rstr option \<Rightarrow> rstr option"
  or_dedup_key :: "rstr \<Rightarrow> rstr"

definition base_outside :: "dispatch_outside \<Rightarrow> outside" where
  "base_outside q = outside.truncate q"

definition put_window :: "tz \<Rightarrow> dispatch_outside \<Rightarrow> window_state \<Rightarrow> rstr \<Rightarrow> instant \<Rightarrow> world \<Rightarrow> world" where
  "put_window z q ws slug expected w =
     w\<lparr> wo_store := snd (write_window z (or_write_ok q (wo_trace w)
          (window_path z (ws_agent ws) slug expected)) (wo_store w) ws slug expected) \<rparr>"

definition give_up ::
    "tz \<Rightarrow> dispatch_outside \<Rightarrow> discovered_agent \<Rightarrow> schedule \<Rightarrow> window_state \<Rightarrow> rstr \<Rightarrow> instant
     \<Rightarrow> world \<Rightarrow> world" where
  "give_up z q agent sched window slug expected w = (
     let b = base_outside q; name = da_name agent; sid = sched_id sched;
         window' = window\<lparr> ws_given_up := True,
                           ws_given_up_at := Some (timestamp (or_now q (wo_trace w))) \<rparr>;
         w1 = audit_append True (AgentGivenUp name sid (ws_attempts window')
                (unwrap_or (ws_last_attempt_exit_code window') (-1))
                (unwrap_or (ws_last_attempt_stderr window') [])) w;
         now = or_now q (wo_trace w1);
         (claimed, w2) = claim_alert b name sid (lit ''given_up'') (timestamp now) w1;
         w3 = (case claimed of
                 Some episode \<Rightarrow>
                   fire_on_failure_event b (da_manifest agent) sid (lit ''given_up'')
                     (alert_message (lit ''given_up'') name sid None (Some window') episode now) w2
               | None \<Rightarrow> w2)
     in put_window z q window' slug expected w3)"

text \<open>The memory writes of a finished run; a flush of no facts does nothing.\<close>

definition flush_memos :: "rstr \<Rightarrow> captured_memo list \<Rightarrow> world \<Rightarrow> world" where
  "flush_memos agent memos w = (if memos = [] then w else emit (Filed agent memos) w)"

definition remember ::
    "dispatch_outside \<Rightarrow> discovered_agent \<Rightarrow> schedule \<Rightarrow> run_outcome \<Rightarrow> world \<Rightarrow> world" where
  "remember q agent sched ro w = (
     let m = da_manifest agent; name = da_name agent;
         memos = capture m (ro_stdout_tail ro) (ro_exit_code ro)
     in if ro_exit_code ro = 0 then
          (case memory_extractor m of
             Some cfg \<Rightarrow>
               let out = or_extract q (wo_trace w) cfg [] (ro_stdout_tail ro) (Some (sched_id sched));
                   w1 = emit (Extracted (ax_command cfg) (ro_stdout_tail ro) (Some (sched_id sched))) w;
                   extracted = (case out of Some s \<Rightarrow> snd (strip_memos s) | None \<Rightarrow> []);
                   merged = merge_memos (or_dedup_key q) memos (add_topics m extracted)
               in flush_memos name merged w1
           | None \<Rightarrow> if memos \<noteq> [] then flush_memos name memos w else w)
        else if memos \<noteq> [] then flush_memos name memos w else w)"

definition attempt_window :: "window_state \<Rightarrow> instant \<Rightarrow> int \<Rightarrow> rstr \<Rightarrow> window_state" where
  "attempt_window window now exit_code stderr =
     window\<lparr> ws_attempts := ws_attempts window + 1,
             ws_last_attempt_at := Some (timestamp now),
             ws_last_attempt_exit_code := Some exit_code,
             ws_last_attempt_stderr := Some stderr \<rparr>"

definition request_lost_text :: "request_lost \<Rightarrow> rstr" where
  "request_lost_text lost =
     lit ''persistent request may have been delivered; not retrying: '' @ rl_reason lost"

definition run_spec_for :: "dispatch_outside \<Rightarrow> discovered_agent \<Rightarrow> schedule \<Rightarrow> world \<Rightarrow> run_spec" where
  "run_spec_for q agent sched w = \<lparr> rs_manifest = da_manifest agent, rs_manifest_dir = da_dir agent,
     rs_schedule_id = sched_id sched, rs_args = sched_args sched, rs_dry_run = False,
     rs_manifest_sha256 = or_manifest_sha q (wo_trace w) (da_dir agent @ lit ''/agent.toml''),
     rs_slug_override = None, rs_extra_env = [] \<rparr>"

definition after_run :: "tz \<Rightarrow> dispatch_outside \<Rightarrow> discovered_agent \<Rightarrow> schedule \<Rightarrow> due_run \<Rightarrow> instant
    \<Rightarrow> run_outcome \<Rightarrow> world \<Rightarrow> world" where
  "after_run z q agent sched d now ro w = (
     let b = base_outside q; name = da_name agent; sid = sched_id sched;
         attempts_before = ws_attempts (dr_window d);
         window = attempt_window (dr_window d) now (ro_exit_code ro) (ro_stderr_tail ro);
         w1 = remember q agent sched ro w
     in if ro_exit_code ro = 0 \<and> attempts_before > 0 then
          (let w2 = audit_append True (AgentRecovered name sid (ws_attempts window)) w1;
               w3 = fire_on_failure_event b (da_manifest agent) sid (lit ''recovered'')
                      (lit ''agent '' @ name @ lit '' recovered on attempt ''
                       @ show_nat (ws_attempts window)) w2
           in put_window z q window (dr_slug d) (dr_expected d) w3)
        else if ro_exit_code ro \<noteq> 0 \<and> ws_attempts window \<ge> rp_max_retries (dr_policy d) then
          give_up z q agent sched window (dr_slug d) (dr_expected d) w1
        else put_window z q window (dr_slug d) (dr_expected d) w1)"

section \<open>Dispatch\<close>

definition dispatch_context :: "bool \<Rightarrow> run_context" where
  "dispatch_context pool = \<lparr> rx_plugins = True, rx_audit = True, rx_persistent = pool \<rparr>"

definition run_due :: "tz \<Rightarrow> dispatch_outside \<Rightarrow> bool \<Rightarrow> discovered_agent \<Rightarrow> schedule \<Rightarrow> due_run
    \<Rightarrow> instant \<Rightarrow> world \<Rightarrow> bool \<times> world" where
  "run_due z q pool agent sched d now w = (
     case run_with_hooks z (run_outside.truncate q) (dispatch_context pool) (run_spec_for q agent sched w) w of
       (Inl (RequestLost lost), w1) \<Rightarrow>
         let message = request_lost_text lost;
             window = attempt_window (dr_window d) now request_lost_exit_code message;
             w2 = fire_on_failure_event (base_outside q) (da_manifest agent) (sched_id sched)
                    (lit ''attempt_failed'') message w1
         in (True, give_up z q agent sched window (dr_slug d) (dr_expected d) w2)
     | (Inl e, w1) \<Rightarrow> (False, w1)
     | (Inr (PreflightAborted plugin suggest), w1) \<Rightarrow>
         (True, put_window z q
            (attempt_window (dr_window d) now (-1) (lit ''preflight '' @ plugin @ lit '' failed''))
            (dr_slug d) (dr_expected d) w1)
     | (Inr (Ran ro), w1) \<Rightarrow> (True, after_run z q agent sched d now ro w1))"

definition dispatch_one :: "tz \<Rightarrow> dispatch_outside \<Rightarrow> bool \<Rightarrow> power_gate \<Rightarrow> discovered_agent \<Rightarrow> schedule
    \<Rightarrow> instant \<Rightarrow> world \<Rightarrow> bool \<times> world" where
  "dispatch_one z q pool pwr agent sched now w = (
     case due_window z pwr agent sched (wo_store w) now of
       None \<Rightarrow> (False, w)
     | Some d \<Rightarrow>
         if ws_attempts (dr_window d) \<ge> rp_max_retries (dr_policy d)
         then (False, give_up z q agent sched (dr_window d) (dr_slug d) (dr_expected d) w)
         else run_due z q pool agent sched d now w)"

fun dispatch_schedules :: "tz \<Rightarrow> dispatch_outside \<Rightarrow> bool \<Rightarrow> power_gate \<Rightarrow> instant
    \<Rightarrow> (discovered_agent \<times> schedule) list \<Rightarrow> nat \<times> world \<Rightarrow> nat \<times> world" where
  "dispatch_schedules z q pool pwr now [] (n, w) = (n, w)"
| "dispatch_schedules z q pool pwr now ((agent, sched) # rest) (n, w) =
     (let (went, w') = dispatch_one z q pool pwr agent sched now w
      in dispatch_schedules z q pool pwr now rest (if went then n + 1 else n, w'))"

definition monitored_pairs :: "discovered_agent list \<Rightarrow> (discovered_agent \<times> schedule) list" where
  "monitored_pairs agents = concat (map (\<lambda>a. map (\<lambda>s. (a, s)) (mf_schedules (da_manifest a)))
     (filter (\<lambda>a. am_monitor (mf_agent (da_manifest a))) agents))"

definition dispatch_due_runs :: "tz \<Rightarrow> dispatch_outside \<Rightarrow> bool \<Rightarrow> power_gate \<Rightarrow> instant
    \<Rightarrow> discovered_agent list \<Rightarrow> world \<Rightarrow> nat \<times> world" where
  "dispatch_due_runs z q pool pwr now agents w =
     dispatch_schedules z q pool pwr now (monitored_pairs agents) (0, w)"

section \<open>The dry run\<close>

definition would_dispatch ::
    "tz \<Rightarrow> power_gate \<Rightarrow> discovered_agent \<Rightarrow> schedule \<Rightarrow> store \<Rightarrow> instant \<Rightarrow> bool" where
  "would_dispatch z pwr agent sched st now = (
     let m = da_manifest agent; last_success = last_success_for z m sched st
     in case expected_at z sched now last_success of
          None \<Rightarrow> False
        | Some expected \<Rightarrow>
            if expected > now then False
            else if (case last_success of Some ls \<Rightarrow> ls \<ge> expected | None \<Rightarrow> False) then False
            else let policy = resolve m sched
            in if is_stale expected (rp_stale_after_minutes policy) now then False
            else if defers pwr sched then False
            else let slug = slug_from_args (sched_args sched);
                     window = unwrap_or (ok_flatten (read_window z st (da_name agent) slug expected))
                                default_window
            in if ws_given_up window then False
            else if ws_attempts window \<ge> rp_max_retries policy then False
            else should_retry (ws_attempts window)
                   (Option.bind (ws_last_attempt_at window) (tz_epoch z))
                   (rp_retry_backoff_minutes policy) now)"

definition dry_run_count ::
    "tz \<Rightarrow> power_gate \<Rightarrow> instant \<Rightarrow> discovered_agent list \<Rightarrow> store \<Rightarrow> nat" where
  "dry_run_count z pwr now agents st =
     length (filter (\<lambda>(a, s). would_dispatch z pwr a s st now) (monitored_pairs agents))"

section \<open>What a dispatch does to the window files\<close>

abbreviation windows_of :: "world \<Rightarrow> rstr \<Rightarrow> window_state on_disk" where
  "windows_of w \<equiv> st_windows (wo_store w)"

definition writes_ok :: "dispatch_outside \<Rightarrow> bool" where
  "writes_ok q \<longleftrightarrow> (\<forall>t p. or_write_ok q t p)"

definition agent_slug :: "schedule \<Rightarrow> rstr" where
  "agent_slug s = slug_from_args (sched_args s)"

text \<open>The agent's own window files were written by it (a name that collides with another agent's
  file would break this; see \<open>window_path_collides\<close>).\<close>

definition own_windows :: "tz \<Rightarrow> rstr \<Rightarrow> rstr \<Rightarrow> (rstr \<Rightarrow> window_state on_disk) \<Rightarrow> bool" where
  "own_windows z name slug f \<longleftrightarrow>
     (\<forall>e ws. f (window_path z name slug e) = Present ws \<longrightarrow> ws_agent ws = name)"


lemma run_windows: "windows_of (snd (run_with_hooks z q ctx spec w)) = windows_of w"
  using run_with_hooks_step[of spec z q ctx w] by (simp add: state_step_def)

lemma put_window_windows:
  "writes_ok q \<Longrightarrow> windows_of (put_window z q ws slug e w) =
     (windows_of w)(window_path z (ws_agent ws) slug e := Present ws)"
  by (simp add: put_window_def write_window_def writes_ok_def)

lemma audit_windows [simp]: "windows_of (audit_append b ev w) = windows_of w"
  by simp

lemma flush_memos_store [simp]: "wo_store (flush_memos a ms w) = wo_store w"
  by (simp add: flush_memos_def)

lemma remember_store [simp]: "wo_store (remember q a s ro w) = wo_store w"
  by (simp add: remember_def Let_def split: option.split)

lemma give_up_windows:
  assumes "writes_ok q"
  shows "\<exists>t. windows_of (give_up z q agent sched ws slug e w) =
    (windows_of w)(window_path z (ws_agent ws) slug e :=
       Present (ws\<lparr> ws_given_up := True, ws_given_up_at := Some t \<rparr>))"
  unfolding give_up_def Let_def case_prod_beta put_window_windows[OF assms]
  by (intro exI[of _ "timestamp (or_now q (wo_trace w))"]) (simp split: option.split)

lemma attempt_window_simps [simp]:
  "ws_agent (attempt_window ws now c s) = ws_agent ws"
  "ws_attempts (attempt_window ws now c s) = Suc (ws_attempts ws)"
  "ws_given_up (attempt_window ws now c s) = ws_given_up ws"
  "ws_last_attempt_exit_code (attempt_window ws now c s) = Some c"
  by (simp_all add: attempt_window_def)



text \<open>What \<open>due_window\<close> guarantees about the run it lets through.\<close>

lemma due_window_Some:
  assumes "due_window z pwr agent sched st now = Some d"
  shows "expected_at z sched now (last_success_for z (da_manifest agent) sched st) = Some (dr_expected d)"
    and "dr_expected d \<le> now"
    and "\<And>ls. last_success_for z (da_manifest agent) sched st = Some ls \<Longrightarrow> ls < dr_expected d"
    and "\<not> is_stale (dr_expected d) (rp_stale_after_minutes (resolve (da_manifest agent) sched)) now"
    and "\<not> defers pwr sched"
    and "dr_slug d = agent_slug sched"
    and "dr_policy d = resolve (da_manifest agent) sched"
    and "dr_window d = unwrap_or (ok_flatten (read_window z st (da_name agent) (agent_slug sched) (dr_expected d)))
           (fresh_window (da_name agent) (sched_id sched) (dr_expected d))"
    and "\<not> ws_given_up (dr_window d)"
    and "should_retry (ws_attempts (dr_window d)) (Option.bind (ws_last_attempt_at (dr_window d)) (tz_epoch z))
           (rp_retry_backoff_minutes (dr_policy d)) now"
  using assms unfolding due_window_def Let_def agent_slug_def
  by (auto split: option.splits if_splits)


lemma due_window_agent:
  assumes "due_window z pwr agent sched (wo_store w) now = Some d"
    and "own_windows z (da_name agent) (agent_slug sched) (windows_of w)"
  shows "ws_agent (dr_window d) = da_name agent"
  using assms(2) unfolding due_window_Some(8)[OF assms(1)] read_window_def read_json_def ok_flatten_def
  by (auto simp: unwrap_or_def fresh_window_def own_windows_def split: on_disk.splits)

text \<open>The file a dispatch is about, when there is one.\<close>

definition due_path :: "tz \<Rightarrow> power_gate \<Rightarrow> discovered_agent \<Rightarrow> schedule \<Rightarrow> store \<Rightarrow> instant \<Rightarrow> rstr option" where
  "due_path z pwr agent sched st now =
     map_option (\<lambda>d. window_path z (da_name agent) (dr_slug d) (dr_expected d))
       (due_window z pwr agent sched st now)"



section \<open>Properties\<close>

lemma would_dispatch_iff:
  "would_dispatch z pwr agent sched st now \<longleftrightarrow>
     (\<exists>d. due_window z pwr agent sched st now = Some d
        \<and> ws_attempts (dr_window d) < rp_max_retries (dr_policy d))"
proof -
  have f: "ws_given_up (unwrap_or r (fresh_window a s e)) = ws_given_up (unwrap_or r default_window)"
    "ws_attempts (unwrap_or r (fresh_window a s e)) = ws_attempts (unwrap_or r default_window)"
    "ws_last_attempt_at (unwrap_or r (fresh_window a s e)) = ws_last_attempt_at (unwrap_or r default_window)"
    for r a s e
    by (simp_all add: unwrap_or_def fresh_window_def default_window_def split: option.split)
  show ?thesis
    unfolding would_dispatch_def due_window_def Let_def
    by (auto simp: f split: option.split)
qed

text \<open>the dry run predicts the tick: for every schedule it reports exactly when the tick would
  hand it to the runner, and where it does not the tick dispatches nothing and starts no process,
  leaving the world untouched unless retries had run out and it gives up.\<close>

theorem dry_run_predicts_dispatch:
  "if would_dispatch z pwr agent sched (wo_store w) now
   then \<exists>d. due_window z pwr agent sched (wo_store w) now = Some d
      \<and> dispatch_one z q pool pwr agent sched now w = run_due z q pool agent sched d now w
   else dispatch_one z q pool pwr agent sched now w \<in> insert (False, w)
      {(False, give_up z q agent sched (dr_window d) (dr_slug d) (dr_expected d) w) | d.
         due_window z pwr agent sched (wo_store w) now = Some d
         \<and> rp_max_retries (dr_policy d) \<le> ws_attempts (dr_window d)}"
  unfolding would_dispatch_iff
  by (auto simp: dispatch_one_def split: option.split)

text \<open>a dispatch that does anything at all is of a window that has come (at or before now), has
  not been covered by a success, is not stale, is not held back by the power policy, has not been
  given up, and whose backoff has elapsed; in every other case the tick leaves no trace: no file,
  no episode, no event, no notification.\<close>

theorem dispatch_only_when_due:
  assumes "dispatch_one z q pool pwr agent sched now w \<noteq> (False, w)"
    and "ls = last_success_for z (da_manifest agent) sched (wo_store w)"
  shows "\<exists>e. expected_at z sched now ls = Some e \<and> e \<le> now \<and> (\<forall>l. ls = Some l \<longrightarrow> l < e)
    \<and> \<not> is_stale e (rp_stale_after_minutes (resolve (da_manifest agent) sched)) now
    \<and> \<not> defers pwr sched
    \<and> (\<forall>ws. windows_of w (window_path z (da_name agent) (agent_slug sched) e) = Present ws \<longrightarrow>
         \<not> ws_given_up ws
         \<and> should_retry (ws_attempts ws) (Option.bind (ws_last_attempt_at ws) (tz_epoch z))
             (rp_retry_backoff_minutes (resolve (da_manifest agent) sched)) now)"
proof (cases "due_window z pwr agent sched (wo_store w) now")
  case None
  then show ?thesis using assms(1) by (simp add: dispatch_one_def)
next
  case (Some d)
  note f = due_window_Some[OF Some]
  have "dr_window d = ws" if "windows_of w (window_path z (da_name agent) (agent_slug sched) (dr_expected d)) = Present ws" for ws
    using f(8) that by (simp add: read_window_def read_json_def ok_flatten_def unwrap_or_def)
  then show ?thesis using f unfolding assms(2) by (intro exI[of _ "dr_expected d"]) auto
qed






text \<open>a request that may have been delivered is never sent again: when the pool lost one, the
  window is given up on the spot, its lost attempt counted with exit code -1, and no later tick,
  whatever its power gate or its clock, lets that window through.\<close>

theorem request_lost_is_terminal:
  assumes "writes_ok q" "own_windows z (da_name agent) (agent_slug sched) (windows_of w)"
    and "due_window z pwr agent sched (wo_store w) now = Some d"
    and "ws_attempts (dr_window d) < rp_max_retries (dr_policy d)"
    and "fst (run_with_hooks z (run_outside.truncate q) (dispatch_context pool)
           (run_spec_for q agent sched w) w) = Inl (RequestLost lost)"
    and "dispatch_one z q pool pwr agent sched now w = (went, w')"
    and "p = window_path z (da_name agent) (agent_slug sched) (dr_expected d)"
  shows "went \<and> (\<exists>ws. windows_of w' p = Present ws \<and> ws_given_up ws
      \<and> ws_attempts ws = Suc (ws_attempts (dr_window d)) \<and> ws_last_attempt_exit_code ws = Some (-1)
      \<and> (\<forall>pwr' now' st'. st_windows st' p = Present ws \<longrightarrow>
           due_path z pwr' agent sched st' now' \<noteq> Some p))"
proof -
  obtain w1 where r: "run_with_hooks z (run_outside.truncate q) (dispatch_context pool)
      (run_spec_for q agent sched w) w = (Inl (RequestLost lost), w1)"
    using assms(5) by (metis prod.collapse)
  have w1: "windows_of w1 = windows_of w"
    using run_windows[of z "run_outside.truncate q" "dispatch_context pool" "run_spec_for q agent sched w" w]
    unfolding r by simp
  let ?ws = "attempt_window (dr_window d) now request_lost_exit_code (request_lost_text lost)"
  let ?w2 = "fire_on_failure_event (base_outside q) (da_manifest agent) (sched_id sched)
    (lit ''attempt_failed'') (request_lost_text lost) w1"
  have w': "went" "w' = give_up z q agent sched ?ws (dr_slug d) (dr_expected d) ?w2"
    using assms(3,4,6) r by (simp_all add: dispatch_one_def run_due_def Let_def)
  have ag: "ws_agent (dr_window d) = da_name agent" by (rule due_window_agent[OF assms(3,2)])
  obtain t where t: "windows_of w' p = Present (?ws\<lparr> ws_given_up := True, ws_given_up_at := Some t \<rparr>)"
    using give_up_windows[OF assms(1), of z agent sched ?ws "dr_slug d" "dr_expected d" ?w2]
    unfolding w'(2) assms(7) by (auto simp: ag due_window_Some(6)[OF assms(3)])
  have "due_path z pwr' agent sched st' now' \<noteq> Some p"
    if "st_windows st' p = Present v" "ws_given_up v" for pwr' now' st' v
  proof
    assume "due_path z pwr' agent sched st' now' = Some p"
    then obtain d' where d': "due_window z pwr' agent sched st' now' = Some d'"
      "p = window_path z (da_name agent) (agent_slug sched) (dr_expected d')"
      by (auto simp: due_path_def due_window_Some(6))
    have "dr_window d' = v" using due_window_Some(8)[OF d'(1)] that(1)
      by (simp add: d'(2)[symmetric] read_window_def read_json_def ok_flatten_def unwrap_or_def)
    then show False using due_window_Some(9)[OF d'(1)] that(2) by simp
  qed
  then show ?thesis using w'(1) t by (auto simp: request_lost_exit_code_def)
qed

text \<open>A run that could not be started at all leaves the window as it was: it burns no retry, and
  so can be tried again on every tick.\<close>

lemma spawn_failure_burns_no_retry:
  assumes "due_window z pwr agent sched (wo_store w) now = Some d"
    and "ws_attempts (dr_window d) < rp_max_retries (dr_policy d)"
    and "run_with_hooks z (run_outside.truncate q) (dispatch_context pool)
           (run_spec_for q agent sched w) w = (Inl (RunSpawn e), w1)"
  shows "dispatch_one z q pool pwr agent sched now w = (False, w1) \<and> windows_of w1 = windows_of w"
  using run_windows[of z "run_outside.truncate q" "dispatch_context pool" "run_spec_for q agent sched w" w]
    assms(1,2) by (simp add: dispatch_one_def run_due_def assms(3))

section \<open>Witnesses\<close>

text \<open>A persistent agent on mains power, with one daily window at 09:00 UTC, half an hour after it
  opened on an empty disk, whose pool loses the request.\<close>

definition probe_sched :: schedule where
  "probe_sched = Cron (lit ''s'') [4] [9] 0 [] no_overrides"

definition probe_agent :: discovered_agent where
  "probe_agent = \<lparr> da_manifest = (plain_manifest [probe_sched])\<lparr> mf_lifecycle :=
     default_lifecycle\<lparr> lc_mode := Persistent \<rparr> \<rparr>, da_dir = [] \<rparr>"

definition mains :: power_gate where
  "mains = \<lparr> pg_source = Ac, pg_on_battery = Run, pg_min_battery_percent = 0 \<rparr>"

definition losing :: dispatch_outside where
  "losing = run_outside.extend
     ((exiting 0)\<lparr> or_exchange := (\<lambda>_ _. Inl (RequestLost \<lparr> rl_reason = [], rl_duration_seconds = 1 \<rparr>)) \<rparr>)
     (dispatch_outside.fields (\<lambda>_ _. None) (\<lambda>_ _ _ _ _. None) (\<lambda>s. s))"

definition probe_due :: due_run where
  "probe_due = \<lparr> dr_slug = default_slug, dr_expected = 540 * minute,
     dr_window = fresh_window (lit ''probe'') (lit ''s'') (540 * minute),
     dr_policy = resolve (da_manifest probe_agent) probe_sched \<rparr>"

lemma probe_fields [simp]:
  "da_name probe_agent = lit ''probe''" "sched_id probe_sched = lit ''s''"
  "sched_args probe_sched = []" "agent_slug probe_sched = default_slug"
  "slug_from_args [] = default_slug" "rp_max_retries (resolve (da_manifest probe_agent) probe_sched) = 3"
  "mf_preflight (da_manifest probe_agent) = []"
  "is_persistent (mf_lifecycle (da_manifest probe_agent))"
  by (simp_all add: da_name_def probe_agent_def plain_manifest_def probe_sched_def agent_slug_def
      slug_from_args_def resolve_def no_overrides_def unwrap_or_def option_or_def is_persistent_def)

lemma probe_expected: "expected_at utc probe_sched (570 * minute) None = Some (540 * minute)"
  by (simp add: probe_sched_def cron_expected_at_def day_of_weekday_def utc_def transition_zone_def
      zone_offset_def civil_of_def time_simps)

lemma empty_world_fields [simp]:
  "st_heartbeats (wo_store empty_world) p = Absent" "st_windows (wo_store empty_world) p = Absent"
  "wo_trace empty_world = []"
  by (simp_all add: empty_world_def)

lemma probe_is_due:
  "due_window utc mains probe_agent probe_sched (wo_store empty_world) (570 * minute) = Some probe_due"
  by (simp add: due_window_def last_success_for_def read_heartbeat_def read_window_def read_json_def
      ok_flatten_def probe_expected is_stale_iff defers_def mains_def probe_due_def Let_def
      unwrap_or_def should_retry_def fresh_window_def default_window_def)
    (simp add: resolve_def no_overrides_def unwrap_or_def option_or_def probe_sched_def
      probe_agent_def plain_manifest_def time_simps)

lemma losing_fields [simp]:
  "or_write_ok losing t p" "or_now losing t = 1000 * minute" "writes_ok losing"
  by (simp_all add: losing_def run_outside.extend_def exiting_def dispatch_outside.fields_def writes_ok_def)

lemma losing_run:
  "fst (run_with_hooks utc (run_outside.truncate losing) (dispatch_context True)
     (run_spec_for losing probe_agent probe_sched empty_world) empty_world)
   = Inl (RequestLost \<lparr> rl_reason = [], rl_duration_seconds = 1 \<rparr>)"
  by (simp add: run_with_hooks_def dispatch_context_def run_spec_for_def run_preflight_def Let_def
      pool_dispatch_def begin_heartbeat_def read_heartbeat_def read_json_def put_heartbeat_def
      write_heartbeat_def losing_def run_outside.extend_def dispatch_outside.fields_def exiting_def
      run_outside.truncate_def)

lemma probe_attempts: "ws_attempts (dr_window probe_due) < rp_max_retries (dr_policy probe_due)"
  by (simp add: probe_due_def fresh_window_def default_window_def)

lemma probe_own: "own_windows utc (da_name probe_agent) (agent_slug probe_sched) (windows_of empty_world)"
  by (simp add: own_windows_def)

theorem request_lost_is_terminal_witness:
  "\<exists>ws. windows_of (snd (dispatch_one utc losing True mains probe_agent probe_sched (570 * minute) empty_world))
     (window_path utc (lit ''probe'') default_slug (540 * minute)) = Present ws \<and> ws_given_up ws
     \<and> ws_attempts ws = 1"
  using request_lost_is_terminal[OF _ probe_own probe_is_due probe_attempts losing_run
      prod.collapse[symmetric] refl] by (auto simp: probe_due_def fresh_window_def default_window_def)

theorem dispatch_only_when_due_witness:
  "\<exists>e. expected_at utc probe_sched (570 * minute)
     (last_success_for utc (da_manifest probe_agent) probe_sched (wo_store empty_world)) = Some e
     \<and> e \<le> 570 * minute"
proof -
  obtain w1 where "run_with_hooks utc (run_outside.truncate losing) (dispatch_context True)
      (run_spec_for losing probe_agent probe_sched empty_world) empty_world
      = (Inl (RequestLost \<lparr> rl_reason = [], rl_duration_seconds = 1 \<rparr>), w1)"
    using losing_run by (metis prod.collapse)
  then have "fst (dispatch_one utc losing True mains probe_agent probe_sched (570 * minute) empty_world)"
    using probe_attempts by (simp add: dispatch_one_def probe_is_due run_due_def Let_def)
  then have "dispatch_one utc losing True mains probe_agent probe_sched (570 * minute) empty_world
      \<noteq> (False, empty_world)" by auto
  from dispatch_only_when_due[OF this refl] show ?thesis by blast
qed


end
