(* ===== verification/Manifest_Cache.thy ===== *)
theory Manifest_Cache
  imports Dispatch
begin

text \<open>
  \<open>check_cache\<close> of \<open>commands/daemon.rs\<close> over the known-manifest table of
  \<open>dotagent-state/src/manifest_cache.rs\<close>: a manifest never seen under its name is reported as a
  phantom agent, one whose hash differs from the one on record as drift.  The hash of a manifest
  file (\<open>hash_manifest_file\<close>, \<open>None\<close> when it cannot be read) and the rendering of the clock are
  arguments; the table file is an \<open>on_disk\<close> value, and whether it can be written an argument.
\<close>

record known_manifest =
  km_path :: rstr
  km_sha256 :: rstr
  km_first_seen_at_iso :: rstr
  km_last_seen_at_iso :: rstr

type_synonym known_manifests = "rstr \<rightharpoonup> known_manifest"

definition cache_load :: "known_manifests on_disk \<Rightarrow> state_error + known_manifests" where
  "cache_load f = (case f of
     Absent \<Rightarrow> Inr Map.empty | Corrupt \<Rightarrow> Inl StateJson | Present k \<Rightarrow> Inr k)"

definition cache_save :: "bool \<Rightarrow> known_manifests \<Rightarrow> known_manifests on_disk
    \<Rightarrow> (state_error + unit) \<times> known_manifests on_disk" where
  "cache_save ok k f = (if ok then (Inr (), Present k) else (Inl StateIo, f))"

definition manifest_path :: "discovered_agent \<Rightarrow> rstr" where
  "manifest_path agent = da_dir agent @ lit ''/agent.toml''"

text \<open>One agent of the loop: the table, the \<open>changed\<close> flag and the events it appends.\<close>

definition check_agent :: "(rstr \<Rightarrow> rstr option) \<Rightarrow> rstr \<Rightarrow> discovered_agent
    \<Rightarrow> known_manifests \<times> bool \<times> audit_event list \<Rightarrow> known_manifests \<times> bool \<times> audit_event list" where
  "check_agent hash now_iso agent st = (case st of (known, changed, evs) \<Rightarrow>
     (let path = manifest_path agent; name = da_name agent
      in case hash path of
           None \<Rightarrow> st
         | Some sha \<Rightarrow>
             (case known name of
                Some entry \<Rightarrow>
                  if km_sha256 entry \<noteq> sha
                  then (known(name \<mapsto> entry\<lparr> km_sha256 := sha, km_last_seen_at_iso := now_iso,
                                         km_path := path \<rparr>), True,
                        evs @ [ManifestDriftDetected name path (km_sha256 entry) sha])
                  else (known(name \<mapsto> entry\<lparr> km_last_seen_at_iso := now_iso \<rparr>), changed, evs)
              | None \<Rightarrow>
                  (known(name \<mapsto> \<lparr> km_path = path, km_sha256 = sha,
                     km_first_seen_at_iso = now_iso, km_last_seen_at_iso = now_iso \<rparr>), True,
                   evs @ [PhantomAgentDetected name path sha, ManifestLoaded name path sha]))))"

definition check_cache :: "(rstr \<Rightarrow> rstr option) \<Rightarrow> rstr \<Rightarrow> bool \<Rightarrow> discovered_agent list
    \<Rightarrow> known_manifests on_disk \<Rightarrow> (state_error + unit) \<times> known_manifests on_disk \<times> audit_event list" where
  "check_cache hash now_iso ok agents f = (
     let known = (case cache_load f of Inr k \<Rightarrow> k | Inl _ \<Rightarrow> Map.empty);
         (known', changed, evs) = fold (check_agent hash now_iso) agents (known, False, [])
     in if changed then (let (r, f') = cache_save ok known' f in (r, f', evs))
        else (Inr (), f, evs))"

section \<open>Facts\<close>

text \<open>What one agent is reported as, judged against the table the check started from.\<close>

definition reports_for :: "(rstr \<Rightarrow> rstr option) \<Rightarrow> known_manifests \<Rightarrow> discovered_agent \<Rightarrow> audit_event list" where
  "reports_for hash known agent = (case hash (manifest_path agent) of
     None \<Rightarrow> []
   | Some sha \<Rightarrow>
       (case known (da_name agent) of
          None \<Rightarrow> [PhantomAgentDetected (da_name agent) (manifest_path agent) sha,
                   ManifestLoaded (da_name agent) (manifest_path agent) sha]
        | Some e \<Rightarrow> if km_sha256 e = sha then []
                   else [ManifestDriftDetected (da_name agent) (manifest_path agent) (km_sha256 e) sha]))"

definition loaded :: "known_manifests on_disk \<Rightarrow> known_manifests" where
  "loaded f = (case f of Present k \<Rightarrow> k | _ \<Rightarrow> Map.empty)"

lemma loaded_cache_load: "(case cache_load f of Inr k \<Rightarrow> k | Inl _ \<Rightarrow> Map.empty) = loaded f"
  by (simp add: cache_load_def loaded_def split: on_disk.splits)

lemma check_agent_eq:
  "check_agent hash tm a (k, ch, evs) = (k', ch', evs') \<Longrightarrow>
     evs' = evs @ reports_for hash k a \<and> ch' = (ch \<or> reports_for hash k a \<noteq> [])
     \<and> (\<forall>n. n \<noteq> da_name a \<longrightarrow> k' n = k n)
     \<and> (\<forall>sha. hash (manifest_path a) = Some sha \<longrightarrow> map_option km_sha256 (k' (da_name a)) = Some sha)
     \<and> (hash (manifest_path a) = None \<longrightarrow> k' = k)
     \<and> (reports_for hash k a = [] \<longrightarrow> (\<forall>n. map_option km_sha256 (k' n) = map_option km_sha256 (k n)))"
  by (cases "hash (manifest_path a)"; cases "k (da_name a)")
    (auto simp: check_agent_def reports_for_def Let_def split: if_splits)

lemma check_fold:
  assumes "fold (check_agent hash tm) agents (k, ch, evs) = (k', ch', evs')"
    and "distinct (map da_name agents)"
  shows "evs' = evs @ concat (map (reports_for hash k) agents)"
    and "ch' = (ch \<or> concat (map (reports_for hash k) agents) \<noteq> [])"
    and "\<And>a sha. a \<in> set agents \<Longrightarrow> hash (manifest_path a) = Some sha \<Longrightarrow>
           map_option km_sha256 (k' (da_name a)) = Some sha"
    and "\<And>n. n \<notin> da_name ` set agents \<Longrightarrow> k' n = k n"
    and "concat (map (reports_for hash k) agents) = [] \<Longrightarrow> (\<forall>n. map_option km_sha256 (k' n) = map_option km_sha256 (k n))"
proof -
  have "evs' = evs @ concat (map (reports_for hash k) agents)
    \<and> ch' = (ch \<or> concat (map (reports_for hash k) agents) \<noteq> [])
    \<and> (\<forall>a sha. a \<in> set agents \<longrightarrow> hash (manifest_path a) = Some sha \<longrightarrow>
           map_option km_sha256 (k' (da_name a)) = Some sha)
    \<and> (\<forall>n. n \<notin> da_name ` set agents \<longrightarrow> k' n = k n)
    \<and> (concat (map (reports_for hash k) agents) = [] \<longrightarrow> (\<forall>n. map_option km_sha256 (k' n) = map_option km_sha256 (k n)))"
    using assms
  proof (induction agents arbitrary: k ch evs)
    case (Cons a as)
    obtain k1 ch1 evs1 where s: "check_agent hash tm a (k, ch, evs) = (k1, ch1, evs1)"
      by (metis prod.collapse)
    note e = check_agent_eq[OF s]
    have r: "reports_for hash k1 b = reports_for hash k b" if "b \<in> set as" for b
    proof -
      have "da_name b \<noteq> da_name a" using imageI[OF that, of da_name] Cons.prems(2) by auto
      then have k1: "k1 (da_name b) = k (da_name b)" using e by blast
      show ?thesis unfolding reports_for_def k1 by (rule refl)
    qed
    then have m: "map (reports_for hash k1) as = map (reports_for hash k) as" by simp
    have "fold (check_agent hash tm) as (k1, ch1, evs1) = (k', ch', evs')"
      using Cons.prems(1) s by simp
    note ih = Cons.IH[OF this, unfolded m]
    have d: "distinct (map da_name as)" and n: "da_name a \<notin> da_name ` set as"
      using Cons.prems(2) by auto
    show ?case using ih[OF d] e n by auto
  qed simp
  then show "evs' = evs @ concat (map (reports_for hash k) agents)"
    "ch' = (ch \<or> concat (map (reports_for hash k) agents) \<noteq> [])"
    "\<And>a sha. a \<in> set agents \<Longrightarrow> hash (manifest_path a) = Some sha \<Longrightarrow>
           map_option km_sha256 (k' (da_name a)) = Some sha"
    "\<And>n. n \<notin> da_name ` set agents \<Longrightarrow> k' n = k n"
    "concat (map (reports_for hash k) agents) = [] \<Longrightarrow> (\<forall>n. map_option km_sha256 (k' n) = map_option km_sha256 (k n))"
    by blast+
qed

lemma check_cache_eq:
  assumes "check_cache hash tm ok agents f = (r, f', evs)" "distinct (map da_name agents)"
  shows "evs = concat (map (reports_for hash (loaded f)) agents)"
    and "evs = [] \<Longrightarrow> f' = f"
    and "ok \<Longrightarrow> a \<in> set agents \<Longrightarrow> hash (manifest_path a) = Some sha \<Longrightarrow>
           map_option km_sha256 (loaded f' (da_name a)) = Some sha"
proof -
  obtain k ch e where s: "fold (check_agent hash tm) agents (loaded f, False, []) = (k, ch, e)"
    by (metis prod.collapse)
  note c = check_fold[OF s assms(2)]
  have x: "evs = e" "f' = (if ch \<and> ok then Present k else f)"
    using assms(1) by (auto simp: check_cache_def loaded_cache_load s cache_save_def split: if_splits)
  show "evs = concat (map (reports_for hash (loaded f)) agents)" using x c(1) by simp
  show "evs = [] \<Longrightarrow> f' = f" using x c(1,2) by auto
  assume a: "ok" "a \<in> set agents" "hash (manifest_path a) = Some sha"
  show "map_option km_sha256 (loaded f' (da_name a)) = Some sha"
  proof (cases ch)
    case True
    then show ?thesis using x a c(3) by (simp add: loaded_def[of "Present k"])
  next
    case False
    then have "map_option km_sha256 (k n) = map_option km_sha256 (loaded f n)" for n using c(2,5) by blast
    then show ?thesis using x False c(3)[OF a(2,3)] by simp
  qed
qed

text \<open>manifest tampering is reported, once: with agents of distinct names, the check reports
  exactly the agents never seen and those whose hash differs from the one on record, in order;
  and as soon as the table could be written, checking the same files again reports nothing, until
  one of them changes.\<close>

theorem drift_reported_once:
  assumes "distinct (map da_name agents)"
    and "check_cache hash tm True agents f = (r, f', evs)"
    and "check_cache hash' tm' ok agents f' = (r', f'', evs')"
  shows "evs = concat (map (reports_for hash (loaded f)) agents)
    \<and> (\<forall>a. a \<in> set agents \<and> hash' (manifest_path a) \<notin> {None, hash (manifest_path a)}
         \<and> hash (manifest_path a) \<noteq> None \<longrightarrow>
         ManifestDriftDetected (da_name a) (manifest_path a) (the (hash (manifest_path a)))
           (the (hash' (manifest_path a))) \<in> set evs')
    \<and> (hash' = hash \<longrightarrow> evs' = [])"
proof (intro conjI allI impI)
  note one = check_cache_eq[OF assms(2,1)] and two = check_cache_eq[OF assms(3,1)]
  show "evs = concat (map (reports_for hash (loaded f)) agents)" by (rule one(1))
  fix a assume a: "a \<in> set agents \<and> hash' (manifest_path a) \<notin> {None, hash (manifest_path a)}
      \<and> hash (manifest_path a) \<noteq> None"
  then obtain sha sha' where h: "hash (manifest_path a) = Some sha" "hash' (manifest_path a) = Some sha'"
    "sha' \<noteq> sha" by auto
  have "map_option km_sha256 (loaded f' (da_name a)) = Some sha" using one(3) a h by simp
  then have "ManifestDriftDetected (da_name a) (manifest_path a) sha sha' \<in> set (reports_for hash' (loaded f') a)"
    using h by (auto simp: reports_for_def)
  then show "ManifestDriftDetected (da_name a) (manifest_path a) (the (hash (manifest_path a)))
      (the (hash' (manifest_path a))) \<in> set evs'"
    using a h two(1) by auto
next
  note one = check_cache_eq[OF assms(2,1)] and two = check_cache_eq[OF assms(3,1)]
  assume eq: "hash' = hash"
  have "reports_for hash (loaded f') a = []" if "a \<in> set agents" for a
    using one(3)[OF _ that] by (auto simp: reports_for_def split: option.splits)
  then show "evs' = []" using two(1) eq by simp
qed

text \<open>Hashing the same bytes again only moves \<open>last_seen\<close>, which is never written back.\<close>

lemma unchanged_last_seen_not_persisted:
  assumes "check_cache hash tm ok agents f = (r, f', [])" "distinct (map da_name agents)"
  shows "f' = f"
  using check_cache_eq(2)[OF assms] by simp

theorem drift_reported_once_witness:
  "snd (snd (check_cache (\<lambda>_. Some (lit ''beef'')) (lit ''now'') True [probe_agent] Absent)) =
     [PhantomAgentDetected (lit ''probe'') (manifest_path probe_agent) (lit ''beef''),
      ManifestLoaded (lit ''probe'') (manifest_path probe_agent) (lit ''beef'')]"
proof -
  let ?h = "\<lambda>_. Some (lit ''beef'')"
  obtain r f evs where a: "check_cache ?h (lit ''now'') True [probe_agent] Absent = (r, f, evs)"
    by (metis prod.collapse)
  obtain r' f' evs' where "check_cache ?h (lit ''now'') True [probe_agent] f = (r', f', evs')"
    by (metis prod.collapse)
  moreover have "da_name probe_agent = lit ''probe''"
    by (simp add: da_name_def probe_agent_def plain_manifest_def)
  ultimately show ?thesis using drift_reported_once[OF _ a] by (simp add: a reports_for_def loaded_def)
qed

end
