(* ===== verification/Health_Sweep.thy ===== *)
theory Health_Sweep
  imports Manifest_Cache
begin

text \<open>
  The condition-driven half of alerting: \<open>last_dispatched_window\<close> and \<open>compute_row\<close> of
  \<open>commands/status.rs\<close> and \<open>sweep_health_notifications\<close> of \<open>commands/daemon.rs\<close>.  Reading a
  directory is the argument \<open>list\<close> (\<open>None\<close> when it cannot be read; the order of the names is
  the file system's), and \<open>parse_label\<close> is chrono's \<open>NaiveDateTime::parse_from_str\<close> followed by
  \<open>earliest()\<close>.
\<close>

section \<open>The newest dispatched window (status.rs)\<close>

definition parent_dir :: "rstr \<Rightarrow> rstr" where
  "parent_dir p = rev (drop 1 (dropWhile (\<lambda>c. c \<noteq> 47) (rev p)))"

definition file_name :: "rstr \<Rightarrow> rstr" where
  "file_name p = rev (takeWhile (\<lambda>c. c \<noteq> 47) (rev p))"

definition max_instant :: "instant list \<Rightarrow> instant option" where
  "max_instant ts = (case ts of [] \<Rightarrow> None | t # us \<Rightarrow> Some (fold max us t))"

definition window_of_name :: "(rstr \<Rightarrow> instant option) \<Rightarrow> rstr \<Rightarrow> rstr \<Rightarrow> instant option" where
  "window_of_name parse_label pre name =
     Option.bind (strip_prefix pre name) (\<lambda>rest.
       Option.bind (strip_suffix (lit ''.json'') rest) parse_label)"

definition last_dispatched_window :: "tz \<Rightarrow> (rstr \<Rightarrow> instant option) \<Rightarrow> (rstr \<Rightarrow> rstr list option)
    \<Rightarrow> rstr \<Rightarrow> rstr \<Rightarrow> instant \<Rightarrow> instant option" where
  "last_dispatched_window z parse_label list agent slug now = (
     let probe = window_path z agent slug now
     in Option.bind (strip_suffix (tz_label z now @ lit ''.json'') (file_name probe)) (\<lambda>pre.
          Option.bind (list (parent_dir probe)) (\<lambda>names.
            max_instant (filter (\<lambda>t. t \<le> now) (List.map_filter (window_of_name parse_label pre) names)))))"

section \<open>One row of the dashboard\<close>

record status_row =
  row_agent :: rstr
  row_schedule :: rstr
  row_state :: health_state
  row_last_run :: rstr
  row_reason :: rstr

definition read_hb :: "store \<Rightarrow> agent_manifest \<Rightarrow> schedule \<Rightarrow> heartbeat option" where
  "read_hb st m sched =
     ok_flatten (read_heartbeat st (am_name (mf_agent m)) (slug_from_args (sched_args sched)))"

definition row_window :: "tz \<Rightarrow> (rstr \<Rightarrow> instant option) \<Rightarrow> (rstr \<Rightarrow> rstr list option) \<Rightarrow> store
    \<Rightarrow> agent_manifest \<Rightarrow> schedule \<Rightarrow> instant \<Rightarrow> window_state option" where
  "row_window z parse_label list st m sched now = (
     let name = am_name (mf_agent m); slug = slug_from_args (sched_args sched);
         dispatched = last_dispatched_window z parse_label list name slug now
     in Option.bind (window_key z sched (read_hb st m sched) dispatched now)
          (\<lambda>key. ok_flatten (read_window z st name slug key)))"

definition compute_row :: "tz \<Rightarrow> (rstr \<Rightarrow> instant option) \<Rightarrow> (rstr \<Rightarrow> rstr list option) \<Rightarrow> store
    \<Rightarrow> discovered_agent \<Rightarrow> schedule \<Rightarrow> instant \<Rightarrow> status_row" where
  "compute_row z parse_label list st agent sched now = (
     let m = da_manifest agent; policy = resolve m sched; hb = read_hb st m sched;
         last_run = unwrap_or (Option.bind hb hb_finished_at_iso) (lit ''never'');
         window = row_window z parse_label list st m sched now;
         (state_val, reason) = health_state z sched policy hb window now
     in \<lparr> row_agent = da_name agent, row_schedule = sched_id sched, row_state = state_val,
          row_last_run = last_run, row_reason = reason \<rparr>)"

section \<open>The sweep (daemon.rs)\<close>

text \<open>The sweep carries the episode table in memory and saves it at the end.  \<open>list\<close> stands for
  reading the window directory, which the sweep itself never writes.  The source's \<open>changed\<close> flag
  only spares the write of a table that is still what the file holds, so it is not kept.\<close>

definition sweep_pair :: "tz \<Rightarrow> dispatch_outside \<Rightarrow> (rstr \<Rightarrow> instant option)
    \<Rightarrow> (rstr \<Rightarrow> rstr list option) \<Rightarrow> power_gate \<Rightarrow> instant \<Rightarrow> discovered_agent \<times> schedule
    \<Rightarrow> notify_dedup \<times> world \<Rightarrow> notify_dedup \<times> world" where
  "sweep_pair z q parse_label list pwr now pair st = (case (pair, st) of ((agent, sched), (table, w)) \<Rightarrow>
     if defers pwr sched then (table, w)
     else
       let m = da_manifest agent; name = da_name agent; sid = sched_id sched;
           policy = resolve m sched; hb = read_hb (wo_store w) m sched;
           last_success = Option.bind (Option.bind hb hb_last_success_at) (tz_epoch z);
           expected = expected_at z sched now last_success;
           window = row_window z parse_label list (wo_store w) m sched now;
           health = fst (health_state z sched policy hb window now)
       in case alert_verdict health expected last_success window of
            Healthy \<Rightarrow> (clear_pair table name sid, w)
          | Quiet \<Rightarrow> (table, w)
          | Alert event \<Rightarrow>
              (case notify_channel m event of
                 None \<Rightarrow> (table, w)
               | Some channel \<Rightarrow>
                   let key = alert_key name sid event
                   in if \<not> dedup_should_notify table key (timestamp now) then (table, w)
                      else let (episode, table') = record_alert table key (timestamp now);
                               message = alert_message event name sid last_success window episode now
                           in (table', fire_on_failure_event (base_outside q) m sid channel message w)))"

definition sweep_health_notifications :: "tz \<Rightarrow> dispatch_outside \<Rightarrow> (rstr \<Rightarrow> instant option)
    \<Rightarrow> (rstr \<Rightarrow> rstr list option) \<Rightarrow> power_gate \<Rightarrow> instant \<Rightarrow> discovered_agent list \<Rightarrow> world \<Rightarrow> world" where
  "sweep_health_notifications z q parse_label list pwr now agents w = (
     let (table, w') = fold (sweep_pair z q parse_label list pwr now) (monitored_pairs agents)
                         (wo_dedup w, w)
     in if or_write_ok q (wo_trace w') dedup_file then w'\<lparr> wo_dedup := table \<rparr> else w')"

section \<open>One ladder for both paths\<close>

text \<open>A history of asks, each by agent, schedule, condition and time, and what was said: the keys and
  times at which \<open>claim_alert\<close> let an alert through.\<close>

fun claims :: "outside \<Rightarrow> (rstr \<times> rstr \<times> rstr \<times> int) list \<Rightarrow> world \<Rightarrow> (rstr \<times> int) list \<times> world" where
  "claims q [] w = ([], w)"
| "claims q ((a, s, e, t) # asks) w =
     (let (spoke, w1) = claim_alert q a s e t w; (said, w2) = claims q asks w1
      in (if spoke = None then said else (alert_key a s e, t) # said, w2))"

definition said_for :: "rstr \<Rightarrow> (rstr \<times> int) list \<Rightarrow> int list" where
  "said_for k said = map snd (filter (\<lambda>p. fst p = k) said)"

abbreviation ask_times :: "(rstr \<times> rstr \<times> rstr \<times> int) list \<Rightarrow> int list" where
  "ask_times asks \<equiv> map (\<lambda>(a, s, e, t). t) asks"

lemma said_for_simps [simp]:
  "said_for k [] = []"
  "said_for k (p # ps) = (if fst p = k then snd p # said_for k ps else said_for k ps)"
  by (simp_all add: said_for_def)

definition dedup_writes_ok :: "outside \<Rightarrow> bool" where
  "dedup_writes_ok q \<longleftrightarrow> (\<forall>tr. or_write_ok q tr dedup_file)"

lemma claim_alert_step:
  assumes "dedup_writes_ok q" "claim_alert q a s e t w = (r, w1)"
  shows "r \<noteq> None \<longleftrightarrow> should_notify (wo_dedup w (alert_key a s e)) t"
    and "r = None \<Longrightarrow> w1 = w"
    and "k \<noteq> alert_key a s e \<Longrightarrow> wo_dedup w1 k = wo_dedup w k"
    and "r \<noteq> None \<Longrightarrow> wo_dedup w1 (alert_key a s e) = Some (case wo_dedup w (alert_key a s e) of
           None \<Rightarrow> \<lparr> ae_first_notified_at = t, ae_last_notified_at = t, ae_count = 1 \<rparr>
         | Some ep \<Rightarrow> \<lparr> ae_first_notified_at = ae_first_notified_at ep, ae_last_notified_at = t,
                       ae_count = ae_count ep + 1 \<rparr>)"
  using assms by (auto simp: claim_alert_def dedup_writes_ok_def dedup_should_notify_def record_alert_def
      Let_def split: if_splits option.splits)

abbreviation episode_ready :: "int \<Rightarrow> nat \<Rightarrow> int \<Rightarrow> int \<Rightarrow> bool" where
  "episode_ready f n t now \<equiv> should_notify (Some \<lparr> ae_first_notified_at = f,
     ae_last_notified_at = t, ae_count = n \<rparr>) now"

lemma claims_open_episode:
  assumes "dedup_writes_ok q" "claims q asks w = (said, w')" "sorted (t # ask_times asks)"
    and "wo_dedup w k = Some \<lparr> ae_first_notified_at = f, ae_last_notified_at = t, ae_count = n \<rparr>"
  shows "paced (episode_ready f) n t (said_for k said)
    \<and> wo_dedup w' k = Some \<lparr> ae_first_notified_at = f, ae_last_notified_at = last (t # said_for k said),
        ae_count = n + length (said_for k said) \<rparr>"
  using assms(2-4)
proof (induction asks arbitrary: w said n t)
  case (Cons x asks)
  obtain a s e u where x: "x = (a, s, e, u)" by (metis prod.collapse)
  obtain r w1 where r: "claim_alert q a s e u w = (r, w1)" by (metis prod.collapse)
  obtain said1 where c: "claims q asks w1 = (said1, w')"
    "said = (if r = None then said1 else (alert_key a s e, u) # said1)"
    using Cons.prems(1) by (auto simp: x r split: prod.splits)
  note st = claim_alert_step[OF assms(1) r]
  have tu: "t \<le> u" "sorted (t # ask_times asks)" "sorted (u # ask_times asks)"
    using Cons.prems(2) by (auto simp: x)
  show ?case
  proof (cases "r = None \<or> alert_key a s e \<noteq> k")
    case True
    then have "said_for k said = said_for k said1" "wo_dedup w1 k = wo_dedup w k"
      using c(2) st(2,3) by auto
    then show ?thesis using Cons.IH[OF c(1) tu(2)] Cons.prems(3) by simp
  next
    case False
    then have "episode_ready f n t u" "wo_dedup w1 k = Some \<lparr> ae_first_notified_at = f,
        ae_last_notified_at = u, ae_count = Suc n \<rparr>"
      using st(1,4) Cons.prems(3) by auto
    moreover have "said_for k said = u # said_for k said1" using False c(2) by simp
    ultimately show ?thesis using Cons.IH[OF c(1) tu(3)] tu(1) by simp
  qed
qed simp

lemma claims_fresh_episode:
  assumes "dedup_writes_ok q" "claims q asks w = (said, w')" "sorted (ask_times asks)" "wo_dedup w k = None"
  shows "case said_for k said of
      [] \<Rightarrow> wo_dedup w' k = None
    | u # us \<Rightarrow> paced (episode_ready u) 1 u us \<and> wo_dedup w' k = Some \<lparr> ae_first_notified_at = u,
        ae_last_notified_at = last (u # us), ae_count = 1 + length us \<rparr>"
  using assms(2-4)
proof (induction asks arbitrary: w said)
  case (Cons x asks)
  obtain a s e u where x: "x = (a, s, e, u)" by (metis prod.collapse)
  obtain r w1 where r: "claim_alert q a s e u w = (r, w1)" by (metis prod.collapse)
  obtain said1 where c: "claims q asks w1 = (said1, w')"
    "said = (if r = None then said1 else (alert_key a s e, u) # said1)"
    using Cons.prems(1) by (auto simp: x r split: prod.splits)
  note st = claim_alert_step[OF assms(1) r]
  have so: "sorted (ask_times asks)" "sorted (u # ask_times asks)" using Cons.prems(2) by (auto simp: x)
  show ?case
  proof (cases "alert_key a s e = k")
    case True
    then obtain ep where "r = Some ep" using st(1) Cons.prems(3) by (auto simp: should_notify_def)
    moreover from this have "wo_dedup w1 k = Some \<lparr> ae_first_notified_at = u,
        ae_last_notified_at = u, ae_count = 1 \<rparr>" using st(4) True Cons.prems(3) by simp
    ultimately show ?thesis
      using claims_open_episode[OF assms(1) c(1) so(2)] True c(2) by simp
  next
    case False
    then have "said_for k said = said_for k said1" "wo_dedup w1 k = None"
      using c(2) st(3) Cons.prems(3) by auto
    then show ?thesis using Cons.IH[OF c(1) so(1)] by simp
  qed
qed simp

lemma refused_within_a_day:
  "\<not> should_notify (Some ep) now \<Longrightarrow> ae_last_notified_at ep \<le> now \<and> now < ae_last_notified_at ep + 86400"
  by (auto simp: should_notify_def Let_def backoff_seconds_def nth_Cons split: if_splits nat.splits)

text \<open>C13. an alert that keeps being asked for speaks on the ladder: over any history of asks on a
  clock that does not run backwards, about any conditions, the first ask about a condition is
  announced, the \<open>k\<close>-th repeat of it comes no earlier than an hour, seven hours, and from then on
  a further day each after the first announcement; and a condition still asked about is never
  silenced for a day.\<close>

theorem alert_spacing:
  assumes "dedup_writes_ok q" "sorted (ask_times asks)" "wo_dedup w k = None"
    and "claims q asks w = (said, w')"
  shows "(case said_for k said of
        [] \<Rightarrow> \<forall>(a, s, e, t)\<in>set asks. alert_key a s e \<noteq> k
      | u # us \<Rightarrow> u + ladder_sum [3600, 21600, 86400] 1 (length us) \<le> last (u # us))
    \<and> (alert_key a s e = k \<and> (\<forall>t\<in>set (ask_times asks). t \<le> now) \<and> fst (claim_alert q a s e now w') = None
        \<longrightarrow> said_for k said \<noteq> [] \<and> now < last (said_for k said) + 86400)"
proof (intro conjI impI)
  note f = claims_fresh_episode[OF assms(1,4,2,3)]
  have none: "\<forall>(a, s, e, t)\<in>set asks. alert_key a s e \<noteq> k" if "said_for k said = []"
    using assms(3,4) that
  proof (induction asks arbitrary: w said)
    case (Cons x asks)
    obtain a s e u where x: "x = (a, s, e, u)" by (metis prod.collapse)
    obtain r w1 where r: "claim_alert q a s e u w = (r, w1)" by (metis prod.collapse)
    note st = claim_alert_step[OF assms(1) r]
    obtain said1 where c: "claims q asks w1 = (said1, w')"
      "said = (if r = None then said1 else (alert_key a s e, u) # said1)"
      using Cons.prems(2) by (auto simp: x r split: prod.splits)
    have "alert_key a s e \<noteq> k"
      using c(2) st(1) Cons.prems(1,3) by (auto simp: should_notify_def split: if_splits)
    then show ?case
      using Cons.IH[OF _ c(1)] c(2) st(3) Cons.prems(1,3) by (auto simp: x split: if_splits)
  qed simp
  show "case said_for k said of [] \<Rightarrow> \<forall>(a, s, e, t)\<in>set asks. alert_key a s e \<noteq> k
      | u # us \<Rightarrow> u + ladder_sum [3600, 21600, 86400] 1 (length us) \<le> last (u # us)"
  proof (cases "said_for k said")
    case (Cons u us)
    then show ?thesis using f notify.paced_span[of u 1 u us] by (simp add: backoff_seconds_def)
  qed (use none in simp)
  assume a: "alert_key a s e = k \<and> (\<forall>t\<in>set (ask_times asks). t \<le> now)
      \<and> fst (claim_alert q a s e now w') = None"
  then have no: "\<not> should_notify (wo_dedup w' k) now"
    using claim_alert_step(1)[OF assms(1) prod.collapse[symmetric], of a s e now w'] by simp
  then show "said_for k said \<noteq> []" using f by (auto simp: should_notify_def)
  then show "now < last (said_for k said) + 86400"
    using f no refused_within_a_day by (cases "said_for k said") fastforce+
qed

theorem alert_spacing_witness:
  "case said_for (alert_key [97] [98] [99]) (fst (claims (base_outside losing)
      [([97], [98], [99], 0), ([97], [98], [99], 100), ([97], [98], [99], 3600)] empty_world)) of
     [] \<Rightarrow> False
   | u # us \<Rightarrow> u + ladder_sum [3600, 21600, 86400] 1 (length us) \<le> last (u # us)"
proof -
  let ?asks = "[([97], [98], [99], 0), ([97], [98], [99], 100), ([97], [98], [99], 3600)]
    :: (rstr \<times> rstr \<times> rstr \<times> int) list"
  have ok: "dedup_writes_ok (base_outside losing)"
    by (simp add: dedup_writes_ok_def base_outside_def outside.truncate_def)
  obtain said w' where c: "claims (base_outside losing) ?asks empty_world = (said, w')"
    by (metis prod.collapse)
  have "case said_for (alert_key [97] [98] [99]) said of
      [] \<Rightarrow> \<forall>(a, s, e, t)\<in>set ?asks. alert_key a s e \<noteq> alert_key [97] [98] [99]
    | u # us \<Rightarrow> u + ladder_sum [3600, 21600, 86400] 1 (length us) \<le> last (u # us)"
    by (rule conjunct1[OF alert_spacing[OF ok _ _ c]]) (simp_all add: empty_world_def)
  then show ?thesis unfolding c fst_conv by (cases "said_for (alert_key [97] [98] [99]) said") simp_all
qed

section \<open>The sweep agrees with the dashboard\<close>

lemma status_last_success:
  "last_success_of z (read_hb st m sched) = Option.bind (Option.bind (read_hb st m sched) hb_last_success_at) (tz_epoch z)"
  by (simp add: last_success_of_def)

lemma row_state_eq:
  "row_state (compute_row z parse_label ls st agent sched now) =
     fst (health_state z sched (resolve (da_manifest agent) sched) (read_hb st (da_manifest agent) sched)
       (row_window z parse_label ls st (da_manifest agent) sched now) now)"
  by (simp add: compute_row_def Let_def case_prod_beta)

text \<open>The condition a dashboard state is announced under, if any.\<close>

definition alert_event :: "health_state \<Rightarrow> window_state option \<Rightarrow> rstr option" where
  "alert_event st window = (case st of
     Stale \<Rightarrow> Some (lit ''stale'')
   | Failing \<Rightarrow> if (case window of Some ws \<Rightarrow> ws_given_up ws | None \<Rightarrow> False)
                then Some (lit ''given_up'') else None
   | _ \<Rightarrow> None)"

text \<open>the alert path and the dashboard never disagree: what the sweep does about a schedule is
  decided by the state \<open>status\<close> shows for it.  Held back by the power policy, or waiting for a
  retry, it is left alone; shown ok or degraded inside a window, its episodes end, and nothing is
  sent; otherwise it is announced exactly when someone listens and the ladder lets the condition
  speak, and only its own episode moves; in no case does a state file change.\<close>

theorem sweep_agrees_with_status:
  assumes "sweep_pair z q parse_label ls pwr now (agent, sched) (table, w) = (table', w')"
    and "row = compute_row z parse_label ls (wo_store w) agent sched now"
    and "window = row_window z parse_label ls (wo_store w) (da_manifest agent) sched now"
  shows "wo_store w' = wo_store w \<and> wo_dedup w' = wo_dedup w
    \<and> (case alert_event (row_state row) window of
         None \<Rightarrow> w' = w \<and> (table' = table \<or> row_state row \<in> {Ok, Degraded} \<and> \<not> defers pwr sched
                  \<and> table' = clear_pair table (da_name agent) (sched_id sched))
       | Some event \<Rightarrow>
           (\<forall>k. k \<noteq> alert_key (da_name agent) (sched_id sched) event \<longrightarrow> table' k = table k)
           \<and> (table' = table \<and> w' = w \<or> \<not> defers pwr sched
                \<and> dedup_should_notify table (alert_key (da_name agent) (sched_id sched) event) (timestamp now)
                \<and> (\<exists>channel msg. notify_channel (da_manifest agent) event = Some channel
                     \<and> w' = fire_on_failure_event (base_outside q) (da_manifest agent) (sched_id sched)
                              channel msg w)))"
proof (cases "defers pwr sched")
  case True
  then show ?thesis using assms(1) by (simp add: sweep_pair_def split: option.splits)
next
  case False
  define hb where "hb = read_hb (wo_store w) (da_manifest agent) sched"
  define l where "l = last_success_of z hb"
  have l: "Option.bind (Option.bind hb hb_last_success_at) (tz_epoch z) = l"
    by (simp add: l_def last_success_of_def)
  define h where "h = row_state row"
  have h: "fst (health_state z sched (resolve (da_manifest agent) sched) hb window now) = h"
    by (simp add: h_def assms(2,3) row_state_eq hb_def)
  note s = assms(1)[unfolded sweep_pair_def prod.case Let_def if_not_P[OF False]
      hb_def[symmetric] assms(3)[symmetric] l h]
  show ?thesis
  proof (cases "alert_verdict h (expected_at z sched now l) l window")
    case Healthy
    then have "h \<in> {Ok, Degraded}"
      by (auto simp: alert_verdict_def split: health_state.splits if_splits)
    then show ?thesis using s False unfolding Healthy h_def[symmetric] by (auto simp: alert_event_def)
  next
    case Quiet
    then show ?thesis using s by (auto split: option.splits)
  next
    case (Alert ev)
    then have e: "alert_event h window = Some ev"
      by (auto simp: alert_verdict_def alert_event_def split: health_state.splits if_splits)
    show ?thesis
      using s False unfolding Alert h_def[symmetric] e
      by (auto simp: record_alert_def Let_def split: option.splits if_splits)
  qed
qed

theorem sweep_agrees_with_status_witness:
  "wo_store (snd (sweep_pair utc losing (\<lambda>_. None) (\<lambda>_. None) mains (570 * minute)
     (probe_agent, probe_sched) (Map.empty, empty_world))) = wo_store empty_world"
  by (rule conjunct1[OF sweep_agrees_with_status[OF prod.collapse[symmetric] refl refl]])

section \<open>Reading the window directory back\<close>

lemma file_name_app:
  assumes "47 \<notin> set b"
  shows "file_name (a @ 47 # b) = b" "parent_dir (a @ 47 # b) = a"
proof -
  have p: "\<And>c. c \<in> set (rev b) \<Longrightarrow> c \<noteq> 47" using assms by auto
  show "file_name (a @ 47 # b) = b"
    using takeWhile_append2[of "rev b" "\<lambda>c. c \<noteq> 47" "47 # rev a", OF p] by (simp add: file_name_def)
  show "parent_dir (a @ 47 # b) = a"
    using dropWhile_append2[of "rev b" "\<lambda>c. c \<noteq> 47" "47 # rev a", OF p] by (simp add: parent_dir_def)
qed

lemma strip_prefix_app [simp]: "strip_prefix p (p @ s) = Some s"
  by (induction p) auto

lemma strip_suffix_app [simp]: "strip_suffix p (s @ p) = Some s"
  by (simp add: strip_suffix_def)

lemma max_instant_Max: "max_instant ts = (if ts = [] then None else Some (Max (set ts)))"
proof (cases ts)
  case (Cons t us)
  then show ?thesis using Max.set_eq_fold[of t us] by (simp add: max_instant_def)
qed (simp add: max_instant_def)

text \<open>The stem every window file of a schedule shares.\<close>

definition window_stem :: "rstr \<Rightarrow> rstr \<Rightarrow> rstr" where
  "window_stem agent slug = agent @ lit ''-'' @ slug @ lit ''-''"

lemma window_path_parts:
  assumes "47 \<notin> set agent" "47 \<notin> set slug" "47 \<notin> set (tz_label z e)"
  shows "file_name (window_path z agent slug e) = window_stem agent slug @ tz_label z e @ lit ''.json''"
    and "parent_dir (window_path z agent slug e) = lit ''windows''"
proof -
  have "window_path z agent slug e
      = lit ''windows'' @ 47 # (window_stem agent slug @ tz_label z e @ lit ''.json'')"
    by (simp add: window_path_def window_stem_def lit_def)
  moreover have "47 \<notin> set (window_stem agent slug @ tz_label z e @ lit ''.json'')"
    using assms by (simp add: window_stem_def lit_def)
  ultimately show "file_name (window_path z agent slug e) = window_stem agent slug @ tz_label z e @ lit ''.json''"
    "parent_dir (window_path z agent slug e) = lit ''windows''"
    using file_name_app by metis+
qed

text \<open>The dashboard finds what the daemon wrote.  When the window directory holds the files of
  the windows \<open>es\<close> of a schedule, among any others whose names do not read as windows of that
  schedule, \<open>last_dispatched_window\<close> is the latest of them that is not after now, as long as chrono
  parses the labels it printed.\<close>

theorem last_dispatched_reads_back:
  assumes "47 \<notin> set agent" "slug = slug_from_args args" "\<And>e. 47 \<notin> set (tz_label z e)"
    and "ls (lit ''windows'') = Some names"
    and "\<And>e. e \<in> es \<Longrightarrow> parse_label (tz_label z e) = Some e \<and> file_name (window_path z agent slug e) \<in> set names"
    and "\<And>n. n \<in> set names \<Longrightarrow> n \<in> (\<lambda>e. file_name (window_path z agent slug e)) ` es
           \<or> window_of_name parse_label (window_stem agent slug) n = None"
  shows "last_dispatched_window z parse_label ls agent slug now
     = (if {e \<in> es. e \<le> now} = {} then None else Some (Max {e \<in> es. e \<le> now}))"
proof -
  have sl: "47 \<notin> set slug"
    using slug_char_no_slash[OF slug_wf_from_args] by (simp add: assms(2))
  note p = window_path_parts[OF assms(1) sl assms(3)]
  have w: "window_of_name parse_label (window_stem agent slug) (file_name (window_path z agent slug e)) = Some e"
    if "e \<in> es" for e
    using assms(5)[OF that] strip_suffix_app[of "lit ''.json''" "tz_label z e"]
    by (simp add: window_of_name_def p(1))
  have s: "set (List.map_filter (window_of_name parse_label (window_stem agent slug)) names) = es"
  proof (intro subset_antisym subsetI)
    fix t assume "t \<in> set (List.map_filter (window_of_name parse_label (window_stem agent slug)) names)"
    then obtain n where n: "n \<in> set names" "window_of_name parse_label (window_stem agent slug) n = Some t"
      by (auto simp: List.map_filter_def)
    then obtain e where "e \<in> es" "n = file_name (window_path z agent slug e)"
      using assms(6)[OF n(1)] by auto
    then show "t \<in> es" using w n(2) by simp
  next
    fix e assume e: "e \<in> es"
    then show "e \<in> set (List.map_filter (window_of_name parse_label (window_stem agent slug)) names)"
      using w[OF e] assms(5)[OF e] by (force simp: List.map_filter_def)
  qed
  have pre: "strip_suffix (tz_label z now @ lit ''.json'') (file_name (window_path z agent slug now))
      = Some (window_stem agent slug)"
    unfolding p(1) by (rule strip_suffix_app)
  show ?thesis
    unfolding last_dispatched_window_def Let_def pre p(2) assms(4) bind.bind_lunit max_instant_Max
    by (simp add: s flip: set_empty)
qed

theorem last_dispatched_reads_back_witness:
  "last_dispatched_window utc
     (\<lambda>l. if l = tz_label utc 0 then Some 0 else if l = tz_label utc (60 * minute) then Some (60 * minute) else None)
     (\<lambda>_. Some [file_name (window_path utc (lit ''probe'') (slug_from_args []) 0),
                file_name (window_path utc (lit ''probe'') (slug_from_args []) (60 * minute))])
     (lit ''probe'') (slug_from_args []) (570 * minute) = Some (60 * minute)"
proof -
  have l: "tz_label utc e = show_int (e div minute)" for e
    by (simp add: utc_def transition_zone_def zone_offset_def)
  have "47 \<notin> set (show_nat n)" for n
    using show_nat_digits[of 47 n] by (auto simp: is_digit_c_def)
  then have no: "47 \<notin> set (tz_label utc e)" for e by (auto simp: l show_int_def)
  have ne: "tz_label utc (60 * minute) \<noteq> tz_label utc 0" by (simp add: l show_int_def)
  have "{e. (e = 0 \<or> e = 60 * minute) \<and> e \<le> 570 * minute} = {0, 60 * minute}" by auto
  then have es: "Max {e. (e = 0 \<or> e = 60 * minute) \<and> e \<le> 570 * minute} = 60 * minute" by simp
  show ?thesis
    by (subst last_dispatched_reads_back[where es = "{0, 60 * minute}" and args = "[]" and ls = "\<lambda>_. Some
          [file_name (window_path utc (lit ''probe'') (slug_from_args []) 0),
           file_name (window_path utc (lit ''probe'') (slug_from_args []) (60 * minute))]", OF _ refl no refl])
      (use ne in \<open>auto simp: lit_def es\<close>)
qed

end
