(* ===== verification/Daemon_Loop.thy ===== *)
theory Daemon_Loop
  imports Health_Sweep
begin

text \<open>
  The daemon's cycle (\<open>commands/daemon.rs\<close>): \<open>tick_once\<close>, when the daily summary and the retention
  sweep are due, how long the daemon may sleep, and the part of the loop that threads the
  once-per-day guards; with \<open>DailySummaryConfig\<close> of \<open>dotagent-core/src/config.rs\<close>.  A
  \<open>NaiveTime\<close> is the number of nanoseconds since midnight; \<open>parse_time\<close> is chrono's
  \<open>NaiveTime::parse_from_str\<close> and \<open>earliest_at d t\<close> is
  \<open>from_local_datetime(d.and_time(t)).earliest()\<close>: \<open>None\<close> in the hour a DST jump skips.  Dates
  are day numbers, so \<open>succ_opt\<close> and \<open>pred_opt\<close> never run off chrono's calendar.
\<close>

section \<open>Daily summary and retention\<close>

type_synonym naive_time = int

definition hms :: "nat \<Rightarrow> nat \<Rightarrow> nat \<Rightarrow> naive_time" where
  "hms h m s = int ((h * 60 + m) * 60 + s) * second"

record daily_summary_config =
  ds_enabled :: bool
  ds_time :: rstr
  ds_grace_minutes :: nat
  ds_notifiers :: "notifier_entry list"

definition default_daily_summary_time :: naive_time where
  "default_daily_summary_time = hms 22 45 0"

definition default_daily_summary :: daily_summary_config where
  "default_daily_summary = \<lparr> ds_enabled = True, ds_time = lit ''22:45'', ds_grace_minutes = 30,
     ds_notifiers = [] \<rparr>"

definition time_of_day :: "(rstr \<Rightarrow> rstr \<Rightarrow> naive_time option) \<Rightarrow> daily_summary_config \<Rightarrow> naive_time option" where
  "time_of_day parse_time cfg = (
     let raw = trim (ds_time cfg)
     in option_or (parse_time raw (lit ''%H:%M:%S'')) (parse_time raw (lit ''%H:%M'')))"

definition time_or_default :: "(rstr \<Rightarrow> rstr \<Rightarrow> naive_time option) \<Rightarrow> daily_summary_config \<Rightarrow> naive_time" where
  "time_or_default parse_time cfg = unwrap_or (time_of_day parse_time cfg) default_daily_summary_time"

definition effective_grace_minutes :: "daily_summary_config \<Rightarrow> nat" where
  "effective_grace_minutes cfg = max 1 (min (ds_grace_minutes cfg) (24 * 60))"

definition retention_hour :: nat where "retention_hour = 3"
definition retention_window_minutes :: nat where "retention_window_minutes = 30"

definition should_run_retention :: "tz \<Rightarrow> instant \<Rightarrow> int option \<Rightarrow> bool" where
  "should_run_retention z now last_date = (
     if \<not> (tz_hour z now = retention_hour \<and> tz_minute z now < retention_window_minutes) then False
     else case last_date of Some d \<Rightarrow> d \<noteq> tz_date z now | None \<Rightarrow> True)"

text \<open>The first candidate of the list that resolves and lies after \<open>now\<close>.\<close>

definition first_after :: "(int \<Rightarrow> naive_time \<Rightarrow> instant option) \<Rightarrow> instant \<Rightarrow> naive_time \<Rightarrow> int list \<Rightarrow> instant option" where
  "first_after earliest_at now t ds =
     find (\<lambda>x. x > now) (List.map_filter (\<lambda>d. earliest_at d t) ds)"

definition next_retention_at :: "tz \<Rightarrow> (int \<Rightarrow> naive_time \<Rightarrow> instant option) \<Rightarrow> instant \<Rightarrow> instant option" where
  "next_retention_at z earliest_at now =
     first_after earliest_at now (hms retention_hour 0 0) [tz_date z now, tz_date z now + 1]"

definition summary_window_date ::
    "tz \<Rightarrow> (int \<Rightarrow> naive_time \<Rightarrow> instant option) \<Rightarrow> instant \<Rightarrow> naive_time \<Rightarrow> nat \<Rightarrow> int option" where
  "summary_window_date z earliest_at now t grace_minutes =
     find (\<lambda>d. case earliest_at d t of
                 None \<Rightarrow> False
               | Some start \<Rightarrow> now \<ge> start \<and> now < start + int grace_minutes * minute)
       [tz_date z now, tz_date z now - 1]"

definition should_run_daily_summary :: "tz \<Rightarrow> (int \<Rightarrow> naive_time \<Rightarrow> instant option)
    \<Rightarrow> (rstr \<Rightarrow> rstr \<Rightarrow> naive_time option) \<Rightarrow> instant \<Rightarrow> int option \<Rightarrow> daily_summary_config \<Rightarrow> int option" where
  "should_run_daily_summary z earliest_at parse_time now last_date cfg = (
     if \<not> ds_enabled cfg then None
     else case summary_window_date z earliest_at now (time_or_default parse_time cfg)
                 (effective_grace_minutes cfg) of
            None \<Rightarrow> None
          | Some date \<Rightarrow> if last_date \<noteq> Some date then Some date else None)"

definition next_summary_at :: "tz \<Rightarrow> (int \<Rightarrow> naive_time \<Rightarrow> instant option)
    \<Rightarrow> (rstr \<Rightarrow> rstr \<Rightarrow> naive_time option) \<Rightarrow> instant \<Rightarrow> daily_summary_config \<Rightarrow> instant option" where
  "next_summary_at z earliest_at parse_time now cfg = (
     if \<not> ds_enabled cfg then None
     else first_after earliest_at now (time_or_default parse_time cfg) [tz_date z now, tz_date z now + 1])"

section \<open>Sleeping\<close>

definition max_sleep_minutes :: int where "max_sleep_minutes = 30"

definition compute_sleep_target ::
    "instant \<Rightarrow> instant option \<Rightarrow> instant option \<Rightarrow> instant option \<Rightarrow> instant" where
  "compute_sleep_target now next_event next_summary next_retention = (
     let safety_cap = now + max_sleep_minutes * minute;
         pending = filter (\<lambda>t. t > now \<and> t < safety_cap)
                     (List.map_filter (\<lambda>x. x) [next_event, next_summary, next_retention])
     in case pending of [] \<Rightarrow> safety_cap | t # ts \<Rightarrow> fold min ts t)"

text \<open>\<open>(target - Local::now()).to_std()\<close>, a minute when the target is already past.\<close>

definition sleep_for :: "instant \<Rightarrow> instant \<Rightarrow> int" where
  "sleep_for target now = (if target - now < 0 then 60 * second else target - now)"

section \<open>One tick\<close>

definition compute_next_event_from_agents ::
    "tz \<Rightarrow> discovered_agent list \<Rightarrow> store \<Rightarrow> instant \<Rightarrow> instant option" where
  "compute_next_event_from_agents z agents st now =
     compute_next_event z (map (\<lambda>(a, s). \<lparr> ap_agent_name = da_name a, ap_schedule = s,
       ap_last_success = last_success_for z (da_manifest a) s st \<rparr>) (monitored_pairs agents)) now"

record discovery =
  dv_agents :: "discovered_agent list"
  dv_invalid :: "(rstr \<times> rstr) list"

record tick_outside =
  tk_dispatch :: dispatch_outside
  tk_parse_label :: "rstr \<Rightarrow> instant option"
  tk_list :: "effect list \<Rightarrow> rstr \<Rightarrow> rstr list option"
  tk_hash :: "rstr \<Rightarrow> rstr option"
  tk_cache_ok :: bool
  tk_battery :: power_source

record tick_result =
  tr_agents_scanned :: nat
  tr_runs_dispatched :: nat
  tr_next_event :: "instant option"

text \<open>The world and the known-manifest file are the state; the listing of the window directory the
  sweep reads is taken after the dispatches.\<close>

definition tick_once :: "tz \<Rightarrow> tick_outside \<Rightarrow> bool \<Rightarrow> power_config \<Rightarrow> instant \<Rightarrow> discovery
    \<Rightarrow> known_manifests on_disk \<Rightarrow> world \<Rightarrow> tick_result \<times> known_manifests on_disk \<times> world" where
  "tick_once z k pool power_config now found cache w = (
     let q = tk_dispatch k; agents = dv_agents found;
         w1 = fold (\<lambda>(path, err). audit_append True (ManifestInvalid path err)) (dv_invalid found) w;
         (_, cache', evs) = check_cache (tk_hash k) (tz_iso z (or_now q (wo_trace w1))) (tk_cache_ok k) agents cache;
         w2 = fold (audit_append True) evs w1;
         pwr = power_gate_detect (tk_battery k) power_config
                 (concat (map (\<lambda>a. mf_schedules (da_manifest a)) agents));
         (dispatched, w3) = dispatch_due_runs z q pool pwr now agents w2;
         w4 = sweep_health_notifications z q (tk_parse_label k) (tk_list k (wo_trace w3)) pwr now agents w3
     in (\<lparr> tr_agents_scanned = length agents, tr_runs_dispatched = dispatched,
           tr_next_event = compute_next_event_from_agents z agents (wo_store w4) now \<rparr>, cache', w4))"

section \<open>The loop's guards\<close>

record loop_guards =
  lg_summary :: "int option"
  lg_retention :: "int option"

text \<open>One cycle after its tick: whether the summary is delivered (and for which date), whether
  retention runs, and until when the daemon sleeps.\<close>

definition daemon_cycle :: "tz \<Rightarrow> (int \<Rightarrow> naive_time \<Rightarrow> instant option)
    \<Rightarrow> (rstr \<Rightarrow> rstr \<Rightarrow> naive_time option) \<Rightarrow> daily_summary_config \<Rightarrow> instant \<Rightarrow> instant option
    \<Rightarrow> loop_guards \<Rightarrow> (int option \<times> bool \<times> instant) \<times> loop_guards" where
  "daemon_cycle z earliest_at parse_time cfg cycle_start next_event g = (
     let summary = should_run_daily_summary z earliest_at parse_time cycle_start (lg_summary g) cfg;
         g1 = (case summary of Some date \<Rightarrow> g\<lparr> lg_summary := Some date \<rparr> | None \<Rightarrow> g);
         swept = should_run_retention z cycle_start (lg_retention g1);
         g2 = (if swept then g1\<lparr> lg_retention := Some (tz_date z cycle_start) \<rparr> else g1);
         target = compute_sleep_target cycle_start next_event
                    (next_summary_at z earliest_at parse_time cycle_start cfg)
                    (next_retention_at z earliest_at cycle_start)
     in ((summary, swept, target), g2))"

section \<open>The wall clock\<close>

text \<open>What the loop relies on: an opening computed for a date and time reads back as that date and
  time, openings of later dates come later, and the date does not run backwards (a zone whose clock
  falls back across midnight is outside the contract).\<close>

locale wall_clock =
  fixes z :: tz
    and earliest_at :: "int \<Rightarrow> naive_time \<Rightarrow> instant option"
  assumes earliest_date: "earliest_at d t = Some x \<Longrightarrow> 0 \<le> t \<Longrightarrow> t < day \<Longrightarrow> tz_date z x = d"
    and earliest_hour: "earliest_at d t = Some x \<Longrightarrow> 0 \<le> t \<Longrightarrow> t < day \<Longrightarrow> int (tz_hour z x) = t div hour"
    and earliest_minute: "earliest_at d t = Some x \<Longrightarrow> 0 \<le> t \<Longrightarrow> t < day \<Longrightarrow>
      int (tz_minute z x) = (t div minute) mod 60"
    and earliest_less: "d < d' \<Longrightarrow> earliest_at d t = Some x \<Longrightarrow> earliest_at d' t = Some x' \<Longrightarrow> x < x'"
    and date_mono: "a \<le> b \<Longrightarrow> tz_date z a \<le> tz_date z b"
begin

lemma window_date_Some:
  "summary_window_date z earliest_at now t g = Some d \<Longrightarrow>
     \<exists>start. earliest_at d t = Some start \<and> start \<le> now \<and> now < start + int g * minute
       \<and> d \<in> {tz_date z now, tz_date z now - 1}
       \<and> (d \<noteq> tz_date z now \<longrightarrow> (case earliest_at (tz_date z now) t of None \<Rightarrow> True
            | Some s \<Rightarrow> \<not> (s \<le> now \<and> now < s + int g * minute)))"
  by (auto simp: summary_window_date_def split: option.splits if_splits)

lemma window_date_mono:
  assumes "a \<le> b" "summary_window_date z earliest_at a t g = Some d"
    and "summary_window_date z earliest_at b t g = Some d'"
  shows "d \<le> d'"
proof (rule ccontr)
  assume lt: "\<not> d \<le> d'"
  obtain s where s: "earliest_at d t = Some s" "s \<le> a" "a < s + int g * minute"
    "d \<in> {tz_date z a, tz_date z a - 1}" using window_date_Some[OF assms(2)] by blast
  obtain s' where s': "earliest_at d' t = Some s'" "b < s' + int g * minute"
    "d' \<in> {tz_date z b, tz_date z b - 1}"
    "d' \<noteq> tz_date z b \<longrightarrow> (case earliest_at (tz_date z b) t of None \<Rightarrow> True
            | Some s \<Rightarrow> \<not> (s \<le> b \<and> b < s + int g * minute))"
    using window_date_Some[OF assms(3)] by blast
  have "tz_date z a \<le> tz_date z b" by (rule date_mono[OF assms(1)])
  then have "tz_date z b = d" "d' \<noteq> tz_date z b" using lt s(4) s'(3) by auto
  then have "\<not> (s \<le> b \<and> b < s + int g * minute)" using s'(4) s(1) by simp
  then have "s + int g * minute \<le> b" using s(2) assms(1) by simp
  moreover have "s' < s" using earliest_less[of d' d] lt s(1) s'(1) by auto
  ultimately show False using s'(2) by simp
qed

lemma window_at_opening:
  assumes "earliest_at d t = Some x" "0 \<le> t" "t < day" "0 < g"
  shows "summary_window_date z earliest_at x t g = Some d"
  using earliest_date[OF assms(1-3)] assms by (simp add: summary_window_date_def)

end

definition transition_earliest :: "instant \<Rightarrow> int \<Rightarrow> int \<Rightarrow> int \<Rightarrow> naive_time \<Rightarrow> instant option" where
  "transition_earliest chg o1 o2 d t = (
     let a = d * day + t - o1; b = d * day + t - o2
     in if a < chg then Some a else if chg \<le> b then Some b else None)"

lemma transition_earliest_civil:
  "transition_earliest chg o1 o2 d t = Some x \<Longrightarrow> x + zone_offset chg o1 o2 x = d * day + t"
  by (auto simp: transition_earliest_def zone_offset_def Let_def split: if_splits)

lemma civil_parts:
  assumes "0 \<le> t" "t < day"
  shows "((d * day + t) div minute) div 1440 = d"
    and "(((d * day + t) div minute) div 60) mod 24 = t div hour"
    and "((d * day + t) div minute) mod 60 = (t div minute) mod 60"
proof -
  have m: "(d * day + t) div minute = d * 1440 + t div minute"
  proof -
    have e: "d * day + t = t + (d * 1440) * minute" by (simp add: day_def hour_def)
    have "minute \<noteq> 0" using minute_pos by simp
    then show ?thesis unfolding e by (rule div_mult_self1)
  qed
  have b: "0 \<le> t div minute" "t div minute < 1440"
    using assms minute_pos int_le_div_iff[OF minute_pos, of 1440 t]
    by (simp_all add: pos_imp_zdiv_nonneg_iff day_def hour_def not_le[symmetric] del: not_le)
  show "((d * day + t) div minute) div 1440 = d" unfolding m using b by simp
  have h: "t div hour = (t div minute) div 60"
    using minute_pos by (simp add: hour_def zdiv_zmult2_eq mult.commute[of 60])
  show "(((d * day + t) div minute) div 60) mod 24 = t div hour"
  proof -
    have "(d * 1440 + t div minute) div 60 = d * 24 + (t div minute) div 60" by simp
    moreover have "0 \<le> (t div minute) div 60" "(t div minute) div 60 < 24" using b by simp_all
    ultimately show ?thesis unfolding m h by simp
  qed
  show "((d * day + t) div minute) mod 60 = (t div minute) mod 60"
  proof -
    have e: "d * 1440 + t div minute = t div minute + (d * 24) * 60" by simp
    show ?thesis unfolding m e by (rule mod_mult_self1)
  qed
qed

text \<open>Every zone whose clock only ever jumps forward, by \<open>g\<close>, or not at all.\<close>

interpretation spring: wall_clock "transition_zone chg off (off + int g)"
    "transition_earliest chg off (off + int g)" for chg off g
proof
  fix d t x assume e: "transition_earliest chg off (off + int g) d t = Some x" and t: "0 \<le> t" "t < day"
  note c = transition_earliest_civil[OF e] civil_parts[OF t]
  have "0 \<le> t div hour" "0 \<le> (t div minute) mod 60"
    using t minute_pos by (simp_all add: hour_def pos_imp_zdiv_nonneg_iff)
  then show "tz_date (transition_zone chg off (off + int g)) x = d"
    "int (tz_hour (transition_zone chg off (off + int g)) x) = t div hour"
    "int (tz_minute (transition_zone chg off (off + int g)) x) = (t div minute) mod 60"
    using c by (simp_all add: transition_zone_def)
next
  fix d d' t x x'
  assume "d < (d'::int)" "transition_earliest chg off (off + int g) d t = Some x"
    "transition_earliest chg off (off + int g) d' t = Some x'"
  moreover from this(1) have "d * day + t < d' * day + t" by (simp add: time_simps)
  ultimately show "x < x'" by (auto simp: transition_earliest_def Let_def split: if_splits)
next
  fix a b :: int assume "a \<le> b"
  then have "(a + zone_offset chg off (off + int g) a) \<le> b + zone_offset chg off (off + int g) b"
    by (simp add: zone_offset_def)
  then show "tz_date (transition_zone chg off (off + int g)) a \<le> tz_date (transition_zone chg off (off + int g)) b"
    using minute_pos by (simp add: transition_zone_def zdiv_mono1)
qed

section \<open>Properties\<close>

lemma sleep_pending:
  assumes "pending = filter (\<lambda>t. t > now \<and> t < cap) (List.map_filter (\<lambda>x. x) [a, b, c])"
  shows "e \<in> set pending \<longleftrightarrow> now < e \<and> e < cap \<and> Some e \<in> {a, b, c}"
  unfolding assms by (auto simp: List.map_filter_def)

lemma fold_min_list:
  fixes t :: int
  shows "fold min ts t \<in> set (t # ts)" "u \<in> set (t # ts) \<Longrightarrow> fold min ts t \<le> u"
proof -
  have m: "fold min ts t = Min (set (t # ts))" by (rule Min.set_eq_fold[symmetric])
  show "fold min ts t \<in> set (t # ts)" unfolding m by (rule Min_in) simp_all
  show "u \<in> set (t # ts) \<Longrightarrow> fold min ts t \<le> u" unfolding m by (rule Min_le) simp_all
qed

text \<open>the daemon always sleeps, never longer than half an hour, and never past a pending event:
  it wakes at the earliest of the next run, the next summary and the next retention sweep that is
  still to come within the half hour, and at the half hour when there is none.\<close>

theorem sleep_target_earliest:
  assumes "target = compute_sleep_target now next_event next_summary next_retention"
  shows "now < target \<and> target \<le> now + 30 * minute
    \<and> (target = now + 30 * minute \<or> Some target \<in> {next_event, next_summary, next_retention})
    \<and> (\<forall>e. Some e \<in> {next_event, next_summary, next_retention} \<and> now < e \<longrightarrow> target \<le> e)"
proof -
  define cap where "cap = now + max_sleep_minutes * minute"
  define pending where "pending = filter (\<lambda>t. t > now \<and> t < cap)
      (List.map_filter (\<lambda>x. x) [next_event, next_summary, next_retention])"
  note p = sleep_pending[OF pending_def]
  have cap: "cap = now + 30 * minute" "now < cap" by (simp_all add: cap_def max_sleep_minutes_def)
  have t: "target = (case pending of [] \<Rightarrow> cap | t # ts \<Rightarrow> fold min ts t)"
    unfolding assms compute_sleep_target_def Let_def cap_def[symmetric] pending_def[symmetric] ..
  show ?thesis
  proof (cases pending)
    case Nil
    then have "target = cap" by (simp add: t)
    moreover have "cap \<le> e" if "Some e \<in> {next_event, next_summary, next_retention}" "now < e" for e
      using p[of e] that Nil by auto
    ultimately show ?thesis using cap by auto
  next
    case (Cons u us)
    then have t: "target \<in> set pending" "\<forall>e\<in>set pending. target \<le> e"
      using fold_min_list[where t = u and ts = us] by (simp_all add: t)
    have "target \<le> e" if "Some e \<in> {next_event, next_summary, next_retention}" "now < e" for e
      using p[of e] p[of target] that t by (cases "e < cap") auto
    then show ?thesis using p[of target] t(1) cap by auto
  qed
qed

theorem sleep_target_earliest_witness:
  "compute_sleep_target 0 (Some (40 * minute)) (Some (25 * minute)) None \<le> 25 * minute"
  using sleep_target_earliest[OF refl, of 0 "Some (40 * minute)" "Some (25 * minute)" None]
  by auto

lemma first_after_Some:
  "first_after earliest_at now t [d, d'] = Some x \<Longrightarrow>
     now < x \<and> (earliest_at d t = Some x \<or> earliest_at d' t = Some x)"
  by (auto simp: first_after_def List.map_filter_def split: option.splits if_splits)

text \<open>What is assumed of chrono's time parser: it yields a time of day.\<close>

definition parses_times :: "(rstr \<Rightarrow> rstr \<Rightarrow> naive_time option) \<Rightarrow> bool" where
  "parses_times parse_time \<longleftrightarrow> (\<forall>raw fmt t. parse_time raw fmt = Some t \<longrightarrow> 0 \<le> t \<and> t < day)"

context wall_clock
begin

lemma summary_at_next:
  assumes "parses_times parse_time"
    and "next_summary_at z earliest_at parse_time now cfg = Some x"
  shows "now < x" "should_run_daily_summary z earliest_at parse_time x last_date cfg
      = (if last_date = Some (tz_date z x) then None else Some (tz_date z x))"
proof -
  define t where "t = time_or_default parse_time cfg"
  have t: "0 \<le> t" "t < day"
    using assms(1) by (auto simp: parses_times_def t_def time_or_default_def time_of_day_def unwrap_or_def option_or_def
        default_daily_summary_time_def hms_def time_simps Let_def split: option.splits)
  have e: "ds_enabled cfg" "first_after earliest_at now t [tz_date z now, tz_date z now + 1] = Some x"
    using assms(2) by (auto simp: next_summary_at_def t_def split: if_splits)
  then obtain d where d: "now < x" "earliest_at d t = Some x" using first_after_Some by blast
  have g: "0 < effective_grace_minutes cfg" by (simp add: effective_grace_minutes_def)
  have "tz_date z x = d" by (rule earliest_date[OF d(2) t])
  then show "now < x" "should_run_daily_summary z earliest_at parse_time x last_date cfg
      = (if last_date = Some (tz_date z x) then None else Some (tz_date z x))"
    using window_at_opening[OF d(2) t g] d e by (auto simp: should_run_daily_summary_def t_def)
qed

lemma retention_at_next:
  assumes "next_retention_at z earliest_at now = Some x"
  shows "now < x" "should_run_retention z x last_date \<longleftrightarrow> last_date \<noteq> Some (tz_date z x)"
proof -
  have t: "0 \<le> hms retention_hour 0 0" "hms retention_hour 0 0 < day"
    by (simp_all add: hms_def retention_hour_def time_simps)
  obtain d where d: "now < x" "earliest_at d (hms retention_hour 0 0) = Some x"
    using first_after_Some[OF assms[unfolded next_retention_at_def]] by blast
  have "int (tz_hour z x) = 3" "int (tz_minute z x) = 0"
    using earliest_hour[OF d(2) t] earliest_minute[OF d(2) t]
    by (simp_all add: hms_def retention_hour_def time_simps)
  then have "tz_hour z x = 3" "tz_minute z x = 0" by simp_all
  then show "now < x" "should_run_retention z x last_date \<longleftrightarrow> last_date \<noteq> Some (tz_date z x)"
    using d(1) by (auto simp: should_run_retention_def retention_hour_def retention_window_minutes_def
        split: option.splits)
qed

end

text \<open>C15. no window is slept through.  At the wake-up \<open>next_summary_at\<close> and \<open>next_retention_at\<close>
  name, the daemon finds the summary, respectively the retention sweep, due, unless that day's is
  already done; and until then it never sleeps beyond that wake-up.\<close>

theorem wakes_for_its_windows:
  assumes "wall_clock z earliest_at"
    and "parses_times parse_time"
    and "target = compute_sleep_target now next_event (next_summary_at z earliest_at parse_time now cfg)
           (next_retention_at z earliest_at now)"
  shows "(\<forall>x. next_summary_at z earliest_at parse_time now cfg = Some x \<longrightarrow> target \<le> x
        \<and> should_run_daily_summary z earliest_at parse_time x last_summary cfg
          = (if last_summary = Some (tz_date z x) then None else Some (tz_date z x)))
    \<and> (\<forall>x. next_retention_at z earliest_at now = Some x \<longrightarrow> target \<le> x
        \<and> (should_run_retention z x last_retention \<longleftrightarrow> last_retention \<noteq> Some (tz_date z x)))"
proof (intro conjI allI impI)
  note t = sleep_target_earliest[OF assms(3)]
  note ws = wall_clock.summary_at_next[OF assms(1,2)] and wr = wall_clock.retention_at_next[OF assms(1)]
  fix x
  show "target \<le> x" if "next_summary_at z earliest_at parse_time now cfg = Some x"
    using t that ws(1)[OF that] by (metis insertI1 insertI2)
  show "target \<le> x" if "next_retention_at z earliest_at now = Some x"
    using t that wr(1)[OF that] by (metis insertI1 insertI2)
qed (use wall_clock.summary_at_next[OF assms(1,2)] wall_clock.retention_at_next[OF assms(1)] in blast)+

lemma wall_clock_utc: "wall_clock utc (transition_earliest 0 0 0)"
  using spring.wall_clock_axioms[of 0 0 0] by (simp add: utc_def)

theorem wakes_for_its_windows_witness:
  "next_summary_at utc (transition_earliest 0 0 0) (\<lambda>_ _. None) 0 default_daily_summary = Some (1365 * minute)
   \<and> should_run_daily_summary utc (transition_earliest 0 0 0) (\<lambda>_ _. None) (1365 * minute) None
       default_daily_summary = Some 0"
proof -
  have p: "parses_times (\<lambda>_ _. None)" by (simp add: parses_times_def)
  have n: "next_summary_at utc (transition_earliest 0 0 0) (\<lambda>_ _. None) 0 default_daily_summary
      = Some (1365 * minute)"
    by (simp add: next_summary_at_def first_after_def default_daily_summary_def time_or_default_def
        time_of_day_def unwrap_or_def option_or_def default_daily_summary_time_def hms_def
        transition_earliest_def utc_def transition_zone_def zone_offset_def List.map_filter_def Let_def)
      (simp add: time_simps)
  have "tz_date utc (1365 * minute) = 0"
    by (simp add: utc_def transition_zone_def zone_offset_def)
  then show ?thesis
    using n conjunct1[OF wakes_for_its_windows[OF wall_clock_utc p refl], of 0 default_daily_summary None]
    by simp
qed

section \<open>Once per window\<close>

fun run_cycles :: "tz \<Rightarrow> (int \<Rightarrow> naive_time \<Rightarrow> instant option) \<Rightarrow> (rstr \<Rightarrow> rstr \<Rightarrow> naive_time option)
    \<Rightarrow> daily_summary_config \<Rightarrow> (instant \<times> instant option) list \<Rightarrow> loop_guards
    \<Rightarrow> (instant \<times> int option \<times> bool) list" where
  "run_cycles z earliest_at parse_time cfg [] g = []"
| "run_cycles z earliest_at parse_time cfg ((now, ev) # cycles) g =
     (let ((summary, swept, target), g') = daemon_cycle z earliest_at parse_time cfg now ev g
      in (now, summary, swept) # run_cycles z earliest_at parse_time cfg cycles g')"

definition summaries :: "(instant \<times> int option \<times> bool) list \<Rightarrow> int list" where
  "summaries outs = List.map_filter (\<lambda>(now, summary, swept). summary) outs"

definition retention_days :: "tz \<Rightarrow> (instant \<times> int option \<times> bool) list \<Rightarrow> int list" where
  "retention_days z outs =
     List.map_filter (\<lambda>(now, summary, swept). if swept then Some (tz_date z now) else None) outs"

lemma outs_simps [simp]:
  "summaries [] = []" "retention_days z [] = []"
  "summaries ((now, summary, swept) # outs) =
     (case summary of Some d \<Rightarrow> d # summaries outs | None \<Rightarrow> summaries outs)"
  "retention_days z ((now, summary, swept) # outs) =
     (if swept then tz_date z now # retention_days z outs else retention_days z outs)"
  by (auto simp: summaries_def retention_days_def List.map_filter_def split: option.splits)

text \<open>The guards of a loop that has run up to \<open>now\<close>: each holds the date of a window at or before it.\<close>

definition guards_upto :: "tz \<Rightarrow> (int \<Rightarrow> naive_time \<Rightarrow> instant option) \<Rightarrow> naive_time \<Rightarrow> nat \<Rightarrow> instant
    \<Rightarrow> loop_guards \<Rightarrow> bool" where
  "guards_upto z earliest_at t gr now g \<longleftrightarrow>
     (\<forall>d. lg_summary g = Some d \<longrightarrow> (\<exists>a\<le>now. summary_window_date z earliest_at a t gr = Some d))
     \<and> (\<forall>d. lg_retention g = Some d \<longrightarrow> d \<le> tz_date z now)"

definition above :: "int option \<Rightarrow> int list \<Rightarrow> bool" where
  "above lo ds \<longleftrightarrow> sorted_wrt (<) (case lo of Some d \<Rightarrow> d # ds | None \<Rightarrow> ds)"

lemma above_step:
  assumes "above (case x of Some d \<Rightarrow> Some d | None \<Rightarrow> lo) ds" "\<And>d0 d. lo = Some d0 \<Longrightarrow> x = Some d \<Longrightarrow> d0 < d"
  shows "above lo (case x of Some d \<Rightarrow> d # ds | None \<Rightarrow> ds)"
  using assms by (cases x; cases lo) (auto simp: above_def intro: less_trans)

context wall_clock
begin

lemma cycles_above:
  assumes "sorted (now0 # map fst cycles)"
    and "guards_upto z earliest_at (time_or_default parse_time cfg) (effective_grace_minutes cfg) now0 g"
  shows "above (lg_summary g) (summaries (run_cycles z earliest_at parse_time cfg cycles g))
    \<and> above (lg_retention g) (retention_days z (run_cycles z earliest_at parse_time cfg cycles g))"
  using assms
proof (induction cycles arbitrary: now0 g)
  case Nil
  then show ?case by (simp add: above_def split: option.splits)
next
  case (Cons c cycles)
  obtain now ev where c: "c = (now, ev)" by (cases c)
  let ?t = "time_or_default parse_time cfg" and ?gr = "effective_grace_minutes cfg"
  obtain summary swept target g' where s:
    "daemon_cycle z earliest_at parse_time cfg now ev g = ((summary, swept, target), g')"
    by (metis prod.collapse)
  have le: "now0 \<le> now" and so: "sorted (now # map fst cycles)" using Cons.prems(1) by (auto simp: c)
  have sm: "summary = should_run_daily_summary z earliest_at parse_time now (lg_summary g) cfg"
    and sw: "swept = should_run_retention z now (lg_retention g)"
    and g': "lg_summary g' = (case summary of Some d \<Rightarrow> Some d | None \<Rightarrow> lg_summary g)"
      "lg_retention g' = (if swept then Some (tz_date z now) else lg_retention g)"
    using s by (auto simp: daemon_cycle_def Let_def split: option.splits if_splits)
  have w: "summary_window_date z earliest_at now ?t ?gr = Some d \<and> lg_summary g \<noteq> Some d" if "summary = Some d" for d
    using that sm by (auto simp: should_run_daily_summary_def split: if_splits option.splits)
  have r: "lg_retention g \<noteq> Some (tz_date z now)" if swept
    using that sw by (auto simp: should_run_retention_def split: if_splits option.splits)
  have gu: "guards_upto z earliest_at ?t ?gr now g'"
    using Cons.prems(2) le w g' date_mono[OF le] unfolding guards_upto_def
    by (auto split: option.splits if_splits) (meson order_trans)+
  note ih = Cons.IH[OF so gu]
  have "d0 < d" if "lg_summary g = Some d0" "summary = Some d" for d0 d
    using Cons.prems(2) that w[OF that(2)] window_date_mono[OF _ _ conjunct1[OF w[OF that(2)]]] le
    unfolding guards_upto_def by (metis order_le_less order_trans)
  then have "above (lg_summary g) (case summary of
      Some d \<Rightarrow> d # summaries (run_cycles z earliest_at parse_time cfg cycles g')
    | None \<Rightarrow> summaries (run_cycles z earliest_at parse_time cfg cycles g'))"
    using ih g'(1) by (intro above_step) simp_all
  moreover have "d0 < tz_date z now" if "lg_retention g = Some d0" swept for d0
    using Cons.prems(2) that r date_mono[OF le] unfolding guards_upto_def
    by (metis order_le_less order_trans)
  then have "above (lg_retention g) (case (if swept then Some (tz_date z now) else None) of
      Some d \<Rightarrow> d # retention_days z (run_cycles z earliest_at parse_time cfg cycles g')
    | None \<Rightarrow> retention_days z (run_cycles z earliest_at parse_time cfg cycles g'))"
    using ih g'(2) by (intro above_step) (simp_all split: if_splits)
  ultimately show ?case unfolding c by (simp add: s split: if_splits)
qed

end

text \<open>once per window.  Over any run of the loop on a clock that does not run backwards, whatever
  wakes it up and however often, the dates the summary is delivered for are strictly increasing, and
  so are the days retention runs on: no window is ever served twice, not even one whose grace
  crosses midnight.\<close>

theorem once_per_window:
  assumes "wall_clock z earliest_at" "sorted (map fst cycles)"
    and "outs = run_cycles z earliest_at parse_time cfg cycles \<lparr> lg_summary = None, lg_retention = None \<rparr>"
  shows "sorted_wrt (<) (summaries outs) \<and> sorted_wrt (<) (retention_days z outs)"
proof (cases cycles)
  case (Cons c cs)
  have "guards_upto z earliest_at t gr (fst c) \<lparr> lg_summary = None, lg_retention = None \<rparr>" for t gr
    by (simp add: guards_upto_def)
  from wall_clock.cycles_above[OF assms(1) _ this, of cycles parse_time cfg]
  show ?thesis using assms(2) Cons by (simp add: assms(3) above_def)
qed (simp add: assms(3))

theorem once_per_window_witness:
  "sorted_wrt (<) (summaries (run_cycles utc (transition_earliest 0 0 0) (\<lambda>_ _. None) default_daily_summary
     [(1365 * minute, None), (1370 * minute, None), (2805 * minute, None)]
     \<lparr> lg_summary = None, lg_retention = None \<rparr>))"
  by (rule conjunct1[OF once_per_window[OF wall_clock_utc _ refl]]) simp

end
