(* ===== verification/Run_Env.thy ===== *)
theory Run_Env
  imports Runner
begin

text \<open>
  The environment a child process starts with: \<open>apply_env_for\<close>, \<open>remove_trigger_env\<close>,
  \<open>names_locale\<close> and \<open>default_locale\<close> of \<open>dotagent-runner/src/lib.rs\<close>.  An environment is a
  partial map; \<open>Command\<close>'s builder calls act on it in order (\<open>env_clear\<close>, \<open>env_remove\<close>, \<open>env\<close>).
  The parent's environment, the target's fallback locale and the JSON rendering of the arguments
  are parameters.
\<close>

type_synonym envmap = "rstr \<rightharpoonup> rstr"

definition names_locale :: "env_config option \<Rightarrow> bool" where
  "names_locale cfg = (case cfg of
     None \<Rightarrow> False
   | Some c \<Rightarrow> list_ex (\<lambda>k. k = lit ''LANG'' \<or> k = lit ''LC_ALL'' \<or> k = lit ''LC_CTYPE'')
                 (map fst (ec_extra c)))"

definition default_locale ::
    "rstr \<Rightarrow> bool \<Rightarrow> rstr option \<Rightarrow> rstr option \<Rightarrow> rstr option \<Rightarrow> rstr option" where
  "default_locale fallback inherit parent_lang parent_lc_ctype parent_lc_all = (
     let inherited = inherit \<and> (parent_lang \<noteq> None \<or> parent_lc_ctype \<noteq> None \<or> parent_lc_all \<noteq> None)
     in if inherited then None else Some fallback)"

definition remove_trigger_env :: "envmap \<Rightarrow> envmap \<Rightarrow> envmap" where
  "remove_trigger_env parent env =
     (\<lambda>k. if is_trigger_env k \<and> parent k \<noteq> None then None else env k)"

fun set_all :: "(rstr \<times> rstr) list \<Rightarrow> envmap \<Rightarrow> envmap" where
  "set_all [] env = env"
| "set_all ((k, v) # kvs) env = set_all kvs (env(k \<mapsto> v))"

definition agent_block :: "run_spec \<Rightarrow> (rstr list \<Rightarrow> rstr) \<Rightarrow> instant \<Rightarrow> rstr \<Rightarrow> rstr \<Rightarrow> (rstr \<times> rstr) list" where
  "agent_block spec argv_json start tmpdir heartbeat =
     [(lit ''AGENT_NAME'', spec_agent spec),
      (lit ''AGENT_HOME'', rs_manifest_dir spec),
      (lit ''AGENT_TMPDIR'', tmpdir),
      (lit ''AGENT_DRY_RUN'', if rs_dry_run spec then lit ''true'' else lit ''false''),
      (lit ''AGENT_SCHEDULE_ID'', rs_schedule_id spec),
      (lit ''AGENT_START_EPOCH'', show_int (timestamp start)),
      (lit ''AGENT_SLUG'', spec_slug spec)]
     @ (if \<not> rs_dry_run spec then [(lit ''AGENT_HEARTBEAT_FILE'', heartbeat)] else [])
     @ [(lit ''AGENT_ARGV'', argv_json (rs_args spec))]"

definition apply_env_for :: "rstr \<Rightarrow> (rstr list \<Rightarrow> rstr) \<Rightarrow> envmap \<Rightarrow> run_spec \<Rightarrow> instant \<Rightarrow> rstr \<Rightarrow> rstr
    \<Rightarrow> rstr option \<Rightarrow> envmap" where
  "apply_env_for fallback argv_json parent spec start tmpdir heartbeat persist_key = (
     let env_cfg = mf_env (rs_manifest spec);
         inherit = (case env_cfg of None \<Rightarrow> True | Some c \<Rightarrow> ec_inherit c);
         e0 = (if inherit then parent else Map.empty);
         e1 = remove_trigger_env parent e0;
         e2 = (if names_locale env_cfg then e1
               else case default_locale fallback inherit (parent (lit ''LANG''))
                           (parent (lit ''LC_CTYPE'')) (parent (lit ''LC_ALL'')) of
                      Some locale_name \<Rightarrow> e1(lit ''LC_CTYPE'' \<mapsto> locale_name)
                    | None \<Rightarrow> e1);
         e3 = (case env_cfg of Some c \<Rightarrow> set_all (ec_extra c) e2 | None \<Rightarrow> e2);
         e4 = set_all (filter (\<lambda>(k, v). \<not> (persist_key \<noteq> None \<and> is_trigger_env k)) (rs_extra_env spec)) e3;
         e5 = (case persist_key of
                 Some key \<Rightarrow> e4(lit ''AGENT_LIFECYCLE'' \<mapsto> lit ''persistent'',
                               lit ''AGENT_PERSIST_KEY'' \<mapsto> key)
               | None \<Rightarrow> e4)
     in set_all (agent_block spec argv_json start tmpdir heartbeat) e5)"

definition apply_env where
  "apply_env fallback argv_json parent spec start tmpdir heartbeat =
     apply_env_for fallback argv_json parent spec start tmpdir heartbeat None"

section \<open>Facts\<close>

lemma set_all_append: "set_all (xs @ ys) env = set_all ys (set_all xs env)"
  by (induction xs arbitrary: env) auto

lemma set_all_other: "k \<notin> fst ` set kvs \<Longrightarrow> set_all kvs env k = env k"
  by (induction kvs arbitrary: env) auto

lemma set_all_map_of: "set_all kvs env k = (case map_of (rev kvs) k of Some v \<Rightarrow> Some v | None \<Rightarrow> env k)"
  by (induction kvs arbitrary: env) (auto simp: map_add_def split: option.splits)

lemma trigger_names:
  "is_trigger_env (lit ''AGENT_LIFECYCLE'') = False" "is_trigger_env (lit ''AGENT_PERSIST_KEY'') = False"
  "is_trigger_env (lit ''LC_CTYPE'') = False"
  by (simp_all add: is_trigger_env_def lit_def)

lemma agent_block_not_trigger:
  "k \<in> fst ` set (agent_block spec aj start tmp hb) \<Longrightarrow> \<not> is_trigger_env k"
  by (auto simp: agent_block_def is_trigger_env_def lit_def split: if_splits)

lemma apply_env_block:
  "map_of (rev (agent_block spec argv_json start tmpdir heartbeat)) k = Some v \<Longrightarrow>
     apply_env_for fallback argv_json parent spec start tmpdir heartbeat persist_key k = Some v"
  unfolding apply_env_for_def Let_def by (subst set_all_map_of) simp

text \<open>What a trigger variable of the child holds.\<close>

definition trigger_value :: "run_spec \<Rightarrow> rstr option \<Rightarrow> rstr \<Rightarrow> rstr option" where
  "trigger_value spec persist_key k = (
     let cfg = (case mf_env (rs_manifest spec) of
                  Some c \<Rightarrow> map_of (rev (ec_extra c)) k | None \<Rightarrow> None)
     in if persist_key \<noteq> None then cfg
        else option_or (map_of (rev (rs_extra_env spec)) k) cfg)"

lemma apply_env_trigger:
  assumes k: "is_trigger_env k"
  shows "apply_env_for fallback argv_json parent spec start tmpdir heartbeat persist_key k
    = trigger_value spec persist_key k"
proof -
  have b: "set_all (agent_block spec argv_json start tmpdir heartbeat) f k = f k" for f
    using agent_block_not_trigger k by (blast intro: set_all_other)
  have r: "remove_trigger_env parent parent k = None" "remove_trigger_env parent Map.empty k = None"
    using k by (simp_all add: remove_trigger_env_def)
  have n: "k \<noteq> lit ''AGENT_LIFECYCLE''" "k \<noteq> lit ''AGENT_PERSIST_KEY''" "k \<noteq> lit ''LC_CTYPE''"
    using k trigger_names by auto
  have f: "map_of (rev (filter (\<lambda>(k, v). \<not> is_trigger_env k) kvs)) k = None" for kvs :: "(rstr \<times> rstr) list"
    using k by (auto simp: map_of_eq_None_iff)
  show ?thesis
    unfolding apply_env_for_def Let_def b trigger_value_def
    using n r f by (simp add: set_all_map_of option_or_def split: option.split)
qed

text \<open>C10. nothing a caller passes can redefine the runner's own variables: in every child the
  \<open>AGENT_*\<close> block is the runner's (name, home, directory, schedule, slug, arguments, and the
  heartbeat file of a real run), whatever the manifest's \<open>[env.extra]\<close>, the trigger's variables
  or the parent's environment contain; and a trigger variable never comes from the parent, and in
  a process of the persistent pool never from one request either.\<close>

theorem agent_env_not_spoofable:
  assumes "e = apply_env_for fallback argv_json parent spec start tmpdir heartbeat persist_key"
  shows "e (lit ''AGENT_NAME'') = Some (spec_agent spec)
    \<and> e (lit ''AGENT_HOME'') = Some (rs_manifest_dir spec)
    \<and> e (lit ''AGENT_TMPDIR'') = Some tmpdir
    \<and> e (lit ''AGENT_SCHEDULE_ID'') = Some (rs_schedule_id spec)
    \<and> e (lit ''AGENT_SLUG'') = Some (spec_slug spec)
    \<and> e (lit ''AGENT_ARGV'') = Some (argv_json (rs_args spec))
    \<and> (\<not> rs_dry_run spec \<longrightarrow> e (lit ''AGENT_HEARTBEAT_FILE'') = Some heartbeat)
    \<and> (\<forall>k. is_trigger_env k \<longrightarrow> e k = trigger_value spec persist_key k)"
  unfolding assms
  by (intro conjI allI impI apply_env_block apply_env_trigger) (simp_all add: agent_block_def)

theorem agent_env_not_spoofable_witness:
  "apply_env_for (lit ''C.UTF-8'') (\<lambda>_. lit ''[]'') (\<lambda>_. Some (lit ''parent''))
     (plain_spec\<lparr> rs_extra_env := [(lit ''AGENT_NAME'', lit ''mallory''),
        (lit ''AGENT_TRIGGER_ACTOR'', lit ''eve'')] \<rparr>) 0 [] [] (Some (lit ''chat''))
     (lit ''AGENT_NAME'') = Some (lit ''probe'')
   \<and> apply_env_for (lit ''C.UTF-8'') (\<lambda>_. lit ''[]'') (\<lambda>_. Some (lit ''parent''))
     (plain_spec\<lparr> rs_extra_env := [(lit ''AGENT_NAME'', lit ''mallory''),
        (lit ''AGENT_TRIGGER_ACTOR'', lit ''eve'')] \<rparr>) 0 [] [] (Some (lit ''chat''))
     (lit ''AGENT_TRIGGER_ACTOR'') = None"
proof -
  let ?s = "plain_spec\<lparr> rs_extra_env := [(lit ''AGENT_NAME'', lit ''mallory''),
        (lit ''AGENT_TRIGGER_ACTOR'', lit ''eve'')] \<rparr>"
  have "is_trigger_env (lit ''AGENT_TRIGGER_ACTOR'')" by (simp add: is_trigger_env_def lit_def)
  then show ?thesis
    using agent_env_not_spoofable[OF refl, of "lit ''C.UTF-8''" "\<lambda>_. lit ''[]''"
        "\<lambda>_. Some (lit ''parent'')" ?s 0 "[]" "[]" "Some (lit ''chat'')"]
    by (simp add: trigger_value_def spec_agent_def plain_spec_def plain_manifest_def)
qed

end
