(* ===== verification/Audit_Log.thy ===== *)
theory Audit_Log
  imports Audit_Event Ordered_Map "HOL-Library.Countable"
begin

text \<open>
  The append-only, hash-chained log of \<open>dotagent-state/src/audit.rs\<close>: the backwards tail read,
  \<open>append\<close> with its rotation and its repair of an interrupted one, and the verification walk over
  the seams.  The directory of the log is an association list from file names to contents; a
  content is a list of bytes.  UTF-8 decoding, \<open>serde_json\<close>, SHA-256 and the rendering of the clock
  are the record \<open>codec\<close> and arguments.  File operations are taken to succeed; what the code turns
  into an error on its own (no free segment name, a line that is not UTF-8) is an error here, and
  the directory it leaves behind is returned with it.  The file lock serialises calls, so each
  operation is one step.
\<close>

section \<open>Outside code\<close>

type_synonym bytes = "nat list"
type_synonym log_dir = "(rstr \<times> bytes) list"

record codec =
  cd_utf8 :: "bytes \<Rightarrow> rstr option"
  cd_bytes :: "rstr \<Rightarrow> bytes"
  cd_json :: "audit_entry \<Rightarrow> rstr"
  cd_parse :: "rstr \<Rightarrow> audit_entry option"
  cd_sha256 :: "rstr \<Rightarrow> rstr"

datatype audit_error = AuditIo | AuditJson | AuditNoHome

definition default_max_bytes :: nat where "default_max_bytes = 32 * 1024 * 1024"
definition tail_chunk :: nat where "tail_chunk = 8192"

section \<open>The tail read\<close>

record log_tail =
  lt_last_line :: "rstr option"
  lt_ends_with_newline :: bool
  lt_len :: nat

definition tail_empty :: log_tail where
  "tail_empty = \<lparr> lt_last_line = None, lt_ends_with_newline = True, lt_len = 0 \<rparr>"

definition decode_line :: "codec \<Rightarrow> bytes \<Rightarrow> rstr option" where
  "decode_line c b = cd_utf8 c (strip_cr b)"

text \<open>\<open>rposition\<close> of a line feed: what is before it and what is after.\<close>

definition split_last :: "bytes \<Rightarrow> (bytes \<times> bytes) option" where
  "split_last b = (if 10 \<in> set b
     then Some (rev (tl (dropWhile (\<lambda>x. x \<noteq> 10) (rev b))), rev (takeWhile (\<lambda>x. x \<noteq> 10) (rev b)))
     else None)"

lemma split_last_Some:
  "split_last b = Some (x, y) \<Longrightarrow> b = x @ 10 # y \<and> 10 \<notin> set y"
proof -
  assume a: "split_last b = Some (x, y)"
  then have i: "10 \<in> set (rev b)" by (simp add: split_last_def split: if_splits)
  then obtain as bs where b: "rev b = as @ 10 # bs" "10 \<notin> set as" by (meson split_list_first)
  have p: "\<And>x. x \<in> set as \<Longrightarrow> x \<noteq> 10" using b(2) by auto
  have "takeWhile (\<lambda>x. x \<noteq> 10) (rev b) = as" "dropWhile (\<lambda>x. x \<noteq> 10) (rev b) = 10 # bs"
    using takeWhile_append2[of as "\<lambda>x. x \<noteq> 10", OF p] dropWhile_append2[of as "\<lambda>x. x \<noteq> 10", OF p]
    by (simp_all add: b(1))
  moreover have "b = rev bs @ 10 # rev as" using b(1) by (metis append.assoc append_Cons append_Nil rev.simps(2) rev_append rev_rev_ident)
  ultimately show ?thesis using a b i by (auto simp: split_last_def)
qed

lemma split_last_None: "split_last b = None \<longleftrightarrow> 10 \<notin> set b"
  by (simp add: split_last_def)

text \<open>The inner loop over the lines already read: \<open>Inl\<close> is a \<open>return\<close>, \<open>Inr\<close> what is left pending.\<close>

function scan_lines :: "codec \<Rightarrow> bytes \<Rightarrow> bool \<Rightarrow> (rstr option \<times> bool) + (bytes \<times> bool)" where
  "scan_lines c pending ends = (case split_last pending of
     None \<Rightarrow> Inr (pending, ends)
   | Some (before, after) \<Rightarrow>
       (case decode_line c after of
          Some line \<Rightarrow> if trim line \<noteq> [] then Inl (Some line, ends) else scan_lines c before ends
        | None \<Rightarrow> scan_lines c before False))"
  by auto
termination
  by (relation "measure (\<lambda>(c, pending, ends). length pending)") (auto dest!: split_last_Some)

declare scan_lines.simps [simp del]

text \<open>The outer loop: \<open>pos\<close> bytes of the file are still unread, \<open>pending\<close> holds the rest.\<close>

function tail_loop :: "codec \<Rightarrow> bytes \<Rightarrow> nat \<Rightarrow> bytes \<Rightarrow> bool \<Rightarrow> rstr option \<times> bool" where
  "tail_loop c f pos pending ends = (case scan_lines c pending ends of
     Inl r \<Rightarrow> r
   | Inr (pending', ends') \<Rightarrow>
       if pos = 0
       then (case decode_line c pending' of
               Some line \<Rightarrow> if trim line \<noteq> [] then (Some line, ends') else (None, ends')
             | None \<Rightarrow> (None, False))
       else let start = pos - min tail_chunk pos
            in tail_loop c f start (take (pos - start) (drop start f) @ pending') ends')"
  by auto
termination
  by (relation "measure (\<lambda>(c, f, pos, pending, ends). pos)") (auto simp: tail_chunk_def)

declare tail_loop.simps [simp del]

definition read_tail :: "codec \<Rightarrow> bytes \<Rightarrow> log_tail" where
  "read_tail c f = (
     if length f = 0 then tail_empty
     else let start = length f - min tail_chunk (length f);
              pending = drop start f;
              (line, ends) = tail_loop c f start pending (last pending = 10)
          in \<lparr> lt_last_line = line, lt_ends_with_newline = ends, lt_len = length f \<rparr>)"

text \<open>What the tail is: going over the lines from the end, the first that decodes and is not blank;
  and a file is treated as ending in a line feed when it does and no undecodable line was passed.\<close>

fun pick_tail :: "codec \<Rightarrow> bytes list \<Rightarrow> bool \<Rightarrow> rstr option \<times> bool" where
  "pick_tail c [] ends = (None, ends)"
| "pick_tail c (p # ps) ends = (case decode_line c p of
     Some line \<Rightarrow> if trim line \<noteq> [] then (Some line, ends) else pick_tail c ps ends
   | None \<Rightarrow> pick_tail c ps False)"

lemma split_on_last_line: "10 \<notin> set y \<Longrightarrow> split_on 10 (x @ 10 # y) = split_on 10 x @ [y]"
proof (induction x)
  case Nil
  then have "split_on 10 y = [y]" by (induction y) auto
  then show ?case by simp
next
  case (Cons a x)
  then show ?case by (cases "split_on 10 x") (auto split: list.splits)
qed

lemma split_on_none: "10 \<notin> set y \<Longrightarrow> split_on 10 y = [y]"
  by (induction y) auto

lemma scan_lines_pick:
  "pick_tail c (rev (split_on 10 (pre @ pending))) ends =
     (case scan_lines c pending ends of
        Inl r \<Rightarrow> r
      | Inr (pending', ends') \<Rightarrow> pick_tail c (rev (split_on 10 (pre @ pending'))) ends')
   \<and> (\<forall>p' e'. scan_lines c pending ends = Inr (p', e') \<longrightarrow> 10 \<notin> set p')"
proof (induction c pending ends rule: scan_lines.induct)
  case (1 c pending ends)
  show ?case
  proof (cases "split_last pending")
    case None
    then have "scan_lines c pending ends = Inr (pending, ends)"
      by (subst scan_lines.simps) simp
    then show ?thesis using None by (simp add: split_last_None)
  next
    case (Some ba)
    obtain before after where ba: "ba = (before, after)" by (cases ba)
    note s = split_last_Some[OF Some[unfolded ba]]
    have "split_on 10 (pre @ pending) = split_on 10 (pre @ before) @ [after]"
      using s split_on_last_line[of after "pre @ before"] by simp
    then show ?thesis
      using 1[OF Some ba[symmetric]] Some ba
      by (simp add: scan_lines.simps[of c pending] split: option.split)
  qed
qed

lemma tail_loop_pick:
  "pos \<le> length f \<Longrightarrow>
     tail_loop c f pos pending ends = pick_tail c (rev (split_on 10 (take pos f @ pending))) ends"
proof (induction c f pos pending ends rule: tail_loop.induct)
  case (1 c f pos pending ends)
  note sc = scan_lines_pick[of c "take pos f" pending ends]
  show ?case
  proof (cases "scan_lines c pending ends")
    case (Inl r)
    then show ?thesis using sc by (simp add: tail_loop.simps[of c f pos])
  next
    case (Inr pe)
    obtain p' e' where pe: "pe = (p', e')" by (cases pe)
    have n: "10 \<notin> set p'" using sc Inr pe by simp
    show ?thesis
    proof (cases "pos = 0")
      case True
      then show ?thesis using sc Inr pe n
        by (simp add: tail_loop.simps[of c f 0 pending ends] split_on_none split: option.split)
    next
      case False
      define start where "start = pos - min tail_chunk pos"
      have le: "start \<le> pos" by (simp add: start_def)
      have j: "take start f @ take (pos - start) (drop start f) = take pos f"
        using le by (metis add_diff_inverse_nat not_less take_add)
      have "tail_loop c f pos pending ends
          = tail_loop c f start (take (pos - start) (drop start f) @ p') e'"
        using Inr pe False by (simp add: tail_loop.simps[of c f pos] start_def Let_def)
      also have "\<dots> = pick_tail c (rev (split_on 10 (take pos f @ p'))) e'"
        using 1(1)[OF Inr pe[symmetric] False start_def] 1(2) le j
        by (simp flip: append_assoc)
      finally show ?thesis using sc Inr pe by simp
    qed
  qed
qed

lemma read_tail_eq:
  assumes "f \<noteq> []"
  shows "read_tail c f = (case pick_tail c (rev (split_on 10 f)) (last f = 10) of (line, ends) \<Rightarrow>
      \<lparr> lt_last_line = line, lt_ends_with_newline = ends, lt_len = length f \<rparr>)"
proof -
  define start where "start = length f - min tail_chunk (length f)"
  have s: "start < length f" using assms by (simp add: start_def tail_chunk_def)
  then have "last (drop start f) = last f" by simp
  then show ?thesis using assms s tail_loop_pick[of start f c "drop start f"]
    by (simp add: read_tail_def start_def[symmetric] Let_def split: prod.split)
qed

text \<open>C16. the optimised tail read is the plain one.  Reading backwards in chunks of 8192 bytes finds
  what a scan of the whole file from its last line finds: the last line that decodes and is not
  blank, with \<open>ends_with_newline\<close> false when the last byte is not a line feed or an undecodable line
  lies after it, whatever the file contains and wherever the chunks fall.\<close>

theorem read_tail_correct:
  "read_tail c f = (
     case pick_tail c (rev (split_on 10 f)) (f = [] \<or> last f = 10) of (line, ends) \<Rightarrow>
       if f = [] then tail_empty
       else \<lparr> lt_last_line = line, lt_ends_with_newline = ends, lt_len = length f \<rparr>)"
  using read_tail_eq[of f c] by (auto simp: read_tail_def split: prod.split)

section \<open>Segments and seams\<close>

definition contains_dots :: "rstr \<Rightarrow> bool" where
  "contains_dots s = list_ex (\<lambda>(a, b). a = 46 \<and> b = 46) (zip s (tl s))"

definition is_segment_name :: "rstr \<Rightarrow> rstr \<Rightarrow> bool" where
  "is_segment_name stem name \<longleftrightarrow>
     47 \<notin> set name \<and> 92 \<notin> set name \<and> \<not> contains_dots name
     \<and> (case strip_prefix (stem @ lit ''.'') name of
          None \<Rightarrow> False
        | Some sfx \<Rightarrow>
            let (stamp, dup) = (case split_once 45 sfx of
                  Some (stamp, dup) \<Rightarrow> (stamp, Some dup) | None \<Rightarrow> (sfx, None))
            in (case dup of None \<Rightarrow> True | Some d \<Rightarrow> d \<noteq> [] \<and> list_all is_digit_c d)
               \<and> length stamp = 15 \<and> stamp ! 8 = 84
               \<and> list_all (\<lambda>(i, b). i = 8 \<or> is_digit_c b) (enumerate 0 stamp))"

definition log_segments :: "rstr \<Rightarrow> log_dir \<Rightarrow> rstr list" where
  "log_segments stem dir = sort (filter (is_segment_name stem) (map fst dir))"

definition newest_segment :: "rstr \<Rightarrow> log_dir \<Rightarrow> rstr option" where
  "newest_segment stem dir =
     (case log_segments stem dir of [] \<Rightarrow> None | s # ss \<Rightarrow> Some (last (s # ss)))"

definition next_segment_name :: "rstr \<Rightarrow> rstr \<Rightarrow> log_dir \<Rightarrow> audit_error + rstr" where
  "next_segment_name stem stamp dir = (
     case find (\<lambda>name. map_of dir name = None)
            (map (\<lambda>n. if n = 0 then stem @ lit ''.'' @ stamp
                      else stem @ lit ''.'' @ stamp @ lit ''-'' @ show_nat n) [0..<1000]) of
       Some name \<Rightarrow> Inr name
     | None \<Rightarrow> Inl AuditIo)"

text \<open>\<open>BufRead::lines\<close> over bytes splits as \<open>str::lines\<close> does.  A line that is not UTF-8 is the
  error \<open>summarize_segment\<close> returns.\<close>

fun summarize_lines :: "codec \<Rightarrow> bytes list \<Rightarrow> nat \<Rightarrow> rstr option \<Rightarrow> audit_error + nat \<times> rstr" where
  "summarize_lines c [] cnt first_ts = Inr (cnt, case first_ts of Some t \<Rightarrow> t | None \<Rightarrow> lit ''unknown'')"
| "summarize_lines c (l # ls) cnt first_ts = (case cd_utf8 c l of
     None \<Rightarrow> Inl AuditIo
   | Some line \<Rightarrow>
       if trim line = [] then summarize_lines c ls cnt first_ts
       else summarize_lines c ls (cnt + 1)
              (case first_ts of Some t \<Rightarrow> Some t | None \<Rightarrow> map_option ent_ts (cd_parse c line)))"

definition summarize_segment :: "codec \<Rightarrow> bytes \<Rightarrow> audit_error + nat \<times> rstr" where
  "summarize_segment c b = summarize_lines c (str_lines b) 0 None"

definition hash_tail :: "codec \<Rightarrow> bytes \<Rightarrow> rstr" where
  "hash_tail c b = (case lt_last_line (read_tail c b) of
     Some line \<Rightarrow> cd_sha256 c line | None \<Rightarrow> genesis_hash)"

definition log_line :: "codec \<Rightarrow> rstr \<Rightarrow> bytes" where
  "log_line c line = cd_bytes c line @ [10]"

definition write_seam :: "codec \<Rightarrow> rstr \<Rightarrow> rstr \<Rightarrow> rstr \<Rightarrow> log_dir \<Rightarrow> (audit_error + log_tail) \<times> log_dir" where
  "write_seam c stem now_iso segment dir = (
     case map_of dir segment of
       None \<Rightarrow> (Inl AuditIo, dir)
     | Some b \<Rightarrow>
         (let tail_hash = hash_tail c b
          in case summarize_segment c b of
               Inl e \<Rightarrow> (Inl e, dir)
             | Inr (entries, first_ts) \<Rightarrow>
                 let seam = \<lparr> ent_ts = now_iso, ent_severity = Notice,
                              ent_event = AuditLogRotated segment entries first_ts tail_hash,
                              ent_prev_hash = tail_hash \<rparr>;
                     line = cd_json c seam
                 in (Inr \<lparr> lt_last_line = Some line, lt_ends_with_newline = True,
                           lt_len = length (cd_bytes c line) + 1 \<rparr>,
                     bt_insert stem (log_line c line) dir)))"

definition rotate :: "codec \<Rightarrow> rstr \<Rightarrow> rstr \<Rightarrow> rstr \<Rightarrow> log_dir \<Rightarrow> (audit_error + log_tail) \<times> log_dir" where
  "rotate c stem now_iso stamp dir = (
     case next_segment_name stem stamp dir of
       Inl e \<Rightarrow> (Inl e, dir)
     | Inr segment \<Rightarrow>
         (case map_of dir stem of
            None \<Rightarrow> (Inl AuditIo, dir)
          | Some b \<Rightarrow> write_seam c stem now_iso segment (bt_insert segment b (bt_remove stem dir))))"

section \<open>Append\<close>

text \<open>The readings of the clock one \<open>append\<close> makes: for a repairing seam, for a segment name, for the
  seam of a rotation, and for the entry itself.\<close>

record append_clock =
  ak_heal :: rstr
  ak_stamp :: rstr
  ak_seam :: rstr
  ak_entry :: rstr

definition tail_of :: "codec \<Rightarrow> rstr \<Rightarrow> log_dir \<Rightarrow> log_tail" where
  "tail_of c stem dir = (case map_of dir stem of None \<Rightarrow> tail_empty | Some b \<Rightarrow> read_tail c b)"

definition heal_tail :: "codec \<Rightarrow> rstr \<Rightarrow> append_clock \<Rightarrow> log_dir \<Rightarrow> (audit_error + log_tail) \<times> log_dir" where
  "heal_tail c stem k dir = (
     let tail = tail_of c stem dir
     in if lt_last_line tail = None
        then case newest_segment stem dir of
               Some segment \<Rightarrow> write_seam c stem (ak_heal k) segment dir
             | None \<Rightarrow> (Inr tail, dir)
        else (Inr tail, dir))"

definition rotate_tail :: "codec \<Rightarrow> rstr \<Rightarrow> nat \<Rightarrow> append_clock \<Rightarrow> log_tail \<Rightarrow> log_dir
    \<Rightarrow> (audit_error + log_tail) \<times> log_dir" where
  "rotate_tail c stem max_bytes k tail dir =
     (if lt_len tail \<ge> max_bytes \<and> lt_last_line tail \<noteq> None
      then rotate c stem (ak_seam k) (ak_stamp k) dir else (Inr tail, dir))"

definition append_entry :: "codec \<Rightarrow> rstr \<Rightarrow> append_clock \<Rightarrow> audit_event \<Rightarrow> log_tail \<Rightarrow> log_dir
    \<Rightarrow> audit_entry \<times> log_dir" where
  "append_entry c stem k event tail dir = (
     let prev_hash = (case lt_last_line tail of Some line \<Rightarrow> cd_sha256 c line | None \<Rightarrow> genesis_hash);
         entry = \<lparr> ent_ts = ak_entry k, ent_severity = default_severity event,
                   ent_event = event, ent_prev_hash = prev_hash \<rparr>;
         old = (case map_of dir stem of Some b \<Rightarrow> b | None \<Rightarrow> [])
     in (entry, bt_insert stem (old @ (if lt_ends_with_newline tail then [] else [10])
                                    @ log_line c (cd_json c entry)) dir))"

definition append :: "codec \<Rightarrow> rstr \<Rightarrow> nat \<Rightarrow> append_clock \<Rightarrow> audit_event \<Rightarrow> log_dir
    \<Rightarrow> (audit_error + audit_entry) \<times> log_dir" where
  "append c stem max_bytes k event dir = (
     case heal_tail c stem k dir of
       (Inl e, dir1) \<Rightarrow> (Inl e, dir1)
     | (Inr tail1, dir1) \<Rightarrow>
         (case rotate_tail c stem max_bytes k tail1 dir1 of
            (Inl e, dir2) \<Rightarrow> (Inl e, dir2)
          | (Inr tail2, dir2) \<Rightarrow>
              let (entry, dir3) = append_entry c stem k event tail2 dir2
              in (Inr entry, dir3)))"

section \<open>Verification\<close>

record chain_break =
  cb_position :: nat
  cb_expected :: rstr
  cb_actual :: rstr
  cb_segment :: "rstr option"

datatype verify_scope = CurrentSegment | Full

datatype chain_status =
  IntactFromGenesis
| IntactSinceRotation rstr rstr nat bool
| UnexplainedTruncation rstr
| Broken chain_break

datatype log_head = Genesis | Seam rstr nat rstr | Orphan rstr

definition classify_head :: "audit_entry \<Rightarrow> rstr \<Rightarrow> log_head" where
  "classify_head head stem = (
     if ent_prev_hash head = genesis_hash then Genesis
     else case ent_event head of
            AuditLogRotated rotated_to entries first_ts tail_hash \<Rightarrow>
              if ent_prev_hash head = tail_hash \<and> is_segment_name stem rotated_to
              then Seam rotated_to entries tail_hash else Orphan (ent_prev_hash head)
          | _ \<Rightarrow> Orphan (ent_prev_hash head))"

text \<open>\<open>Inl\<close> is the position of the first line that is not an entry.\<close>

fun entries_of_lines :: "codec \<Rightarrow> bytes list \<Rightarrow> audit_entry list \<Rightarrow> nat + audit_entry list" where
  "entries_of_lines c [] out = Inr out"
| "entries_of_lines c (l # ls) out = (case cd_utf8 c l of
     None \<Rightarrow> Inl (length out)
   | Some line \<Rightarrow>
       if trim line = [] then entries_of_lines c ls out
       else (case cd_parse c line of
               Some e \<Rightarrow> entries_of_lines c ls (out @ [e])
             | None \<Rightarrow> Inl (length out)))"

definition read_entries :: "codec \<Rightarrow> log_dir \<Rightarrow> rstr \<Rightarrow> nat + audit_entry list" where
  "read_entries c dir name = (case map_of dir name of
     None \<Rightarrow> Inr [] | Some b \<Rightarrow> entries_of_lines c (str_lines b) [])"

fun verify_from :: "codec \<Rightarrow> rstr option \<Rightarrow> nat \<Rightarrow> rstr option \<Rightarrow> audit_entry list \<Rightarrow> chain_break option" where
  "verify_from c seg i expected [] = None"
| "verify_from c seg i expected (e # es) = (
     case expected of
       Some x \<Rightarrow> if ent_prev_hash e \<noteq> x
                 then Some \<lparr> cb_position = i, cb_expected = x, cb_actual = ent_prev_hash e, cb_segment = seg \<rparr>
                 else verify_from c seg (i + 1) (Some (cd_sha256 c (cd_json c e))) es
     | None \<Rightarrow> verify_from c seg (i + 1) (Some (cd_sha256 c (cd_json c e))) es)"

definition verify_links :: "codec \<Rightarrow> audit_entry list \<Rightarrow> rstr option \<Rightarrow> chain_break option" where
  "verify_links c entries seg = verify_from c seg 0 None entries"

lemma unseen_decreases:
  assumes "map_of dir s = Some b" "s \<notin> set seen"
  shows "length (filter (\<lambda>k. k \<notin> set (s # seen)) (map fst dir)) < length (filter (\<lambda>k. k \<notin> set seen) (map fst dir))"
proof -
  have "s \<in> set (map fst dir)" using assms(1) by (force dest: map_of_SomeD)
  then have "s \<in> set (filter (\<lambda>k. k \<notin> set seen) (map fst dir))" using assms(2) by simp
  moreover have "filter (\<lambda>k. k \<notin> set (s # seen)) (map fst dir)
      = filter (\<lambda>k. k \<noteq> s) (filter (\<lambda>k. k \<notin> set seen) (map fst dir))"
    by (simp add: conj_commute)
  ultimately show ?thesis by (metis (mono_tags, lifting) length_filter_less)
qed

text \<open>The walk: \<open>name\<close> is the file under the lens, \<open>seen\<close> the segments already walked.\<close>

function walk :: "codec \<Rightarrow> rstr \<Rightarrow> verify_scope \<Rightarrow> log_dir \<Rightarrow> rstr \<Rightarrow> rstr list \<Rightarrow> chain_status" where
  "walk c stem scope dir name seen = (
     let label = (if name \<noteq> stem then Some name else None)
     in case read_entries c dir name of
       Inl position \<Rightarrow> Broken \<lparr> cb_position = position, cb_expected = lit ''a parseable audit entry'',
           cb_actual = lit ''unparseable line'', cb_segment = label \<rparr>
     | Inr entries \<Rightarrow>
         (case verify_links c entries label of
            Some brk \<Rightarrow> Broken brk
          | None \<Rightarrow>
              (case entries of
                 [] \<Rightarrow> if name = stem then IntactFromGenesis
                       else Broken \<lparr> cb_position = 0, cb_expected = lit ''non-empty segment'',
                              cb_actual = lit ''empty file'', cb_segment = label \<rparr>
               | head # _ \<Rightarrow>
                   (case classify_head head stem of
                      Genesis \<Rightarrow> IntactFromGenesis
                    | Orphan h \<Rightarrow> UnexplainedTruncation h
                    | Seam segment n tail_hash \<Rightarrow>
                        (case map_of dir segment of
                           None \<Rightarrow> IntactSinceRotation (ent_ts head) segment n False
                         | Some b \<Rightarrow>
                             if scope = CurrentSegment
                             then IntactSinceRotation (ent_ts head) segment n True
                             else if segment \<in> set seen
                             then Broken \<lparr> cb_position = 0, cb_expected = lit ''a segment not already walked'',
                                    cb_actual = segment @ lit '' (seam cycle)'', cb_segment = Some segment \<rparr>
                             else if hash_tail c b \<noteq> tail_hash
                             then Broken \<lparr> cb_position = 0, cb_expected = tail_hash,
                                    cb_actual = hash_tail c b, cb_segment = Some segment \<rparr>
                             else walk c stem scope dir segment (segment # seen))))))"
  by auto
termination
  by (relation "measure (\<lambda>(c, stem, scope, dir, name, seen). length (filter (\<lambda>k. k \<notin> set seen) (map fst dir)))")
    (auto dest: unseen_decreases)

declare walk.simps [simp del]

definition verify_chain_status :: "codec \<Rightarrow> rstr \<Rightarrow> verify_scope \<Rightarrow> log_dir \<Rightarrow> chain_status" where
  "verify_chain_status c stem scope dir = walk c stem scope dir stem []"

definition verify_chain :: "codec \<Rightarrow> rstr \<Rightarrow> log_dir \<Rightarrow> chain_break option" where
  "verify_chain c stem dir = (case verify_chain_status c stem CurrentSegment dir of
     IntactFromGenesis \<Rightarrow> None
   | IntactSinceRotation _ _ _ _ \<Rightarrow> None
   | Broken brk \<Rightarrow> Some brk
   | UnexplainedTruncation h \<Rightarrow> Some \<lparr> cb_position = 0, cb_expected = genesis_hash, cb_actual = h, cb_segment = None \<rparr>)"

section \<open>What a log written by append looks like\<close>

text \<open>What is assumed of the outside code: an entry is written as one non-blank line that decodes and
  parses back to it, and no hash is the word \<open>GENESIS\<close>.\<close>

definition codec_ok :: "codec \<Rightarrow> bool" where
  "codec_ok c \<longleftrightarrow> cd_utf8 c [] = Some [] \<and>
     (\<forall>e. cd_utf8 c (cd_bytes c (cd_json c e)) = Some (cd_json c e)
        \<and> 10 \<notin> set (cd_bytes c (cd_json c e)) \<and> strip_cr (cd_bytes c (cd_json c e)) = cd_bytes c (cd_json c e)
        \<and> trim (cd_json c e) \<noteq> [] \<and> cd_parse c (cd_json c e) = Some e
        \<and> cd_sha256 c (cd_json c e) \<noteq> genesis_hash)"

definition file_of :: "codec \<Rightarrow> audit_entry list \<Rightarrow> bytes" where
  "file_of c es = concat (map (\<lambda>e. log_line c (cd_json c e)) es)"

lemma file_of_simps [simp]:
  "file_of c [] = []" "file_of c (e # es) = log_line c (cd_json c e) @ file_of c es"
  "file_of c (es @ fs) = file_of c es @ file_of c fs"
  by (simp_all add: file_of_def)

lemma split_on_cons: "10 \<notin> set b \<Longrightarrow> split_on 10 (b @ 10 # s) = b # split_on 10 s"
  by (induction b) auto

lemma lines_of_pieces_cons: "ps \<noteq> [] \<Longrightarrow> lines_of_pieces (p # ps) = strip_cr p # lines_of_pieces ps"
  by (cases ps) simp_all

lemma str_lines_file:
  assumes "codec_ok c"
  shows "str_lines (file_of c es) = map (\<lambda>e. cd_bytes c (cd_json c e)) es"
  using assms by (induction es) (auto simp: str_lines_def log_line_def codec_ok_def split_on_cons lines_of_pieces_cons)

lemma entries_of_file:
  assumes "codec_ok c"
  shows "entries_of_lines c (map (\<lambda>e. cd_bytes c (cd_json c e)) es) out = Inr (out @ es)"
  using assms by (induction es arbitrary: out) (auto simp: codec_ok_def)

lemma read_entries_file:
  assumes "codec_ok c" "map_of dir f = Some (file_of c es)"
  shows "read_entries c dir f = Inr es"
  using assms(2) by (simp add: read_entries_def str_lines_file[OF assms(1)] entries_of_file[OF assms(1)])

lemma file_of_inj: "codec_ok c \<Longrightarrow> file_of c es = file_of c fs \<Longrightarrow> es = fs"
  using read_entries_file[of c "[([], file_of c es)]" "[]" es]
    read_entries_file[of c "[([], file_of c es)]" "[]" fs] by simp

lemma summarize_file:
  assumes "codec_ok c"
  shows "\<exists>ts. summarize_segment c (file_of c es) = Inr (length es, ts)"
proof -
  have "\<exists>ts. summarize_lines c (map (\<lambda>e. cd_bytes c (cd_json c e)) es) n t = Inr (n + length es, ts)" for n t
  proof (induction es arbitrary: n t)
    case (Cons e es)
    show ?case using assms Cons.IH[of "Suc n"
          "case t of Some x \<Rightarrow> Some x | None \<Rightarrow> map_option ent_ts (cd_parse c (cd_json c e))"]
      by (simp add: codec_ok_def)
  qed simp
  from this[of 0 None] show ?thesis by (simp add: summarize_segment_def str_lines_file[OF assms])
qed

lemma read_tail_file:
  assumes "codec_ok c"
  shows "read_tail c (file_of c (es @ [e])) = \<lparr> lt_last_line = Some (cd_json c e),
           lt_ends_with_newline = True, lt_len = length (file_of c (es @ [e])) \<rparr>"
proof -
  let ?b = "cd_bytes c (cd_json c e)" and ?f = "file_of c (es @ [e])"
  have f: "?f = file_of c es @ ?b @ [10]" by (simp add: log_line_def)
  have n: "10 \<notin> set ?b" using assms by (simp add: codec_ok_def)
  have "\<exists>ps. split_on 10 (file_of c es @ ?b) = ps @ [?b]"
  proof (cases es rule: rev_exhaust)
    case Nil
    then show ?thesis using split_on_none[OF n] by simp
  next
    case (snoc fs x)
    then have "file_of c es @ ?b = (file_of c fs @ cd_bytes c (cd_json c x)) @ 10 # ?b"
      by (simp add: log_line_def)
    then show ?thesis using split_on_last_line[OF n, of "file_of c fs @ cd_bytes c (cd_json c x)"] by simp
  qed
  then obtain ps where "split_on 10 ?f = ps @ [?b] @ [[]]"
    using split_on_last_line[of "[]" "file_of c es @ ?b"] unfolding f by auto
  then have pick: "pick_tail c (rev (split_on 10 ?f)) True = (Some (cd_json c e), True)"
    using assms by (simp add: codec_ok_def decode_line_def strip_cr_def[of "[]"] trim_def trim_end_def trim_start_def)
  have nz: "?f \<noteq> []" and nl: "(last ?f = 10) = True" by (simp_all add: log_line_def)
  show ?thesis by (simp only: read_tail_eq[OF nz] nl pick prod.case)
qed

lemma hash_tail_file: "codec_ok c \<Longrightarrow> hash_tail c (file_of c (es @ [e])) = cd_sha256 c (cd_json c e)"
  by (simp only: hash_tail_def read_tail_file log_tail.select_convs option.case)

section \<open>Links\<close>

fun links :: "codec \<Rightarrow> rstr option \<Rightarrow> audit_entry list \<Rightarrow> bool" where
  "links c x [] = True"
| "links c x (e # es) \<longleftrightarrow> (case x of Some h \<Rightarrow> ent_prev_hash e = h | None \<Rightarrow> True)
     \<and> links c (Some (cd_sha256 c (cd_json c e))) es"

lemma verify_from_None: "verify_from c seg i x es = None \<longleftrightarrow> links c x es"
  by (induction c seg i x es rule: verify_from.induct) (auto split: option.splits)

lemma verify_links_None: "verify_links c es seg = None \<longleftrightarrow> links c None es"
  by (simp add: verify_links_def verify_from_None)

lemma links_snoc:
  "links c x (es @ [l, e]) \<longleftrightarrow> links c x (es @ [l]) \<and> ent_prev_hash e = cd_sha256 c (cd_json c l)"
  by (induction es arbitrary: x) auto

text \<open>A file whose entries link, back to the first entry ever written through \<open>k\<close> seams.\<close>

inductive linked :: "codec \<Rightarrow> rstr \<Rightarrow> log_dir \<Rightarrow> rstr \<Rightarrow> nat \<Rightarrow> bool" for c stem dir where
  root: "map_of dir f = Some (file_of c (e # es)) \<Longrightarrow> links c None (e # es)
      \<Longrightarrow> ent_prev_hash e = genesis_hash \<Longrightarrow> linked c stem dir f 0"
| seam: "map_of dir f = Some (file_of c (e # es)) \<Longrightarrow> links c None (e # es)
      \<Longrightarrow> ent_event e = AuditLogRotated seg n ts (ent_prev_hash e) \<Longrightarrow> ent_prev_hash e \<noteq> genesis_hash
      \<Longrightarrow> is_segment_name stem seg \<Longrightarrow> map_of dir seg = Some b \<Longrightarrow> hash_tail c b = ent_prev_hash e
      \<Longrightarrow> linked c stem dir seg k \<Longrightarrow> linked c stem dir f (Suc k)"

inductive_cases linkedE: "linked c stem dir f k"

lemma linked_entries:
  assumes "linked c stem dir f k"
  shows "\<exists>es l. map_of dir f = Some (file_of c (es @ [l])) \<and> links c None (es @ [l])"
proof -
  obtain e es where "map_of dir f = Some (file_of c (e # es))" "links c None (e # es)"
    using assms by (auto elim: linkedE)
  then show ?thesis by (metis append_butlast_last_id list.distinct(1))
qed

lemma linked_head:
  assumes "codec_ok c" "linked c stem dir f k" "map_of dir f = Some (file_of c (e # es))"
  shows "ent_prev_hash e = genesis_hash \<and> k = 0
    \<or> ent_prev_hash e \<noteq> genesis_hash \<and> (\<exists>seg n ts k'. k = Suc k' \<and> linked c stem dir seg k'
        \<and> ent_event e = AuditLogRotated seg n ts (ent_prev_hash e))"
  using assms(2)
proof (cases rule: linked.cases)
  case (root e' es')
  then have "e' # es' = e # es" using file_of_inj[OF assms(1)] assms(3) by (metis option.inject)
  then show ?thesis using root by simp
next
  case (seam e' es' seg n ts b k')
  then have "e' # es' = e # es" using file_of_inj[OF assms(1)] assms(3) by (metis option.inject)
  then show ?thesis using seam by auto
qed

lemma linked_unique:
  assumes "codec_ok c" "linked c stem dir f k" "linked c stem dir f m"
  shows "k = m"
  using assms(2,3)
proof (induction arbitrary: m rule: linked.induct)
  case (root f e es)
  show ?case using linked_head[OF assms(1) root.prems root.hyps(1)] root.hyps(3) by simp
next
  case (seam f e es seg n ts b k)
  obtain k' where "m = Suc k'" "linked c stem dir seg k'"
    using linked_head[OF assms(1) seam.prems seam.hyps(1)] seam.hyps(3,4) by auto
  then show ?case using seam.IH by blast
qed

lemma walk_linked:
  assumes "codec_ok c" "linked c stem dir f k"
    and "\<And>s m. s \<in> set seen \<Longrightarrow> linked c stem dir s m \<Longrightarrow> k \<le> m"
  shows "walk c stem Full dir f seen = IntactFromGenesis"
  using assms(2,3)
proof (induction arbitrary: seen rule: linked.induct)
  case (root f e es)
  have r: "read_entries c dir f = Inr (e # es)" by (rule read_entries_file[OF assms(1) root.hyps(1)])
  have v: "verify_links c (e # es) lbl = None" for lbl using root.hyps(2) by (simp only: verify_links_None)
  show ?case by (subst walk.simps) (simp add: r v classify_head_def root.hyps(3))
next
  case (seam f e es seg n ts b k)
  have "seg \<notin> set seen" using seam.prems seam.hyps(8) by fastforce
  moreover have "walk c stem Full dir seg (seg # seen) = IntactFromGenesis"
    using seam.prems linked_unique[OF assms(1) seam.hyps(8)] by (intro seam.IH) fastforce
  moreover have r: "read_entries c dir f = Inr (e # es)" by (rule read_entries_file[OF assms(1) seam.hyps(1)])
  moreover have "verify_links c (e # es) lbl = None" for lbl using seam.hyps(2) by (simp only: verify_links_None)
  ultimately show ?case by (subst walk.simps) (simp add: classify_head_def seam.hyps(3-7))
qed

section \<open>Names\<close>

text \<open>A log name that can carry segments, and a time stamp as \<open>%Y%m%dT%H%M%S\<close> prints it.\<close>

definition plain_stem :: "rstr \<Rightarrow> bool" where
  "plain_stem stem \<longleftrightarrow> 47 \<notin> set stem \<and> 92 \<notin> set stem \<and> \<not> contains_dots stem \<and> stem \<noteq> [] \<and> last stem \<noteq> 46"

definition stamp_ok :: "rstr \<Rightarrow> bool" where
  "stamp_ok s \<longleftrightarrow> length s = 15 \<and> s ! 8 = 84 \<and> list_all (\<lambda>(i, b). i = 8 \<or> is_digit_c b) (enumerate 0 s)"

lemma contains_dots_Cons:
  "contains_dots (a # b # s) \<longleftrightarrow> (a = 46 \<and> b = 46) \<or> contains_dots (b # s)"
  by (simp add: contains_dots_def)

lemma contains_dots_free: "46 \<notin> set s \<Longrightarrow> \<not> contains_dots (46 # s) \<and> \<not> contains_dots s"
proof (induction s)
  case (Cons a s)
  then show ?case by (cases s) (auto simp: contains_dots_def)
qed (simp add: contains_dots_def)

lemma contains_dots_append:
  assumes "\<not> contains_dots s" "s \<noteq> [] \<longrightarrow> last s \<noteq> 46" "46 \<notin> set t"
  shows "\<not> contains_dots (s @ 46 # t)"
  using assms(1,2)
proof (induction s)
  case Nil
  then show ?case using contains_dots_free[OF assms(3)] by simp
next
  case (Cons a s)
  then show ?case by (cases s) (auto simp: contains_dots_Cons contains_dots_def split: if_splits)
qed

lemma stamp_chars:
  assumes "stamp_ok s" "x \<in> set s"
  shows "x = 84 \<or> is_digit_c x"
proof -
  obtain i where "i < length s" "x = s ! i" using assms(2) by (metis in_set_conv_nth)
  then show ?thesis
    using assms(1) by (auto simp: stamp_ok_def list_all_length nth_enumerate_eq)
qed

lemma split_once_none: "c \<notin> set s \<Longrightarrow> split_once c s = None"
  by (induction s) auto

lemma split_once_app: "c \<notin> set s \<Longrightarrow> split_once c (s @ c # t) = Some (s, t)"
  by (induction s) auto

lemma segment_name_plain:
  assumes "plain_stem stem" "stamp_ok stamp"
  shows "is_segment_name stem (stem @ lit ''.'' @ stamp)"
    and "is_segment_name stem (stem @ lit ''.'' @ stamp @ lit ''-'' @ show_nat n)"
proof -
  have s: "x \<notin> set stamp" if "x \<noteq> 84" "\<not> is_digit_c x" for x using stamp_chars[OF assms(2)] that by blast
  have d: "x \<notin> set (show_nat n)" if "\<not> is_digit_c x" for x using show_nat_digits that by blast
  note chars = s[of 47] s[of 92] s[of 46] s[of 45] d[of 47] d[of 92] d[of 46] d[of 45]
  note p = assms(1)[unfolded plain_stem_def]
  have "strip_prefix (stem @ lit ''.'') (stem @ lit ''.'' @ t) = Some t" for t
    by (simp add: strip_prefix_Some)
  then show "is_segment_name stem (stem @ lit ''.'' @ stamp)"
    using p assms(2) chars contains_dots_append[of stem stamp]
    by (simp add: is_segment_name_def lit_def is_digit_c_def split_once_none stamp_ok_def)
  have "strip_prefix (stem @ lit ''.'') (stem @ lit ''.'' @ stamp @ lit ''-'' @ show_nat n)
      = Some (stamp @ lit ''-'' @ show_nat n)"
    by (simp add: strip_prefix_Some)
  moreover have "list_all is_digit_c (show_nat n)" using show_nat_digits by (auto simp: list_all_iff)
  ultimately show "is_segment_name stem (stem @ lit ''.'' @ stamp @ lit ''-'' @ show_nat n)"
    using p assms(2) chars contains_dots_append[of stem "stamp @ 45 # show_nat n"]
    by (simp add: is_segment_name_def lit_def is_digit_c_def split_once_app stamp_ok_def)
qed

lemma segment_neq_stem: "is_segment_name stem seg \<Longrightarrow> seg \<noteq> stem"
  by (auto simp: is_segment_name_def strip_prefix_Some lit_def split: option.splits)

lemma next_segment_fresh:
  assumes "next_segment_name stem stamp dir = Inr seg" "plain_stem stem" "stamp_ok stamp"
  shows "map_of dir seg = None" "is_segment_name stem seg"
proof -
  have f: "find P xs = Some x \<Longrightarrow> P x \<and> x \<in> set xs" for P xs and x :: rstr
    by (induction xs) (auto split: if_splits)
  show "map_of dir seg = None" "is_segment_name stem seg"
    using assms(1) segment_name_plain[OF assms(2,3)]
    by (auto simp: next_segment_name_def split: option.splits if_splits dest!: f)
qed

section \<open>What append preserves\<close>

lemma linked_frame:
  assumes "linked c stem dir f k" "f \<noteq> stem"
    and "\<And>g b. g \<noteq> stem \<Longrightarrow> map_of dir g = Some b \<Longrightarrow> map_of dir' g = Some b"
  shows "linked c stem dir' f k"
  using assms(1,2)
proof (induction rule: linked.induct)
  case (root f e es)
  then show ?case using assms(3) by (blast intro: linked.root)
next
  case (seam f e es seg n ts b k)
  then show ?case using assms(3) segment_neq_stem[OF seam.hyps(5)] by (blast intro: linked.seam)
qed

text \<open>A live file that ends where \<open>tail\<close> says, linked all the way back.\<close>

definition live :: "codec \<Rightarrow> rstr \<Rightarrow> log_dir \<Rightarrow> log_tail \<Rightarrow> bool" where
  "live c stem dir tail \<longleftrightarrow> bt_wf dir \<and> (\<exists>es l k. map_of dir stem = Some (file_of c (es @ [l]))
     \<and> linked c stem dir stem k \<and> lt_last_line tail = Some (cd_json c l) \<and> lt_ends_with_newline tail)"

lemma live_tail_of:
  assumes "codec_ok c" "bt_wf dir" "linked c stem dir stem k"
  shows "live c stem dir (tail_of c stem dir)"
proof -
  obtain es l where "map_of dir stem = Some (file_of c (es @ [l]))" using linked_entries[OF assms(3)] by blast
  then show ?thesis using assms read_tail_file[OF assms(1), of es l]
    unfolding live_def tail_of_def by (metis log_tail.select_convs(1,2) option.case(2))
qed

lemma write_seam_live:
  assumes "codec_ok c" "bt_wf dir" "linked c stem dir seg k" "is_segment_name stem seg"
  shows "\<exists>tail dir'. write_seam c stem now seg dir = (Inr tail, dir') \<and> live c stem dir' tail"
proof -
  obtain es l where b: "map_of dir seg = Some (file_of c (es @ [l]))" using linked_entries[OF assms(3)] by blast
  obtain ts where ts: "summarize_segment c (file_of c (es @ [l])) = Inr (length (es @ [l]), ts)"
    using summarize_file[OF assms(1)] by blast
  define th where "th = hash_tail c (file_of c (es @ [l]))"
  define seam where "seam = \<lparr> ent_ts = now, ent_severity = Notice,
      ent_event = AuditLogRotated seg (length (es @ [l])) ts th, ent_prev_hash = th \<rparr>"
  define dir' where "dir' = bt_insert stem (file_of c [seam]) dir"
  have fs: "file_of c [seam] = log_line c (cd_json c seam)" by simp
  have w: "write_seam c stem now seg dir = (Inr \<lparr> lt_last_line = Some (cd_json c seam),
      lt_ends_with_newline = True, lt_len = length (cd_bytes c (cd_json c seam)) + 1 \<rparr>, dir')"
    by (simp only: write_seam_def b ts option.case sum.case prod.case Let_def th_def[symmetric]
        seam_def[symmetric] dir'_def fs)
  have m: "map_of dir' = (map_of dir)(stem \<mapsto> file_of c [seam])"
    unfolding dir'_def by (rule map_of_bt_insert[OF assms(2)])
  have "linked c stem dir' seg k"
    by (rule linked_frame[OF assms(3) segment_neq_stem[OF assms(4)]]) (simp add: m)
  moreover have "th \<noteq> genesis_hash"
    using assms(1) unfolding th_def hash_tail_file[OF assms(1)] by (simp add: codec_ok_def)
  moreover have "map_of dir' seg = Some (file_of c (es @ [l]))"
    using b segment_neq_stem[OF assms(4)] by (simp add: m)
  moreover have f: "map_of dir' stem = Some (file_of c [seam])" by (simp add: m)
  ultimately have "linked c stem dir' stem (Suc k)"
    by (intro linked.seam[of dir' stem c seam "[]" seg "length (es @ [l])" ts stem "file_of c (es @ [l])" k])
      (simp_all only: assms(4) seam_def audit_entry.select_convs th_def[symmetric] links.simps option.case simp_thms)
  moreover have "bt_wf dir'" unfolding dir'_def by (rule bt_insert_wf[OF assms(2)])
  ultimately show ?thesis using w f unfolding live_def
    by (metis append_Nil log_tail.select_convs(1,2))
qed

text \<open>The directory between the rename of a rotation and its seam.\<close>

definition renamed :: "rstr \<Rightarrow> rstr \<Rightarrow> log_dir \<Rightarrow> log_dir" where
  "renamed stem seg dir = (case map_of dir stem of
     None \<Rightarrow> dir | Some b \<Rightarrow> bt_insert seg b (bt_remove stem dir))"

lemma renamed_linked:
  assumes "bt_wf dir" "linked c stem dir stem k" "map_of dir seg = None" "is_segment_name stem seg"
  shows "bt_wf (renamed stem seg dir)" "map_of (renamed stem seg dir) stem = None"
    and "linked c stem (renamed stem seg dir) seg k"
proof -
  obtain es l where b: "map_of dir stem = Some (file_of c (es @ [l]))" using linked_entries[OF assms(2)] by blast
  have ne: "seg \<noteq> stem" by (rule segment_neq_stem[OF assms(4)])
  show "bt_wf (renamed stem seg dir)" using assms(1) b by (auto simp: renamed_def simp del: file_of_simps)
  have m: "map_of (renamed stem seg dir) = (map_of dir)(stem := None, seg \<mapsto> file_of c (es @ [l]))"
    using assms(1) b ne by (simp add: renamed_def map_of_bt_insert bt_remove_wf map_of_bt_remove del: file_of_simps)
  show "map_of (renamed stem seg dir) stem = None" using ne by (simp add: m)
  have keep: "\<And>g b. g \<noteq> stem \<Longrightarrow> map_of dir g = Some b \<Longrightarrow> map_of (renamed stem seg dir) g = Some b"
    using assms(3) by (auto simp: m)
  show "linked c stem (renamed stem seg dir) seg k"
    using assms(2)
  proof (cases rule: linked.cases)
    case (root e fs)
    have "map_of (renamed stem seg dir) seg = Some (file_of c (e # fs))"
      using root(2) b by (simp add: m del: file_of_simps)
    then show ?thesis using root by (blast intro: linked.root)
  next
    case (seam e fs seg' n ts b' k')
    have f: "map_of (renamed stem seg dir) seg = Some (file_of c (e # fs))"
      using seam(2) b by (simp add: m del: file_of_simps)
    have ne': "seg' \<noteq> stem" by (rule segment_neq_stem[OF seam(6)])
    show ?thesis unfolding seam(1)
      by (rule linked.seam[OF f seam(3-6) keep[OF ne' seam(7)] seam(8) linked_frame[OF seam(9) ne' keep]])
  qed
qed

lemma rotate_live:
  assumes "codec_ok c" "live c stem dir tail" "plain_stem stem" "stamp_ok stamp"
    and "rotate c stem now stamp dir = (Inr tail', dir')"
  shows "live c stem dir' tail'"
proof -
  obtain k where l: "bt_wf dir" "linked c stem dir stem k" using assms(2) by (auto simp: live_def)
  obtain es l where b: "map_of dir stem = Some (file_of c (es @ [l]))" using linked_entries[OF l(2)] by blast
  obtain seg where seg: "next_segment_name stem stamp dir = Inr seg"
    using assms(5) by (auto simp: rotate_def split: sum.splits)
  note fr = next_segment_fresh[OF seg assms(3,4)]
  note r = renamed_linked[OF l fr]
  have "write_seam c stem now seg (renamed stem seg dir) = (Inr tail', dir')"
    using assms(5) seg b by (simp add: rotate_def renamed_def del: file_of_simps)
  then show ?thesis using write_seam_live[OF assms(1) r(1,3) fr(2), of now] by auto
qed

text \<open>What holds of the directory between any two calls, a crash between the rename and the seam
  included: an empty log, a linked live file, or no live file and the newest segment linked.\<close>

definition log_inv :: "codec \<Rightarrow> rstr \<Rightarrow> log_dir \<Rightarrow> bool" where
  "log_inv c stem dir \<longleftrightarrow> bt_wf dir \<and>
     (map_of dir stem = None \<and> log_segments stem dir = []
      \<or> (\<exists>k. linked c stem dir stem k)
      \<or> map_of dir stem = None \<and> (\<exists>seg k. newest_segment stem dir = Some seg \<and> linked c stem dir seg k))"

lemma newest_is_segment: "newest_segment stem dir = Some seg \<Longrightarrow> is_segment_name stem seg"
proof -
  assume "newest_segment stem dir = Some seg"
  then have "seg \<in> set (log_segments stem dir)"
    by (auto simp: newest_segment_def split: list.splits if_splits)
  then show ?thesis by (auto simp: log_segments_def)
qed

lemma heal_live:
  assumes "codec_ok c" "log_inv c stem dir" "heal_tail c stem k dir = (r, dir')"
  shows "(\<exists>tail. r = Inr tail \<and> live c stem dir' tail)
    \<or> r = Inr tail_empty \<and> dir' = dir \<and> bt_wf dir \<and> map_of dir stem = None"
proof -
  have wf: "bt_wf dir" using assms(2) by (simp add: log_inv_def)
  consider "map_of dir stem = None" "log_segments stem dir = []" | n where "linked c stem dir stem n"
    | seg n where "map_of dir stem = None" "newest_segment stem dir = Some seg" "linked c stem dir seg n"
    using assms(2) by (auto simp: log_inv_def)
  then show ?thesis
  proof cases
    case 1
    then show ?thesis using assms(3) wf
      by (auto simp: heal_tail_def tail_of_def tail_empty_def newest_segment_def)
  next
    case 2
    have "live c stem dir (tail_of c stem dir)" by (rule live_tail_of[OF assms(1) wf 2])
    moreover from this obtain line where "lt_last_line (tail_of c stem dir) = Some line" by (auto simp: live_def)
    then have "heal_tail c stem k dir = (Inr (tail_of c stem dir), dir)" by (simp add: heal_tail_def Let_def)
    ultimately show ?thesis using assms(3) by auto
  next
    case 3
    then have "heal_tail c stem k dir = write_seam c stem (ak_heal k) seg dir"
      by (simp add: heal_tail_def tail_of_def tail_empty_def)
    then show ?thesis
      using write_seam_live[OF assms(1) wf 3(3) newest_is_segment[OF 3(2)], of "ak_heal k"] assms(3) by auto
  qed
qed

lemma append_entry_live:
  assumes "codec_ok c" "append_entry c stem k ev tail dir = (e, dir')"
    and "live c stem dir tail \<or> tail = tail_empty \<and> bt_wf dir \<and> map_of dir stem = None"
  shows "bt_wf dir'" "\<exists>n. linked c stem dir' stem n" "\<exists>es. map_of dir' stem = Some (file_of c (es @ [e]))"
    and "ent_event e = ev"
proof -
  have wf: "bt_wf dir" using assms(3) by (auto simp: live_def)
  have d: "dir' = bt_insert stem ((case map_of dir stem of Some b \<Rightarrow> b | None \<Rightarrow> [])
      @ (if lt_ends_with_newline tail then [] else [10]) @ log_line c (cd_json c e)) dir"
    and e: "ent_event e = ev" "ent_prev_hash e
      = (case lt_last_line tail of Some line \<Rightarrow> cd_sha256 c line | None \<Rightarrow> genesis_hash)"
    using assms(2) by (auto simp: append_entry_def Let_def)
  show "bt_wf dir'" "ent_event e = ev" using wf e by (simp_all add: d bt_insert_wf)
  consider es l n where "map_of dir stem = Some (file_of c (es @ [l]))" "linked c stem dir stem n"
      "lt_last_line tail = Some (cd_json c l)" "lt_ends_with_newline tail"
    | "tail = tail_empty" "map_of dir stem = None"
    using assms(3) by (auto simp: live_def simp del: file_of_simps)
  then have "(\<exists>n. linked c stem dir' stem n) \<and> (\<exists>es. map_of dir' stem = Some (file_of c (es @ [e])))"
  proof cases
    case 1
    have m: "map_of dir' = (map_of dir)(stem \<mapsto> file_of c (es @ [l, e]))"
      using map_of_bt_insert[OF wf] 1 by (simp add: d)
    have keep: "\<And>g b. g \<noteq> stem \<Longrightarrow> map_of dir g = Some b \<Longrightarrow> map_of dir' g = Some b" by (simp add: m)
    have eh: "ent_prev_hash e = cd_sha256 c (cd_json c l)" using e(2) 1(3) by simp
    have "linked c stem dir' stem n"
      using 1(2)
    proof (cases rule: linked.cases)
      case (root e0 fs)
      then have x: "e0 # fs = es @ [l]" using file_of_inj[OF assms(1)] 1(1) by (metis option.inject)
      then have xe: "e0 # (fs @ [e]) = es @ [l, e]" using arg_cong[OF x, of "\<lambda>z. z @ [e]"] by simp
      have l: "links c None (e0 # (fs @ [e]))"
        using root(3) eh unfolding xe links_snoc x by simp
      have "map_of dir' stem = Some (file_of c (e0 # (fs @ [e])))"
        by (simp only: m xe fun_upd_same)
      from linked.root[OF this l root(4)] show ?thesis using root(1) by simp
    next
      case (seam e0 fs seg n' ts b k')
      then have x: "e0 # fs = es @ [l]" using file_of_inj[OF assms(1)] 1(1) by (metis option.inject)
      then have xe: "e0 # (fs @ [e]) = es @ [l, e]" using arg_cong[OF x, of "\<lambda>z. z @ [e]"] by simp
      have l: "links c None (e0 # (fs @ [e]))"
        using seam(3) eh unfolding xe links_snoc x by simp
      have f: "map_of dir' stem = Some (file_of c (e0 # (fs @ [e])))"
        by (simp only: m xe fun_upd_same)
      have ne: "seg \<noteq> stem" by (rule segment_neq_stem[OF seam(6)])
      show ?thesis unfolding seam(1)
        by (rule linked.seam[OF f l seam(4-6) keep[OF ne seam(7)] seam(8) linked_frame[OF seam(9) ne keep]])
    qed
    moreover have "map_of dir' stem = Some (file_of c ((es @ [l]) @ [e]))" by (simp add: m)
    ultimately show ?thesis by blast
  next
    case 2
    then have m: "map_of dir' stem = Some (file_of c [e])"
      using map_of_bt_insert[OF wf] by (simp add: d tail_empty_def)
    have "linked c stem dir' stem 0"
      by (rule linked.root[OF m]) (use e(2) 2(1) in \<open>simp_all add: tail_empty_def\<close>)
    then show ?thesis using m by (metis append_Nil)
  qed
  then show "\<exists>n. linked c stem dir' stem n" "\<exists>es. map_of dir' stem = Some (file_of c (es @ [e]))" by blast+
qed

lemma append_linked:
  assumes "codec_ok c" "plain_stem stem" "stamp_ok (ak_stamp k)" "log_inv c stem dir"
    and "append c stem max_bytes k ev dir = (Inr e, dir')"
  shows "bt_wf dir'" "\<exists>n. linked c stem dir' stem n" "\<exists>es. map_of dir' stem = Some (file_of c (es @ [e]))"
    and "ent_event e = ev"
proof -
  obtain tail1 dir1 where h: "heal_tail c stem k dir = (Inr tail1, dir1)"
    using assms(5) by (auto simp: append_def split: prod.splits sum.splits)
  then obtain tail2 dir2 where r: "rotate_tail c stem max_bytes k tail1 dir1 = (Inr tail2, dir2)"
    using assms(5) by (auto simp: append_def split: prod.splits sum.splits)
  then have a: "append_entry c stem k ev tail2 dir2 = (e, dir')"
    using assms(5) h by (auto simp: append_def split: prod.splits)
  have "live c stem dir1 tail1 \<or> tail1 = tail_empty \<and> bt_wf dir1 \<and> map_of dir1 stem = None"
    using heal_live[OF assms(1,4) h] by auto
  then have "live c stem dir2 tail2 \<or> tail2 = tail_empty \<and> bt_wf dir2 \<and> map_of dir2 stem = None"
    using r rotate_live[OF assms(1) _ assms(2,3)]
    by (auto simp: rotate_tail_def tail_empty_def split: if_splits)
  from append_entry_live[OF assms(1) a this]
  show "bt_wf dir'" "\<exists>n. linked c stem dir' stem n" "\<exists>es. map_of dir' stem = Some (file_of c (es @ [e]))"
    "ent_event e = ev" .
qed

section \<open>Properties\<close>

lemma verify_chain_linked:
  assumes "codec_ok c" "linked c stem dir stem k"
  shows "verify_chain_status c stem Full dir = IntactFromGenesis" "verify_chain c stem dir = None"
proof -
  show "verify_chain_status c stem Full dir = IntactFromGenesis"
    unfolding verify_chain_status_def by (rule walk_linked[OF assms]) simp
  have "walk c stem CurrentSegment dir stem [] = IntactFromGenesis
      \<or> (\<exists>ts seg n p. walk c stem CurrentSegment dir stem [] = IntactSinceRotation ts seg n p)"
    using assms(2)
  proof (cases rule: linked.cases)
    case (root e es)
    then show ?thesis
      using read_entries_file[OF assms(1) root(2)] verify_links_None[of c "e # es"]
      by (subst walk.simps) (simp add: classify_head_def)
  next
    case (seam e es seg n ts b k')
    have r: "read_entries c dir stem = Inr (e # es)" by (rule read_entries_file[OF assms(1) seam(2)])
    have "verify_links c (e # es) None = None" using seam(3) by (simp only: verify_links_None)
    then have "walk c stem CurrentSegment dir stem [] = IntactSinceRotation (ent_ts e) seg n True"
      by (subst walk.simps) (simp add: r classify_head_def seam(4-7))
    then show ?thesis by blast
  qed
  then show "verify_chain c stem dir = None" by (auto simp: verify_chain_def verify_chain_status_def)
qed

text \<open>C17. every append leaves a chain that verifies.  Starting from an empty log, and through any
  number of appends, rotations at any threshold, and crashes between the rename of a rotation and
  its seam, the entry just appended is the last line of the live file, boot verification finds no
  break, and the full walk reaches \<open>GENESIS\<close>; a crash counts as long as the segment just renamed
  sorts last, as it does on a clock that does not run backwards.\<close>

theorem append_keeps_chain_intact:
  assumes "codec_ok c" "plain_stem stem" "stamp_ok (ak_stamp k)" "log_inv c stem dir"
    and "append c stem max_bytes k ev dir = (Inr e, dir')"
  shows "verify_chain_status c stem Full dir' = IntactFromGenesis \<and> verify_chain c stem dir' = None
    \<and> ent_event e = ev \<and> (\<exists>es. map_of dir' stem = Some (file_of c (es @ [e])))
    \<and> log_inv c stem [] \<and> log_inv c stem dir'
    \<and> (\<forall>seg. map_of dir' seg = None \<and> is_segment_name stem seg
         \<and> newest_segment stem (renamed stem seg dir') = Some seg \<longrightarrow> log_inv c stem (renamed stem seg dir'))"
proof -
  note a = append_linked[OF assms]
  then obtain n where n: "linked c stem dir' stem n" by blast
  have "log_inv c stem (renamed stem seg dir')" if "map_of dir' seg = None" "is_segment_name stem seg"
    "newest_segment stem (renamed stem seg dir') = Some seg" for seg
    using renamed_linked[OF a(1) n that(1,2)] that(3) by (auto simp: log_inv_def)
  moreover have "log_inv c stem dir'" using a(1) n by (auto simp: log_inv_def)
  moreover have "log_inv c stem []" by (simp add: log_inv_def log_segments_def)
  ultimately show ?thesis using verify_chain_linked[OF assms(1) n] a(3,4) by blast
qed

lemma links_last:
  assumes "links c None (es @ [l])"
  shows "links c None es" "es \<noteq> [] \<Longrightarrow> ent_prev_hash l = cd_sha256 c (cd_json c (last es))"
proof -
  have "links c x (es @ [l]) \<Longrightarrow> links c x es" for x by (induction es arbitrary: x) auto
  then show "links c None es" using assms by blast
  assume "es \<noteq> []"
  then obtain fs m where "es = fs @ [m]" by (metis rev_exhaust)
  then show "ent_prev_hash l = cd_sha256 c (cd_json c (last es))"
    using assms links_snoc[of c None fs m l] by simp
qed

text \<open>C18. the tail hash pins the whole history.  Two logs that both verify from \<open>GENESIS\<close> and whose
  last entries have the same hash are the same log, entry by entry, as long as no two different
  entries among them collide: no entry can be altered, dropped, added or reordered without breaking
  a link or changing the hash the next entry, or the next seam, records.\<close>

theorem tail_hash_pins_history:
  assumes "codec_ok c" "verify_links c es s = None" "verify_links c es' s' = None"
    and "es \<noteq> []" "es' \<noteq> []" "ent_prev_hash (hd es) = genesis_hash" "ent_prev_hash (hd es') = genesis_hash"
    and "\<And>a b. a \<in> set es \<Longrightarrow> b \<in> set es' \<Longrightarrow>
           cd_sha256 c (cd_json c a) = cd_sha256 c (cd_json c b) \<Longrightarrow> a = b"
    and "cd_sha256 c (cd_json c (last es)) = cd_sha256 c (cd_json c (last es'))"
  shows "es = es'"
proof -
  have g: "cd_sha256 c (cd_json c e) \<noteq> genesis_hash" for e using assms(1) by (simp add: codec_ok_def)
  have "links c None es" "links c None es'" using assms(2,3) by (simp_all only: verify_links_None)
  then show ?thesis using assms(4-9)
  proof (induction es arbitrary: es' rule: rev_induct)
    case (snoc l es)
    obtain fs m where es': "es' = fs @ [m]" using snoc.prems(4) by (metis rev_exhaust)
    have lm: "l = m" using snoc.prems(7)[of l m] snoc.prems(8) by (simp add: es')
    note p = links_last[OF snoc.prems(1)] and p' = links_last[OF snoc.prems(2)[unfolded es']]
    show ?case
    proof (cases "es = []")
      case True
      then have "fs = []" using snoc.prems(5) p'(2) g lm by fastforce
      then show ?thesis using True lm es' by simp
    next
      case False
      have "fs \<noteq> []" using snoc.prems(6) p(2)[OF False] g lm es' by fastforce
      have "es = fs"
      proof (rule snoc.IH[OF p(1) p'(1) False \<open>fs \<noteq> []\<close>])
        show "ent_prev_hash (hd es) = genesis_hash" "ent_prev_hash (hd fs) = genesis_hash"
          using snoc.prems(5,6) False \<open>fs \<noteq> []\<close> by (simp_all add: es')
        show "cd_sha256 c (cd_json c (last es)) = cd_sha256 c (cd_json c (last fs))"
          using p(2)[OF False] p'(2)[OF \<open>fs \<noteq> []\<close>] lm by simp
        show "a = b" if "a \<in> set es" "b \<in> set fs"
          "cd_sha256 c (cd_json c a) = cd_sha256 c (cd_json c b)" for a b
          using snoc.prems(7)[of a b] that by (simp add: es')
      qed
      then show ?thesis using lm es' by simp
    qed
  qed simp
qed

section \<open>An undecodable line\<close>

lemma summarize_undecodable:
  "\<exists>l\<in>set (str_lines b). cd_utf8 c l = None \<Longrightarrow> summarize_segment c b = Inl AuditIo"
proof -
  have "\<exists>l\<in>set ls. cd_utf8 c l = None \<Longrightarrow> summarize_lines c ls n t = Inl AuditIo" for ls n t
    by (induction ls arbitrary: n t) (auto split: option.splits)
  then show "\<exists>l\<in>set (str_lines b). cd_utf8 c l = None \<Longrightarrow> summarize_segment c b = Inl AuditIo"
    by (simp add: summarize_segment_def)
qed

text \<open>C19. one undecodable line, as an interrupted write leaves it, is stepped over by every append
  until the log rotates; the append that rotates then fails with the live file already renamed, and
  from that moment every append fails, whatever the event, the clock or the threshold, and changes
  nothing: the log can never be written again, nor the daemon started, until someone repairs the
  segment by hand.\<close>

theorem undecodable_line_wedges_log:
  assumes "map_of dir stem = Some b" "\<exists>l\<in>set (str_lines b). cd_utf8 c l = None"
    and "lt_last_line (read_tail c b) \<noteq> None" "max_bytes \<le> length b" "b \<noteq> []"
    and "next_segment_name stem (ak_stamp k) dir = Inr seg" "seg \<noteq> stem" "bt_wf dir"
    and "newest_segment stem (renamed stem seg dir) = Some seg"
  shows "append c stem max_bytes k ev dir = (Inl AuditIo, renamed stem seg dir)
    \<and> append c stem max' k' ev' (renamed stem seg dir) = (Inl AuditIo, renamed stem seg dir)"
proof -
  let ?d = "renamed stem seg dir"
  have m: "map_of ?d = (map_of dir)(stem := None, seg \<mapsto> b)"
    using assms(1,7,8) by (simp add: renamed_def map_of_bt_insert bt_remove_wf map_of_bt_remove)
  note s = summarize_undecodable[OF assms(2)]
  obtain line where line: "lt_last_line (read_tail c b) = Some line" using assms(3) by blast
  have len: "lt_len (read_tail c b) = length b" using read_tail_eq[OF assms(5), of c] by (simp split: prod.splits)
  have seam: "write_seam c stem now seg ?d = (Inl AuditIo, ?d)" for now
    using assms(7) s by (simp add: write_seam_def m Let_def)
  have "heal_tail c stem k dir = (Inr (read_tail c b), dir)"
    by (simp add: heal_tail_def tail_of_def assms(1) line Let_def)
  moreover have "rotate_tail c stem max_bytes k (read_tail c b) dir = (Inl AuditIo, ?d)"
    using seam assms(1,4,6) by (simp add: rotate_tail_def rotate_def line len renamed_def)
  moreover have "heal_tail c stem k' ?d = (Inl AuditIo, ?d)"
    using assms(7,9) seam by (simp add: heal_tail_def tail_of_def m tail_empty_def Let_def)
  ultimately show ?thesis by (simp add: append_def)
qed

section \<open>A concrete codec\<close>

text \<open>An entry is written as the decimal number that encodes it, in ASCII, and hashed by itself: the
  assumptions on the outside code can hold together.\<close>

instance severity :: countable by countable_datatype
instance audit_event :: countable by countable_datatype

definition entry_number :: "audit_entry \<Rightarrow> nat" where
  "entry_number e = to_nat (ent_ts e, ent_severity e, ent_event e, ent_prev_hash e)"

definition number_entry :: "nat \<Rightarrow> audit_entry" where
  "number_entry n = (case from_nat n of (ts, sev, ev, h) \<Rightarrow>
     \<lparr> ent_ts = ts, ent_severity = sev, ent_event = ev, ent_prev_hash = h \<rparr>)"

definition plain_codec :: codec where
  "plain_codec = \<lparr> cd_utf8 = (\<lambda>b. if list_all (\<lambda>x. x < 128) b then Some b else None), cd_bytes = (\<lambda>s. s),
     cd_json = (\<lambda>e. show_nat (entry_number e)), cd_parse = (\<lambda>s. map_option number_entry (parse_nat s)),
     cd_sha256 = (\<lambda>s. s) \<rparr>"

lemma parse_show_nat: "parse_nat (show_nat n) = Some n"
  using show_nat_digits[of _ n] by (auto simp: parse_nat_def list_all_iff read_show_nat)

lemma plain_codec_ok: "codec_ok plain_codec"
proof -
  have d: "x \<in> set (show_nat n) \<Longrightarrow> 48 \<le> x \<and> x \<le> 57" for x n
    using show_nat_digits by (fastforce simp: is_digit_c_def)
  have "last (show_nat n) \<in> set (show_nat n)" for n by (rule last_in_set) simp
  then have cr: "strip_cr (show_nat n) = show_nat n" for n using d[of "last (show_nat n)" n] by (auto simp: strip_cr_def)
  have ws: "trim (show_nat n) \<noteq> []" for n
  proof -
    obtain a as where "show_nat n = a # as" by (cases "show_nat n") auto
    then show ?thesis using d[of a n] by (auto simp: trim_eq_Nil is_ws_def)
  qed
  have g: "show_nat n \<noteq> genesis_hash" for n
  proof
    assume "show_nat n = genesis_hash"
    then show False using d[of 71 n] by (simp add: genesis_hash_def lit_def)
  qed
  have p: "number_entry (entry_number e) = e" for e by (simp add: entry_number_def number_entry_def)
  have ascii: "list_all (\<lambda>x. x < 128) (show_nat n)" "10 \<notin> set (show_nat n)" for n
    using d[of _ n] by (fastforce simp: list_all_iff)+
  show ?thesis by (simp add: codec_ok_def plain_codec_def cr ws g p ascii parse_show_nat)
qed

definition a_stamp :: rstr where "a_stamp = lit ''20260806T101500''"
definition a_clock :: append_clock where
  "a_clock = \<lparr> ak_heal = [], ak_stamp = a_stamp, ak_seam = [], ak_entry = [] \<rparr>"
definition a_stem :: rstr where "a_stem = lit ''audit.log''"

lemma next_segment_first:
  assumes "map_of dir (stem @ lit ''.'' @ stamp) = None"
  shows "next_segment_name stem stamp dir = Inr (stem @ lit ''.'' @ stamp)"
proof -
  have "[0..<1000] = 0 # [Suc 0..<1000]" by (rule upt_conv_Cons) simp
  then show ?thesis
    unfolding next_segment_name_def by (simp only: list.map find.simps assms simp_thms if_True option.case)
qed

lemma a_stem_plain: "plain_stem a_stem"
  by (simp add: plain_stem_def a_stem_def lit_def contains_dots_def)

lemma a_stamp_ok: "stamp_ok a_stamp" "stamp_ok (ak_stamp a_clock)"
  by (simp_all add: stamp_ok_def a_clock_def a_stamp_def lit_def is_digit_c_def nth_Cons numeral_eq_Suc)

theorem append_keeps_chain_intact_witness:
  "verify_chain_status plain_codec a_stem Full
     (snd (append plain_codec a_stem 100 a_clock (ConfigReloaded (lit ''SIGHUP'')) [])) = IntactFromGenesis"
proof -
  have inv: "log_inv plain_codec a_stem []" by (simp add: log_inv_def log_segments_def)
  obtain e d where a: "append plain_codec a_stem 100 a_clock (ConfigReloaded (lit ''SIGHUP'')) [] = (Inr e, d)"
    by (simp add: append_def heal_tail_def tail_of_def tail_empty_def newest_segment_def log_segments_def
        rotate_tail_def append_entry_def Let_def)
  show ?thesis
    using append_keeps_chain_intact[OF plain_codec_ok a_stem_plain a_stamp_ok(2) inv a] by (simp add: a)
qed

theorem tail_hash_pins_history_witness:
  "\<forall>ts. cd_sha256 plain_codec (cd_json plain_codec
      \<lparr> ent_ts = ts, ent_severity = Info, ent_event = DaemonStopped [], ent_prev_hash = genesis_hash \<rparr>)
    = cd_sha256 plain_codec (cd_json plain_codec
      \<lparr> ent_ts = lit ''now'', ent_severity = Info, ent_event = DaemonStopped [], ent_prev_hash = genesis_hash \<rparr>)
   \<longleftrightarrow> ts = lit ''now''"
proof (intro allI iffI)
  fix ts
  let ?e = "\<lambda>t. \<lparr> ent_ts = t, ent_severity = Info, ent_event = DaemonStopped [], ent_prev_hash = genesis_hash \<rparr>"
  assume h: "cd_sha256 plain_codec (cd_json plain_codec (?e ts))
    = cd_sha256 plain_codec (cd_json plain_codec (?e (lit ''now'')))"
  have inj: "a = b" if "cd_sha256 plain_codec (cd_json plain_codec a) = cd_sha256 plain_codec (cd_json plain_codec b)" for a b
  proof -
    have "entry_number a = entry_number b" using that by (simp add: plain_codec_def)
    then show ?thesis by (cases a; cases b) (simp add: entry_number_def)
  qed
  have "[?e ts] = [?e (lit ''now'')]"
  proof (rule tail_hash_pins_history[OF plain_codec_ok, of _ None _ None])
    show "cd_sha256 plain_codec (cd_json plain_codec (last [?e ts]))
      = cd_sha256 plain_codec (cd_json plain_codec (last [?e (lit ''now'')]))" using h by simp
    show "a = b" if "cd_sha256 plain_codec (cd_json plain_codec a) = cd_sha256 plain_codec (cd_json plain_codec b)" for a b
      by (rule inj[OF that])
  qed (simp_all add: verify_links_def)
  then show "ts = lit ''now''" by simp
qed simp

theorem undecodable_line_wedges_log_witness:
  "append plain_codec a_stem 4 a_clock (DaemonStarted [] 1) [(a_stem, [50, 10, 200, 10])]
     = (Inl AuditIo, renamed a_stem (a_stem @ lit ''.'' @ a_stamp) [(a_stem, [50, 10, 200, 10])])"
proof (rule conjunct1[OF undecodable_line_wedges_log])
  let ?b = "[50, 10, 200, 10] :: nat list" and ?seg = "a_stem @ lit ''.'' @ a_stamp"
  show "map_of [(a_stem, ?b)] a_stem = Some ?b" by simp
  show "\<exists>l\<in>set (str_lines ?b). cd_utf8 plain_codec l = None"
    by (simp add: str_lines_def strip_cr_def plain_codec_def)
  have "pick_tail plain_codec (rev (split_on 10 ?b)) True = (Some [50], False)"
    by (simp add: plain_codec_def decode_line_def strip_cr_def trim_def trim_end_def trim_start_def is_ws_def)
  then show "lt_last_line (read_tail plain_codec ?b) \<noteq> None"
    by (subst read_tail_eq) simp_all
  show "4 \<le> length ?b" "?b \<noteq> []" by simp_all
  show "next_segment_name a_stem (ak_stamp a_clock) [(a_stem, ?b)] = Inr ?seg"
    using next_segment_first[of "[(a_stem, ?b)]" a_stem a_stamp] by (simp add: a_clock_def lit_def)
  show ne: "?seg \<noteq> a_stem" by (simp add: lit_def)
  show "bt_wf [(a_stem, ?b)]" by (simp add: bt_wf_def)
  have "renamed a_stem ?seg [(a_stem, ?b)] = [(?seg, ?b)]"
    by (simp add: renamed_def bt_remove_def)
  then show "newest_segment a_stem (renamed a_stem ?seg [(a_stem, ?b)]) = Some ?seg"
    using segment_name_plain(1)[OF a_stem_plain a_stamp_ok(1)]
    by (simp add: newest_segment_def log_segments_def)
qed

end
