(* ===== verification/Telegram_Inbound.thy ===== *)
theory Telegram_Inbound
  imports Hooks
begin

text \<open>
  \<open>dotagent-notify/src/telegram_inbound.rs\<close>: what an update becomes, the long poll and its
  acknowledged offset, and the per-sender sliding window (which the gateway reuses for local
  triggers).  The HTTP exchange is a parameter: what \<open>getUpdates\<close> answered.
\<close>

section \<open>Updates\<close>

record inbound_message =
  im_update_id :: int
  im_user_id :: int
  im_chat_id :: int
  im_message_id :: int
  im_text :: rstr
  im_chat_type :: rstr
  im_thread_id :: "int option"
  im_reply_to_text :: "rstr option"
  im_reply_to_message_id :: "int option"

datatype chat = Chat int "rstr option"

text \<open>\<open>Message\<close> is recursive through \<open>reply_to_message\<close>: id, sender, chat, text, topic, replied.\<close>

datatype message =
  Message (ms_message_id: "int option") (ms_from: "int option") (ms_chat: "chat option")
    (ms_text: "rstr option") (ms_thread_id: "int option") (ms_reply_to: "message option")

record update =
  up_id :: int
  up_message :: "message option"


definition extract_one :: "update \<Rightarrow> inbound_message option" where
  "extract_one u = (
     case up_message u of None \<Rightarrow> None
     | Some m \<Rightarrow>
     case ms_from m of None \<Rightarrow> None
     | Some from_id \<Rightarrow>
     case ms_chat m of None \<Rightarrow> None
     | Some (Chat chat_id kind) \<Rightarrow>
     case ms_text m of None \<Rightarrow> None
     | Some text \<Rightarrow>
     case ms_message_id m of None \<Rightarrow> None
     | Some message_id \<Rightarrow>
       if trim text = [] then None
       else Some \<lparr> im_update_id = up_id u, im_user_id = from_id, im_chat_id = chat_id,
              im_message_id = message_id, im_text = text,
              im_chat_type = (case kind of Some k \<Rightarrow> k | None \<Rightarrow> []),
              im_thread_id = ms_thread_id m,
              im_reply_to_text =
                Option.bind (map_option trim (Option.bind (ms_reply_to m) ms_text))
                  (\<lambda>t. if t = [] then None else Some t),
              im_reply_to_message_id = Option.bind (ms_reply_to m) ms_message_id \<rparr>)"

definition extract_messages :: "update list \<Rightarrow> inbound_message list" where
  "extract_messages updates = List.map_filter extract_one updates"

section \<open>The poller\<close>






definition max_update :: "update list \<Rightarrow> int option" where
  "max_update us = (case map up_id us of [] \<Rightarrow> None | i # rest \<Rightarrow> Some (fold max rest i))"


section \<open>The rate limiter\<close>

record rate_limiter =
  rl_per_minute :: nat
  rl_hits :: "(int \<times> instant) list"

definition limiter_new :: "nat \<Rightarrow> rate_limiter" where
  "limiter_new per_minute = \<lparr> rl_per_minute = per_minute, rl_hits = [] \<rparr>"

text \<open>\<open>Instant::duration_since\<close> is zero for a later instant.  The count is cut to 32 bits.\<close>

definition duration_since :: "instant \<Rightarrow> instant \<Rightarrow> int" where
  "duration_since now t = max 0 (now - t)"

definition limiter_check_at :: "int \<Rightarrow> instant \<Rightarrow> rate_limiter \<Rightarrow> bool \<times> rate_limiter" where
  "limiter_check_at user now l = (
     let hits = filter (\<lambda>(_, t). duration_since now t < 60 * second) (rl_hits l);
         cnt = length (filter (\<lambda>(u, _). u = user) hits)
     in if rl_per_minute l \<le> cnt mod 2 ^ 32 then (False, l\<lparr> rl_hits := hits \<rparr>)
        else (True, l\<lparr> rl_hits := hits @ [(user, now)] \<rparr>))"

text \<open>Command menu entries: the description is trimmed and cut to Telegram's cap.\<close>

definition max_command_description :: nat where "max_command_description = 256"

record bot_command =
  bc_command :: rstr
  bc_description :: rstr

definition bot_command_new :: "rstr \<Rightarrow> rstr \<Rightarrow> bot_command" where
  "bot_command_new command description = (
     let d = trim description
     in \<lparr> bc_command = command,
          bc_description = (if length d > max_command_description
             then take (max_command_description - 1) d @ [0x2026] else d) \<rparr>)"

section \<open>Facts\<close>

lemma max_update_Nil [simp]: "max_update [] = None"
  by (simp add: max_update_def)

lemma max_update_None [simp]: "max_update us = None \<longleftrightarrow> us = []"
  by (cases us) (simp_all add: max_update_def)





lemma extract_texts: "m \<in> set (extract_messages us) \<Longrightarrow> trim (im_text m) \<noteq> []"
  by (induction us)
    (auto simp: extract_messages_def List.map_filter_simps extract_one_def split: option.splits chat.splits if_splits)

text \<open>A cut description still fits, and one that fits is kept.\<close>

lemma bot_command_bounded: "length (bc_description (bot_command_new c d)) \<le> max_command_description"
  by (simp add: bot_command_new_def Let_def max_command_description_def)

section \<open>A message is delivered at most once\<close>














section \<open>The sliding window is exact\<close>

text \<open>Attempts in the order they arrive, and the reference policy: an attempt is accepted exactly
  when its sender has fewer than the cap of accepted attempts in the minute before it.\<close>

fun limiter_accepted :: "rate_limiter \<Rightarrow> (int \<times> instant) list \<Rightarrow> (int \<times> instant) list" where
  "limiter_accepted l [] = []"
| "limiter_accepted l ((u, t) # as) =
     (case limiter_check_at u t l of (ok, l') \<Rightarrow> (if ok then [(u, t)] else []) @ limiter_accepted l' as)"

definition recent_by :: "int \<Rightarrow> instant \<Rightarrow> (int \<times> instant) list \<Rightarrow> nat" where
  "recent_by u t log = length (filter (\<lambda>(v, s). v = u \<and> t - s < 60 * second) log)"

fun policy_accepted :: "nat \<Rightarrow> (int \<times> instant) list \<Rightarrow> (int \<times> instant) list \<Rightarrow> (int \<times> instant) list" where
  "policy_accepted cap log [] = []"
| "policy_accepted cap log ((u, t) # as) =
     (if recent_by u t log < cap then (u, t) # policy_accepted cap (log @ [(u, t)]) as
      else policy_accepted cap log as)"

definition in_minute :: "int \<Rightarrow> instant \<Rightarrow> (int \<times> instant) list \<Rightarrow> nat" where
  "in_minute u from_t log =
     length (filter (\<lambda>(v, s). v = u \<and> from_t \<le> s \<and> s < from_t + 60 * second) log)"

text \<open>The hits that were dropped can never count again, because time does not run backwards.\<close>

definition hits_track :: "instant \<Rightarrow> (int \<times> instant) list \<Rightarrow> (int \<times> instant) list \<Rightarrow> bool" where
  "hits_track t log hits \<longleftrightarrow>
     filter (\<lambda>(_, s). t - s < 60 * second) hits = filter (\<lambda>(_, s). t - s < 60 * second) log"

lemma hits_track_mono:
  assumes "hits_track t log hits" "t \<le> t'"
  shows "hits_track t' log hits"
proof -
  have "filter (\<lambda>(_, s). t' - s < 60 * second) xs
      = filter (\<lambda>(_, s). t' - s < 60 * second) (filter (\<lambda>(_, s). t - s < 60 * second) xs)" for xs :: "(int \<times> instant) list"
    unfolding filter_filter using assms(2) by (intro filter_cong) auto
  then show ?thesis using assms(1) unfolding hits_track_def by metis
qed

lemma in_minute_append: "in_minute u T (log @ [(v, t)]) = in_minute u T log
    + (if v = u \<and> T \<le> t \<and> t < T + 60 * second then 1 else 0)"
  by (simp add: in_minute_def)

lemma in_minute_le_recent: "t < T + 60 * second \<Longrightarrow> in_minute u T log \<le> recent_by u t log"
  by (induction log) (auto simp: in_minute_def recent_by_def)

lemma filter_duration: "filter (\<lambda>(_, s). duration_since t s < 60 * second) hits
    = filter (\<lambda>(_, s). t - s < 60 * second) hits"
  by (intro filter_cong) (auto simp: duration_since_def)

lemma recent_as_minute:
  assumes "\<forall>a\<in>set log. snd a \<le> t"
  shows "recent_by u t log = in_minute u (t - 60 * second + 1) log"
  unfolding recent_by_def in_minute_def using assms
  by (intro arg_cong[where f = length] filter_cong) auto

lemma limiter_check_reference:
  assumes "hits_track t log (rl_hits l)" "rl_per_minute l < 2 ^ 32"
    and "\<forall>u T. in_minute u T log \<le> rl_per_minute l" "\<forall>a\<in>set log. snd a \<le> t"
  shows "limiter_check_at u t l =
    (let hits = filter (\<lambda>(_, s). t - s < 60 * second) (rl_hits l)
     in if recent_by u t log < rl_per_minute l then (True, l\<lparr> rl_hits := hits @ [(u, t)] \<rparr>)
        else (False, l\<lparr> rl_hits := hits \<rparr>))"
proof -
  let ?hits = "filter (\<lambda>(_, s). t - s < 60 * second) (rl_hits l)"
  have "length (filter (\<lambda>(v, _). v = u) ?hits) = recent_by u t log"
    unfolding recent_by_def assms(1)[unfolded hits_track_def] filter_filter
    by (intro arg_cong[where f = length] filter_cong) auto
  moreover have "recent_by u t log \<le> rl_per_minute l"
    using recent_as_minute[OF assms(4)] assms(3) by simp
  ultimately show ?thesis using assms(2)
    by (simp add: limiter_check_at_def filter_duration Let_def not_less)
qed

lemma limiter_exact:
  assumes "sorted (map snd as)" "\<forall>a\<in>set as. t0 \<le> snd a" "hits_track t0 log (rl_hits l)"
    and "rl_per_minute l < 2 ^ 32" "\<forall>u T. in_minute u T log \<le> rl_per_minute l"
    and "\<forall>a\<in>set log. snd a \<le> t0"
  shows "limiter_accepted l as = policy_accepted (rl_per_minute l) log as
    \<and> (\<forall>u T. in_minute u T (log @ limiter_accepted l as) \<le> rl_per_minute l)"
  using assms
proof (induction as arbitrary: l log t0)
  case (Cons a as)
  obtain u t where a: "a = (u, t)" by (cases a)
  let ?hits = "filter (\<lambda>(_, s). t - s < 60 * second) (rl_hits l)"
  let ?ok = "recent_by u t log < rl_per_minute l"
  define log' where "log' = (if ?ok then log @ [(u, t)] else log)"
  define l' where "l' = l\<lparr> rl_hits := if ?ok then ?hits @ [(u, t)] else ?hits \<rparr>"
  have t: "t0 \<le> t" "\<forall>a\<in>set log. snd a \<le> t" using Cons.prems(2,6) by (auto simp: a)
  have tr: "hits_track t log (rl_hits l)" using hits_track_mono[OF Cons.prems(3) t(1)] .
  have chk: "limiter_check_at u t l = (?ok, l')"
    using limiter_check_reference[OF tr Cons.prems(4,5) t(2)] by (simp add: Let_def l'_def)
  have "hits_track t log' (rl_hits l')"
    using tr by (simp add: hits_track_def log'_def l'_def)
  moreover have "\<forall>v T. in_minute v T log' \<le> rl_per_minute l'"
    using Cons.prems(5) in_minute_le_recent[of t _ u log]
    by (fastforce simp: log'_def l'_def in_minute_append intro: order_trans)
  moreover have "sorted (map snd as)" "\<forall>a\<in>set as. t \<le> snd a" "rl_per_minute l' < 2 ^ 32"
    "\<forall>a\<in>set log'. snd a \<le> t"
    using Cons.prems t(2) by (auto simp: a log'_def l'_def)
  ultimately have ih: "limiter_accepted l' as = policy_accepted (rl_per_minute l') log' as
      \<and> (\<forall>u T. in_minute u T (log' @ limiter_accepted l' as) \<le> rl_per_minute l')"
    by (intro Cons.IH) simp_all
  have "limiter_accepted l (a # as) = (if ?ok then [(u, t)] else []) @ limiter_accepted l' as"
    by (simp add: a chk)
  moreover have "policy_accepted (rl_per_minute l) log (a # as)
      = (if ?ok then [(u, t)] else []) @ policy_accepted (rl_per_minute l) log' as"
    by (simp add: a log'_def)
  ultimately show ?case using ih by (auto simp: l'_def log'_def split: if_splits)
qed simp

text \<open>C21. The rate limiter is exact.  On a clock that does not run backwards, the attempts it
  accepts are those the reference policy accepts - an attempt passes exactly when its sender has
  fewer than \<open>per_minute\<close> accepted attempts in the minute before it, although the limiter forgets
  hits as it goes - and no sender gets more than \<open>per_minute\<close> attempts through in any minute,
  wherever the minute starts.\<close>

theorem rate_limiter_exact:
  assumes "sorted (map snd attempts)" "per_minute < 2 ^ 32"
  shows "limiter_accepted (limiter_new per_minute) attempts = policy_accepted per_minute [] attempts
    \<and> (\<forall>user start. in_minute user start (limiter_accepted (limiter_new per_minute) attempts) \<le> per_minute)"
proof -
  let ?l = "limiter_new per_minute"
  have l: "rl_per_minute ?l = per_minute" "rl_hits ?l = []" by (simp_all add: limiter_new_def)
  obtain t0 where "\<forall>a\<in>set attempts. t0 \<le> snd a"
    using assms(1) by (cases attempts) auto
  then have "limiter_accepted ?l attempts = policy_accepted (rl_per_minute ?l) [] attempts
      \<and> (\<forall>u T. in_minute u T ([] @ limiter_accepted ?l attempts) \<le> rl_per_minute ?l)"
    using assms by (intro limiter_exact[where ?t0.0 = t0]) (simp_all add: l hits_track_def in_minute_def)
  then show ?thesis unfolding l append_Nil .
qed

theorem rate_limiter_exact_witness:
  "limiter_accepted (limiter_new 2)
     [(1, 0), (1, second), (1, 2 * second), (9, 3 * second), (1, 60 * second), (1, 61 * second)]
   = [(1, 0), (1, second), (9, 3 * second), (1, 60 * second), (1, 61 * second)]"
proof -
  let ?as = "[(1, 0), (1, second), (1, 2 * second), (9, 3 * second), (1, 60 * second), (1, 61 * second)]"
  have "limiter_accepted (limiter_new 2) ?as = policy_accepted 2 [] ?as"
    by (rule conjunct1[OF rate_limiter_exact]) (simp_all add: second_def)
  also have "\<dots> = [(1, 0), (1, second), (9, 3 * second), (1, 60 * second), (1, 61 * second)]"
    by (simp add: recent_by_def second_def)
  finally show ?thesis .
qed

end
