(* ===== verification/Os_Policy.thy ===== *)
theory Os_Policy
  imports Memo Audit_Event
begin

text \<open>
  The \<open>[os]\<close> section of the configuration (\<open>OsConfig\<close> in \<open>dotagent-core/src/config.rs\<close>) and the
  path of a typed \<open>!\<close> line (\<open>dotagent/src/os_exec.rs\<close>): tokenising, the deny/confirm/allow
  decision, the pending confirmations and the run itself.  The child process is a parameter.
\<close>

section \<open>The policy\<close>

record os_tool_config =
  ot_bin :: rstr
  ot_args :: "rstr list"
  ot_description :: rstr

record os_config =
  os_enabled :: bool
  os_allow :: "rstr list"
  os_deny :: "rstr list"
  os_confirm :: "rstr list"
  os_confirm_ttl_seconds :: nat
  os_tools :: "os_tool_config list"
  os_timeout_seconds :: nat

definition default_os_confirm :: "rstr list" where
  "default_os_confirm = map lit [''sh'', ''bash'', ''zsh'', ''fish'', ''dash'', ''ksh'', ''rm'',
     ''rmdir'', ''dd'', ''mkfs'', ''shred'', ''diskutil'', ''fdisk'', ''parted'', ''shutdown'',
     ''reboot'', ''halt'']"

definition default_os :: os_config where
  "default_os = \<lparr> os_enabled = False, os_allow = [], os_deny = [], os_confirm = default_os_confirm,
     os_confirm_ttl_seconds = 120, os_tools = [], os_timeout_seconds = 60 \<rparr>"

definition tool_char :: "nat \<Rightarrow> nat" where
  "tool_char c = (if is_alnum_c c \<or> c = 45 \<or> c = 95 then c else 45)"

definition tool_name :: "os_tool_config \<Rightarrow> rstr" where
  "tool_name t = lit ''os-'' @ map tool_char (join [45] (ot_bin t # ot_args t))"

definition tool_argv :: "os_tool_config \<Rightarrow> rstr list \<Rightarrow> rstr list" where
  "tool_argv t extra = ot_args t @ extra"

datatype os_decision = Allow | Confirm | Deny

definition os_is_active :: "os_config \<Rightarrow> bool" where
  "os_is_active c \<longleftrightarrow> os_enabled c \<and> os_allow c \<noteq> []"

definition is_bare_binary_name :: "rstr \<Rightarrow> bool" where
  "is_bare_binary_name bin \<longleftrightarrow> bin \<noteq> [] \<and> \<not> starts_with (lit ''-'') bin \<and> bin \<noteq> lit ''..''
     \<and> 47 \<notin> set bin \<and> 92 \<notin> set bin \<and> 0 \<notin> set bin"

definition entry_covers :: "rstr \<Rightarrow> rstr list \<Rightarrow> rstr \<Rightarrow> bool" where
  "entry_covers bin args entry = (case split_ws entry of
     [] \<Rightarrow> False
   | head # tokens \<Rightarrow> head = bin
       \<and> list_all (\<lambda>(i, want). i < length args \<and> args ! i = want) (List.enumerate 0 tokens))"

definition matches_any :: "rstr list \<Rightarrow> rstr \<Rightarrow> rstr list \<Rightarrow> bool" where
  "matches_any ls bin args = list_ex (entry_covers bin args) ls"

definition wildcard :: rstr where "wildcard = lit ''*''"

definition is_wildcard :: "os_config \<Rightarrow> bool" where
  "is_wildcard c = list_ex (\<lambda>e. case split_ws e of [] \<Rightarrow> False | t # _ \<Rightarrow> t = wildcard) (os_allow c)"

definition permits :: "os_config \<Rightarrow> rstr \<Rightarrow> rstr list \<Rightarrow> bool" where
  "permits c bin args \<longleftrightarrow> os_is_active c \<and> is_bare_binary_name bin
     \<and> (is_wildcard c \<or> matches_any (os_allow c) bin args)"

definition decide :: "os_config \<Rightarrow> rstr \<Rightarrow> rstr list \<Rightarrow> os_decision" where
  "decide c bin args = (
     if \<not> os_is_active c \<or> \<not> is_bare_binary_name bin then Deny
     else if matches_any (os_deny c) bin args then Deny
     else if \<not> permits c bin args then Deny
     else if matches_any (os_confirm c) bin args then Confirm
     else Allow)"

section \<open>The typed line\<close>

definition is_quote :: "nat \<Rightarrow> bool" where "is_quote c \<longleftrightarrow> c = 39 \<or> c = 34"

record tokenizer =
  tk_out :: "rstr list"
  tk_current :: rstr
  tk_quote :: "nat option"
  tk_started :: bool

definition tk_flush :: "tokenizer \<Rightarrow> rstr list" where
  "tk_flush t = (if tk_started t \<or> tk_current t \<noteq> [] then tk_out t @ [tk_current t] else tk_out t)"

definition tk_step :: "nat \<Rightarrow> tokenizer \<Rightarrow> tokenizer" where
  "tk_step ch t = (case tk_quote t of
     Some q \<Rightarrow> if ch = q then t\<lparr> tk_quote := None \<rparr> else t\<lparr> tk_current := tk_current t @ [ch] \<rparr>
   | None \<Rightarrow>
       if is_quote ch then t\<lparr> tk_quote := Some ch, tk_started := True \<rparr>
       else if is_ws ch then
         (if tk_started t \<or> tk_current t \<noteq> []
          then t\<lparr> tk_out := tk_flush t, tk_current := [], tk_started := False \<rparr> else t)
       else t\<lparr> tk_current := tk_current t @ [ch] \<rparr>)"

definition tk_init :: tokenizer where
  "tk_init = \<lparr> tk_out = [], tk_current = [], tk_quote = None, tk_started = False \<rparr>"

definition split_tokens :: "rstr \<Rightarrow> rstr list" where
  "split_tokens input = tk_flush (fold tk_step input tk_init)"

definition parse_bang :: "rstr \<Rightarrow> (rstr \<times> rstr list) option" where
  "parse_bang text = (case strip_prefix (lit ''!'') text of
     None \<Rightarrow> None
   | Some r \<Rightarrow> let rest = trim r
       in if rest = [] then None
          else (case split_tokens rest of [] \<Rightarrow> None | bin # args \<Rightarrow> Some (bin, args)))"

definition is_confirmation :: "rstr \<Rightarrow> bool" where
  "is_confirmation text \<longleftrightarrow> trim text = lit ''!!''"

section \<open>Pending confirmations\<close>

record pending =
  pd_bin :: rstr
  pd_args :: "rstr list"
  pd_asked_at :: instant

type_synonym confirmations = "rstr \<Rightarrow> pending option"

definition park :: "rstr \<Rightarrow> rstr \<Rightarrow> rstr list \<Rightarrow> instant \<Rightarrow> confirmations \<Rightarrow> confirmations" where
  "park session bin args now m =
     m(session \<mapsto> \<lparr> pd_bin = bin, pd_args = args, pd_asked_at = now \<rparr>)"

definition take_pending :: "rstr \<Rightarrow> nat \<Rightarrow> instant \<Rightarrow> confirmations \<Rightarrow> (rstr \<times> rstr list) option \<times> confirmations" where
  "take_pending session ttl_seconds now m = (case m session of
     None \<Rightarrow> (None, m)
   | Some p \<Rightarrow> (if max 0 (now - pd_asked_at p) > int ttl_seconds * second then None
               else Some (pd_bin p, pd_args p), m(session := None)))"

section \<open>Running\<close>

definition output_max_bytes :: nat where "output_max_bytes = 8000"

text \<open>The longest prefix of at most \<open>n\<close> bytes that ends on a character boundary.\<close>

fun take_bytes :: "nat \<Rightarrow> rstr \<Rightarrow> rstr" where
  "take_bytes n [] = []"
| "take_bytes n (c # cs) = (if utf8_width c \<le> n then c # take_bytes (n - utf8_width c) cs else [])"

definition cap_bytes :: "rstr \<Rightarrow> nat \<Rightarrow> rstr" where
  "cap_bytes s mx = (if byte_len s \<le> mx then s
     else take_bytes mx s @ [10, 0x2026] @ lit '' truncated at '' @ show_nat mx @ lit '' bytes.'')"

definition tick :: "rstr \<Rightarrow> rstr" where "tick s = [96] @ s @ [96]"

definition refusal :: "rstr \<Rightarrow> rstr" where
  "refusal bin = tick bin @ lit '' is not allowed here. Call os-list for what is, and tell whoever asked that it is the machine's config that says no '' @ [0x2014] @ lit '' not you.''"

definition refusal_typed :: "rstr \<Rightarrow> rstr" where
  "refusal_typed bin = tick bin @ lit '' is not allowed. Add it to '' @ tick (lit ''[os] allow'')
     @ lit '' in config.toml to change that.''"

definition confirmation_prompt :: "rstr \<Rightarrow> rstr list \<Rightarrow> nat \<Rightarrow> rstr" where
  "confirmation_prompt bin args ttl_seconds = (
     let rendered = (if args = [] then bin else bin @ [32] @ join [32] args)
     in lit ''This will run:'' @ [10, 10] @ lit ''    '' @ rendered @ [10, 10] @ lit ''Send ''
        @ tick (lit ''!!'') @ lit '' to confirm. It expires in '' @ show_nat ttl_seconds @ lit ''s.'')"

text \<open>What the supervised child did; its output is already decoded.\<close>

datatype os_child =
  NotStarted rstr
| Finished "int option" rstr rstr
| Overran nat
| WaitFailure rstr

datatype os_effect = OsSpawned rstr "rstr list" | OsAudited audit_event

record os_outcome =
  oo_text :: rstr
  oo_is_error :: bool

text \<open>\<open>Inl\<close> is the early return of a child that never started: nothing ran, nothing is audited.\<close>

definition child_outcome :: "rstr \<Rightarrow> os_child \<Rightarrow> rstr + rstr \<times> bool \<times> int \<times> bool" where
  "child_outcome bin child = (case child of
     NotStarted e \<Rightarrow> Inl (lit ''Could not start '' @ tick bin @ lit '': '' @ e)
   | Finished status out err \<Rightarrow>
       (let code = (case status of Some c \<Rightarrow> c | None \<Rightarrow> -1); stdout = trim out; stderr = trim err
        in if code = 0
           then Inr ((if stdout = [] then tick bin @ lit '' exited 0 and printed nothing.''
                      else cap_bytes stdout output_max_bytes), False, code, False)
           else Inr (tick bin @ lit '' exited '' @ show_int code @ lit ''.'' @ [10]
                      @ cap_bytes (if stderr = [] then stdout else stderr) output_max_bytes,
                      True, code, False))
   | Overran secs \<Rightarrow> Inr (tick bin @ lit '' was still running after '' @ show_nat secs
       @ lit ''s and was killed.'', True, -1, True)
   | WaitFailure e \<Rightarrow> Inr (tick bin @ lit '' could not run: '' @ e, True, -1, False))"

definition run_allowed :: "os_config \<Rightarrow> rstr \<Rightarrow> rstr list \<Rightarrow> (rstr \<Rightarrow> rstr) \<Rightarrow> os_child \<Rightarrow> bool
    \<Rightarrow> os_outcome \<times> os_effect list" where
  "run_allowed c bin args refused child audit_ok = (
     if decide c bin args = Deny then (\<lparr> oo_text = refused bin, oo_is_error = True \<rparr>, [])
     else (case child_outcome bin child of
       Inl text \<Rightarrow> (\<lparr> oo_text = text, oo_is_error = True \<rparr>, [])
     | Inr (text, is_error, exit_code, timed_out) \<Rightarrow>
         (\<lparr> oo_text = text, oo_is_error = is_error \<rparr>,
          OsSpawned bin args #
          (if audit_ok then [OsAudited (OsCommandInvoked bin args exit_code timed_out)] else []))))"

text \<open>\<open>handle_typed_command\<close> and \<open>handle_confirmation\<close> of \<open>commands/daemon.rs\<close>; the configuration
  is read from disk at each call.\<close>

definition handle_typed_command :: "os_config \<Rightarrow> os_child \<Rightarrow> bool \<Rightarrow> instant \<Rightarrow> rstr \<Rightarrow> rstr
    \<Rightarrow> rstr list \<Rightarrow> confirmations \<Rightarrow> rstr \<times> os_effect list \<times> confirmations" where
  "handle_typed_command c child audit_ok now session bin args m = (case decide c bin args of
     Deny \<Rightarrow> (refusal_typed bin, [], m)
   | Confirm \<Rightarrow> (confirmation_prompt bin args (os_confirm_ttl_seconds c), [], park session bin args now m)
   | Allow \<Rightarrow> (case run_allowed c bin args refusal_typed child audit_ok of (out, es) \<Rightarrow> (oo_text out, es, m)))"

definition handle_confirmation :: "os_config \<Rightarrow> os_child \<Rightarrow> bool \<Rightarrow> instant \<Rightarrow> rstr
    \<Rightarrow> confirmations \<Rightarrow> rstr \<times> os_effect list \<times> confirmations" where
  "handle_confirmation c child audit_ok now session m = (
     case take_pending session (os_confirm_ttl_seconds c) now m of
       (Some (bin, args), m') \<Rightarrow>
         (case run_allowed c bin args refusal_typed child audit_ok of (out, es) \<Rightarrow> (oo_text out, es, m'))
     | (None, m') \<Rightarrow> (lit ''Nothing is waiting for confirmation here (or it expired).'', [], m'))"

section \<open>Facts\<close>

lemma enumerate_prefix:
  "list_all (\<lambda>(i, want). i < n + length args \<and> n \<le> i \<and> args ! (i - n) = want) (List.enumerate n ts)
    \<longleftrightarrow> prefix ts args"
proof (induction ts arbitrary: n args)
  case (Cons t ts)
  show ?case
  proof (cases args)
    case (Cons a as)
    have "list_all (\<lambda>(i, want). i < n + length args \<and> n \<le> i \<and> args ! (i - n) = want) (List.enumerate (Suc n) ts)
        \<longleftrightarrow> list_all (\<lambda>(i, want). i < Suc n + length as \<and> Suc n \<le> i \<and> as ! (i - Suc n) = want) (List.enumerate (Suc n) ts)"
      unfolding list_all_iff by (intro ball_cong) (auto simp: Cons nth_Cons' in_set_enumerate_eq)
    then show ?thesis using Cons.IH[of "Suc n" as] by (auto simp: Cons)
  qed simp
qed simp

text \<open>An entry covers an invocation when its tokens begin it.\<close>

lemma entry_covers_prefix:
  "entry_covers bin args entry \<longleftrightarrow> split_ws entry \<noteq> [] \<and> prefix (split_ws entry) (bin # args)"
  using enumerate_prefix[of 0 args] by (auto simp: entry_covers_def split: list.splits)

lemma decide_not_Deny:
  "decide c bin args \<noteq> Deny \<longleftrightarrow> os_enabled c \<and> is_bare_binary_name bin
    \<and> (\<forall>e\<in>set (os_deny c). \<not> entry_covers bin args e)
    \<and> ((\<exists>e\<in>set (os_allow c). split_ws e \<noteq> [] \<and> hd (split_ws e) = wildcard)
       \<or> (\<exists>e\<in>set (os_allow c). entry_covers bin args e))"
proof -
  have w: "is_wildcard c \<longleftrightarrow> (\<exists>e\<in>set (os_allow c). split_ws e \<noteq> [] \<and> hd (split_ws e) = wildcard)"
    unfolding is_wildcard_def list_ex_iff by (intro bex_cong) (auto split: list.split)
  show ?thesis unfolding w[symmetric]
    by (auto simp: decide_def permits_def os_is_active_def matches_any_def list_ex_iff is_wildcard_def)
qed

lemma byte_len_Cons: "byte_len (c # cs) = utf8_width c + byte_len cs"
  by (simp add: byte_len_def)

lemma take_bytes_le: "byte_len (take_bytes n s) \<le> n"
  by (induction n s rule: take_bytes.induct) (auto simp: byte_len_Cons)

lemma take_bytes_prefix: "prefix (take_bytes n s) s"
  by (induction n s rule: take_bytes.induct) auto

text \<open>Quoting every token with double quotes survives the tokenizer.\<close>

definition quoted :: "rstr \<Rightarrow> rstr" where "quoted t = 34 # t @ [34]"

lemma tk_inside:
  "34 \<notin> set t \<Longrightarrow> tk_quote k = Some 34 \<Longrightarrow> fold tk_step t k = k\<lparr> tk_current := tk_current k @ t \<rparr>"
  by (induction t arbitrary: k) (auto simp: tk_step_def)

lemma tk_quoted:
  assumes "34 \<notin> set t" "tk_quote k = None"
  shows "fold tk_step (quoted t) k = k\<lparr> tk_current := tk_current k @ t, tk_started := True \<rparr>"
  using assms tk_inside[OF assms(1)] by (simp add: quoted_def tk_step_def is_quote_def)

lemma tk_quoted_list:
  assumes "ts \<noteq> []" "\<forall>t\<in>set ts. 34 \<notin> set t"
    and "tk_quote k = None" "\<not> tk_started k" "tk_current k = []"
  shows "tk_flush (fold tk_step (join [32] (map quoted ts)) k) = tk_out k @ ts"
  using assms
proof (induction ts arbitrary: k)
  case (Cons t ts)
  let ?k1 = "k\<lparr> tk_current := t, tk_started := True \<rparr>"
  have k1: "fold tk_step (quoted t) k = ?k1"
    using Cons.prems by (subst tk_quoted) simp_all
  show ?case
  proof (cases ts)
    case Nil
    then show ?thesis using k1 by (simp add: tk_flush_def)
  next
    case (Cons u us)
    let ?k2 = "k\<lparr> tk_out := tk_out k @ [t], tk_current := [], tk_started := False \<rparr>"
    have "tk_step 32 ?k1 = ?k2"
      using Cons.prems by (simp add: tk_step_def is_quote_def is_ws_def tk_flush_def)
    then have "fold tk_step (join [32] (map quoted (t # ts))) k
        = fold tk_step (join [32] (map quoted ts)) ?k2"
      by (simp add: Cons k1)
    then show ?thesis using Cons.IH[of ?k2] Cons.prems Cons by simp
  qed
qed simp

lemma split_tokens_quoted:
  "ts \<noteq> [] \<Longrightarrow> \<forall>t\<in>set ts. 34 \<notin> set t \<Longrightarrow> split_tokens (join [32] (map quoted ts)) = ts"
  using tk_quoted_list[of ts tk_init] by (simp add: split_tokens_def tk_init_def)

lemma trim_solid:
  assumes "s \<noteq> []" "\<not> is_ws (hd s)" "\<not> is_ws (last s)"
  shows "trim s = s"
proof -
  have "dropWhile is_ws s = s" using assms(1,2) by (cases s) auto
  moreover have "dropWhile is_ws (rev s) = rev s"
    using assms(1,3) by (cases s rule: rev_cases) auto
  ultimately show ?thesis by (simp add: trim_def trim_start_def trim_end_def)
qed

lemma join_quoted_ends:
  "ts \<noteq> [] \<Longrightarrow> join [32] (map quoted ts) \<noteq> [] \<and> hd (join [32] (map quoted ts)) = 34
     \<and> last (join [32] (map quoted ts)) = 34"
proof (induction ts)
  case (Cons t ts)
  then show ?case by (cases ts) (auto simp: quoted_def)
qed simp

lemma parse_bang_quoted:
  assumes "\<forall>t\<in>set (bin # args). 34 \<notin> set t"
  shows "parse_bang (lit ''!'' @ join [32] (map quoted (bin # args))) = Some (bin, args)"
proof -
  let ?r = "join [32] (map quoted (bin # args))"
  have e: "?r \<noteq> []" "hd ?r = 34" "last ?r = 34" using join_quoted_ends[of "bin # args"] by simp_all
  then have "trim ?r = ?r" by (intro trim_solid) (simp_all add: is_ws_def)
  moreover have "split_tokens ?r = bin # args" by (rule split_tokens_quoted) (use assms in auto)
  moreover have "strip_prefix (lit ''!'') (lit ''!'' @ ?r) = Some ?r" by (simp add: strip_prefix_Some)
  ultimately show ?thesis unfolding parse_bang_def using e(1) by simp
qed

section \<open>What a conversation can make run\<close>

datatype typed_event =
  TypedLine os_config os_child bool instant rstr rstr "rstr list"
| ConfirmLine os_config os_child bool instant rstr

fun typed_step :: "typed_event \<Rightarrow> confirmations \<Rightarrow> os_effect list \<times> confirmations" where
  "typed_step (TypedLine c child ok now session bin args) m =
     snd (handle_typed_command c child ok now session bin args m)"
| "typed_step (ConfirmLine c child ok now session) m =
     snd (handle_confirmation c child ok now session m)"

definition typed_state :: "typed_event list \<Rightarrow> confirmations" where
  "typed_state es = fold (\<lambda>e m. snd (typed_step e m)) es Map.empty"

definition spawned :: "os_effect list \<Rightarrow> (rstr \<times> rstr list) list" where
  "spawned es = List.map_filter (\<lambda>e. case e of OsSpawned b a \<Rightarrow> Some (b, a) | _ \<Rightarrow> None) es"

text \<open>The reference: what a session waits on, read off its own history, latest event first.\<close>

fun awaiting :: "rstr \<Rightarrow> typed_event list \<Rightarrow> (rstr \<times> rstr list \<times> instant) option" where
  "awaiting s [] = None"
| "awaiting s (TypedLine c _ _ now s' bin args # es) =
     (if s' = s \<and> decide c bin args = Confirm then Some (bin, args, now) else awaiting s es)"
| "awaiting s (ConfirmLine _ _ _ _ s' # es) = (if s' = s then None else awaiting s es)"

definition starts :: "os_child \<Rightarrow> bool" where
  "starts child = (case child of NotStarted _ \<Rightarrow> False | _ \<Rightarrow> True)"

fun expected_spawn :: "typed_event \<Rightarrow> typed_event list \<Rightarrow> (rstr \<times> rstr list) list" where
  "expected_spawn (TypedLine c child _ _ _ bin args) past =
     (if decide c bin args = Allow \<and> starts child then [(bin, args)] else [])"
| "expected_spawn (ConfirmLine c child _ now s) past = (case awaiting s past of
     None \<Rightarrow> []
   | Some (bin, args, asked) \<Rightarrow>
       if now - asked \<le> int (os_confirm_ttl_seconds c) * second \<and> decide c bin args \<noteq> Deny \<and> starts child
       then [(bin, args)] else [])"

lemma spawned_run_allowed:
  "spawned (snd (run_allowed c bin args refused child ok))
    = (if decide c bin args \<noteq> Deny \<and> starts child then [(bin, args)] else [])"
  by (auto simp: run_allowed_def child_outcome_def starts_def spawned_def List.map_filter_simps Let_def
      split: os_child.splits option.splits)

definition as_pending :: "rstr \<times> rstr list \<times> instant \<Rightarrow> pending" where
  "as_pending p = (case p of (b, a, t) \<Rightarrow> \<lparr> pd_bin = b, pd_args = a, pd_asked_at = t \<rparr>)"

lemma typed_step_state:
  "snd (typed_step (TypedLine c child ok now s bin args) m)
     = (if decide c bin args = Confirm then park s bin args now m else m)"
  "snd (typed_step (ConfirmLine c child ok now s) m) = m(s := None)"
  by (auto simp: handle_typed_command_def handle_confirmation_def take_pending_def
      split: os_decision.splits option.splits prod.splits)

lemma typed_state_awaiting: "typed_state es s = map_option as_pending (awaiting s (rev es))"
proof (induction es rule: rev_induct)
  case (snoc e es)
  then show ?case
    by (cases e) (auto simp: typed_state_def typed_step_state park_def as_pending_def simp del: typed_step.simps)
qed (simp add: typed_state_def)

text \<open>C22. A typed line starts a process only with the machine's policy behind it.  Whatever was
  typed before, in whatever conversations and under whatever configurations: a \<open>!\<close> line starts
  exactly its own binary with its own arguments and only when the policy allows it outright; \<open>!!\<close>
  starts exactly the command its own conversation parked last and has not confirmed since, only
  within the time to live, and only when the policy of that moment does not deny it.\<close>

theorem typed_lines_exact:
  "spawned (fst (typed_step e (typed_state past))) = expected_spawn e (rev past)"
proof (cases e)
  case (TypedLine c child ok now s bin args)
  then show ?thesis
    using spawned_run_allowed[of c bin args refusal_typed child ok]
    by (auto simp: handle_typed_command_def spawned_def List.map_filter_simps
        split: os_decision.splits prod.splits)
next
  case (ConfirmLine c child ok now s)
  show ?thesis
  proof (cases "awaiting s (rev past)")
    case None
    then show ?thesis using typed_state_awaiting[of past s] ConfirmLine
      by (simp add: handle_confirmation_def take_pending_def spawned_def List.map_filter_simps)
  next
    case (Some p)
    obtain bin args asked where p: "p = (bin, args, asked)" by (cases p)
    have ttl: "0 \<le> int (os_confirm_ttl_seconds c) * second" by (simp add: time_simps)
    from p have "typed_state past s = Some \<lparr> pd_bin = bin, pd_args = args, pd_asked_at = asked \<rparr>"
      using typed_state_awaiting[of past s] Some by (simp add: as_pending_def)
    then show ?thesis
      using ConfirmLine Some p ttl spawned_run_allowed[of c bin args refusal_typed child ok]
      by (auto simp: handle_confirmation_def take_pending_def spawned_def List.map_filter_simps
          split: prod.splits if_splits)
  qed
qed

end
