(* ===== verification/Commands.thy ===== *)
theory Commands
  imports Prelude
begin

text \<open>
  Slash commands and skills: the lenient frontmatter parser
  (\<open>dotagent-core/src/frontmatter.rs\<close>), the two manifests read with it (\<open>command.rs\<close>,
  \<open>skill.rs\<close>), argument substitution, the Telegram spelling of a name, and the catalog's menu and
  lookup (\<open>dotagent/src/slash.rs\<close>).  Unicode tables are parameters: \<open>other_alnum\<close> says which
  non-ASCII characters are alphanumeric, \<open>other_lower\<close> what one lowercases to (the two lowercase
  forms of a final sigma are both non-ASCII, which is all the code distinguishes).
\<close>

section \<open>Frontmatter\<close>

definition char_alnum :: "(nat \<Rightarrow> bool) \<Rightarrow> nat \<Rightarrow> bool" where
  "char_alnum other_alnum c = (if c < 128 then is_alnum_c c else other_alnum c)"

definition is_fence :: "rstr \<Rightarrow> bool" where
  "is_fence line = (let t = trim (trim_end line) in t = lit ''---'' \<or> t = lit ''...'')"

fun take_front :: "rstr list \<Rightarrow> (rstr \<times> rstr list) option" where
  "take_front [] = None"
| "take_front (l # ls) = (if is_fence l then Some ([], ls)
     else map_option (\<lambda>(f, r). (l @ [10] @ f, r)) (take_front ls))"

definition split_front :: "rstr \<Rightarrow> rstr \<Rightarrow> rstr + rstr \<times> rstr" where
  "split_front raw what = (
     let raw' = (case strip_prefix [0xFEFF] raw of Some r \<Rightarrow> r | None \<Rightarrow> raw);
         bad = Inl (what @ lit '' must start with a `---` frontmatter block'')
     in case str_lines raw' of
          [] \<Rightarrow> bad
        | l # ls \<Rightarrow>
            if trim l \<noteq> lit ''---'' then bad
            else (case take_front ls of
                    None \<Rightarrow> Inl (what @ lit '' frontmatter is never closed by a `---` line'')
                  | Some (front, body) \<Rightarrow> Inr (front, join [10] body)))"

definition indented :: "rstr \<Rightarrow> bool" where
  "indented l = (case l of [] \<Rightarrow> False | c # _ \<Rightarrow> c = 32 \<or> c = 9)"

fun unquote_with :: "nat list \<Rightarrow> rstr \<Rightarrow> rstr" where
  "unquote_with [] v = v"
| "unquote_with (q # qs) v =
     (if 2 \<le> length v \<and> hd v = q \<and> last v = q then butlast (tl v) else unquote_with qs v)"

definition unquote :: "rstr \<Rightarrow> rstr" where
  "unquote v = unquote_with [34, 39] (trim v)"

definition in_block :: "rstr \<Rightarrow> bool" where
  "in_block l \<longleftrightarrow> trim l = [] \<or> indented l"

definition in_nested :: "rstr \<Rightarrow> bool" where
  "in_nested l \<longleftrightarrow> indented l \<or> starts_with [45] (trim_start l) \<or> trim l = []"

definition key_of :: "(nat \<Rightarrow> bool) \<Rightarrow> rstr \<Rightarrow> (rstr \<times> rstr) option" where
  "key_of other_alnum line = (
     if indented line \<or> trim line = [] then None
     else if starts_with [35] (trim_start line) then None
     else case split_once 58 line of
            None \<Rightarrow> None
          | Some (key, rest) \<Rightarrow>
              if trim key = [] \<or> \<not> list_all (\<lambda>c. char_alnum other_alnum c \<or> c = 95 \<or> c = 45) (trim key)
              then None else Some (trim key, trim rest))"

function front_fields :: "(nat \<Rightarrow> bool) \<Rightarrow> rstr list \<Rightarrow> (rstr \<times> rstr) list" where
  "front_fields u [] = []"
| "front_fields u (line # ls) = (case key_of u line of
     None \<Rightarrow> front_fields u ls
   | Some (key, rest) \<Rightarrow>
       if starts_with [124] rest \<or> starts_with [62] rest
       then (let block = map trim (takeWhile in_block ls)
             in (key, trim (join (if starts_with [62] rest then [32] else [10]) block))
                # front_fields u (dropWhile in_block ls))
       else if rest = [] then front_fields u (dropWhile in_nested ls)
       else (key, unquote rest) # front_fields u ls)"
  by pat_completeness auto
termination
  by (relation "measure (\<lambda>(_, ls). length ls)")
    (auto simp: less_Suc_eq_le length_dropWhile_le)

definition get_field :: "(rstr \<times> rstr) list \<Rightarrow> rstr \<Rightarrow> rstr option" where
  "get_field fs key = (case map_of fs key of None \<Rightarrow> None
     | Some v \<Rightarrow> if trim v = [] then None else Some (trim v))"

section \<open>Command manifests\<close>

record command_manifest =
  cm_name :: rstr
  cm_description :: rstr
  cm_argument_hint :: "rstr option"
  cm_allowed_tools :: "rstr option"
  cm_body :: rstr

definition telegram_name_max :: nat where "telegram_name_max = 32"

definition ascii_lower :: "nat \<Rightarrow> nat" where
  "ascii_lower c = (if is_upper_c c then c + 32 else c)"

definition to_lowercase :: "(nat \<Rightarrow> rstr) \<Rightarrow> rstr \<Rightarrow> rstr" where
  "to_lowercase other_lower s =
     concat (map (\<lambda>c. if c < 128 then [ascii_lower c] else other_lower c) s)"

definition telegram_name :: "(nat \<Rightarrow> rstr) \<Rightarrow> rstr \<Rightarrow> rstr + rstr" where
  "telegram_name other_lower name = (
     let sanitized = map (\<lambda>c. if is_alnum_c c \<or> c = 95 then c else 95)
                       (to_lowercase other_lower (trim name))
     in if sanitized = [] then Inl (lit ''command '' @ [39] @ name @ [39]
             @ lit '': name has no characters Telegram accepts'')
        else if length sanitized > telegram_name_max
        then Inl (lit ''command '' @ [39] @ name @ [39]
             @ lit '': Telegram caps a command name at '' @ show_nat telegram_name_max
             @ lit '' characters (this one is '' @ show_nat (length sanitized) @ lit '') ''
             @ [0x2014] @ lit '' rename the file'')
        else Inr sanitized)"

definition cm_validate :: "(nat \<Rightarrow> rstr) \<Rightarrow> command_manifest \<Rightarrow> rstr + unit" where
  "cm_validate other_lower c = (
     let who = lit ''command '' @ [39] @ cm_name c @ [39]
     in if trim (cm_name c) = [] then Inl (lit ''command has an empty name'')
        else if trim (cm_description c) = []
        then Inl (who @ lit '': description is required '' @ [0x2014] @ lit '' it is what the menu shows'')
        else if trim (cm_body c) = []
        then Inl (who @ lit '': body is empty '' @ [0x2014] @ lit '' there is no prompt to send'')
        else case telegram_name other_lower (cm_name c) of Inl e \<Rightarrow> Inl e | Inr _ \<Rightarrow> Inr ())"

definition option_else :: "'a option \<Rightarrow> 'a option \<Rightarrow> 'a option" where
  "option_else a b = (case a of Some x \<Rightarrow> Some x | None \<Rightarrow> b)"

definition cm_parse :: "(nat \<Rightarrow> bool) \<Rightarrow> (nat \<Rightarrow> rstr) \<Rightarrow> rstr \<Rightarrow> rstr \<Rightarrow> rstr + command_manifest" where
  "cm_parse u other_lower raw fallback_name = (
     case split_front raw (lit ''a command file'') of
       Inl e \<Rightarrow> Inl e
     | Inr (front, body) \<Rightarrow>
         let fs = front_fields u (str_lines front); field = (\<lambda>k. get_field fs (lit k));
             c = \<lparr> cm_name = (case field ''name'' of Some n \<Rightarrow> n | None \<Rightarrow> fallback_name),
                   cm_description = (case field ''description'' of Some d \<Rightarrow> d | None \<Rightarrow> []),
                   cm_argument_hint = option_else (field ''argument-hint'') (field ''argument_hint''),
                   cm_allowed_tools = option_else (field ''allowed-tools'') (field ''allowed_tools''),
                   cm_body = trim body \<rparr>
         in case cm_validate other_lower c of Inl e \<Rightarrow> Inl e | Inr _ \<Rightarrow> Inr c)"

text \<open>\<open>digits.parse::<usize>().unwrap_or(0)\<close>.\<close>

definition parse_index :: "rstr \<Rightarrow> nat" where
  "parse_index ds = (case parse_nat ds of Some n \<Rightarrow> if n < 2 ^ 64 then n else 0 | None \<Rightarrow> 0)"

definition whole_word :: "(nat \<Rightarrow> bool) \<Rightarrow> rstr \<Rightarrow> bool" where
  "whole_word u tail = (case tail of [] \<Rightarrow> True | c # _ \<Rightarrow> \<not> (char_alnum u c \<or> c = 95))"

function substitute :: "(nat \<Rightarrow> bool) \<Rightarrow> rstr \<Rightarrow> rstr list \<Rightarrow> rstr \<Rightarrow> rstr \<times> bool" where
  "substitute u all positional [] = ([], False)"
| "substitute u all positional (c # rest) = (
     if c \<noteq> 36 then (case substitute u all positional rest of (s, b) \<Rightarrow> (c # s, b))
     else case strip_prefix (lit ''ARGUMENTS'') rest of
            Some tail \<Rightarrow>
              if whole_word u tail
              then (all @ fst (substitute u all positional (drop 9 rest)), True)
              else (case substitute u all positional rest of (s, b) \<Rightarrow> (36 # s, b))
          | None \<Rightarrow>
              let digits = takeWhile is_digit_c rest
              in if digits \<noteq> [] \<and> 1 \<le> parse_index digits
                 then ((if parse_index digits - 1 < length positional
                        then positional ! (parse_index digits - 1) else [])
                       @ fst (substitute u all positional (drop (length digits) rest)), True)
                 else (case substitute u all positional rest of (s, b) \<Rightarrow> (36 # s, b)))"
  by pat_completeness auto
termination
  by (relation "measure (\<lambda>(_, _, _, s). length s)") auto

definition render :: "(nat \<Rightarrow> bool) \<Rightarrow> command_manifest \<Rightarrow> rstr \<Rightarrow> rstr" where
  "render u c args = (
     let args' = trim args; (rendered, substituted) = substitute u args' (split_ws args') (cm_body c)
     in if substituted \<or> args' = [] then rendered
        else rendered @ [10, 10] @ lit ''---'' @ [10] @ lit ''Arguments: '' @ args')"

definition parse_invocation :: "rstr \<Rightarrow> (rstr \<times> rstr) option" where
  "parse_invocation text = (case strip_prefix [47] (trim_start text) of
     None \<Rightarrow> None
   | Some rest \<Rightarrow>
       let word = takeWhile (\<lambda>c. \<not> is_ws c) rest; args = trim (drop (length word) rest);
           name = hd (split_on 64 word)
       in if name = [] then None else Some (name, args))"

section \<open>Skill manifests\<close>

record skill_manifest =
  sm_name :: rstr
  sm_description :: rstr
  sm_timeout_seconds :: nat
  sm_body :: rstr

definition skill_file :: rstr where "skill_file = lit ''SKILL.md''"
definition default_skill_timeout_seconds :: nat where "default_skill_timeout_seconds = 300"

text \<open>\<open>str::parse::<u64>\<close>: an optional plus sign, then digits, below 2^64.\<close>

definition parse_u64 :: "rstr \<Rightarrow> nat option" where
  "parse_u64 s = (case parse_nat (case s of c # cs \<Rightarrow> if c = 43 then cs else s | [] \<Rightarrow> []) of
     Some n \<Rightarrow> if n < 2 ^ 64 then Some n else None | None \<Rightarrow> None)"

definition sm_validate :: "skill_manifest \<Rightarrow> rstr + unit" where
  "sm_validate s = (
     let who = lit ''skill '' @ [39] @ sm_name s @ [39]
     in if trim (sm_name s) = [] then Inl (lit ''skill has an empty name'')
        else if trim (sm_description s) = []
        then Inl (who @ lit '': description is required '' @ [0x2014] @ lit '' it is what a model matches on'')
        else if trim (sm_body s) = []
        then Inl (who @ lit '': body is empty '' @ [0x2014] @ lit '' there is no procedure to follow'')
        else Inr ())"

definition sm_parse :: "(nat \<Rightarrow> bool) \<Rightarrow> rstr \<Rightarrow> rstr \<Rightarrow> rstr + skill_manifest" where
  "sm_parse u raw fallback_name = (
     case split_front raw skill_file of
       Inl e \<Rightarrow> Inl e
     | Inr (front, body) \<Rightarrow>
         let fs = front_fields u (str_lines front); field = (\<lambda>k. get_field fs (lit k));
             name = (case field ''name'' of Some n \<Rightarrow> n | None \<Rightarrow> fallback_name);
             description = (case field ''description'' of Some d \<Rightarrow> d | None \<Rightarrow> [])
         in case (case field ''timeout_seconds'' of
                    None \<Rightarrow> Some default_skill_timeout_seconds | Some v \<Rightarrow> parse_u64 v) of
              None \<Rightarrow> Inl (lit ''skill '' @ [39] @ name @ [39] @ lit '': timeout_seconds must be a number'')
            | Some t \<Rightarrow>
                let s = \<lparr> sm_name = name, sm_description = description, sm_timeout_seconds = t,
                          sm_body = trim body \<rparr>
                in case sm_validate s of Inl e \<Rightarrow> Inl e | Inr _ \<Rightarrow> Inr s)"

section \<open>The catalog\<close>

record discovered_command =
  dc_manifest :: command_manifest
  dc_path :: rstr

text \<open>\<open>[hint] - description\<close>, with an em dash.\<close>

definition summary :: "discovered_command \<Rightarrow> rstr" where
  "summary d = (case cm_argument_hint (dc_manifest d) of Some h \<Rightarrow> h @ [32, 0x2014, 32] | None \<Rightarrow> [])
     @ trim (cm_description (dc_manifest d))"

definition menu_line :: "rstr \<Rightarrow> discovered_command \<Rightarrow> rstr" where
  "menu_line telegram d = [47] @ telegram
     @ (case cm_argument_hint (dc_manifest d) of Some h \<Rightarrow> 32 # h | None \<Rightarrow> [])
     @ [32, 0x2014, 32] @ trim (cm_description (dc_manifest d))"

definition tg_of :: "(nat \<Rightarrow> rstr) \<Rightarrow> discovered_command \<Rightarrow> rstr + rstr" where
  "tg_of lw d = telegram_name lw (cm_name (dc_manifest d))"

fun menu_from :: "(nat \<Rightarrow> rstr) \<Rightarrow> rstr list \<Rightarrow> discovered_command list \<Rightarrow> (rstr \<times> discovered_command) list" where
  "menu_from lw taken [] = []"
| "menu_from lw taken (d # ds) = (case tg_of lw d of
     Inl _ \<Rightarrow> menu_from lw taken ds
   | Inr tg \<Rightarrow> if tg \<in> set taken then menu_from lw taken ds
              else (tg, d) # menu_from lw (tg # taken) ds)"

definition telegram_menu :: "(nat \<Rightarrow> rstr) \<Rightarrow> discovered_command list \<Rightarrow> (rstr \<times> discovered_command) list" where
  "telegram_menu lw cmds = menu_from lw [] cmds"

text \<open>Who wants a Telegram name; the map keeps the names more than one command wants.\<close>

definition wanting :: "(nat \<Rightarrow> rstr) \<Rightarrow> rstr \<Rightarrow> discovered_command list \<Rightarrow> discovered_command list" where
  "wanting lw tg cmds = filter (\<lambda>d. tg_of lw d = Inr tg) cmds"

definition telegram_collisions :: "(nat \<Rightarrow> rstr) \<Rightarrow> discovered_command list \<Rightarrow> rstr \<Rightarrow> discovered_command list option" where
  "telegram_collisions lw cmds tg =
     (if length (wanting lw tg cmds) > 1 then Some (wanting lw tg cmds) else None)"

definition find_command :: "discovered_command list \<Rightarrow> rstr \<Rightarrow> discovered_command option" where
  "find_command cmds name = find (\<lambda>d. cm_name (dc_manifest d) = name) cmds"

definition installed :: "(nat \<Rightarrow> rstr) \<Rightarrow> discovered_command list \<Rightarrow> rstr" where
  "installed lw cmds = join (lit '', '') (map (\<lambda>(tg, _). 47 # tg) (telegram_menu lw cmds))"

definition resolve_command :: "(nat \<Rightarrow> rstr) \<Rightarrow> discovered_command list \<Rightarrow> rstr \<Rightarrow> discovered_command option" where
  "resolve_command lw cmds typed = (case find_command cmds typed of
     Some d \<Rightarrow> Some d
   | None \<Rightarrow> (case telegram_name lw typed of
       Inl _ \<Rightarrow> None
     | Inr tg \<Rightarrow> map_option snd (find (\<lambda>(t, _). t = tg) (telegram_menu lw cmds))))"

text \<open>\<open>help_text\<close> and \<open>unknown_command_text\<close> of \<open>commands/daemon.rs\<close>.\<close>

definition help_text :: "(nat \<Rightarrow> rstr) \<Rightarrow> discovered_command list \<Rightarrow> rstr" where
  "help_text lw cmds = (
     let menu = telegram_menu lw cmds
     in if menu = [] then lit ''No commands installed. Just say what you need in plain words.''
        else lit ''Commands:'' @ [10] @ concat (map (\<lambda>(tg, d). menu_line tg d @ [10]) menu)
             @ [10] @ lit ''Or just say what you need in plain words.'')"

definition unknown_command_text :: "(nat \<Rightarrow> rstr) \<Rightarrow> discovered_command list \<Rightarrow> rstr \<Rightarrow> rstr" where
  "unknown_command_text lw cmds name = (
     if installed lw cmds = []
     then lit ''No command named /'' @ name @ lit '', and none are installed. Try plain words.''
     else lit ''No command named /'' @ name @ lit ''. Installed: '' @ installed lw cmds @ lit ''. Or /help.'')"

section \<open>Facts\<close>

lemma menu_from_fresh: "p \<in> set (menu_from lw taken ds) \<Longrightarrow> fst p \<notin> set taken"
proof (induction ds arbitrary: taken)
  case (Cons d ds)
  show ?case
  proof (cases "tg_of lw d")
    case (Inr tg)
    then show ?thesis using Cons.prems Cons.IH[of taken] Cons.IH[of "tg # taken"]
      by (cases "tg \<in> set taken") auto
  qed (use Cons in simp)
qed simp

lemma menu_from_distinct: "distinct (map fst (menu_from lw taken ds))"
proof (induction ds arbitrary: taken)
  case (Cons d ds)
  show ?case
  proof (cases "tg_of lw d")
    case (Inr tg)
    then show ?thesis using Cons menu_from_fresh[of _ lw "tg # taken" ds] by force
  qed (use Cons in simp)
qed simp

text \<open>No two menu entries share a name, and every entry is a catalog command under its own name.\<close>

lemma menu_distinct: "distinct (map fst (telegram_menu lw cmds))"
  by (simp add: telegram_menu_def menu_from_distinct)

lemma menu_from_mem: "(tg, d) \<in> set (menu_from lw taken ds) \<Longrightarrow> d \<in> set ds \<and> tg_of lw d = Inr tg"
  by (induction ds arbitrary: taken) (auto split: sum.splits if_splits)

lemma menu_mem: "(tg, d) \<in> set (telegram_menu lw cmds) \<Longrightarrow> d \<in> set cmds \<and> tg_of lw d = Inr tg"
  using menu_from_mem unfolding telegram_menu_def by blast

text \<open>The first command that wants a name gets it.\<close>

lemma menu_from_first:
  "tg \<notin> set taken \<Longrightarrow> find (\<lambda>(t, _). t = tg) (menu_from lw taken ds)
     = map_option (\<lambda>d. (tg, d)) (find (\<lambda>d. tg_of lw d = Inr tg) ds)"
  by (induction ds arbitrary: taken) (auto split: sum.splits)

lemma lower_ascii: "\<forall>c\<in>set s. c < 128 \<Longrightarrow> to_lowercase lw s = map ascii_lower s"
  by (induction s) (simp_all add: to_lowercase_def)

definition tg_char :: "nat \<Rightarrow> bool" where
  "tg_char c \<longleftrightarrow> is_lower_c c \<or> is_digit_c c \<or> c = 95"

lemma tg_char_facts: "tg_char c \<Longrightarrow> c < 128 \<and> ascii_lower c = c \<and> (is_alnum_c c \<or> c = 95) \<and> \<not> is_ws c"
  by (auto simp: tg_char_def ascii_lower_def is_lower_c_def is_digit_c_def is_upper_c_def is_alnum_c_def is_ws_def)

text \<open>A name Telegram accepts is its own Telegram spelling.\<close>

lemma telegram_name_own:
  assumes "list_all tg_char tg" "tg \<noteq> []" "length tg \<le> telegram_name_max"
  shows "telegram_name lw tg = Inr tg"
proof -
  have f: "\<forall>c\<in>set tg. c < 128 \<and> ascii_lower c = c \<and> (is_alnum_c c \<or> c = 95) \<and> \<not> is_ws c"
    using assms(1) tg_char_facts by (simp add: list_all_iff)
  have "dropWhile is_ws tg = tg" "dropWhile is_ws (rev tg) = rev tg"
    using f assms(2) hd_in_set[of tg] hd_in_set[of "rev tg"] by (auto simp: dropWhile_eq_self_iff)
  then have "trim tg = tg" by (simp add: trim_def trim_start_def trim_end_def)
  moreover have "to_lowercase lw tg = tg"
    using f lower_ascii[of tg lw] by (simp add: map_idI)
  moreover have "map (\<lambda>c. if is_alnum_c c \<or> c = 95 then c else 95) tg = tg"
    using f by (intro map_idI) auto
  ultimately show ?thesis using assms(2,3) by (simp add: telegram_name_def)
qed

text \<open>Typing a menu entry reaches the command the menu shows, unless another command's catalog name
  is that very spelling.\<close>

lemma menu_entry_resolves:
  assumes "(tg, d) \<in> set (telegram_menu lw cmds)"
    and "list_all tg_char tg"
    and "\<forall>e\<in>set cmds. cm_name (dc_manifest e) = tg \<longrightarrow> e = d"
  shows "resolve_command lw cmds tg = Some d"
proof -
  have tg: "tg_of lw d = Inr tg" "d \<in> set cmds" using menu_mem[OF assms(1)] by simp_all
  then have len: "tg \<noteq> []" "length tg \<le> telegram_name_max"
    by (auto simp: tg_of_def telegram_name_def Let_def split: if_splits)
  have "find (\<lambda>(t, _). t = tg) (telegram_menu lw cmds) = Some (tg, d)"
  proof -
    have "find (\<lambda>(t, _). t = tg) (telegram_menu lw cmds) \<noteq> None"
      using assms(1) by (auto simp: find_None_iff)
    then obtain p where p: "find (\<lambda>(t, _). t = tg) (telegram_menu lw cmds) = Some p" by blast
    then have "p \<in> set (telegram_menu lw cmds)" "fst p = tg"
      by (auto dest: find_SomeD)
    then have "p = (tg, d)" using assms(1) menu_distinct[of lw cmds] eq_key_imp_eq_value
      by (metis prod.collapse)
    then show ?thesis using p by simp
  qed
  moreover have "telegram_name lw tg = Inr tg" using telegram_name_own[OF assms(2)] len by blast
  moreover have "find_command cmds tg = None \<or> find_command cmds tg = Some d"
    using assms(3) by (cases "find_command cmds tg") (auto simp: find_command_def find_Some_iff)
  ultimately show ?thesis by (auto simp: resolve_command_def)
qed

text \<open>And that exception is real: with \<open>a-b\<close> found before \<open>a_b\<close> the menu offers \<open>/a_b\<close> with the
  first one's description, but typing it runs the second.\<close>

definition named_command :: "rstr \<Rightarrow> discovered_command" where
  "named_command n = \<lparr> dc_manifest = \<lparr> cm_name = n, cm_description = lit ''x'', cm_argument_hint = None,
     cm_allowed_tools = None, cm_body = lit ''y'' \<rparr>, dc_path = n \<rparr>"

lemma menu_entry_shadowed:
  "map fst (telegram_menu lw [named_command (lit ''a-b''), named_command (lit ''a_b'')]) = [lit ''a_b'']
   \<and> map snd (telegram_menu lw [named_command (lit ''a-b''), named_command (lit ''a_b'')])
      = [named_command (lit ''a-b'')]
   \<and> resolve_command lw [named_command (lit ''a-b''), named_command (lit ''a_b'')] (lit ''a_b'')
      = Some (named_command (lit ''a_b''))"
  by (simp add: telegram_menu_def tg_of_def named_command_def telegram_name_def to_lowercase_def lit_def
      trim_def trim_start_def trim_end_def is_ws_def ascii_lower_def is_upper_c_def is_alnum_c_def
      is_lower_c_def is_digit_c_def telegram_name_max_def resolve_command_def find_command_def)

text \<open>\<open>render\<close> never loses what was typed: without a placeholder the arguments are appended.\<close>

lemma substitute_plain: "36 \<notin> set body \<Longrightarrow> substitute u all pos body = (body, False)"
  by (induction body) auto

lemma render_keeps_arguments:
  assumes "\<not> snd (substitute u (trim args) (split_ws (trim args)) (cm_body c))" "trim args \<noteq> []"
  shows "suffix (trim args) (render u c args)"
proof -
  obtain r where r: "substitute u (trim args) (split_ws (trim args)) (cm_body c) = (r, False)"
    using assms(1) by (metis prod.collapse)
  then have "render u c args
      = (r @ [10, 10] @ lit ''---'' @ [10] @ lit ''Arguments: '') @ trim args"
    using assms(2) by (simp add: render_def Let_def)
  then show ?thesis by (metis suffixI)
qed

text \<open>A manifest that parses is valid, whatever the file held.\<close>

lemma cm_parse_valid: "cm_parse u lw raw fb = Inr c \<Longrightarrow> cm_validate lw c = Inr ()"
  by (auto simp: cm_parse_def Let_def split: sum.splits prod.splits)

lemma sm_parse_valid: "sm_parse u raw fb = Inr s \<Longrightarrow> sm_validate s = Inr ()"
  by (auto simp: sm_parse_def Let_def split: sum.splits prod.splits option.splits)

end
