(* ===== verification/Trigger.thy ===== *)
theory Trigger
  imports State_Store
begin

text \<open>
  \<open>dotagent-core/src/trigger.rs\<close>: a request to run an agent outside any schedule window, the
  heartbeat slug its runs use, the conversation it belongs to (\<open>ConversationKey\<close> of
  \<open>dotagent/src/gateway/mod.rs\<close>) and the environment block the daemon hands to the agent
  (\<open>trigger_env\<close> of \<open>commands/daemon.rs\<close>).
\<close>

definition trigger_schedule_id :: rstr where "trigger_schedule_id = lit ''trigger''"

datatype trigger_source = FromTelegram | FromCli | FromMcp | FromLocal

fun show_source :: "trigger_source \<Rightarrow> rstr" where
  "show_source FromTelegram = lit ''telegram''"
| "show_source FromCli = lit ''cli''"
| "show_source FromMcp = lit ''mcp''"
| "show_source FromLocal = lit ''local''"

definition source_slug :: "trigger_source \<Rightarrow> rstr" where
  "source_slug s = lit ''trigger-'' @ show_source s"

record trigger_request =
  tq_source :: trigger_source
  tq_agent :: rstr
  tq_schedule :: "rstr option"
  tq_args :: "rstr list"
  tq_payload :: "json option"
  tq_actor :: "rstr option"
  tq_reply_to :: "rstr option"
  tq_session_id :: "rstr option"

text \<open>\<open>digest\<close> is the sixteen hexadecimal digits \<open>sanitize_key\<close> falls back to.\<close>

definition request_slug :: "(rstr \<Rightarrow> rstr) \<Rightarrow> trigger_request \<Rightarrow> rstr" where
  "request_slug digest req = (case tq_session_id req of
     Some session \<Rightarrow> source_slug (tq_source req) @ lit ''-'' @ sanitize_key digest session
   | None \<Rightarrow> source_slug (tq_source req))"

datatype conversation_key = ConversationKey (ck_source: trigger_source) (ck_session: rstr)

definition conversation_of :: "trigger_request \<Rightarrow> conversation_key" where
  "conversation_of req = ConversationKey (tq_source req)
     (case tq_session_id req of Some s \<Rightarrow> s
     | None \<Rightarrow> (case tq_reply_to req of Some r \<Rightarrow> r | None \<Rightarrow> lit ''default''))"

text \<open>\<open>to_string\<close> is serde's; a value that does not serialise leaves the variable out.\<close>

definition trigger_env :: "(json \<Rightarrow> rstr option) \<Rightarrow> trigger_request \<Rightarrow> (rstr \<times> rstr) list" where
  "trigger_env to_string req =
     [(lit ''AGENT_TRIGGER_SOURCE'', show_source (tq_source req))]
     @ (case tq_session_id req of Some s \<Rightarrow> [(lit ''AGENT_SESSION_ID'', s)] | None \<Rightarrow> [])
     @ (case tq_actor req of Some a \<Rightarrow> [(lit ''AGENT_TRIGGER_ACTOR'', a)] | None \<Rightarrow> [])
     @ (case tq_reply_to req of Some r \<Rightarrow> [(lit ''AGENT_TRIGGER_REPLY_TO'', r)] | None \<Rightarrow> [])
     @ (case tq_payload req of
          Some p \<Rightarrow> (case to_string p of Some j \<Rightarrow> [(lit ''AGENT_TRIGGER_PAYLOAD'', j)] | None \<Rightarrow> [])
        | None \<Rightarrow> [])"

section \<open>Facts\<close>

lemma show_source_inj [simp]: "show_source a = show_source b \<longleftrightarrow> a = b"
  by (cases a; cases b) simp_all

lemma source_slug_inj [simp]: "source_slug a = source_slug b \<longleftrightarrow> a = b"
  by (simp add: source_slug_def)

lemma source_slug_dash:
  assumes "source_slug a @ 45 # xs = source_slug b @ 45 # ys"
  shows "a = b \<and> xs = ys"
  using assms by (cases a; cases b) (simp_all add: source_slug_def lit_def)

text \<open>Two requests with valid session ids write to the same heartbeat only when they come from the
  same source and name the same session (or both name none).\<close>

lemma request_slug_separates:
  assumes "\<forall>s. tq_session_id a = Some s \<longrightarrow> is_valid_session_id s"
    and "\<forall>s. tq_session_id b = Some s \<longrightarrow> is_valid_session_id s"
    and "request_slug digest a = request_slug digest b"
  shows "tq_source a = tq_source b \<and> tq_session_id a = tq_session_id b"
proof -
  have d: "lit ''-'' = [45]" by (simp add: lit_def)
  have n: "source_slug x = source_slug y @ 45 # zs \<Longrightarrow> False" for x y zs
    by (cases x; cases y) (simp_all add: source_slug_def lit_def)
  have n2: "source_slug y @ 45 # zs = source_slug x \<Longrightarrow> False" for x y zs
    using n[of x y zs] by simp
  show ?thesis
  proof (cases "tq_session_id a")
    case None
    then show ?thesis using assms n by (cases "tq_session_id b") (auto simp: request_slug_def d)
  next
    case (Some s)
    show ?thesis
    proof (cases "tq_session_id b")
      case None
      then show ?thesis using assms Some n2 by (auto simp: request_slug_def d)
    next
      case (Some t)
      then show ?thesis using assms \<open>tq_session_id a = Some s\<close> source_slug_dash
        by (simp add: request_slug_def d sanitize_key_plain)
    qed
  qed
qed

end
