(* ===== verification/Assistant_Registry.thy ===== *)
theory Assistant_Registry
  imports Memo Trigger
begin

text \<open>
  The assistant harness around a conversation's runs: the registry record and its transitions
  (\<open>dotagent-assistant/src/registry.rs\<close>), its file (\<open>store.rs\<close>), the toolkit configuration and its
  identity (\<open>toolkit.rs\<close>), what the harness injects before a run and records after it
  (\<open>commands/assistant_harness.rs\<close>), and \<open>/novo\<close> (\<open>reset_conversation\<close> of \<open>commands/daemon.rs\<close>).
  SHA-256, the JSON text of a configuration and the memory workspace are parameters; a registry
  file is the record it holds, named relative to the registry's directory.
\<close>

section \<open>The record\<close>

datatype registry_change = Unchanged | SessionRecorded | Retired | ToolkitChanged

record registry_record =
  rr_source :: rstr
  rr_session_id :: rstr
  rr_model_session :: "rstr option"
  rr_generation :: nat
  rr_toolkit_hash :: "rstr option"
  rr_transcript_bytes :: nat
  rr_notice_pending :: bool

definition default_transcript_bytes_max :: nat where "default_transcript_bytes_max = 409600"

definition record_new :: "rstr \<Rightarrow> rstr \<Rightarrow> registry_record" where
  "record_new source session_id = \<lparr> rr_source = source, rr_session_id = session_id,
     rr_model_session = None, rr_generation = 0, rr_toolkit_hash = None, rr_transcript_bytes = 0,
     rr_notice_pending = False \<rparr>"

definition note_toolkit_hash :: "rstr \<Rightarrow> registry_record \<Rightarrow> registry_change \<times> registry_record" where
  "note_toolkit_hash hash r = (
     if rr_toolkit_hash r = Some hash then (Unchanged, r)
     else (if rr_model_session r \<noteq> None then ToolkitChanged else Unchanged,
           r\<lparr> rr_toolkit_hash := Some hash, rr_model_session := None \<rparr>))"

definition apply_session_frame ::
    "rstr \<Rightarrow> nat \<Rightarrow> nat \<Rightarrow> registry_record \<Rightarrow> registry_change \<times> registry_record" where
  "apply_session_frame model_session transcript_bytes ceiling r = (
     if transcript_bytes > ceiling
     then (Retired, r\<lparr> rr_generation := rr_generation r + 1, rr_model_session := None,
             rr_transcript_bytes := 0, rr_notice_pending := True \<rparr>)
     else (if rr_model_session r \<noteq> Some model_session then SessionRecorded else Unchanged,
           r\<lparr> rr_model_session := Some model_session, rr_transcript_bytes := transcript_bytes \<rparr>))"

definition record_reset :: "registry_record \<Rightarrow> registry_record" where
  "record_reset r = r\<lparr> rr_generation := rr_generation r + 1, rr_model_session := None,
     rr_transcript_bytes := 0, rr_notice_pending := False \<rparr>"

definition take_retirement_notice :: "registry_record \<Rightarrow> bool \<times> registry_record" where
  "take_retirement_notice r = (rr_notice_pending r, r\<lparr> rr_notice_pending := False \<rparr>)"

section \<open>The store\<close>

definition sanitize_name :: "rstr \<Rightarrow> rstr" where
  "sanitize_name raw = map (\<lambda>c. if is_alnum_c c \<or> c = 45 \<or> c = 95 \<or> c = 46 then c else 95) raw"

definition path_for :: "(rstr \<Rightarrow> rstr) \<Rightarrow> rstr \<Rightarrow> rstr \<Rightarrow> rstr" where
  "path_for short_digest source session_id = (
     let raw = source @ [45] @ session_id; s = sanitize_name raw
     in (if s = raw then s else s @ [45] @ short_digest raw) @ lit ''.json'')"

type_synonym registry_files = "rstr \<Rightarrow> registry_record on_disk"

definition registry_load :: "(rstr \<Rightarrow> rstr) \<Rightarrow> rstr \<Rightarrow> rstr \<Rightarrow> registry_files \<Rightarrow> unit + registry_record option" where
  "registry_load sd source session_id f = (case f (path_for sd source session_id) of
     Absent \<Rightarrow> Inr None | Corrupt \<Rightarrow> Inl () | Present r \<Rightarrow> Inr (Some r))"

text \<open>Written aside and renamed: a failed save leaves the old file.\<close>

definition registry_save :: "(rstr \<Rightarrow> rstr) \<Rightarrow> bool \<Rightarrow> registry_record \<Rightarrow> registry_files \<Rightarrow> bool \<times> registry_files" where
  "registry_save sd ok r f =
     (if ok then (True, f(path_for sd (rr_source r) (rr_session_id r) := Present r)) else (False, f))"

section \<open>The toolkit\<close>

fun server_config_value :: "toolkit_server \<Rightarrow> rstr \<Rightarrow> json" where
  "server_config_value Dotagent bin = JObject [(lit ''args'', JArray [JString (lit ''mcp'')]),
     (lit ''command'', JString bin), (lit ''type'', JString (lit ''stdio''))]"
| "server_config_value (Http url) bin = JObject [(lit ''type'', JString (lit ''http'')), (lit ''url'', JString url)]"
| "server_config_value (Stdio command args) bin = JObject [(lit ''args'', JArray (map JString args)),
     (lit ''command'', JString command), (lit ''type'', JString (lit ''stdio''))]"

text \<open>\<open>sort_by_key\<close> is stable; keys compare as \<open>&str\<close>, which is the order of their scalar values.
  \<open>serde_json::Map\<close> keeps its keys sorted, so inserting in order appends.\<close>

fun insert_sorted_server :: "toolkit_server \<Rightarrow> toolkit_server list \<Rightarrow> toolkit_server list" where
  "insert_sorted_server s [] = [s]"
| "insert_sorted_server s (t # ts) = (if server_name s \<le> server_name t then s # t # ts
     else t # insert_sorted_server s ts)"

definition sort_servers :: "toolkit_server list \<Rightarrow> toolkit_server list" where
  "sort_servers ss = foldr insert_sorted_server ss []"

fun collect_servers :: "rstr \<Rightarrow> (rstr \<times> json) list \<Rightarrow> toolkit_server list \<Rightarrow> rstr + (rstr \<times> json) list" where
  "collect_servers bin m [] = Inr m"
| "collect_servers bin m (s # ss) =
     (if map_of m (server_name s) \<noteq> None then Inl (server_name s)
      else collect_servers bin (m @ [(server_name s, server_config_value s bin)]) ss)"

definition build_mcp_config :: "toolkit_server list \<Rightarrow> rstr \<Rightarrow> rstr + json" where
  "build_mcp_config servers bin = (case collect_servers bin [] (sort_servers servers) of
     Inl e \<Rightarrow> Inl e | Inr m \<Rightarrow> Inr (JObject [(lit ''mcpServers'', JObject m)]))"

definition set_key :: "rstr \<Rightarrow> (json \<Rightarrow> json) \<Rightarrow> json \<Rightarrow> json" where
  "set_key k g j = (case j of
     JObject kvs \<Rightarrow> JObject (map (\<lambda>(k', v). (k', if k' = k then g v else v)) kvs) | _ \<Rightarrow> j)"

definition canonical_toolkit :: "json \<Rightarrow> json" where
  "canonical_toolkit config =
     set_key (lit ''mcpServers'') (set_key (lit ''dotagent'') (set_key (lit ''command'')
       (\<lambda>_. JString (lit ''<dotagent>'')))) config"

definition toolkit_hash :: "(json \<Rightarrow> rstr) \<Rightarrow> json \<Rightarrow> rstr" where
  "toolkit_hash sha config = sha (canonical_toolkit config)"

definition toolkit_file :: "rstr \<Rightarrow> rstr \<Rightarrow> rstr" where
  "toolkit_file dir hash = dir @ lit ''/toolkit-'' @ hash @ lit ''.json''"

section \<open>The harness\<close>

definition harness_enabled :: "agent_manifest \<Rightarrow> bool" where
  "harness_enabled m = (case mf_assistant m of Some a \<Rightarrow> ac_enabled a | None \<Rightarrow> False)"

definition load_record :: "(rstr \<Rightarrow> rstr) \<Rightarrow> trigger_request \<Rightarrow> registry_files \<Rightarrow> registry_record option" where
  "load_record sd req f = (case tq_session_id req of
     None \<Rightarrow> None
   | Some session_id \<Rightarrow>
       (case registry_load sd (show_source (tq_source req)) session_id f of
          Inr (Some r) \<Rightarrow> Some r
        | _ \<Rightarrow> Some (record_new (show_source (tq_source req)) session_id)))"

definition json_get :: "rstr \<Rightarrow> json \<Rightarrow> json option" where
  "json_get k j = (case j of JObject kvs \<Rightarrow> map_of kvs k | _ \<Rightarrow> None)"

definition payload_text :: "trigger_request \<Rightarrow> rstr" where
  "payload_text req = (case Option.bind (tq_payload req) (json_get (lit ''text'')) of
     Some (JString t) \<Rightarrow> t | _ \<Rightarrow> [])"

text \<open>What the harness reads from outside: the binary's path, the registry directory, whether the
  toolkit file could be written, the recalled memory block, whether the record could be saved.\<close>

record harness_outside =
  ho_bin :: rstr
  ho_dir :: rstr
  ho_sha :: "json \<Rightarrow> rstr"
  ho_digest :: "rstr \<Rightarrow> rstr"
  ho_toolkit_ok :: bool
  ho_recall :: "rstr \<Rightarrow> rstr"
  ho_save_ok :: bool

text \<open>The toolkit the run is given: its file and hash, when it assembles and can be written.\<close>

definition provision_toolkit :: "harness_outside \<Rightarrow> assistant_config \<Rightarrow> (rstr \<times> rstr) option" where
  "provision_toolkit q config = (
     if ac_toolkit config = [] then None
     else case build_mcp_config (ac_toolkit config) (ho_bin q) of
            Inl _ \<Rightarrow> None
          | Inr mcp \<Rightarrow> if ho_toolkit_ok q
              then (let h = toolkit_hash (ho_sha q) mcp in Some (toolkit_file (ho_dir q) h, h))
              else None)"

definition harness_env :: "harness_outside \<Rightarrow> agent_manifest \<Rightarrow> trigger_request \<Rightarrow> registry_files
    \<Rightarrow> (rstr \<times> rstr) list \<times> registry_files" where
  "harness_env q m req f = (case mf_assistant m of
     None \<Rightarrow> ([], f)
   | Some config \<Rightarrow>
       if \<not> ac_enabled config then ([], f)
       else let toolkit = provision_toolkit q config;
                record0 = load_record (ho_digest q) req f;
                record1 = (case toolkit of
                    Some (_, h) \<Rightarrow> map_option (\<lambda>r. snd (note_toolkit_hash h r)) record0
                  | None \<Rightarrow> record0);
                toolkit_env = (case toolkit of
                    Some (path, h) \<Rightarrow> [(lit ''AGENT_ASSISTANT_MCP_CONFIG'', path),
                                      (lit ''AGENT_ASSISTANT_TOOLKIT_HASH'', h)]
                  | None \<Rightarrow> []);
                session_env = (case Option.bind record1 rr_model_session of
                    Some p \<Rightarrow> [(lit ''AGENT_ASSISTANT_SESSION'', p)] | None \<Rightarrow> []);
                notice = (case record1 of Some r \<Rightarrow> rr_notice_pending r | None \<Rightarrow> False);
                record2 = map_option (\<lambda>r. snd (take_retirement_notice r)) record1;
                block = (if ac_memory config then ho_recall q (payload_text req) else []);
                memory_env = (if block = [] then [] else [(lit ''AGENT_ASSISTANT_MEMORY'', block)])
            in case record2 of
                 None \<Rightarrow> (toolkit_env @ session_env @ memory_env, f)
               | Some r \<Rightarrow>
                   (case registry_save (ho_digest q) (ho_save_ok q) r f of (saved, f') \<Rightarrow>
                     (toolkit_env @ session_env @ memory_env
                        @ (if saved \<and> notice then [(lit ''AGENT_ASSISTANT_CONTEXT_RETIRED'', lit ''true'')] else []),
                      f')))"

definition finalize :: "harness_outside \<Rightarrow> agent_manifest \<Rightarrow> trigger_request \<Rightarrow> rstr
    \<Rightarrow> (rstr \<times> nat) option \<Rightarrow> registry_files \<Rightarrow> (rstr \<times> captured_memo list) \<times> registry_files" where
  "finalize q m req reply frame f = (case mf_assistant m of
     None \<Rightarrow> ((reply, []), f)
   | Some config \<Rightarrow>
       if \<not> ac_enabled config then ((reply, []), f)
       else let ceiling = (case ac_transcript_bytes_max config of Some c \<Rightarrow> c | None \<Rightarrow> default_transcript_bytes_max);
                record1 = (case frame of
                    Some (s, bytes) \<Rightarrow>
                      map_option (\<lambda>r. snd (apply_session_frame s bytes ceiling r)) (load_record (ho_digest q) req f)
                  | None \<Rightarrow> load_record (ho_digest q) req f);
                f' = (case record1 of Some r \<Rightarrow> snd (registry_save (ho_digest q) (ho_save_ok q) r f) | None \<Rightarrow> f);
                (reply', memos) = strip_memos reply
            in ((reply', if ac_memory config then memos else []), f'))"

definition reset_conversation :: "(rstr \<Rightarrow> rstr) \<Rightarrow> bool \<Rightarrow> rstr \<Rightarrow> registry_files \<Rightarrow> rstr \<times> registry_files" where
  "reset_conversation sd save_ok session f = (
     case registry_load sd (show_source FromTelegram) session f of
       Inr (Some r) \<Rightarrow>
         (case registry_save sd save_ok (record_reset r) f of (saved, f') \<Rightarrow>
            (if \<not> saved then lit ''Could not reset this conversation.''
             else if rr_model_session r \<noteq> None
             then lit ''Fresh context '' @ [0x2014] @ lit '' the next message in this thread starts from zero.''
             else lit ''Already fresh '' @ [0x2014] @ lit '' nothing to reset in this thread.'', f'))
     | Inr None \<Rightarrow> (lit ''Already fresh '' @ [0x2014] @ lit '' nothing to reset in this thread.'', f)
     | Inl _ \<Rightarrow> (lit ''Could not reset this conversation.'', f))"

section \<open>The identity of a toolkit\<close>

lemma insert_sorted_server_facts:
  "set (insert_sorted_server s ts) = insert s (set ts)"
  "length (insert_sorted_server s ts) = Suc (length ts)"
  "distinct (map server_name (insert_sorted_server s ts)) \<longleftrightarrow> distinct (map server_name (s # ts))"
  by (induction ts) auto

lemma insert_sorted_server_sorted:
  "sorted (map server_name ts) \<Longrightarrow> sorted (map server_name (insert_sorted_server s ts))"
  by (induction ts) (auto simp: insert_sorted_server_facts(1))

lemma sort_servers_facts:
  "set (sort_servers ss) = set ss" "sorted (map server_name (sort_servers ss))"
  "distinct (map server_name (sort_servers ss)) \<longleftrightarrow> distinct (map server_name ss)"
  by (induction ss)
    (auto simp: sort_servers_def insert_sorted_server_facts insert_sorted_server_sorted image_iff)

text \<open>Listing the same servers in another order gives the same configuration, bytes and all.\<close>

lemma toolkit_order_irrelevant:
  assumes "set ss = set ss'" "distinct (map server_name ss)" "distinct (map server_name ss')"
  shows "build_mcp_config ss bin = build_mcp_config ss' bin"
proof -
  have "inj_on server_name (set (sort_servers ss) \<union> set (sort_servers ss'))"
    using assms by (simp add: sort_servers_facts distinct_map)
  then have "sort_servers ss = sort_servers ss'"
    using assms by (intro map_sorted_distinct_set_unique[of server_name]) (simp_all add: sort_servers_facts)
  then show ?thesis by (simp add: build_mcp_config_def)
qed

lemma collect_servers_eq:
  "distinct (map fst m @ map server_name ss)
    \<Longrightarrow> collect_servers bin m ss = Inr (m @ map (\<lambda>s. (server_name s, server_config_value s bin)) ss)"
proof (induction ss arbitrary: m)
  case (Cons s ss)
  then have "map_of m (server_name s) = None" by (auto simp: map_of_eq_None_iff)
  then show ?case using Cons by simp
qed simp

text \<open>Moving the daemon's binary does not change the hash, so it retires no session.\<close>

lemma toolkit_hash_ignores_binary:
  assumes "distinct (map server_name ss)"
  shows "\<exists>j j'. build_mcp_config ss bin = Inr j \<and> build_mcp_config ss bin' = Inr j'
     \<and> toolkit_hash sha j = toolkit_hash sha j'"
proof -
  have m: "build_mcp_config ss b = Inr (JObject [(lit ''mcpServers'',
      JObject (map (\<lambda>s. (server_name s, server_config_value s b)) (sort_servers ss)))])" for b
    using assms collect_servers_eq[of "[]" "sort_servers ss" b]
    by (simp add: build_mcp_config_def sort_servers_facts)
  let ?c = "\<lambda>b s. (server_name s, if server_name s = lit ''dotagent''
     then set_key (lit ''command'') (\<lambda>_. JString (lit ''<dotagent>'')) (server_config_value s b)
     else server_config_value s b)"
  have c: "toolkit_hash sha (JObject [(lit ''mcpServers'',
      JObject (map (\<lambda>s. (server_name s, server_config_value s b)) (sort_servers ss)))])
    = sha (JObject [(lit ''mcpServers'', JObject (map (?c b) (sort_servers ss)))])" for b
    by (simp add: toolkit_hash_def canonical_toolkit_def set_key_def comp_def)
  have "?c bin s = ?c bin' s" for s
    by (cases s) (simp_all add: set_key_def)
  then have "map (?c bin) (sort_servers ss) = map (?c bin') (sort_servers ss)"
    by (intro map_cong refl)
  then show ?thesis unfolding m by (intro exI conjI) (rule refl, rule refl, simp only: c)
qed

section \<open>Which session a run is told to resume\<close>

datatype turn_event =
  BeforeRun harness_outside agent_manifest trigger_request
| AfterRun harness_outside agent_manifest trigger_request rstr "(rstr \<times> nat) option"
| Novo bool rstr

fun turn :: "(rstr \<Rightarrow> rstr) \<Rightarrow> turn_event \<Rightarrow> registry_files \<Rightarrow> registry_files" where
  "turn sd (BeforeRun q m req) f = snd (harness_env (q\<lparr> ho_digest := sd \<rparr>) m req f)"
| "turn sd (AfterRun q m req reply frame) f = snd (finalize (q\<lparr> ho_digest := sd \<rparr>) m req reply frame f)"
| "turn sd (Novo ok session) f = snd (reset_conversation sd ok session f)"

definition turns :: "(rstr \<Rightarrow> rstr) \<Rightarrow> turn_event list \<Rightarrow> registry_files" where
  "turns sd es = fold (turn sd) es (\<lambda>_. Absent)"

text \<open>A run whose harness rewrites the conversation's file.\<close>

definition writes_to :: "(rstr \<Rightarrow> rstr) \<Rightarrow> harness_outside \<Rightarrow> agent_manifest \<Rightarrow> trigger_request \<Rightarrow> rstr \<Rightarrow> bool" where
  "writes_to sd q m req path \<longleftrightarrow> harness_enabled m \<and> ho_save_ok q
     \<and> map_option (path_for sd (show_source (tq_source req))) (tq_session_id req) = Some path"

definition ceiling_of :: "agent_manifest \<Rightarrow> nat" where
  "ceiling_of m = (case Option.bind (mf_assistant m) ac_transcript_bytes_max of
     Some c \<Rightarrow> c | None \<Rightarrow> default_transcript_bytes_max)"

definition toolkit_of :: "harness_outside \<Rightarrow> agent_manifest \<Rightarrow> rstr option" where
  "toolkit_of q m = Option.bind (mf_assistant m) (\<lambda>c. map_option snd (provision_toolkit q c))"

text \<open>The reference, latest event first: \<open>s\<close> is what the last recorded frame reported, the frame
  fitted its ceiling, the conversation was not reset since, and every toolkit recorded since is
  the one the record names.\<close>

fun last_frame_is :: "(rstr \<Rightarrow> rstr) \<Rightarrow> rstr \<Rightarrow> rstr \<Rightarrow> rstr option \<Rightarrow> turn_event list \<Rightarrow> bool" where
  "last_frame_is sd path s hash [] = False"
| "last_frame_is sd path s hash (BeforeRun q m req # es) \<longleftrightarrow>
     (writes_to sd q m req path \<longrightarrow> (case toolkit_of q m of Some h \<Rightarrow> hash = Some h | None \<Rightarrow> True))
     \<and> last_frame_is sd path s hash es"
| "last_frame_is sd path s hash (AfterRun q m req reply frame # es) =
     (case frame of
        Some (s', bytes) \<Rightarrow> if writes_to sd q m req path then s' = s \<and> bytes \<le> ceiling_of m
                            else last_frame_is sd path s hash es
      | None \<Rightarrow> last_frame_is sd path s hash es)"
| "last_frame_is sd path s hash (Novo ok session # es) =
     (\<not> (ok \<and> path_for sd (show_source FromTelegram) session = path) \<and> last_frame_is sd path s hash es)"

definition pointers_explained :: "(rstr \<Rightarrow> rstr) \<Rightarrow> turn_event list \<Rightarrow> registry_files \<Rightarrow> bool" where
  "pointers_explained sd es f \<longleftrightarrow> (\<forall>path r. f path = Present r \<longrightarrow>
     path_for sd (rr_source r) (rr_session_id r) = path
     \<and> (\<forall>s. rr_model_session r = Some s \<longrightarrow> last_frame_is sd path s (rr_toolkit_hash r) es))"

text \<open>What the record of a request's conversation is before the run.\<close>

lemma load_record_cases:
  assumes "load_record sd req f = Some r"
  obtains session where "tq_session_id req = Some session"
    "f (path_for sd (show_source (tq_source req)) session) = Present r
      \<or> r = record_new (show_source (tq_source req)) session"
  using assms
  by (auto simp: load_record_def registry_load_def split: option.splits on_disk.splits)

lemma load_record_path:
  assumes "pointers_explained sd es f" "load_record sd req f = Some r"
  shows "map_option (path_for sd (show_source (tq_source req))) (tq_session_id req)
      = Some (path_for sd (rr_source r) (rr_session_id r))"
    and "rr_model_session r = Some s \<Longrightarrow> f (path_for sd (rr_source r) (rr_session_id r)) = Present r"
proof -
  obtain session where session: "tq_session_id req = Some session"
    "f (path_for sd (show_source (tq_source req)) session) = Present r
      \<or> r = record_new (show_source (tq_source req)) session"
    using load_record_cases[OF assms(2)] by metis
  have path: "path_for sd (rr_source r) (rr_session_id r) = path_for sd (show_source (tq_source req)) session"
    using session(2) assms(1) by (auto simp: pointers_explained_def record_new_def)
  then show "map_option (path_for sd (show_source (tq_source req))) (tq_session_id req)
      = Some (path_for sd (rr_source r) (rr_session_id r))"
    using session(1) by simp
  show "rr_model_session r = Some s \<Longrightarrow> f (path_for sd (rr_source r) (rr_session_id r)) = Present r"
    using session(2) path by (auto simp: record_new_def)
qed

text \<open>The two writers, as updates of one file.\<close>

lemma harness_env_files:
  "snd (harness_env (q\<lparr> ho_digest := sd \<rparr>) m req f) =
    (case load_record sd req f of
       Some r \<Rightarrow> if harness_enabled m \<and> ho_save_ok q
         then (let r' = (case toolkit_of q m of Some h \<Rightarrow> snd (note_toolkit_hash h r) | None \<Rightarrow> r)
               in f(path_for sd (rr_source r) (rr_session_id r) := Present (r'\<lparr> rr_notice_pending := False \<rparr>)))
         else f
     | None \<Rightarrow> f)"
  by (auto simp: harness_env_def harness_enabled_def registry_save_def toolkit_of_def provision_toolkit_def
      take_retirement_notice_def note_toolkit_hash_def Let_def split: option.splits sum.splits)

lemma finalize_files:
  "snd (finalize (q\<lparr> ho_digest := sd \<rparr>) m req reply frame f) =
    (case load_record sd req f of
       Some r \<Rightarrow> if harness_enabled m \<and> ho_save_ok q
         then f(path_for sd (rr_source r) (rr_session_id r) := Present
                (case frame of Some (s, b) \<Rightarrow> snd (apply_session_frame s b (ceiling_of m) r) | None \<Rightarrow> r))
         else f
     | None \<Rightarrow> f)"
  by (auto simp: finalize_def harness_enabled_def registry_save_def ceiling_of_def
      apply_session_frame_def Let_def split: option.splits prod.splits)

lemma explainedD:
  "pointers_explained sd es f \<Longrightarrow> f p = Present r \<Longrightarrow> rr_model_session r = Some s
    \<Longrightarrow> last_frame_is sd p s (rr_toolkit_hash r) es"
  by (auto simp: pointers_explained_def)

lemma explained_update:
  assumes "pointers_explained sd es f" "path_for sd (rr_source r) (rr_session_id r) = p"
    and "\<And>path s h. path \<noteq> p \<Longrightarrow> last_frame_is sd path s h es \<Longrightarrow> last_frame_is sd path s h (e # es)"
    and "\<And>s. rr_model_session r = Some s \<Longrightarrow> last_frame_is sd p s (rr_toolkit_hash r) (e # es)"
  shows "pointers_explained sd (e # es) (f(p := Present r))"
  using assms unfolding pointers_explained_def by (simp del: last_frame_is.simps)

lemma explained_before:
  assumes inv: "pointers_explained sd es f"
  shows "pointers_explained sd (BeforeRun q m req # es) (snd (harness_env (q\<lparr> ho_digest := sd \<rparr>) m req f))"
proof (cases "load_record sd req f")
  case None
  then have "\<not> writes_to sd q m req path" for path
    by (auto simp: load_record_def writes_to_def split: option.splits sum.splits)
  then show ?thesis using inv None by (simp add: harness_env_files pointers_explained_def)
next
  case (Some r)
  let ?p = "path_for sd (rr_source r) (rr_session_id r)"
  note path = load_record_path(1)[OF inv Some]
  show ?thesis
  proof (cases "harness_enabled m \<and> ho_save_ok q")
    case False
    then have "\<not> writes_to sd q m req path" for path by (auto simp: writes_to_def)
    then show ?thesis using inv False Some by (auto simp: harness_env_files pointers_explained_def)
  next
    case True
    then have w: "writes_to sd q m req path \<longleftrightarrow> path = ?p" for path
      using path by (auto simp: writes_to_def)
    define r' where "r' = (case toolkit_of q m of Some h \<Rightarrow> snd (note_toolkit_hash h r) | None \<Rightarrow> r)"
    have r': "rr_source r' = rr_source r" "rr_session_id r' = rr_session_id r"
      by (auto simp: r'_def note_toolkit_hash_def split: option.splits)
    have keep: "rr_model_session r = Some s \<and> rr_toolkit_hash r' = rr_toolkit_hash r
        \<and> (\<forall>h. toolkit_of q m = Some h \<longrightarrow> rr_toolkit_hash r = Some h)"
      if "rr_model_session r' = Some s" for s
      using that by (auto simp: r'_def note_toolkit_hash_def split: option.splits if_splits)
    have "last_frame_is sd ?p s (rr_toolkit_hash r') (BeforeRun q m req # es)"
      if "rr_model_session r' = Some s" for s
      using keep[OF that] explainedD[OF inv load_record_path(2)[OF inv Some]]
      by (auto split: option.splits)
    then have "pointers_explained sd (BeforeRun q m req # es)
        (f(?p := Present (r'\<lparr> rr_notice_pending := False \<rparr>)))"
      using inv r' by (intro explained_update) (auto simp: w simp del: last_frame_is.simps(1))
    then show ?thesis using True Some
      by (simp add: harness_env_files Let_def r'_def)
  qed
qed

lemma explained_after:
  assumes inv: "pointers_explained sd es f"
  shows "pointers_explained sd (AfterRun q m req reply frame # es)
     (snd (finalize (q\<lparr> ho_digest := sd \<rparr>) m req reply frame f))"
proof (cases "load_record sd req f")
  case None
  then have "\<not> writes_to sd q m req path" for path
    by (auto simp: load_record_def writes_to_def split: option.splits sum.splits)
  then show ?thesis using inv None
    by (auto simp: finalize_files pointers_explained_def split: option.splits)
next
  case (Some r)
  let ?p = "path_for sd (rr_source r) (rr_session_id r)"
  note path = load_record_path(1)[OF inv Some]
  show ?thesis
  proof (cases "harness_enabled m \<and> ho_save_ok q")
    case False
    then have "\<not> writes_to sd q m req path" for path by (auto simp: writes_to_def)
    then show ?thesis using inv False Some
      by (auto simp: finalize_files pointers_explained_def split: option.splits)
  next
    case True
    then have w: "writes_to sd q m req path \<longleftrightarrow> path = ?p" for path
      using path by (auto simp: writes_to_def)
    define r' where "r' = (case frame of Some (s, b) \<Rightarrow> snd (apply_session_frame s b (ceiling_of m) r) | None \<Rightarrow> r)"
    have r': "rr_source r' = rr_source r" "rr_session_id r' = rr_session_id r"
      by (auto simp: r'_def apply_session_frame_def split: option.splits)
    have "last_frame_is sd ?p s (rr_toolkit_hash r') (AfterRun q m req reply frame # es)"
      if "rr_model_session r' = Some s" for s
      using that explainedD[OF inv load_record_path(2)[OF inv Some]]
      by (auto simp: r'_def apply_session_frame_def w split: option.splits if_splits)
    then have "pointers_explained sd (AfterRun q m req reply frame # es) (f(?p := Present r'))"
      using inv r' by (intro explained_update) (auto simp: w split: option.splits)
    then show ?thesis using True Some by (simp add: finalize_files r'_def)
  qed
qed

lemma explained_novo:
  assumes inv: "pointers_explained sd es f"
  shows "pointers_explained sd (Novo ok session # es) (snd (reset_conversation sd ok session f))"
  using inv
  by (auto simp: reset_conversation_def registry_load_def registry_save_def record_reset_def
      pointers_explained_def split: on_disk.splits)

lemma turns_explained: "pointers_explained sd (rev es) (turns sd es)"
proof (induction es rule: rev_induct)
  case (snoc e es)
  then show ?case
    by (cases e) (simp_all add: turns_def explained_before explained_after explained_novo)
qed (simp add: turns_def pointers_explained_def)

text \<open>C23. A run is told to resume a model session only when that session is the conversation's
  current one: whatever runs, failed saves and resets came before, an injected
  \<open>AGENT_ASSISTANT_SESSION\<close> is the session reported by the last recorded frame of that
  conversation's file, that frame fitted the transcript ceiling, the conversation was not reset
  since, and no toolkit other than the one this run gets was recorded since.\<close>

theorem resumed_session_is_current:
  assumes "(lit ''AGENT_ASSISTANT_SESSION'', s)
    \<in> set (fst (harness_env (q\<lparr> ho_digest := sd \<rparr>) m req (turns sd es)))"
  shows "\<exists>path hash. map_option (path_for sd (show_source (tq_source req))) (tq_session_id req) = Some path
    \<and> last_frame_is sd path s hash (rev es)
    \<and> (\<forall>h. toolkit_of q m = Some h \<longrightarrow> hash = Some h)"
proof -
  let ?f = "turns sd es"
  have "\<exists>r. load_record sd req ?f = Some r \<and> rr_model_session r = Some s
      \<and> (\<forall>h. toolkit_of q m = Some h \<longrightarrow> rr_toolkit_hash r = Some h)"
    using assms
    by (auto simp: harness_env_def registry_save_def toolkit_of_def provision_toolkit_def
        note_toolkit_hash_def take_retirement_notice_def Let_def
        split: option.splits sum.splits if_splits)
  then obtain r where r: "load_record sd req ?f = Some r" "rr_model_session r = Some s"
    "\<forall>h. toolkit_of q m = Some h \<longrightarrow> rr_toolkit_hash r = Some h" by blast
  note inv = turns_explained[of sd es]
  show ?thesis
    using load_record_path(1)[OF inv r(1)] r(3) explainedD[OF inv load_record_path(2)[OF inv r(1,2)] r(2)]
    by blast
qed

section \<open>A concrete conversation\<close>

definition chat_manifest :: agent_manifest where
  "chat_manifest = (plain_manifest [])\<lparr> mf_assistant := Some \<lparr> ac_enabled = True, ac_memory = False,
     ac_transcript_bytes_max = None, ac_toolkit = [], ac_extractor = None \<rparr> \<rparr>"

definition chat_request :: trigger_request where
  "chat_request = \<lparr> tq_source = FromTelegram, tq_agent = lit ''dispatcher'', tq_schedule = None,
     tq_args = [], tq_payload = None, tq_actor = Some (lit ''42''), tq_reply_to = Some (lit ''7''),
     tq_session_id = Some (lit ''7'') \<rparr>"

definition chat_outside :: harness_outside where
  "chat_outside = \<lparr> ho_bin = lit ''/bin/dotagent'', ho_dir = lit ''assistant'', ho_sha = (\<lambda>_. []),
     ho_digest = (\<lambda>_. []), ho_toolkit_ok = True, ho_recall = (\<lambda>_. []), ho_save_ok = True \<rparr>"

lemmas chat_defs = chat_manifest_def chat_request_def chat_outside_def plain_manifest_def turns_def
  harness_env_def finalize_def reset_conversation_def provision_toolkit_def load_record_def
  registry_load_def registry_save_def record_new_def take_retirement_notice_def
  apply_session_frame_def record_reset_def strip_memos_def default_transcript_bytes_max_def Let_def

theorem resumed_session_is_current_witness:
  "\<exists>path hash. last_frame_is (\<lambda>_. []) path (lit ''s-9'') hash
     (rev [BeforeRun chat_outside chat_manifest chat_request,
           AfterRun chat_outside chat_manifest chat_request [] (Some (lit ''s-9'', 1000))])"
proof -
  let ?es = "[BeforeRun chat_outside chat_manifest chat_request,
           AfterRun chat_outside chat_manifest chat_request [] (Some (lit ''s-9'', 1000))]"
  have "(lit ''AGENT_ASSISTANT_SESSION'', lit ''s-9'')
      \<in> set (fst (harness_env (chat_outside\<lparr> ho_digest := \<lambda>_. [] \<rparr>) chat_manifest chat_request (turns (\<lambda>_. []) ?es)))"
    by (simp add: chat_defs)
  from resumed_session_is_current[OF this] show ?thesis by blast
qed

text \<open>\<open>/novo\<close> does not go through the gateway's queue: a reset that arrives while a run of the same
  conversation is under way is answered with success, and then undone when that run records its
  frame, so the next run is told to resume the session the user asked to leave.\<close>

lemma reset_undone_by_running_turn:
  assumes "frame = Some (lit ''s-9'', 1000)"
  shows "(let before = [BeforeRun chat_outside chat_manifest chat_request,
             AfterRun chat_outside chat_manifest chat_request [] frame,
             BeforeRun chat_outside chat_manifest chat_request];
           during = Novo True (lit ''7'');
           after = AfterRun chat_outside chat_manifest chat_request [] frame
       in prefix (lit ''Fresh context'')
            (fst (reset_conversation (\<lambda>_. []) True (lit ''7'') (turns (\<lambda>_. []) before)))
          \<and> (lit ''AGENT_ASSISTANT_SESSION'', lit ''s-9'')
            \<in> set (fst (harness_env (chat_outside\<lparr> ho_digest := \<lambda>_. [] \<rparr>) chat_manifest chat_request
                 (turns (\<lambda>_. []) (before @ [during, after])))))"
  by (simp add: assms chat_defs) (simp add: lit_def)

end
