(* ===== verification/Ingress.thy ===== *)
theory Ingress
  imports Telegram_Inbound Os_Policy Commands Assistant_Registry
begin

text \<open>
  The Telegram ingress of \<open>commands/daemon.rs\<close>: \<open>screen\<close>, the whole authorization decision over one
  inbound message, the derivation of the conversation a message belongs to, and what the polling
  loop does with the verdict; with \<open>TelegramIngressConfig\<close> of \<open>dotagent-core/src/config.rs\<close>.
  Delivery of a reply is an effect, and what the gateway answers to a submission is the outside's.
\<close>

section \<open>Configuration\<close>

record telegram_ingress_config =
  ti_bot_token :: rstr
  ti_allowed_user_ids :: "int list"
  ti_dispatcher_agent :: rstr
  ti_poll_timeout_seconds :: nat
  ti_rate_limit_per_minute :: nat
  ti_open_chat_ids :: "int list"


definition ingress_enabled :: "telegram_ingress_config \<Rightarrow> bool" where
  "ingress_enabled c \<longleftrightarrow> ti_bot_token c \<noteq> [] \<and> ti_allowed_user_ids c \<noteq> []"


section \<open>The conversation of a message\<close>


definition root_session :: "int \<Rightarrow> int option \<Rightarrow> int \<Rightarrow> rstr" where
  "root_session chat_id thread_id message_id = (case thread_id of
     Some t \<Rightarrow> show_int chat_id @ lit ''-t'' @ show_int t @ lit ''-r'' @ show_int message_id
   | None \<Rightarrow> show_int chat_id @ lit ''-r'' @ show_int message_id)"


section \<open>Screening\<close>










section \<open>The loop's body\<close>






text \<open>The poll loop's pause after a failure doubles up to a minute.\<close>

definition next_backoff :: "nat \<Rightarrow> nat" where
  "next_backoff secs = min (secs * 2) 60"

section \<open>Conversation keys are valid and separate\<close>









text \<open>Two roots are the same conversation only for the same chat, topic and message; a direct
  chat's key is no root at all.\<close>

lemma show_int_sep:
  assumes "show_int a @ 45 # xs = show_int b @ 45 # ys"
  shows "a = b \<and> xs = ys"
proof -
  have d: "\<not> is_digit_c 45" by (simp add: is_digit_c_def)
  have m: "45 \<notin> set (show_nat k)" for k using show_nat_digits[of 45 k] d by blast
  have h: "show_nat k @ 45 # us \<noteq> 45 # vs" for k us vs
    using show_nat_not_Nil[of k] m[of k] by (cases "show_nat k") auto
  consider "a < 0" "b < 0" | "a < 0" "0 \<le> b" | "0 \<le> a" "b < 0" | "0 \<le> a" "0 \<le> b" by linarith
  then show ?thesis
  proof cases
    case 1
    then have "nat (- a) = nat (- b) \<and> xs = ys"
      using assms by (intro show_nat_sep_inj[OF _ d]) (simp add: show_int_def)
    then show ?thesis using 1 by linarith
  next
    case 2
    then have "45 # show_nat (nat (- a)) @ 45 # xs = show_nat (nat b) @ 45 # ys"
      using assms by (simp add: show_int_def)
    then show ?thesis using h by metis
  next
    case 3
    then have "show_nat (nat a) @ 45 # xs = 45 # show_nat (nat (- b)) @ 45 # ys"
      using assms by (simp add: show_int_def)
    then show ?thesis using h by metis
  next
    case 4
    then have "nat a = nat b \<and> xs = ys"
      using assms by (intro show_nat_sep_inj[OF _ d]) (simp add: show_int_def)
    then show ?thesis using 4 by linarith
  qed
qed

lemma root_session_inj:
  assumes "root_session c t m = root_session c' t' m'"
  shows "c = c' \<and> t = t' \<and> m = m'"
proof -
  have l: "lit ''-t'' = [45, 116]" "lit ''-r'' = [45, 114]" by (simp_all add: lit_def)
  show ?thesis
    using assms show_int_inj
    by (cases t; cases t') (auto simp: root_session_def l dest!: show_int_sep)
qed

text \<open>A topic's root is never the key of a direct chat.\<close>

lemma root_session_not_chat: "root_session c t m \<noteq> show_int c'"
proof
  assume e: "root_session c t m = show_int c'"
  have "114 \<in> set (root_session c t m)"
    by (cases t) (simp_all add: root_session_def lit_def)
  moreover have "114 \<notin> set (show_int c')"
    using show_nat_digits[of 114] by (auto simp: show_int_def is_digit_c_def)
  ultimately show False using e by simp
qed

section \<open>The thread table keeps to valid keys\<close>





section \<open>Authorization\<close>










end
