(* ===== verification/Gateway.thy ===== *)
theory Gateway
  imports Telegram_Inbound Trigger "HOL-Library.AList"
begin

text \<open>
  The trigger gateway (\<open>dotagent/src/gateway/mod.rs\<close>, and the loop of \<open>worker.rs\<close>): admission by
  one supervisor, one worker per conversation, retirement of idle workers, shutdown.  The state is
  the supervisor's map, the workers with the channel each of them reads, the local rate limiter
  and the two shutdown signals; an action is one critical section of the program (a submit under
  the map's mutex, one turn of a worker's loop), so every interleaving of the tasks is a sequence
  of actions.  What a run does is theory Gateway_Worker.

  A worker's \<open>select!\<close> polls its receiver first, but the poll and the firing of a later branch are
  separate moments, so the idle and the shutdown branch may find a job that arrived in between.
  The worker keeps a sender of its own channel, so \<open>recv\<close> never answers \<open>None\<close>.
\<close>

section \<open>State\<close>

definition submit_channel_depth :: nat where "submit_channel_depth = 64"
definition worker_queue_depth :: nat where "worker_queue_depth = 64"

record gateway_config =
  gc_max_sessions :: nat
  gc_local_rate :: nat
  gc_idle_timeout_ms :: nat

definition default_gateway :: gateway_config where
  "default_gateway = \<lparr> gc_max_sessions = 4, gc_local_rate = 30, gc_idle_timeout_ms = 30000 \<rparr>"

datatype submit_rejected =
  RateLimited nat | CapExceeded nat nat | InvalidSessionId | QueueFull nat | Unavailable

fun reason :: "submit_rejected \<Rightarrow> rstr" where
  "reason (RateLimited _) = lit ''rate limit exceeded''"
| "reason (CapExceeded _ _) = lit ''session cap reached''"
| "reason InvalidSessionId = lit ''invalid session id''"
| "reason (QueueFull _) = lit ''conversation queue full''"
| "reason Unavailable = lit ''gateway unavailable''"

record submit_accepted =
  sa_conversation :: conversation_key
  sa_active_sessions :: nat
  sa_queued_behind :: nat

text \<open>A job is the request and the sink that travels with it.\<close>

record job =
  jb_req :: trigger_request
  jb_sink :: nat

datatype phase = Waiting | Running job | Draining | DrainRunning job | Gone

text \<open>The worker and its channel: the jobs in it and whether the receiver is open.\<close>

record worker =
  wk_key :: conversation_key
  wk_phase :: phase
  wk_queue :: "job list"
  wk_open :: bool

text \<open>A slot's sender is the number of the worker that reads the channel.\<close>

record slot =
  sl_tx :: nat
  sl_retiring :: bool

datatype gw_event =
  Logged audit_event
| SinkStarted nat
| Accepted conversation_key job
| Took conversation_key job
| Dropped conversation_key "job list"
| WorkerDied nat

record gateway =
  gw_slots :: "(conversation_key \<times> slot) list"
  gw_workers :: "worker list"
  gw_limiter :: rate_limiter
  gw_stopping :: bool
  gw_stopped :: bool
  gw_force :: bool
  gw_trace :: "gw_event list"

definition gateway_start :: "gateway_config \<Rightarrow> gateway" where
  "gateway_start cfg = \<lparr> gw_slots = [], gw_workers = [], gw_limiter = limiter_new (gc_local_rate cfg),
     gw_stopping = False, gw_stopped = False, gw_force = False, gw_trace = [] \<rparr>"

definition gw_emit :: "gw_event \<Rightarrow> gateway \<Rightarrow> gateway" where
  "gw_emit e st = st\<lparr> gw_trace := gw_trace st @ [e] \<rparr>"

definition set_worker :: "nat \<Rightarrow> (worker \<Rightarrow> worker) \<Rightarrow> gateway \<Rightarrow> gateway" where
  "set_worker i g st = st\<lparr> gw_workers := (gw_workers st)[i := g (gw_workers st ! i)] \<rparr>"

section \<open>Admission\<close>

text \<open>What the outside contributes to one submit: the clock, whether there is an audit log and
  whether its two appends succeed, the hash of a rate-limit key, and whether the worker died
  between the lookup and the send.\<close>

record submit_outside =
  sb_now :: instant
  sb_audit :: bool
  sb_received_ok :: bool
  sb_rejected_ok :: bool
  sb_hash :: "rstr \<Rightarrow> int"
  sb_died :: bool

definition limiter_name :: "trigger_request \<Rightarrow> rstr" where
  "limiter_name req = (case tq_actor req of Some a \<Rightarrow> a
     | None \<Rightarrow> (case tq_session_id req of Some s \<Rightarrow> s
     | None \<Rightarrow> (case tq_reply_to req of Some r \<Rightarrow> r | None \<Rightarrow> lit ''default'')))"

definition limiter_key :: "submit_outside \<Rightarrow> trigger_request \<Rightarrow> int" where
  "limiter_key q req = sb_hash q (limiter_name req)"

definition actor_of :: "trigger_request \<Rightarrow> rstr" where
  "actor_of req = (case tq_actor req of Some a \<Rightarrow> a | None \<Rightarrow> [])"

definition reject :: "submit_outside \<Rightarrow> trigger_request \<Rightarrow> submit_rejected \<Rightarrow> gateway
    \<Rightarrow> (submit_rejected + submit_accepted) \<times> gateway" where
  "reject q req rejection st =
     (Inl rejection,
      if sb_audit q \<and> sb_rejected_ok q
      then gw_emit (Logged (TriggerRejected (show_source (tq_source req)) (actor_of req) (reason rejection))) st
      else st)"

definition record_received :: "submit_outside \<Rightarrow> trigger_request \<Rightarrow> gateway \<Rightarrow> bool \<times> gateway" where
  "record_received q req st =
     (if sb_audit q \<and> sb_received_ok q
      then (True, gw_emit (Logged (TriggerReceived (show_source (tq_source req)) (actor_of req)
              (case tq_reply_to req of Some r \<Rightarrow> r | None \<Rightarrow> []))) st)
      else (False, st))"

definition slot_of :: "gateway \<Rightarrow> conversation_key \<Rightarrow> slot option" where
  "slot_of st key = map_of (gw_slots st) key"

definition is_closed :: "gateway \<Rightarrow> nat \<Rightarrow> bool" where
  "is_closed st i = (\<not> wk_open (gw_workers st ! i))"

definition drop_slot :: "conversation_key \<Rightarrow> gateway \<Rightarrow> gateway" where
  "drop_slot key st = st\<lparr> gw_slots := AList.delete key (gw_slots st) \<rparr>"

text \<open>A worker that is gone has dropped its receiver, and with it what was queued.\<close>

definition end_worker :: "nat \<Rightarrow> gateway \<Rightarrow> gateway" where
  "end_worker i st = (let w = gw_workers st ! i
     in gw_emit (Dropped (wk_key w) (wk_queue w))
          (set_worker i (\<lambda>w. w\<lparr> wk_phase := Gone, wk_queue := [], wk_open := False \<rparr>) st))"

definition enqueue :: "submit_outside \<Rightarrow> job \<Rightarrow> nat \<Rightarrow> nat \<Rightarrow> gateway
    \<Rightarrow> (submit_rejected + submit_accepted) \<times> gateway" where
  "enqueue q j i queued_behind st = (
     let req = jb_req j; key = conversation_of req; active = length (gw_slots st)
     in if length (wk_queue (gw_workers st ! i)) \<ge> worker_queue_depth
        then reject q req (QueueFull worker_queue_depth) st
        else let st1 = gw_emit (SinkStarted (jb_sink j)) st
             in if sb_died q
                then reject q req Unavailable
                       (drop_slot key (end_worker i (gw_emit (WorkerDied i) st1)))
                else (Inr \<lparr> sa_conversation = key, sa_active_sessions = active,
                           sa_queued_behind = queued_behind \<rparr>,
                      gw_emit (Accepted key j)
                        (set_worker i (\<lambda>w. w\<lparr> wk_queue := wk_queue w @ [j] \<rparr>) st1)))"

definition fresh_worker :: "conversation_key \<Rightarrow> worker" where
  "fresh_worker key = \<lparr> wk_key = key, wk_phase = Waiting, wk_queue = [], wk_open = True \<rparr>"

definition spawn_worker :: "conversation_key \<Rightarrow> gateway \<Rightarrow> gateway" where
  "spawn_worker key st = st\<lparr>
     gw_slots := AList.update key \<lparr> sl_tx = length (gw_workers st), sl_retiring = False \<rparr> (gw_slots st),
     gw_workers := gw_workers st @ [fresh_worker key] \<rparr>"

definition heal :: "conversation_key \<Rightarrow> gateway \<Rightarrow> gateway" where
  "heal key st = (case slot_of st key of
     Some s \<Rightarrow> if is_closed st (sl_tx s) then drop_slot key st else st
   | None \<Rightarrow> st)"

definition route :: "gateway_config \<Rightarrow> submit_outside \<Rightarrow> job \<Rightarrow> gateway
    \<Rightarrow> (submit_rejected + submit_accepted) \<times> gateway" where
  "route cfg q j st = (
     let req = jb_req j; key = conversation_of req
     in if (case slot_of st key of Some s \<Rightarrow> sl_retiring s | None \<Rightarrow> False)
        then reject q req Unavailable st
        else let st1 = heal key st
             in case slot_of st1 key of
                  Some s \<Rightarrow> enqueue q j (sl_tx s) (length (wk_queue (gw_workers st1 ! sl_tx s))) st1
                | None \<Rightarrow>
                    if length (gw_slots st1) \<ge> gc_max_sessions cfg
                    then reject q req (CapExceeded (length (gw_slots st1)) (gc_max_sessions cfg)) st1
                    else enqueue q j (length (gw_workers st1)) 0 (spawn_worker key st1))"

definition handle_submit :: "gateway_config \<Rightarrow> submit_outside \<Rightarrow> job \<Rightarrow> gateway
    \<Rightarrow> (submit_rejected + submit_accepted) \<times> gateway" where
  "handle_submit cfg q j st = (
     let req = jb_req j
     in if gw_stopping st then reject q req Unavailable st
        else if (case tq_session_id req of Some sid \<Rightarrow> \<not> is_valid_session_id sid | None \<Rightarrow> False)
        then reject q req InvalidSessionId st
        else case (if tq_source req = FromLocal
                   then limiter_check_at (limiter_key q req) (sb_now q) (gw_limiter st)
                   else (True, gw_limiter st)) of
          (False, l) \<Rightarrow> reject q req (RateLimited (gc_local_rate cfg)) (st\<lparr> gw_limiter := l \<rparr>)
        | (True, l) \<Rightarrow>
            (case record_received q req (st\<lparr> gw_limiter := l \<rparr>) of
               (False, st1) \<Rightarrow> reject q req Unavailable st1
             | (True, st1) \<Rightarrow> route cfg q j st1))"

section \<open>The worker's loop\<close>

definition begin_retirement :: "nat \<Rightarrow> gateway \<Rightarrow> gateway" where
  "begin_retirement i st = (
     let key = wk_key (gw_workers st ! i);
         st1 = (case slot_of st key of
                  Some s \<Rightarrow> if sl_tx s = i
                     then st\<lparr> gw_slots := AList.update key (s\<lparr> sl_retiring := True \<rparr>) (gw_slots st) \<rparr> else st
                | None \<Rightarrow> st)
     in set_worker i (\<lambda>w. w\<lparr> wk_phase := Draining, wk_open := False \<rparr>) st1)"

definition finish_retirement :: "nat \<Rightarrow> gateway \<Rightarrow> gateway" where
  "finish_retirement i st = (
     let key = wk_key (gw_workers st ! i)
     in case slot_of st key of
          Some s \<Rightarrow> if sl_retiring s \<and> sl_tx s = i then drop_slot key st else st
        | None \<Rightarrow> st)"

definition take_job :: "nat \<Rightarrow> (job \<Rightarrow> phase) \<Rightarrow> gateway \<Rightarrow> gateway option" where
  "take_job i next_phase st = (let w = gw_workers st ! i in case wk_queue w of
     [] \<Rightarrow> None
   | j # js \<Rightarrow> Some (gw_emit (Took (wk_key w) j)
       (set_worker i (\<lambda>w. w\<lparr> wk_phase := next_phase j, wk_queue := js \<rparr>) st)))"

section \<open>Actions\<close>

datatype gw_label =
  Submit submit_outside job
| Take nat | IdleOut nat | StopIdle nat | Drain nat | Retire nat | Finish nat bool | Panic nat
| Shutdown | Stop | Force | AbortAll

fun actor_label :: "gw_label \<Rightarrow> nat option" where
  "actor_label (Take i) = Some i" | "actor_label (IdleOut i) = Some i"
| "actor_label (StopIdle i) = Some i" | "actor_label (Drain i) = Some i"
| "actor_label (Retire i) = Some i" | "actor_label (Finish i _) = Some i"
| "actor_label (Panic i) = Some i" | "actor_label _ = None"

definition phase_of :: "gateway \<Rightarrow> nat \<Rightarrow> phase" where
  "phase_of st i = (if i < length (gw_workers st) then wk_phase (gw_workers st ! i) else Gone)"

text \<open>\<open>Finish i forced\<close>: \<open>process\<close> returned, with \<open>ForcedShutdown\<close> when \<open>forced\<close>.\<close>

fun gw_exec :: "gateway_config \<Rightarrow> gw_label \<Rightarrow> gateway \<Rightarrow> gateway option" where
  "gw_exec cfg (Submit q j) st = (if gw_stopped st then None else Some (snd (handle_submit cfg q j st)))"
| "gw_exec cfg (Take i) st = (if phase_of st i = Waiting then take_job i Running st else None)"
| "gw_exec cfg (IdleOut i) st = (if phase_of st i = Waiting then Some (begin_retirement i st) else None)"
| "gw_exec cfg (StopIdle i) st =
     (if phase_of st i = Waiting \<and> (gw_stopping st \<or> gw_force st) then Some (end_worker i st) else None)"
| "gw_exec cfg (Drain i) st = (if phase_of st i = Draining then take_job i DrainRunning st else None)"
| "gw_exec cfg (Retire i) st =
     (if phase_of st i = Draining \<and> wk_queue (gw_workers st ! i) = []
      then Some (end_worker i (finish_retirement i st)) else None)"
| "gw_exec cfg (Finish i forced) st =
     (if forced \<and> \<not> gw_force st then None
      else case phase_of st i of
        Running _ \<Rightarrow> Some (if forced then end_worker i st
                          else set_worker i (\<lambda>w. w\<lparr> wk_phase := Waiting \<rparr>) st)
      | DrainRunning _ \<Rightarrow> Some (if forced then end_worker i (finish_retirement i st)
                               else set_worker i (\<lambda>w. w\<lparr> wk_phase := Draining \<rparr>) st)
      | _ \<Rightarrow> None)"
| "gw_exec cfg (Panic i) st =
     (if phase_of st i \<noteq> Gone then Some (end_worker i (gw_emit (WorkerDied i) st)) else None)"
| "gw_exec cfg Shutdown st = Some (st\<lparr> gw_stopping := True \<rparr>)"
| "gw_exec cfg Stop st = Some (st\<lparr> gw_stopping := True, gw_stopped := True, gw_slots := [] \<rparr>)"
| "gw_exec cfg Force st = (if gw_stopped st then Some (st\<lparr> gw_force := True \<rparr>) else None)"
| "gw_exec cfg AbortAll st = (if gw_force st then
     Some (fold end_worker (filter (\<lambda>i. phase_of st i \<noteq> Gone) [0..<length (gw_workers st)]) st) else None)"

inductive gw_reaches :: "gateway_config \<Rightarrow> gw_label list \<Rightarrow> gateway \<Rightarrow> bool" for cfg where
  gw_init: "gw_reaches cfg [] (gateway_start cfg)"
| gw_next: "gw_reaches cfg ls st \<Longrightarrow> gw_exec cfg l st = Some st' \<Longrightarrow> gw_reaches cfg (ls @ [l]) st'"

section \<open>The invariant\<close>

definition worker_ok :: "worker \<Rightarrow> bool" where
  "worker_ok w \<longleftrightarrow> length (wk_queue w) \<le> worker_queue_depth
     \<and> (case wk_phase w of Waiting \<Rightarrow> wk_open w | Running _ \<Rightarrow> wk_open w
        | Draining \<Rightarrow> \<not> wk_open w | DrainRunning _ \<Rightarrow> \<not> wk_open w
        | Gone \<Rightarrow> \<not> wk_open w \<and> wk_queue w = [])"

definition retiring_phase :: "phase \<Rightarrow> bool" where
  "retiring_phase p \<longleftrightarrow> (case p of Draining \<Rightarrow> True | DrainRunning _ \<Rightarrow> True | _ \<Rightarrow> False)"

definition live :: "gateway \<Rightarrow> nat \<Rightarrow> bool" where
  "live st i \<longleftrightarrow> phase_of st i \<noteq> Gone"

definition key_at :: "gateway \<Rightarrow> nat \<Rightarrow> conversation_key" where
  "key_at st i = wk_key (gw_workers st ! i)"

definition map_ok :: "gateway \<Rightarrow> bool" where
  "map_ok st \<longleftrightarrow> distinct (map fst (gw_slots st))
     \<and> (\<forall>k s. slot_of st k = Some s \<longrightarrow> sl_tx s < length (gw_workers st) \<and> key_at st (sl_tx s) = k)"

text \<open>Every live worker is the one its conversation's slot names, and the slot is marked retiring
  exactly while the worker drains.\<close>

definition owned :: "gateway \<Rightarrow> nat \<Rightarrow> bool" where
  "owned st i \<longleftrightarrow> (\<exists>s. slot_of st (key_at st i) = Some s \<and> sl_tx s = i
     \<and> (sl_retiring s \<longleftrightarrow> retiring_phase (phase_of st i)))"

definition gw_inv :: "gateway_config \<Rightarrow> gateway \<Rightarrow> bool" where
  "gw_inv cfg st \<longleftrightarrow> map_ok st \<and> length (gw_slots st) \<le> gc_max_sessions cfg
     \<and> list_all worker_ok (gw_workers st)
     \<and> (\<not> gw_stopped st \<longrightarrow> (\<forall>i. live st i \<longrightarrow> owned st i))
     \<and> (\<forall>i j. live st i \<longrightarrow> live st j \<longrightarrow> key_at st i = key_at st j \<longrightarrow> i = j)
     \<and> card {i. live st i} \<le> gc_max_sessions cfg
     \<and> (gw_stopped st \<longrightarrow> gw_stopping st)"

lemmas inv_defs = gw_inv_def map_ok_def owned_def slot_of_def live_def phase_of_def key_at_def

lemma gw_invI:
  assumes "map_ok st" "length (gw_slots st) \<le> gc_max_sessions cfg" "list_all worker_ok (gw_workers st)"
    and "\<And>i. \<not> gw_stopped st \<Longrightarrow> live st i \<Longrightarrow> owned st i"
    and "\<And>i j. live st i \<Longrightarrow> live st j \<Longrightarrow> key_at st i = key_at st j \<Longrightarrow> i = j"
    and "card {i. live st i} \<le> gc_max_sessions cfg" "gw_stopped st \<Longrightarrow> gw_stopping st"
  shows "gw_inv cfg st"
  unfolding gw_inv_def using assms by blast

lemma gw_invD:
  assumes "gw_inv cfg st"
  shows "map_ok st" "length (gw_slots st) \<le> gc_max_sessions cfg" "list_all worker_ok (gw_workers st)"
    and "\<not> gw_stopped st \<Longrightarrow> live st i \<Longrightarrow> owned st i"
    and "live st i \<Longrightarrow> live st j \<Longrightarrow> key_at st i = key_at st j \<Longrightarrow> i = j"
    and "card {i. live st i} \<le> gc_max_sessions cfg" "gw_stopped st \<Longrightarrow> gw_stopping st"
  using assms unfolding gw_inv_def by blast+

text \<open>The trace and the limiter are not part of it.\<close>

lemma gw_view_cong:
  assumes "gw_slots st' = gw_slots st" "gw_workers st' = gw_workers st"
  shows "slot_of st' = slot_of st" "phase_of st' = phase_of st" "live st' = live st"
    "key_at st' = key_at st" "is_closed st' = is_closed st" "map_ok st' = map_ok st" "owned st' = owned st"
proof -
  show *: "slot_of st' = slot_of st" "phase_of st' = phase_of st" "key_at st' = key_at st"
    "is_closed st' = is_closed st"
    unfolding slot_of_def phase_of_def key_at_def is_closed_def fun_eq_iff assms by (rule allI, rule refl)+
  show "live st' = live st" unfolding live_def * by (rule refl)
  show "map_ok st' = map_ok st" unfolding map_ok_def * assms by (rule refl)
  show "owned st' = owned st" unfolding owned_def * fun_eq_iff by (rule allI, rule refl)
qed

lemma gw_inv_cong:
  assumes "gw_slots st' = gw_slots st" "gw_workers st' = gw_workers st"
    and "gw_stopped st' = gw_stopped st" "gw_stopping st' = gw_stopping st"
  shows "gw_inv cfg st' = gw_inv cfg st"
  unfolding gw_inv_def gw_view_cong[OF assms(1,2)] assms by (rule refl)

lemma gw_inv_emit [simp]: "gw_inv cfg (gw_emit e st) = gw_inv cfg st"
  by (rule gw_inv_cong) (simp_all add: gw_emit_def)

lemma gw_inv_limiter [simp]: "gw_inv cfg (st\<lparr> gw_limiter := l \<rparr>) = gw_inv cfg st"
  by (rule gw_inv_cong) simp_all

lemma gw_emit_fields [simp]:
  "gw_slots (gw_emit e st) = gw_slots st" "gw_workers (gw_emit e st) = gw_workers st"
  "gw_stopped (gw_emit e st) = gw_stopped st" "gw_stopping (gw_emit e st) = gw_stopping st"
  "gw_force (gw_emit e st) = gw_force st" "gw_trace (gw_emit e st) = gw_trace st @ [e]"
  by (simp_all add: gw_emit_def)

lemmas emit_views [simp] = gw_view_cong(1-5)[OF gw_emit_fields(1,2)]

lemma live_bound: "live st i \<Longrightarrow> i < length (gw_workers st)"
  by (auto simp: live_def phase_of_def split: if_splits)

lemma finite_live [simp]: "finite {i. live st i}"
proof (rule finite_subset)
  show "{i. live st i} \<subseteq> {..<length (gw_workers st)}" by (auto dest: live_bound)
qed simp

text \<open>A change that brings no worker to life keeps everything that is about live workers.\<close>

lemma gw_inv_shrink:
  assumes "gw_inv cfg st" "map_ok st'" "length (gw_slots st') \<le> gc_max_sessions cfg"
    and "list_all worker_ok (gw_workers st')"
    and "\<And>i. live st' i \<Longrightarrow> live st i \<and> key_at st' i = key_at st i"
    and "\<And>i. \<not> gw_stopped st' \<Longrightarrow> live st' i \<Longrightarrow> owned st' i"
    and "gw_stopped st' \<Longrightarrow> gw_stopping st'"
  shows "gw_inv cfg st'"
proof (rule gw_invI)
  show "i = j" if "live st' i" "live st' j" "key_at st' i = key_at st' j" for i j
    using that gw_invD(5)[OF assms(1)] assms(5) by metis
  have "card {i. live st' i} \<le> card {i. live st i}" using assms(5) by (intro card_mono) auto
  then show "card {i. live st' i} \<le> gc_max_sessions cfg" using gw_invD(6)[OF assms(1)] by simp
qed (use assms in auto)

lemma slot_of_delete: "slot_of (drop_slot k st) k' = (if k' = k then None else slot_of st k')"
  by (simp add: slot_of_def drop_slot_def AList.delete_conv')

lemma drop_slot_fields [simp]:
  "gw_workers (drop_slot k st) = gw_workers st" "gw_stopped (drop_slot k st) = gw_stopped st"
  "gw_stopping (drop_slot k st) = gw_stopping st" "gw_force (drop_slot k st) = gw_force st"
  "gw_trace (drop_slot k st) = gw_trace st"
  by (simp_all add: drop_slot_def)

lemma drop_slot_views [simp]:
  "phase_of (drop_slot k st) = phase_of st" "live (drop_slot k st) = live st"
  "key_at (drop_slot k st) = key_at st" "is_closed (drop_slot k st) = is_closed st"
  by (simp_all add: phase_of_def live_def key_at_def is_closed_def fun_eq_iff)

text \<open>Dropping the slot of a conversation nobody serves.\<close>

lemma drop_slot_inv:
  assumes "gw_inv cfg st" "\<And>i. \<not> gw_stopped st \<Longrightarrow> live st i \<Longrightarrow> key_at st i \<noteq> k"
  shows "gw_inv cfg (drop_slot k st)"
proof (rule gw_inv_shrink[OF assms(1)])
  show "map_ok (drop_slot k st)"
    using gw_invD(1)[OF assms(1)]
    by (auto simp: map_ok_def slot_of_delete drop_slot_def[of k st] distinct_delete key_at_def
        AList.delete_conv' slot_of_def split: if_splits)
  show "length (gw_slots (drop_slot k st)) \<le> gc_max_sessions cfg"
    using gw_invD(2)[OF assms(1)] length_delete_le[of k "gw_slots st"] by (simp add: drop_slot_def)
  show "owned (drop_slot k st) i" if "\<not> gw_stopped (drop_slot k st)" "live (drop_slot k st) i" for i
    using that assms gw_invD(4)[OF assms(1), of i] by (auto simp: owned_def slot_of_delete)
qed (use gw_invD[OF assms(1)] in auto)

text \<open>A worker changing its phase or queue, with its key and everybody else untouched.\<close>

lemma set_worker_fields [simp]:
  "gw_slots (set_worker i g st) = gw_slots st" "gw_stopped (set_worker i g st) = gw_stopped st"
  "gw_stopping (set_worker i g st) = gw_stopping st" "gw_force (set_worker i g st) = gw_force st"
  "gw_trace (set_worker i g st) = gw_trace st" "slot_of (set_worker i g st) = slot_of st"
  "length (gw_workers (set_worker i g st)) = length (gw_workers st)"
  by (simp_all add: set_worker_def slot_of_def fun_eq_iff)

lemma set_worker_nth:
  "i < length (gw_workers st) \<Longrightarrow> gw_workers (set_worker i g st) ! j
     = (if j = i then g (gw_workers st ! i) else gw_workers st ! j)"
  by (simp add: set_worker_def nth_list_update)

lemma set_worker_views:
  assumes "i < length (gw_workers st)"
  shows "phase_of (set_worker i g st) j = (if j = i then wk_phase (g (gw_workers st ! i)) else phase_of st j)"
    and "wk_key (g (gw_workers st ! i)) = wk_key (gw_workers st ! i) \<Longrightarrow> key_at (set_worker i g st) j = key_at st j"
  using assms by (auto simp: phase_of_def key_at_def set_worker_nth)

lemma set_worker_inv:
  assumes "gw_inv cfg st" "live st i"
    and "wk_key (g (gw_workers st ! i)) = wk_key (gw_workers st ! i)" "worker_ok (g (gw_workers st ! i))"
    and "wk_phase (g (gw_workers st ! i)) = Gone
      \<or> retiring_phase (wk_phase (g (gw_workers st ! i))) = retiring_phase (phase_of st i)"
  shows "gw_inv cfg (set_worker i g st)"
proof (rule gw_inv_shrink[OF assms(1)])
  have i: "i < length (gw_workers st)" using live_bound[OF assms(2)] .
  note views = set_worker_views[OF i]
  show "map_ok (set_worker i g st)"
    using gw_invD(1)[OF assms(1)] views(2)[of g, OF assms(3)] by (simp add: map_ok_def)
  show "list_all worker_ok (gw_workers (set_worker i g st))"
    using gw_invD(3)[OF assms(1)] assms(4)
    by (auto simp: set_worker_def list_all_iff dest: set_update_subset_insert[THEN subsetD])
  show "live st j \<and> key_at (set_worker i g st) j = key_at st j" if "live (set_worker i g st) j" for j
    using that assms(2) views(2)[of g, OF assms(3)] by (auto simp: live_def views(1) split: if_splits)
  show "owned (set_worker i g st) j" if "\<not> gw_stopped (set_worker i g st)" "live (set_worker i g st) j" for j
    using that assms(2,5) gw_invD(4)[OF assms(1), of j] views(2)[of g, OF assms(3)]
    by (auto simp: owned_def live_def views(1) split: if_splits)
qed (use gw_invD[OF assms(1)] in auto)

lemma end_worker_inv: "gw_inv cfg st \<Longrightarrow> live st i \<Longrightarrow> gw_inv cfg (end_worker i st)"
  unfolding end_worker_def Let_def gw_inv_emit
  by (rule set_worker_inv) (simp_all add: worker_ok_def worker_queue_depth_def)

subsection \<open>The worker's actions\<close>

lemma live_phase: "live st i \<Longrightarrow> phase_of st i = wk_phase (gw_workers st ! i)"
  by (auto simp: live_def phase_of_def split: if_splits)

lemma worker_ok_at: "gw_inv cfg st \<Longrightarrow> live st i \<Longrightarrow> worker_ok (gw_workers st ! i)"
  using gw_invD(3) live_bound by (metis list_all_length)

lemma take_job_inv:
  assumes "gw_inv cfg st" "live st i" "take_job i g st = Some st'"
    and "\<And>j. g j \<noteq> Gone" "\<And>j. retiring_phase (g j) = retiring_phase (phase_of st i)"
  shows "gw_inv cfg st'"
proof -
  obtain j js' where q: "wk_queue (gw_workers st ! i) = j # js'"
    "st' = gw_emit (Took (key_at st i) j)
       (set_worker i (\<lambda>w. w\<lparr> wk_phase := g j, wk_queue := js' \<rparr>) st)"
    using assms(3) by (auto simp: take_job_def key_at_def Let_def split: list.splits)
  have "worker_ok ((gw_workers st ! i)\<lparr> wk_phase := g j, wk_queue := js' \<rparr>)"
    using worker_ok_at[OF assms(1,2)] assms(4,5)[of j] q(1) live_phase[OF assms(2)]
    by (auto simp: worker_ok_def retiring_phase_def split: phase.splits)
  then show ?thesis unfolding q(2) gw_inv_emit
    using assms(5) by (intro set_worker_inv[OF assms(1,2)]) simp_all
qed

lemma begin_retirement_inv:
  assumes "gw_inv cfg st" "phase_of st i = Waiting"
  shows "gw_inv cfg (begin_retirement i st)"
proof (rule gw_inv_shrink[OF assms(1)])
  let ?k = "key_at st i" and ?st = "begin_retirement i st"
  let ?g = "\<lambda>w. w\<lparr> wk_phase := Draining, wk_open := False \<rparr>"
  have lv: "live st i" using assms(2) by (simp add: live_def)
  note i = live_bound[OF lv]
  define st1 where "st1 = (case slot_of st ?k of
      Some s \<Rightarrow> if sl_tx s = i
        then st\<lparr> gw_slots := AList.update ?k (s\<lparr> sl_retiring := True \<rparr>) (gw_slots st) \<rparr> else st
    | None \<Rightarrow> st)"
  have st: "?st = set_worker i ?g st1" unfolding st1_def key_at_def begin_retirement_def Let_def by (rule refl)
  have w1: "gw_workers st1 = gw_workers st" "gw_stopped st1 = gw_stopped st" "gw_stopping st1 = gw_stopping st"
    by (auto simp: st1_def split: option.splits)
  have views: "phase_of ?st j = (if j = i then Draining else phase_of st j)" "key_at ?st j = key_at st j" for j
    using set_worker_views[of i st1 ?g j] i w1 unfolding st by (simp_all add: phase_of_def key_at_def)
  have slots: "slot_of ?st k = (case slot_of st k of
      Some s \<Rightarrow> Some (if k = ?k \<and> sl_tx s = i then s\<lparr> sl_retiring := True \<rparr> else s) | None \<Rightarrow> None)" for k
    unfolding st by (auto simp: st1_def slot_of_def map_of_update split: option.splits)
  have len: "length (gw_workers ?st) = length (gw_workers st)" unfolding st using w1 by simp
  have d: "distinct (map fst (gw_slots ?st))" and l: "length (gw_slots ?st) = length (gw_slots st)"
  proof -
    have "distinct (map fst (gw_slots st))" using gw_invD(1)[OF assms(1)] by (simp add: map_ok_def)
    then show "distinct (map fst (gw_slots ?st))"
      unfolding st by (auto simp: st1_def distinct_update split: option.splits)
    have "k \<in> fst ` set (gw_slots st)" if "slot_of st k = Some s" for k s
      using that map_of_SomeD by (force simp: slot_of_def)
    then show "length (gw_slots ?st) = length (gw_slots st)"
      unfolding st by (auto simp: st1_def length_update split: option.splits)
  qed
  have mo: "slot_of st k = Some s \<Longrightarrow> sl_tx s < length (gw_workers st) \<and> key_at st (sl_tx s) = k" for k s
    using gw_invD(1)[OF assms(1)] by (simp add: map_ok_def)
  show "map_ok ?st"
    using d mo by (auto simp: map_ok_def slots len views(2) split: option.splits if_splits)
  show "length (gw_slots ?st) \<le> gc_max_sessions cfg" using gw_invD(2)[OF assms(1)] l by simp
  show "list_all worker_ok (gw_workers ?st)"
  proof -
    have "worker_ok (?g (gw_workers st ! i))"
      using worker_ok_at[OF assms(1) lv] live_phase[OF lv] assms(2) by (simp add: worker_ok_def)
    then show ?thesis using gw_invD(3)[OF assms(1)] unfolding st
      by (auto simp: set_worker_def w1 list_all_iff dest: set_update_subset_insert[THEN subsetD])
  qed
  show "live st j \<and> key_at ?st j = key_at st j" if "live ?st j" for j
    using that lv views by (auto simp: live_def split: if_splits)
  show "owned ?st j" if ns: "\<not> gw_stopped ?st" and lj: "live ?st j" for j
  proof -
    have "\<not> gw_stopped st" using ns w1 by (simp add: st)
    moreover have "live st j" using lj lv views by (auto simp: live_def split: if_splits)
    ultimately have "owned st j" using gw_invD(4)[OF assms(1)] by blast
    moreover have "key_at st j = ?k \<Longrightarrow> live st j \<Longrightarrow> j = i"
      using gw_invD(5)[OF assms(1) _ lv] by blast
    ultimately show ?thesis using \<open>live st j\<close>
      by (auto simp: owned_def slots views retiring_phase_def)
  qed
  show "gw_stopped ?st \<Longrightarrow> gw_stopping ?st"
    using gw_invD(7)[OF assms(1)] w1 by (simp add: st)
qed

text \<open>The end of a worker and the removal of its slot commute.\<close>

lemma end_drop: "end_worker i (drop_slot k st) = drop_slot k (end_worker i st)"
  by (simp add: end_worker_def drop_slot_def set_worker_def gw_emit_def Let_def)

lemma end_worker_views:
  assumes "live st i"
  shows "live (end_worker i st) j \<longleftrightarrow> live st j \<and> j \<noteq> i" "key_at (end_worker i st) j = key_at st j"
    "slot_of (end_worker i st) = slot_of st" "gw_stopped (end_worker i st) = gw_stopped st"
  using live_bound[OF assms] by (simp_all add: end_worker_def Let_def live_def set_worker_views)

lemma finish_end_inv:
  assumes "gw_inv cfg st" "live st i"
  shows "gw_inv cfg (end_worker i (finish_retirement i st))"
proof (cases "\<exists>s. slot_of st (key_at st i) = Some s \<and> sl_retiring s \<and> sl_tx s = i")
  case True
  then have "end_worker i (finish_retirement i st) = drop_slot (key_at st i) (end_worker i st)"
    by (auto simp: finish_retirement_def key_at_def end_drop)
  moreover have "key_at st j \<noteq> key_at st i" if "live st j" "j \<noteq> i" for j
    using that gw_invD(5)[OF assms(1) _ assms(2)] by blast
  ultimately show ?thesis
    using end_worker_inv[OF assms] end_worker_views[OF assms(2)] by (auto intro!: drop_slot_inv)
next
  case False
  then have "finish_retirement i st = st"
    by (auto simp: finish_retirement_def key_at_def Let_def split: option.splits)
  then show ?thesis using end_worker_inv[OF assms] by simp
qed

subsection \<open>Admission\<close>

text \<open>As long as the supervisor runs, live workers and slots correspond, so the cap on slots bounds
  the workers.\<close>

lemma card_live_slots:
  assumes "gw_inv cfg st" "\<not> gw_stopped st"
  shows "card {i. live st i} \<le> length (gw_slots st)"
proof -
  have "inj_on (key_at st) {i. live st i}"
    using gw_invD(5)[OF assms(1)] by (auto intro: inj_onI)
  moreover have "key_at st ` {i. live st i} \<subseteq> set (map fst (gw_slots st))"
  proof
    fix k assume "k \<in> key_at st ` {i. live st i}"
    then obtain s where "slot_of st k = Some s"
      using gw_invD(4)[OF assms] by (auto simp: owned_def)
    then show "k \<in> set (map fst (gw_slots st))"
      using map_of_SomeD by (force simp: slot_of_def)
  qed
  ultimately have "card {i. live st i} \<le> card (set (map fst (gw_slots st)))"
    by (intro card_inj_on_le) auto
  also have "\<dots> \<le> length (gw_slots st)" using card_length by (metis length_map)
  finally show ?thesis .
qed

lemma spawn_views:
  "slot_of (spawn_worker k st) k' = (if k' = k then Some \<lparr> sl_tx = length (gw_workers st), sl_retiring = False \<rparr>
     else slot_of st k')"
  "phase_of (spawn_worker k st) i = (if i = length (gw_workers st) then Waiting else phase_of st i)"
  "live (spawn_worker k st) i \<longleftrightarrow> i = length (gw_workers st) \<or> live st i"
  "i < length (gw_workers st) \<Longrightarrow> key_at (spawn_worker k st) i = key_at st i"
  "key_at (spawn_worker k st) (length (gw_workers st)) = k"
  "gw_stopped (spawn_worker k st) = gw_stopped st" "gw_stopping (spawn_worker k st) = gw_stopping st"
  "gw_trace (spawn_worker k st) = gw_trace st"
  by (auto simp: spawn_worker_def slot_of_def map_of_update phase_of_def live_def key_at_def
      fresh_worker_def nth_append)

lemma spawn_inv:
  assumes "gw_inv cfg st" "\<not> gw_stopped st" "slot_of st k = None" "length (gw_slots st) < gc_max_sessions cfg"
  shows "gw_inv cfg (spawn_worker k st)"
proof (rule gw_invI)
  let ?n = "length (gw_workers st)" and ?st = "spawn_worker k st"
  have new: "k \<notin> fst ` set (gw_slots st)" using assms(3) by (simp add: slot_of_def map_of_eq_None_iff)
  have old: "i < ?n \<and> key_at st i \<noteq> k" if "live st i" for i
    using gw_invD(4)[OF assms(1,2) that] assms(3) live_bound[OF that] by (auto simp: owned_def)
  note inv = gw_invD[OF assms(1)]
  show "map_ok ?st"
    unfolding map_ok_def
  proof (intro conjI allI impI)
    show "distinct (map fst (gw_slots ?st))"
      using inv(1) by (simp add: map_ok_def spawn_worker_def distinct_update)
    fix k' s assume s: "slot_of ?st k' = Some s"
    have b: "slot_of st k' = Some s \<Longrightarrow> sl_tx s < ?n \<and> key_at st (sl_tx s) = k'"
      using inv(1) by (simp add: map_ok_def)
    have n: "length (gw_workers ?st) = Suc ?n" by (simp add: spawn_worker_def)
    show "sl_tx s < length (gw_workers ?st)" "key_at ?st (sl_tx s) = k'"
      using s b unfolding n by (auto simp: spawn_views split: if_splits)
  qed
  show "length (gw_slots ?st) \<le> gc_max_sessions cfg"
    using assms(4) new by (simp add: spawn_worker_def length_update)
  show "list_all worker_ok (gw_workers ?st)"
    using inv(3) by (simp add: spawn_worker_def fresh_worker_def worker_ok_def)
  show "owned ?st i" if "\<not> gw_stopped ?st" "live ?st i" for i
    using that inv(4)[OF assms(2), of i] old[of i]
    by (auto simp: owned_def spawn_views retiring_phase_def)
  show "i = j" if "live ?st i" "live ?st j" "key_at ?st i = key_at ?st j" for i j
    using that inv(5)[of i j] old[of i] old[of j] by (auto simp: spawn_views)
  have "{i. live ?st i} = insert ?n {i. live st i}" by (auto simp: spawn_views)
  then have "card {i. live ?st i} \<le> Suc (card {i. live st i})" by (simp add: card_insert_le_m1 card_insert_if)
  also have "\<dots> \<le> gc_max_sessions cfg" using card_live_slots[OF assms(1,2)] assms(4) by simp
  finally show "card {i. live ?st i} \<le> gc_max_sessions cfg" .
  show "gw_stopped ?st \<Longrightarrow> gw_stopping ?st" using assms(2) by (simp add: spawn_views)
qed

lemma reject_snd:
  "gw_inv cfg (snd (reject q req e st)) = gw_inv cfg st"
  "gw_workers (snd (reject q req e st)) = gw_workers st" "gw_slots (snd (reject q req e st)) = gw_slots st"
  "gw_stopped (snd (reject q req e st)) = gw_stopped st"
  by (simp_all add: reject_def)

lemma enqueue_inv:
  assumes "gw_inv cfg st" "live st i" "\<not> retiring_phase (phase_of st i)"
    and "key_at st i = conversation_of (jb_req j)"
  shows "gw_inv cfg (snd (enqueue q j i n st))"
proof -
  let ?req = "jb_req j" and ?e = "gw_emit (SinkStarted (jb_sink j)) st"
  have e: "gw_inv cfg ?e" "live ?e i" using assms by simp_all
  have died: "gw_inv cfg (drop_slot (conversation_of ?req) (end_worker i (gw_emit (WorkerDied i) ?e)))"
  proof (rule drop_slot_inv)
    show "gw_inv cfg (end_worker i (gw_emit (WorkerDied i) ?e))"
      using e by (intro end_worker_inv) simp_all
    show "key_at (end_worker i (gw_emit (WorkerDied i) ?e)) m \<noteq> conversation_of ?req"
      if "live (end_worker i (gw_emit (WorkerDied i) ?e)) m" for m
      using that e(2) assms(2,4) gw_invD(5)[OF assms(1), of m i] end_worker_views[of "gw_emit (WorkerDied i) ?e" i]
      by auto
  qed
  have push: "gw_inv cfg (set_worker i (\<lambda>w. w\<lparr> wk_queue := wk_queue w @ [j] \<rparr>) ?e)"
    if "\<not> worker_queue_depth \<le> length (wk_queue (gw_workers st ! i))"
    using that worker_ok_at[OF assms(1,2)] live_phase[OF assms(2)] assms(2,3)
    by (intro set_worker_inv[OF e]) (auto simp: worker_ok_def live_def retiring_phase_def split: phase.splits)
  show ?thesis
    using assms(1) died push by (simp add: enqueue_def Let_def reject_snd)
qed

lemma open_slot_live:
  assumes "gw_inv cfg st" "slot_of st k = Some s" "\<not> is_closed st (sl_tx s)"
  shows "live st (sl_tx s) \<and> \<not> retiring_phase (phase_of st (sl_tx s)) \<and> key_at st (sl_tx s) = k"
proof -
  have b: "sl_tx s < length (gw_workers st)" "key_at st (sl_tx s) = k"
    using gw_invD(1)[OF assms(1)] assms(2) by (auto simp: map_ok_def)
  then have "worker_ok (gw_workers st ! sl_tx s)" using gw_invD(3)[OF assms(1)] by (simp add: list_all_length)
  then show ?thesis using b assms(3)
    by (auto simp: is_closed_def worker_ok_def live_def phase_of_def retiring_phase_def split: phase.splits)
qed

lemma heal_inv:
  assumes "gw_inv cfg st" "\<not> gw_stopped st" "\<And>s. slot_of st k = Some s \<Longrightarrow> \<not> sl_retiring s"
  shows "gw_inv cfg (heal k st)" "gw_stopped (heal k st) = gw_stopped st"
    and "slot_of (heal k st) k = Some s \<Longrightarrow> \<not> is_closed (heal k st) (sl_tx s)"
proof -
  have "gw_inv cfg (drop_slot k st)" if s: "slot_of st k = Some s" "is_closed st (sl_tx s)" for s
  proof (rule drop_slot_inv[OF assms(1)])
    fix i assume lv: "live st i"
    show "key_at st i \<noteq> k"
    proof
      assume "key_at st i = k"
      then have "sl_tx s = i" "\<not> retiring_phase (phase_of st i)"
        using gw_invD(4)[OF assms(1,2) lv] s(1) assms(3)[OF s(1)] by (auto simp: owned_def)
      then show False
        using s(2) worker_ok_at[OF assms(1) lv] live_phase[OF lv] lv
        by (auto simp: is_closed_def worker_ok_def retiring_phase_def live_def split: phase.splits)
    qed
  qed
  then show "gw_inv cfg (heal k st)" using assms(1) by (auto simp: heal_def split: option.splits)
  show "gw_stopped (heal k st) = gw_stopped st" by (auto simp: heal_def split: option.splits)
  show "slot_of (heal k st) k = Some s \<Longrightarrow> \<not> is_closed (heal k st) (sl_tx s)"
    by (auto simp: heal_def slot_of_delete split: option.splits if_splits)
qed

lemma route_inv:
  assumes "gw_inv cfg st" "\<not> gw_stopped st"
  shows "gw_inv cfg (snd (route cfg q j st))"
proof -
  let ?k = "conversation_of (jb_req j)"
  define st1 where "st1 = heal ?k st"
  show ?thesis
  proof (cases "case slot_of st ?k of Some s \<Rightarrow> sl_retiring s | None \<Rightarrow> False")
    case True
    then show ?thesis using assms(1) by (simp add: route_def Let_def reject_snd)
  next
    case False
    then have nr: "slot_of st ?k = Some s \<Longrightarrow> \<not> sl_retiring s" for s by simp
    have h: "gw_inv cfg st1" "gw_stopped st1 = gw_stopped st"
      "slot_of st1 ?k = Some s \<Longrightarrow> \<not> is_closed st1 (sl_tx s)" for s
      using heal_inv[OF assms nr] unfolding st1_def by blast+
    have route: "route cfg q j st = (case slot_of st1 ?k of
        Some s \<Rightarrow> enqueue q j (sl_tx s) (length (wk_queue (gw_workers st1 ! sl_tx s))) st1
      | None \<Rightarrow> if length (gw_slots st1) \<ge> gc_max_sessions cfg
          then reject q (jb_req j) (CapExceeded (length (gw_slots st1)) (gc_max_sessions cfg)) st1
          else enqueue q j (length (gw_workers st1)) 0 (spawn_worker ?k st1))"
      unfolding route_def Let_def st1_def if_not_P[OF False] by (rule refl)
    show ?thesis
    proof (cases "slot_of st1 ?k")
      case (Some s)
      note o' = open_slot_live[OF h(1) Some h(3)[OF Some]]
      show ?thesis unfolding route Some using o' h(1) by (simp add: enqueue_inv)
    next
      case None
      have ns: "\<not> gw_stopped st1" using assms(2) h(2) by simp
      show ?thesis
      proof (cases "length (gw_slots st1) \<ge> gc_max_sessions cfg")
        case True
        then show ?thesis unfolding route None using h(1) by (simp add: reject_snd)
      next
        case False
        have "gw_inv cfg (spawn_worker ?k st1)" using False by (intro spawn_inv[OF h(1) ns None]) simp
        then show ?thesis unfolding route None using False
          by (simp add: enqueue_inv spawn_views retiring_phase_def)
      qed
    qed
  qed
qed

lemma handle_submit_cases:
  obtains e where "handle_submit cfg q j st = reject q (jb_req j) e st"
  | e l where "handle_submit cfg q j st = reject q (jb_req j) e (st\<lparr> gw_limiter := l \<rparr>)"
  | l where "handle_submit cfg q j st
      = route cfg q j (snd (record_received q (jb_req j) (st\<lparr> gw_limiter := l \<rparr>)))"
      "\<not> gw_stopping st" "fst (record_received q (jb_req j) (st\<lparr> gw_limiter := l \<rparr>))"
proof -
  obtain ok l where l: "(if tq_source (jb_req j) = FromLocal
      then limiter_check_at (limiter_key q (jb_req j)) (sb_now q) (gw_limiter st)
      else (True, gw_limiter st)) = (ok, l)" by fastforce
  let ?st = "st\<lparr> gw_limiter := l \<rparr>"
  obtain r st1 where r: "record_received q (jb_req j) ?st = (r, st1)" by fastforce
  have s: "\<not> r \<Longrightarrow> st1 = ?st" using r by (auto simp: record_received_def split: if_splits)
  let ?bad = "case tq_session_id (jb_req j) of Some sid \<Rightarrow> \<not> is_valid_session_id sid | None \<Rightarrow> False"
  have eq: "handle_submit cfg q j st =
    (if gw_stopping st then reject q (jb_req j) Unavailable st
     else if ?bad then reject q (jb_req j) InvalidSessionId st
     else if \<not> ok then reject q (jb_req j) (RateLimited (gc_local_rate cfg)) ?st
     else if \<not> r then reject q (jb_req j) Unavailable st1 else route cfg q j st1)"
    unfolding handle_submit_def Let_def l by (cases ok; cases r) (auto simp: r)
  consider "gw_stopping st" | "\<not> gw_stopping st" ?bad | "\<not> gw_stopping st" "\<not> ?bad" "\<not> ok"
    | "\<not> gw_stopping st" "\<not> ?bad" ok "\<not> r" | "\<not> gw_stopping st" "\<not> ?bad" ok r by blast
  then show thesis
  proof cases
    case 1 then show ?thesis using that(1)[of Unavailable] eq by simp
  next
    case 2 then show ?thesis using that(1)[of InvalidSessionId] eq by simp
  next
    case 3 then show ?thesis using that(2)[of "RateLimited (gc_local_rate cfg)" l] eq by simp
  next
    case 4 then show ?thesis using that(2)[of Unavailable l] eq s by simp
  next
    case 5 then show ?thesis using that(3)[of l] eq r by simp
  qed
qed

lemma handle_submit_inv:
  assumes "gw_inv cfg st" "\<not> gw_stopped st"
  shows "gw_inv cfg (snd (handle_submit cfg q j st))"
proof -
  have r: "gw_inv cfg (snd (record_received q (jb_req j) (st\<lparr> gw_limiter := l \<rparr>)))"
    "\<not> gw_stopped (snd (record_received q (jb_req j) (st\<lparr> gw_limiter := l \<rparr>)))" for l
    using assms by (auto simp: record_received_def)
  show ?thesis
    by (rule handle_submit_cases[of cfg q j st]) (use assms(1) r route_inv in \<open>simp_all add: reject_snd\<close>)
qed

subsection \<open>Every action\<close>

lemma end_workers_inv:
  "gw_inv cfg st \<Longrightarrow> distinct ns \<Longrightarrow> \<forall>i\<in>set ns. live st i \<Longrightarrow> gw_inv cfg (fold end_worker ns st)"
proof (induction ns arbitrary: st)
  case (Cons n ns)
  then have n: "live st n" by simp
  have "\<forall>i\<in>set ns. live (end_worker n st) i" using Cons.prems by (auto simp: end_worker_views[OF n])
  then show ?case using Cons end_worker_inv[OF Cons.prems(1) n] by simp
qed simp

lemma gw_exec_inv:
  assumes "gw_inv cfg st" "gw_exec cfg l st = Some st'"
  shows "gw_inv cfg st'"
proof (cases l)
  case (Submit q j)
  then show ?thesis using assms handle_submit_inv by (auto split: if_splits)
next
  case (Take i)
  then have t: "phase_of st i = Waiting" "take_job i Running st = Some st'"
    using assms(2) by (simp_all split: if_splits)
  show ?thesis
    by (rule take_job_inv[OF assms(1) _ t(2)]) (simp_all add: t(1) live_def retiring_phase_def)
next
  case (IdleOut i)
  then show ?thesis using assms begin_retirement_inv by (auto split: if_splits)
next
  case (StopIdle i)
  then show ?thesis using assms end_worker_inv by (auto simp: live_def split: if_splits)
next
  case (Drain i)
  then have t: "phase_of st i = Draining" "take_job i DrainRunning st = Some st'"
    using assms(2) by (simp_all split: if_splits)
  show ?thesis
    by (rule take_job_inv[OF assms(1) _ t(2)]) (simp_all add: t(1) live_def retiring_phase_def)
next
  case (Retire i)
  then show ?thesis using assms finish_end_inv by (auto simp: live_def split: if_splits)
next
  case (Finish i forced)
  have "gw_inv cfg (set_worker i (\<lambda>w. w\<lparr> wk_phase := p \<rparr>) st)"
    if "live st i" "p = Waiting \<and> (\<exists>j. phase_of st i = Running j) \<or> p = Draining \<and> (\<exists>j. phase_of st i = DrainRunning j)" for p
    using that worker_ok_at[OF assms(1) that(1)] live_phase[OF that(1)]
    by (intro set_worker_inv[OF assms(1)]) (auto simp: worker_ok_def retiring_phase_def)
  then show ?thesis using Finish assms end_worker_inv finish_end_inv
    by (auto simp: live_def split: if_splits phase.splits)
next
  case (Panic i)
  then show ?thesis using assms end_worker_inv[of cfg "gw_emit (WorkerDied i) st" i]
    by (auto simp: live_def split: if_splits)
next
  case Shutdown
  then have st': "st' = st\<lparr> gw_stopping := True \<rparr>" using assms(2) by simp
  have v: "gw_slots st' = gw_slots st" "gw_workers st' = gw_workers st" by (simp_all add: st')
  show ?thesis using gw_invD[OF assms(1)] gw_view_cong[OF v] v
    by (intro gw_invI) (simp_all add: st')
next
  case Stop
  then have st': "st' = st\<lparr> gw_stopping := True, gw_stopped := True, gw_slots := [] \<rparr>" using assms(2) by simp
  have v: "phase_of st' = phase_of st" "key_at st' = key_at st" "slot_of st' = Map.empty"
    by (simp_all add: st' phase_of_def key_at_def slot_of_def fun_eq_iff)
  show ?thesis
    by (rule gw_inv_shrink[OF assms(1)])
      (use gw_invD(3)[OF assms(1)] in \<open>simp_all add: map_ok_def live_def v, simp_all add: st'\<close>)
next
  case Force
  then have st': "st' = st\<lparr> gw_force := True \<rparr>" using assms(2) by (simp split: if_splits)
  show ?thesis unfolding st' using assms(1) by (subst gw_inv_cong) simp_all
next
  case AbortAll
  then show ?thesis using assms end_workers_inv[OF assms(1)]
    by (auto simp: live_def split: if_splits)
qed

lemma gw_start_inv: "gw_inv cfg (gateway_start cfg)"
  by (rule gw_invI) (simp_all add: gateway_start_def map_ok_def slot_of_def live_def phase_of_def)

lemma gw_reaches_inv: "gw_reaches cfg ls st \<Longrightarrow> gw_inv cfg st"
  by (induction rule: gw_reaches.induct) (auto intro: gw_start_inv gw_exec_inv)

fun exec_all :: "gateway_config \<Rightarrow> gw_label list \<Rightarrow> gateway \<Rightarrow> gateway option" where
  "exec_all cfg [] st = Some st"
| "exec_all cfg (l # ls) st = (case gw_exec cfg l st of None \<Rightarrow> None | Some st' \<Rightarrow> exec_all cfg ls st')"

lemma exec_all_reaches:
  "gw_reaches cfg past st \<Longrightarrow> exec_all cfg ls st = Some st' \<Longrightarrow> gw_reaches cfg (past @ ls) st'"
proof (induction ls arbitrary: past st)
  case (Cons l ls)
  then obtain st1 where "gw_exec cfg l st = Some st1" "exec_all cfg ls st1 = Some st'"
    by (auto split: option.splits)
  then show ?case using Cons.IH[of "past @ [l]" st1] Cons.prems(1) gw_next by force
qed simp

text \<open>A sample configuration of the outside, for runs one can compute: the requests carry no
  payload, every audit append succeeds and no worker dies during a submit.\<close>

definition sample_job :: "trigger_source \<Rightarrow> rstr \<Rightarrow> nat \<Rightarrow> job" where
  "sample_job src chat n = \<lparr> jb_req = \<lparr> tq_source = src, tq_agent = lit ''assistant'', tq_schedule = None,
     tq_args = [], tq_payload = None, tq_actor = Some chat, tq_reply_to = Some chat,
     tq_session_id = Some chat \<rparr>, jb_sink = n \<rparr>"

definition sample_outside :: submit_outside where
  "sample_outside = \<lparr> sb_now = 0, sb_audit = True, sb_received_ok = True, sb_rejected_ok = True,
     sb_hash = (\<lambda>_. 0), sb_died = False \<rparr>"

definition sample_submit :: "rstr \<Rightarrow> nat \<Rightarrow> gw_label" where
  "sample_submit chat n = Submit sample_outside (sample_job FromTelegram chat n)"

definition sample_state :: "gw_label list \<Rightarrow> gateway" where
  "sample_state ls = the (exec_all default_gateway ls (gateway_start default_gateway))"

lemmas gw_eval = sample_state_def sample_submit_def sample_job_def sample_outside_def default_gateway_def
  gateway_start_def handle_submit_def record_received_def route_def heal_def slot_of_def enqueue_def
  spawn_worker_def fresh_worker_def set_worker_def gw_emit_def conversation_of_def is_closed_def phase_of_def
  take_job_def begin_retirement_def finish_retirement_def end_worker_def drop_slot_def worker_queue_depth_def
  reject_def limiter_new_def live_def key_at_def Let_def

lemma sample_sessions [simp]: "is_valid_session_id [97]" "is_valid_session_id [98]"
  by code_simp+

lemma sample_reaches:
  assumes "exec_all default_gateway ls (gateway_start default_gateway) \<noteq> None"
  shows "gw_reaches default_gateway ls (sample_state ls)"
  using exec_all_reaches[OF gw_init, of default_gateway ls "sample_state ls"] assms
  by (simp add: sample_state_def)

text \<open>C25. Whatever the interleaving of submits, worker turns, panics and shutdown signals, the
  gateway runs a conversation serially: two workers that are still alive never serve the same
  conversation.  It runs at most \<open>max_sessions\<close> workers at a time and keeps at most that many
  slots, every queue holds at most 64 jobs, and until the supervisor stops, each worker alive is
  the one its conversation's slot names, with the slot marked retiring exactly while the worker
  drains.\<close>

theorem gateway_serializes:
  assumes "gw_reaches cfg ls st"
  shows "(live st i \<and> live st j \<and> key_at st i = key_at st j \<longrightarrow> i = j)
    \<and> card {i. live st i} \<le> gc_max_sessions cfg
    \<and> length (gw_slots st) \<le> gc_max_sessions cfg
    \<and> (i < length (gw_workers st) \<longrightarrow> length (wk_queue (gw_workers st ! i)) \<le> worker_queue_depth)
    \<and> (live st i \<and> \<not> gw_stopped st \<longrightarrow> (\<exists>s. slot_of st (key_at st i) = Some s \<and> sl_tx s = i
         \<and> (sl_retiring s \<longleftrightarrow> retiring_phase (phase_of st i))))"
proof -
  note inv = gw_invD[OF gw_reaches_inv[OF assms]]
  show ?thesis
    using inv(2,6) inv(3) inv(5)[of i j] inv(4)[of i]
    by (auto simp: list_all_length worker_ok_def owned_def)
qed

theorem gateway_serializes_witness:
  "live (sample_state [sample_submit [97] 1, Take 0, sample_submit [97] 2, sample_submit [98] 3]) 0
   \<and> live (sample_state [sample_submit [97] 1, Take 0, sample_submit [97] 2, sample_submit [98] 3]) 1
   \<and> key_at (sample_state [sample_submit [97] 1, Take 0, sample_submit [97] 2, sample_submit [98] 3]) 0
     \<noteq> key_at (sample_state [sample_submit [97] 1, Take 0, sample_submit [97] 2, sample_submit [98] 3]) 1
   \<and> length (gw_slots (sample_state [sample_submit [97] 1, Take 0, sample_submit [97] 2, sample_submit [98] 3]))
       \<le> gc_max_sessions default_gateway"
proof -
  let ?ls = "[sample_submit [97] 1, Take 0, sample_submit [97] 2, sample_submit [98] 3]"
  have "exec_all default_gateway ?ls (gateway_start default_gateway) \<noteq> None" by (simp add: gw_eval)
  from gateway_serializes[OF sample_reaches[OF this], of 0 1]
  have "length (gw_slots (sample_state ?ls)) \<le> gc_max_sessions default_gateway
    \<and> (live (sample_state ?ls) 0 \<and> live (sample_state ?ls) 1 \<longrightarrow> key_at (sample_state ?ls) 0 \<noteq> key_at (sample_state ?ls) 1)"
    by auto
  moreover have "live (sample_state ?ls) 0 \<and> live (sample_state ?ls) 1" by (simp add: gw_eval)
  ultimately show ?thesis by blast
qed

end
