(* ===== verification/Gateway_Runs.thy ===== *)
theory Gateway_Runs
  imports Gateway
begin

text \<open>
  What a run of the gateway keeps in order, what it may lose and how retirement ends: the jobs of
  a conversation leave its queue in the order they were accepted, none is lost unless a worker
  dies or the gateway is stopping, and a worker that began to drain is gone after a bounded number
  of its own steps.
\<close>

section \<open>Order and loss\<close>

fun accepted_in :: "conversation_key \<Rightarrow> gw_event \<Rightarrow> job list" where
  "accepted_in k (Accepted k' j) = (if k' = k then [j] else [])"
| "accepted_in k _ = []"

fun took_in :: "conversation_key \<Rightarrow> gw_event \<Rightarrow> job list" where
  "took_in k (Took k' j) = (if k' = k then [j] else [])"
| "took_in k _ = []"

fun dropped_in :: "conversation_key \<Rightarrow> gw_event \<Rightarrow> job list" where
  "dropped_in k (Dropped k' js) = (if k' = k then js else [])"
| "dropped_in k _ = []"

definition accepted_jobs :: "conversation_key \<Rightarrow> gateway \<Rightarrow> job list" where
  "accepted_jobs k st = concat (map (accepted_in k) (gw_trace st))"

definition taken_jobs :: "conversation_key \<Rightarrow> gateway \<Rightarrow> job list" where
  "taken_jobs k st = concat (map (took_in k) (gw_trace st))"

text \<open>What left the conversation's queue, run or dropped, in the order it left.\<close>

definition handled_jobs :: "conversation_key \<Rightarrow> gateway \<Rightarrow> job list" where
  "handled_jobs k st = concat (map (\<lambda>e. took_in k e @ dropped_in k e) (gw_trace st))"

definition pend :: "conversation_key \<Rightarrow> worker list \<Rightarrow> job list" where
  "pend k ws = concat (map wk_queue (filter (\<lambda>w. wk_key w = k) ws))"

definition fifo :: "gateway \<Rightarrow> bool" where
  "fifo st \<longleftrightarrow> (\<forall>k. accepted_jobs k st = handled_jobs k st @ pend k (gw_workers st))"

lemma pend_update:
  assumes "i < length ws" "wk_key w = wk_key (ws ! i)"
    and "\<And>j. j < length ws \<Longrightarrow> j \<noteq> i \<Longrightarrow> wk_key (ws ! j) = wk_key (ws ! i) \<Longrightarrow> wk_queue (ws ! j) = []"
  shows "pend k (ws[i := w]) = (if k = wk_key (ws ! i) then wk_queue w else pend k ws)"
proof (cases "k = wk_key (ws ! i)")
  case False
  have "filter (\<lambda>w. wk_key w = k) (take i ws @ x # drop (Suc i) ws)
      = filter (\<lambda>w. wk_key w = k) (take i ws @ drop (Suc i) ws)" if "wk_key x \<noteq> k" for x
    using that by simp
  from this[of w] this[of "ws ! i"]
  have "filter (\<lambda>w. wk_key w = k) (ws[i := w]) = filter (\<lambda>w. wk_key w = k) ws"
    using False assms(2) id_take_nth_drop[OF assms(1)] upd_conv_take_nth_drop[OF assms(1), of w] by simp
  then show ?thesis using False by (simp add: pend_def)
next
  case True
  have q: "x \<in> set (take i ws) \<union> set (drop (Suc i) ws) \<Longrightarrow> wk_key x = k \<Longrightarrow> wk_queue x = []" for x
  proof -
    assume "x \<in> set (take i ws) \<union> set (drop (Suc i) ws)" "wk_key x = k"
    moreover have "\<exists>j<length ws. j \<noteq> i \<and> x = ws ! j"
    proof (cases "x \<in> set (take i ws)")
      case True
      then obtain m where "m < length (take i ws)" "x = take i ws ! m" by (metis in_set_conv_nth)
      then show ?thesis by (intro exI[of _ m]) simp
    next
      case False
      then obtain m where "m < length (drop (Suc i) ws)" "x = drop (Suc i) ws ! m"
        using calculation(1) by (metis UnE in_set_conv_nth)
      then show ?thesis by (intro exI[of _ "Suc (i + m)"]) simp
    qed
    then obtain j where "j < length ws" "j \<noteq> i" "x = ws ! j" by blast
    ultimately show "wk_queue x = []" using assms(3) True by simp
  qed
  have "pend k (take i ws) = []" "pend k (drop (Suc i) ws) = []"
    using q by (auto simp: pend_def)
  moreover have "pend k (ws[i := w]) = pend k (take i ws) @ (if wk_key w = k then wk_queue w else [])
      @ pend k (drop (Suc i) ws)"
    by (simp add: pend_def upd_conv_take_nth_drop[OF assms(1)])
  ultimately show ?thesis using True assms(2) by simp
qed

lemma others_empty:
  assumes "gw_inv cfg st" "live st i" "j < length (gw_workers st)" "j \<noteq> i"
    and "wk_key (gw_workers st ! j) = wk_key (gw_workers st ! i)"
  shows "wk_queue (gw_workers st ! j) = []"
proof -
  have "\<not> live st j"
    using gw_invD(5)[OF assms(1), of j i] assms(2,4,5) by (auto simp: key_at_def)
  then show ?thesis using gw_invD(3)[OF assms(1)] assms(3)
    by (auto simp: live_def phase_of_def list_all_length worker_ok_def)
qed

lemma pend_set_worker:
  assumes "gw_inv cfg st" "live st i" "wk_key (g (gw_workers st ! i)) = wk_key (gw_workers st ! i)"
  shows "pend k (gw_workers (set_worker i g st))
    = (if k = key_at st i then wk_queue (g (gw_workers st ! i)) else pend k (gw_workers st))"
  unfolding set_worker_def key_at_def using assms others_empty[OF assms(1,2)] live_bound[OF assms(2)]
  by (simp add: pend_update)

lemma pend_live:
  assumes "gw_inv cfg st" "live st i"
  shows "pend (key_at st i) (gw_workers st) = wk_queue (gw_workers st ! i)"
  using pend_set_worker[OF assms, of "\<lambda>w. w" "key_at st i"] by (simp add: set_worker_def)

lemma jobs_emit:
  "accepted_jobs k (gw_emit e st) = accepted_jobs k st @ accepted_in k e"
  "taken_jobs k (gw_emit e st) = taken_jobs k st @ took_in k e"
  "handled_jobs k (gw_emit e st) = handled_jobs k st @ took_in k e @ dropped_in k e"
  by (simp_all add: accepted_jobs_def taken_jobs_def handled_jobs_def)

lemma jobs_cong:
  assumes "gw_trace st' = gw_trace st"
  shows "accepted_jobs k st' = accepted_jobs k st" "handled_jobs k st' = handled_jobs k st"
    "taken_jobs k st' = taken_jobs k st"
  by (simp_all add: accepted_jobs_def handled_jobs_def taken_jobs_def assms)

lemma fifo_quiet:
  assumes "fifo st" "gw_workers st' = gw_workers st" "gw_trace st' = gw_trace st @ es"
    and "\<forall>e\<in>set es. \<forall>k. accepted_in k e = [] \<and> took_in k e = [] \<and> dropped_in k e = []"
  shows "fifo st'"
proof -
  have "accepted_jobs k st' = accepted_jobs k st" "handled_jobs k st' = handled_jobs k st" for k
    unfolding accepted_jobs_def handled_jobs_def assms(3) using assms(4) by auto
  then show ?thesis using assms(1,2) by (simp add: fifo_def)
qed

lemma end_worker_fifo:
  assumes "gw_inv cfg st" "live st i" "fifo st"
  shows "fifo (end_worker i st)"
  using assms(3) pend_live[OF assms(1,2)]
  by (auto simp: fifo_def end_worker_def Let_def jobs_emit pend_set_worker[OF assms(1,2)] key_at_def
      jobs_cong[OF set_worker_fields(5)])

lemma take_job_fifo:
  assumes "gw_inv cfg st" "live st i" "fifo st" "take_job i g st = Some st'"
  shows "fifo st'"
proof -
  obtain j js where q: "wk_queue (gw_workers st ! i) = j # js"
    "st' = gw_emit (Took (key_at st i) j)
       (set_worker i (\<lambda>w. w\<lparr> wk_phase := g j, wk_queue := js \<rparr>) st)"
    using assms(4) by (auto simp: take_job_def key_at_def Let_def split: list.splits)
  show ?thesis unfolding q(2)
    using assms(3) pend_live[OF assms(1,2)] q(1)
    by (auto simp: fifo_def jobs_emit pend_set_worker[OF assms(1,2)] jobs_cong[OF set_worker_fields(5)])
qed

lemma set_phase_fifo:
  assumes "gw_inv cfg st" "live st i" "fifo st"
    and "wk_key (g (gw_workers st ! i)) = wk_key (gw_workers st ! i)"
    and "wk_queue (g (gw_workers st ! i)) = wk_queue (gw_workers st ! i)"
  shows "fifo (set_worker i g st)"
  using assms(3,5) pend_live[OF assms(1,2)]
  by (auto simp: fifo_def pend_set_worker[of cfg st i g, OF assms(1,2,4)] jobs_cong[OF set_worker_fields(5)])

lemma reject_fifo: "fifo (snd (reject q req e st)) = fifo st"
  by (simp add: reject_def fifo_def jobs_emit)

lemma drop_slot_fifo: "fifo (drop_slot k st) = fifo st"
  by (simp add: fifo_def jobs_cong[OF drop_slot_fields(5)])

lemma enqueue_fifo:
  assumes "gw_inv cfg st" "live st i" "fifo st" "key_at st i = conversation_of (jb_req j)"
  shows "fifo (snd (enqueue q j i n st))"
proof -
  let ?e = "gw_emit (SinkStarted (jb_sink j)) st"
  have e: "gw_inv cfg ?e" "live ?e i" "fifo ?e" "fifo (gw_emit (WorkerDied i) ?e)"
    using assms by (simp_all add: fifo_def jobs_emit)
  have died: "fifo (end_worker i (gw_emit (WorkerDied i) ?e))"
    using end_worker_fifo[of cfg "gw_emit (WorkerDied i) ?e" i] e by simp
  have "fifo (gw_emit (Accepted (conversation_of (jb_req j)) j)
      (set_worker i (\<lambda>w. w\<lparr> wk_queue := wk_queue w @ [j] \<rparr>) ?e))"
    using e(3) pend_live[OF e(1,2)] assms(4)
    by (auto simp: fifo_def jobs_emit pend_set_worker[OF e(1,2)] jobs_cong[OF set_worker_fields(5)])
  then show ?thesis using assms(3) died
    by (simp add: enqueue_def Let_def reject_fifo drop_slot_fifo)
qed

lemma spawn_fifo: "fifo st \<Longrightarrow> fifo (spawn_worker k st)"
  by (simp add: fifo_def pend_def spawn_worker_def fresh_worker_def jobs_cong[OF spawn_views(8)[unfolded spawn_worker_def fresh_worker_def]])

lemma heal_fifo: "fifo (heal k st) = fifo st"
  by (simp add: heal_def drop_slot_fifo split: option.splits)

lemma route_fifo:
  assumes "gw_inv cfg st" "\<not> gw_stopped st" "fifo st"
  shows "fifo (snd (route cfg q j st))"
proof -
  let ?k = "conversation_of (jb_req j)"
  let ?st1 = "heal ?k st"
  show ?thesis
  proof (cases "case slot_of st ?k of Some s \<Rightarrow> sl_retiring s | None \<Rightarrow> False")
    case True
    then show ?thesis using assms(3) by (simp add: route_def Let_def reject_fifo)
  next
    case False
    then have nr: "slot_of st ?k = Some s \<Longrightarrow> \<not> sl_retiring s" for s by simp
    have h: "gw_inv cfg ?st1" "gw_stopped ?st1 = gw_stopped st"
      "slot_of ?st1 ?k = Some s \<Longrightarrow> \<not> is_closed ?st1 (sl_tx s)" for s
      using heal_inv[OF assms(1,2) nr] by blast+
    have f: "fifo ?st1" using assms(3) by (simp add: heal_fifo)
    show ?thesis
    proof (cases "slot_of ?st1 ?k")
      case (Some s)
      note o' = open_slot_live[OF h(1) Some h(3)[OF Some]]
      have "snd (route cfg q j st) = snd (enqueue q j (sl_tx s) (length (wk_queue (gw_workers ?st1 ! sl_tx s))) ?st1)"
        unfolding route_def Let_def if_not_P[OF False] Some by simp
      then show ?thesis using o' h(1) f by (simp add: enqueue_fifo)
    next
      case None
      have ns: "\<not> gw_stopped ?st1" using assms(2) h(2) by simp
      show ?thesis
      proof (cases "length (gw_slots ?st1) \<ge> gc_max_sessions cfg")
        case True
        then show ?thesis using f unfolding route_def Let_def if_not_P[OF False] None
          by (simp add: reject_fifo)
      next
        case big: False
        have "gw_inv cfg (spawn_worker ?k ?st1)" using big by (intro spawn_inv[OF h(1) ns None]) simp
        then show ?thesis using big f unfolding route_def Let_def if_not_P[OF False] None
          by (simp add: enqueue_fifo spawn_views spawn_fifo)
      qed
    qed
  qed
qed

lemma handle_submit_fifo:
  assumes "gw_inv cfg st" "\<not> gw_stopped st" "fifo st"
  shows "fifo (snd (handle_submit cfg q j st))"
proof -
  have r: "gw_inv cfg (snd (record_received q (jb_req j) (st\<lparr> gw_limiter := l \<rparr>)))"
    "\<not> gw_stopped (snd (record_received q (jb_req j) (st\<lparr> gw_limiter := l \<rparr>)))"
    "fifo (snd (record_received q (jb_req j) (st\<lparr> gw_limiter := l \<rparr>)))"
    "fifo (st\<lparr> gw_limiter := l \<rparr>)" for l
    using assms by (auto simp: record_received_def fifo_def jobs_emit jobs_cong[of "st\<lparr> gw_limiter := l \<rparr>" st])
  show ?thesis
    by (rule handle_submit_cases[of cfg q j st]) (use assms r route_fifo in \<open>simp_all add: reject_fifo\<close>)
qed

lemma begin_retirement_fifo:
  assumes "gw_inv cfg st" "phase_of st i = Waiting" "fifo st"
  shows "fifo (begin_retirement i st)"
proof -
  have lv: "live st i" using assms(2) by (simp add: live_def)
  have "gw_workers (begin_retirement i st)
      = gw_workers (set_worker i (\<lambda>w. w\<lparr> wk_phase := Draining, wk_open := False \<rparr>) st)"
    by (auto simp: begin_retirement_def set_worker_def Let_def split: option.splits)
  moreover have "gw_trace (begin_retirement i st) = gw_trace st"
    by (auto simp: begin_retirement_def set_worker_def Let_def split: option.splits)
  moreover have "fifo (set_worker i (\<lambda>w. w\<lparr> wk_phase := Draining, wk_open := False \<rparr>) st)"
    using set_phase_fifo[OF assms(1) lv assms(3)] by simp
  ultimately show ?thesis using jobs_cong[of "begin_retirement i st" st]
    by (simp add: fifo_def jobs_cong[OF set_worker_fields(5)])
qed

lemma finish_end_fifo:
  assumes "gw_inv cfg st" "live st i" "fifo st"
  shows "fifo (end_worker i (finish_retirement i st))"
  using end_worker_fifo[OF assms]
  by (auto simp: finish_retirement_def Let_def end_drop drop_slot_fifo split: option.splits)

lemma end_workers_fifo:
  "gw_inv cfg st \<Longrightarrow> fifo st \<Longrightarrow> distinct ns \<Longrightarrow> \<forall>i\<in>set ns. live st i \<Longrightarrow> fifo (fold end_worker ns st)"
proof (induction ns arbitrary: st)
  case (Cons n ns)
  then have n: "live st n" by simp
  have "\<forall>i\<in>set ns. live (end_worker n st) i" using Cons.prems by (auto simp: end_worker_views[OF n])
  then show ?case using Cons end_worker_inv[OF Cons.prems(1) n] end_worker_fifo[OF Cons.prems(1) n] by simp
qed simp

lemma gw_exec_fifo:
  assumes "gw_inv cfg st" "fifo st" "gw_exec cfg l st = Some st'"
  shows "fifo st'"
proof (cases l)
  case (Submit q j)
  then show ?thesis using assms handle_submit_fifo by (auto split: if_splits)
next
  case (Take i)
  then show ?thesis using assms take_job_fifo[OF assms(1) _ assms(2), of i Running]
    by (auto simp: live_def split: if_splits)
next
  case (IdleOut i)
  then show ?thesis using assms begin_retirement_fifo by (auto split: if_splits)
next
  case (StopIdle i)
  then show ?thesis using assms end_worker_fifo by (auto simp: live_def split: if_splits)
next
  case (Drain i)
  then show ?thesis using assms take_job_fifo[OF assms(1) _ assms(2), of i DrainRunning]
    by (auto simp: live_def split: if_splits)
next
  case (Retire i)
  then show ?thesis using assms finish_end_fifo by (auto simp: live_def split: if_splits)
next
  case (Finish i forced)
  have "live st i \<Longrightarrow> fifo (set_worker i (\<lambda>w. w\<lparr> wk_phase := p \<rparr>) st)" for p
    using set_phase_fifo[OF assms(1) _ assms(2)] by simp
  then show ?thesis using Finish assms end_worker_fifo finish_end_fifo
    by (auto simp: live_def split: if_splits phase.splits)
next
  case (Panic i)
  have "fifo (gw_emit (WorkerDied i) st)" using assms(2) by (simp add: fifo_def jobs_emit)
  then show ?thesis using Panic assms end_worker_fifo[of cfg "gw_emit (WorkerDied i) st" i]
    by (auto simp: live_def split: if_splits)
next
  case AbortAll
  then show ?thesis using assms end_workers_fifo[OF assms(1,2)]
    by (auto simp: live_def split: if_splits)
qed (use assms in \<open>auto simp: fifo_def accepted_jobs_def handled_jobs_def split: if_splits\<close>)

lemma gw_reaches_fifo: "gw_reaches cfg ls st \<Longrightarrow> fifo st"
proof (induction rule: gw_reaches.induct)
  case gw_init
  then show ?case
    by (simp add: fifo_def accepted_jobs_def handled_jobs_def gateway_start_def pend_def)
qed (rule gw_exec_fifo[OF gw_reaches_inv])

section \<open>What a submit cannot touch\<close>

text \<open>The cases of \<open>route\<close>, once and for all.\<close>

lemma route_cases:
  assumes "gw_inv cfg st" "\<not> gw_stopped st"
  obtains (retiring) s where "slot_of st (conversation_of (jb_req j)) = Some s" "sl_retiring s"
      "route cfg q j st = reject q (jb_req j) Unavailable st"
  | (full) e where "route cfg q j st = reject q (jb_req j) e (heal (conversation_of (jb_req j)) st)"
  | (send) t n st2 where "route cfg q j st = enqueue q j t n st2" "gw_inv cfg st2" "live st2 t"
      "\<not> retiring_phase (phase_of st2 t)" "key_at st2 t = conversation_of (jb_req j)"
      "st2 = heal (conversation_of (jb_req j)) st
        \<or> st2 = spawn_worker (conversation_of (jb_req j)) (heal (conversation_of (jb_req j)) st)"
proof -
  let ?k = "conversation_of (jb_req j)"
  let ?st1 = "heal ?k st"
  show thesis
  proof (cases "case slot_of st ?k of Some s \<Rightarrow> sl_retiring s | None \<Rightarrow> False")
    case True
    then show ?thesis using retiring by (auto simp: route_def Let_def split: option.splits)
  next
    case False
    then have nr: "slot_of st ?k = Some s \<Longrightarrow> \<not> sl_retiring s" for s by simp
    have h: "gw_inv cfg ?st1" "gw_stopped ?st1 = gw_stopped st"
      "slot_of ?st1 ?k = Some s \<Longrightarrow> \<not> is_closed ?st1 (sl_tx s)" for s
      using heal_inv[OF assms nr] by blast+
    show ?thesis
    proof (cases "slot_of ?st1 ?k")
      case (Some s)
      have "route cfg q j st = enqueue q j (sl_tx s) (length (wk_queue (gw_workers ?st1 ! sl_tx s))) ?st1"
        unfolding route_def Let_def if_not_P[OF False] Some by simp
      then show ?thesis using open_slot_live[OF h(1) Some h(3)[OF Some]] h(1) send by blast
    next
      case None
      have ns: "\<not> gw_stopped ?st1" using assms(2) h(2) by simp
      show ?thesis
      proof (cases "length (gw_slots ?st1) \<ge> gc_max_sessions cfg")
        case True
        then show ?thesis using full unfolding route_def Let_def if_not_P[OF False] None by simp
      next
        case big: False
        have i: "gw_inv cfg (spawn_worker ?k ?st1)" using big by (intro spawn_inv[OF h(1) ns None]) simp
        have "route cfg q j st = enqueue q j (length (gw_workers ?st1)) 0 (spawn_worker ?k ?st1)"
          unfolding route_def Let_def if_not_P[OF False] None using big by simp
        then show ?thesis using i by (intro send[of "length (gw_workers ?st1)" 0 "spawn_worker ?k ?st1"])
            (simp_all add: spawn_views retiring_phase_def)
      qed
    qed
  qed
qed

lemma heal_workers [simp]: "gw_workers (heal k st) = gw_workers st" "gw_trace (heal k st) = gw_trace st"
  "gw_stopping (heal k st) = gw_stopping st" "gw_force (heal k st) = gw_force st"
  by (auto simp: heal_def split: option.splits)

lemma record_received_fields [simp]:
  "gw_workers (snd (record_received q r st)) = gw_workers st" "gw_slots (snd (record_received q r st)) = gw_slots st"
  "gw_stopped (snd (record_received q r st)) = gw_stopped st"
  "gw_stopping (snd (record_received q r st)) = gw_stopping st"
  by (simp_all add: record_received_def)

text \<open>A worker that drains is never the one a submit reaches.\<close>

lemma enqueue_others:
  assumes "i < length (gw_workers st)" "t < length (gw_workers st)" "i \<noteq> t"
  shows "gw_workers (snd (enqueue q j t n st)) ! i = gw_workers st ! i
    \<and> length (gw_workers (snd (enqueue q j t n st))) = length (gw_workers st)"
  using assms by (simp add: enqueue_def Let_def reject_def end_worker_def set_worker_nth)

lemma handle_submit_others:
  assumes "gw_inv cfg st" "\<not> gw_stopped st" "retiring_phase (phase_of st i)" "i < length (gw_workers st)"
  shows "gw_workers (snd (handle_submit cfg q j st)) ! i = gw_workers st ! i
    \<and> length (gw_workers st) \<le> length (gw_workers (snd (handle_submit cfg q j st)))"
proof (rule handle_submit_cases[of cfg q j st])
  fix l
  let ?st = "snd (record_received q (jb_req j) (st\<lparr> gw_limiter := l \<rparr>))"
  assume h: "handle_submit cfg q j st = route cfg q j ?st"
  have i: "gw_inv cfg ?st" "\<not> gw_stopped ?st" using assms(1,2) by (auto simp: record_received_def)
  have p: "phase_of ?st i = phase_of st i" by (simp add: phase_of_def)
  show ?thesis
  proof (cases rule: route_cases[OF i, where j = j and q = q, case_names retiring full send])
    case (send t n st2)
    have w: "gw_workers st2 ! i = gw_workers st ! i \<and> length (gw_workers st) \<le> length (gw_workers st2)"
      using send(6) assms(4) by (auto simp: spawn_worker_def nth_append)
    then have "phase_of st2 i = phase_of st i" using assms(4) by (simp add: phase_of_def)
    then have "i \<noteq> t" using send(4) assms(3) by auto
    then show ?thesis using w enqueue_others[of i st2 t q j n] live_bound[OF send(3)] assms(4)
      unfolding h send(1) by simp
  qed (simp_all add: h reject_snd)
qed (simp_all add: reject_snd)

section \<open>Retirement comes to an end\<close>

definition retire_left :: "gateway \<Rightarrow> nat \<Rightarrow> nat" where
  "retire_left st i = (case phase_of st i of
     Draining \<Rightarrow> 2 * length (wk_queue (gw_workers st ! i)) + 1
   | DrainRunning _ \<Rightarrow> 2 * length (wk_queue (gw_workers st ! i)) + 2
   | _ \<Rightarrow> 0)"

lemma end_worker_other:
  "i < length (gw_workers st) \<Longrightarrow> n < length (gw_workers st) \<Longrightarrow> gw_workers (end_worker n st) ! i
    = (if i = n then (gw_workers st ! n)\<lparr> wk_phase := Gone, wk_queue := [], wk_open := False \<rparr> else gw_workers st ! i)"
  "length (gw_workers (end_worker n st)) = length (gw_workers st)"
  by (simp_all add: end_worker_def Let_def set_worker_nth)

lemma finish_retirement_workers [simp]:
  "gw_workers (finish_retirement n st) = gw_workers st" "phase_of (finish_retirement n st) = phase_of st"
  by (auto simp: finish_retirement_def Let_def split: option.splits)

lemma begin_retirement_other:
  "n < length (gw_workers st) \<Longrightarrow> i \<noteq> n \<Longrightarrow> gw_workers (begin_retirement n st) ! i = gw_workers st ! i"
  "length (gw_workers (begin_retirement n st)) = length (gw_workers st)"
  by (auto simp: begin_retirement_def Let_def set_worker_nth split: option.splits)

lemma retire_left_same:
  assumes "gw_workers st' ! i = gw_workers st ! i" "i < length (gw_workers st)"
    and "length (gw_workers st) \<le> length (gw_workers st')"
  shows "retire_left st' i = retire_left st i" "phase_of st' i = phase_of st i"
  unfolding retire_left_def phase_of_def assms(1) using assms(2,3) by auto

lemma phase_end: "n < length (gw_workers st) \<Longrightarrow> phase_of (end_worker n st) i = (if i = n then Gone else phase_of st i)"
  by (auto simp: phase_of_def end_worker_other)

lemma fold_end_worker:
  "\<forall>n\<in>set ns. n < length (gw_workers st) \<Longrightarrow> phase_of (fold end_worker ns st) i
     = (if i \<in> set ns then Gone else phase_of st i)"
  "length (gw_workers (fold end_worker ns st)) = length (gw_workers st)"
  by (induction ns arbitrary: st) (auto simp: phase_end end_worker_other)

lemma take_job_other:
  assumes "take_job n g st = Some st'" "n < length (gw_workers st)"
  shows "length (gw_workers st') = length (gw_workers st)"
    "i \<noteq> n \<Longrightarrow> gw_workers st' ! i = gw_workers st ! i"
    "\<exists>j js. wk_queue (gw_workers st ! n) = j # js \<and> gw_workers st' ! n = (gw_workers st ! n)\<lparr> wk_phase := g j, wk_queue := js \<rparr>"
  using assms by (auto simp: take_job_def Let_def set_worker_nth split: list.splits)

lemma retire_step:
  assumes inv: "gw_inv cfg st" and r: "retiring_phase (phase_of st i)" and ex: "gw_exec cfg l st = Some st'"
  shows "(retiring_phase (phase_of st' i) \<or> phase_of st' i = Gone)
    \<and> retire_left st' i + (if actor_label l = Some i then 1 else 0) \<le> retire_left st i"
proof -
  have i: "i < length (gw_workers st)"
    using r by (auto simp: phase_of_def retiring_phase_def split: if_splits)
  have same: ?thesis if "gw_workers st' ! i = gw_workers st ! i" "length (gw_workers st) \<le> length (gw_workers st')"
    "actor_label l \<noteq> Some i"
    using retire_left_same[OF that(1) i that(2)] r that(3) by simp
  have gone: ?thesis if "phase_of st' i = Gone"
    using that r by (auto simp: retire_left_def retiring_phase_def split: phase.splits)
  have bound: "phase_of st n \<noteq> Gone \<Longrightarrow> n < length (gw_workers st)" for n
    by (auto simp: phase_of_def split: if_splits)
  have ends: ?thesis if "st' = end_worker n st0" "gw_workers st0 = gw_workers st" "n < length (gw_workers st)"
    "actor_label l = Some n" for n st0
    using that i same gone end_worker_other(1)[of i st0 n] end_worker_other(2)[of n st0] phase_end[of n st0] by (cases "i = n") auto
  show ?thesis
  proof (cases l)
    case (Submit q j)
    then have "\<not> gw_stopped st" "st' = snd (handle_submit cfg q j st)" using ex by (auto split: if_splits)
    then show ?thesis using handle_submit_others[OF inv _ r i] Submit by (intro same) auto
  next
    case (Take n)
    then have t: "phase_of st n = Waiting" "take_job n Running st = Some st'" using ex by (auto split: if_splits)
    then have "n \<noteq> i" using r by (auto simp: retiring_phase_def)
    then show ?thesis using take_job_other[OF t(2)] t(1) bound Take by (intro same) auto
  next
    case (IdleOut n)
    then have t: "phase_of st n = Waiting" "st' = begin_retirement n st" using ex by (auto split: if_splits)
    then have "n \<noteq> i" using r by (auto simp: retiring_phase_def)
    then show ?thesis using begin_retirement_other(1)[of n st i] begin_retirement_other(2)[of n st] t bound IdleOut by (intro same) auto
  next
    case (StopIdle n)
    then show ?thesis using ex bound by (intro ends[of n st]) (auto split: if_splits)
  next
    case (Drain n)
    then have t: "phase_of st n = Draining" "take_job n DrainRunning st = Some st'" using ex by (auto split: if_splits)
    note o' = take_job_other[OF t(2) bound]
    show ?thesis
    proof (cases "n = i")
      case True
      then show ?thesis using o' t(1) i by (auto simp: retire_left_def phase_of_def retiring_phase_def)
    next
      case False
      then show ?thesis using o' t(1) Drain by (intro same) auto
    qed
  next
    case (Retire n)
    then show ?thesis using ex bound by (intro ends[of n "finish_retirement n st"]) (auto split: if_splits)
  next
    case (Finish n forced)
    have n: "phase_of st n \<noteq> Gone" using ex Finish by (auto split: if_splits phase.splits)
    show ?thesis
    proof (cases forced)
      case True
      then consider "st' = end_worker n st" | "st' = end_worker n (finish_retirement n st)"
        using ex Finish by (auto split: if_splits phase.splits)
      then show ?thesis
        by cases (use bound[OF n] Finish ends[of n st] ends[of n "finish_retirement n st"] in auto)
    next
      case False
      then obtain p where p: "st' = set_worker n (\<lambda>w. w\<lparr> wk_phase := p \<rparr>) st"
        "p = Waiting \<and> (\<exists>j. phase_of st n = Running j) \<or> p = Draining \<and> (\<exists>j. phase_of st n = DrainRunning j)"
        using ex Finish by (auto split: if_splits phase.splits)
      show ?thesis
      proof (cases "n = i")
        case True
        then show ?thesis using p i r
          by (auto simp: retire_left_def phase_of_def set_worker_nth retiring_phase_def)
      next
        case False
        then show ?thesis using p(1) Finish bound[OF n] by (intro same) (auto simp: set_worker_nth)
      qed
    qed
  next
    case (Panic n)
    then show ?thesis using ex bound by (intro ends[of n "gw_emit (WorkerDied n) st"]) (auto split: if_splits)
  next
    case AbortAll
    then have "phase_of st' i = Gone"
      using ex i fold_end_worker(1)[of "filter (\<lambda>i. phase_of st i \<noteq> Gone) [0..<length (gw_workers st)]" st i]
      by (auto split: if_splits)
    then show ?thesis by (rule gone)
  next
    case Shutdown
    then show ?thesis using ex by (intro same) auto
  next
    case Stop
    then show ?thesis using ex by (intro same) auto
  next
    case Force
    then show ?thesis using ex by (intro same) (auto split: if_splits)
  qed
qed

lemma route_length: "length (gw_workers st) \<le> length (gw_workers (snd (route cfg q j st)))"
  by (auto simp: route_def Let_def reject_def enqueue_def end_worker_def set_worker_fields spawn_worker_def
      split: option.splits)

lemma handle_submit_length: "length (gw_workers st) \<le> length (gw_workers (snd (handle_submit cfg q j st)))"
proof (rule handle_submit_cases[of cfg q j st])
  fix l
  assume h: "handle_submit cfg q j st = route cfg q j (snd (record_received q (jb_req j) (st\<lparr> gw_limiter := l \<rparr>)))"
  show ?thesis
    unfolding h using route_length[of "snd (record_received q (jb_req j) (st\<lparr> gw_limiter := l \<rparr>))" cfg q j] by simp
qed (simp_all add: reject_snd)

lemma gw_exec_length:
  assumes "gw_exec cfg l st = Some st'"
  shows "length (gw_workers st) \<le> length (gw_workers st')"
proof (cases l)
  case (Submit q j)
  then show ?thesis using assms handle_submit_length by (auto split: if_splits)
next
  case AbortAll
  then show ?thesis using assms by (auto simp: fold_end_worker(2) split: if_splits)
qed (use assms in \<open>auto simp: take_job_def Let_def begin_retirement_def end_worker_def finish_retirement_def
    split: if_splits list.splits phase.splits option.splits\<close>)

definition steps_of :: "nat \<Rightarrow> gw_label list \<Rightarrow> nat" where
  "steps_of i ls = length (filter (\<lambda>l. actor_label l = Some i) ls)"

lemma gone_stays:
  assumes "gw_inv cfg st" "i < length (gw_workers st)" "phase_of st i = Gone" "gw_exec cfg l st = Some st'"
  shows "phase_of st' i = Gone \<and> i < length (gw_workers st') \<and> actor_label l \<noteq> Some i"
proof (cases l)
  case (Submit q j)
  show ?thesis
  proof (rule handle_submit_cases[of cfg q j st])
    fix l'
    let ?st = "snd (record_received q (jb_req j) (st\<lparr> gw_limiter := l' \<rparr>))"
    assume h: "handle_submit cfg q j st = route cfg q j ?st"
    have ns: "\<not> gw_stopped st" "st' = snd (handle_submit cfg q j st)" using assms(4) Submit by (auto split: if_splits)
    have i: "gw_inv cfg ?st" "\<not> gw_stopped ?st" using assms(1) ns(1) by (auto simp: record_received_def)
    have gone: "wk_phase (gw_workers st ! i) = Gone" using assms(2,3) by (simp add: phase_of_def)
    show ?thesis
    proof (cases rule: route_cases[OF i, where j = j and q = q, case_names retiring full send])
      case (send t n st2)
      have w: "gw_workers st2 ! i = gw_workers st ! i \<and> length (gw_workers st) \<le> length (gw_workers st2)"
        using send(6) assms(2) by (auto simp: spawn_worker_def nth_append)
      then have g: "phase_of st2 i = Gone" using assms(2,3) by (simp add: phase_of_def)
      then have "i \<noteq> t" using send(3) by (auto simp: live_def)
      then show ?thesis using w g enqueue_others[of i st2 t q j n] live_bound[OF send(3)] assms(2,3)
        unfolding ns(2) h send(1) Submit by (simp add: phase_of_def)
    qed (use ns(2) h assms(2) gone Submit in \<open>simp_all add: reject_snd phase_of_def\<close>)
  qed (use assms Submit in \<open>auto simp: reject_snd phase_of_def split: if_splits\<close>)
next
  case AbortAll
  then show ?thesis using assms
      fold_end_worker[of "filter (\<lambda>i. phase_of st i \<noteq> Gone) [0..<length (gw_workers st)]" st]
    by (auto split: if_splits)
next
  case (Take n)
  then have "n \<noteq> i" "n < length (gw_workers st)" "take_job n Running st = Some st'"
    using assms(3,4) by (auto simp: phase_of_def split: if_splits)
  then show ?thesis using Take assms(2,3) take_job_other[of n Running st st'] by (simp add: phase_of_def)
next
  case (Drain n)
  then have "n \<noteq> i" "n < length (gw_workers st)" "take_job n DrainRunning st = Some st'"
    using assms(3,4) by (auto simp: phase_of_def split: if_splits)
  then show ?thesis using Drain assms(2,3) take_job_other[of n DrainRunning st st'] by (simp add: phase_of_def)
next
  case (IdleOut n)
  then have "n \<noteq> i" "n < length (gw_workers st)" "st' = begin_retirement n st"
    using assms(3,4) by (auto simp: phase_of_def split: if_splits)
  then show ?thesis using IdleOut assms(2,3) begin_retirement_other[of n st] by (simp add: phase_of_def)
next
  case (Finish n forced)
  then have n: "n \<noteq> i" "n < length (gw_workers st)"
    using assms(3,4) by (auto simp: phase_of_def split: if_splits phase.splits)
  then show ?thesis using Finish assms(2-4)
    by (auto simp: phase_end end_worker_other set_worker_views split: if_splits phase.splits)
qed (use assms in \<open>auto simp: phase_end end_worker_other phase_of_def split: if_splits\<close>)

lemma retire_run:
  assumes "gw_reaches cfg past st" "i < length (gw_workers st)"
    and "retiring_phase (phase_of st i) \<or> phase_of st i = Gone" "exec_all cfg ls st = Some st'"
  shows "(retiring_phase (phase_of st' i) \<or> phase_of st' i = Gone)
    \<and> steps_of i ls + retire_left st' i \<le> retire_left st i"
  using assms
proof (induction ls arbitrary: past st)
  case (Cons l ls)
  obtain st1 where e: "gw_exec cfg l st = Some st1" "exec_all cfg ls st1 = Some st'"
    using Cons.prems(4) by (auto split: option.splits)
  note inv = gw_reaches_inv[OF Cons.prems(1)]
  have s: "(retiring_phase (phase_of st1 i) \<or> phase_of st1 i = Gone)
      \<and> retire_left st1 i + (if actor_label l = Some i then 1 else 0) \<le> retire_left st i
      \<and> i < length (gw_workers st1)"
  proof (cases "phase_of st i = Gone")
    case True
    then show ?thesis using gone_stays[OF inv Cons.prems(2) True e(1)] by (simp add: retire_left_def)
  next
    case False
    then have "retiring_phase (phase_of st i)" using Cons.prems(3) by blast
    from retire_step[OF inv this e(1)] gw_exec_length[OF e(1)] show ?thesis
      using Cons.prems(2) by auto
  qed
  then show ?case using Cons.IH[OF gw_next[OF Cons.prems(1) e(1)] _ _ e(2)] by (auto simp: steps_of_def)
qed (simp add: steps_of_def)

section \<open>What may be lost\<close>

text \<open>Jobs are dropped only with a worker that dies or while the gateway stops.\<close>

definition died :: "gateway \<Rightarrow> bool" where
  "died st \<longleftrightarrow> (\<exists>i. WorkerDied i \<in> set (gw_trace st))"

definition lossless :: "gateway \<Rightarrow> bool" where
  "lossless st \<longleftrightarrow> (gw_force st \<longrightarrow> gw_stopping st)
     \<and> (gw_stopping st \<or> died st \<or> (\<forall>e\<in>set (gw_trace st). \<forall>k. dropped_in k e = []))"

lemma lossless_cong:
  assumes "gw_trace st' = gw_trace st" "gw_stopping st' = gw_stopping st" "gw_force st' = gw_force st"
  shows "lossless st' = lossless st" "died st' = died st"
  unfolding lossless_def died_def assms by (rule refl)+

lemma lossless_emit: "lossless st \<Longrightarrow> \<forall>k. dropped_in k e = [] \<Longrightarrow> lossless (gw_emit e st)"
  by (auto simp: lossless_def died_def)

lemma lossless_end:
  assumes "lossless st" "gw_stopping st \<or> died st \<or> wk_queue (gw_workers st ! i) = []"
  shows "lossless (end_worker i st)"
  using assms by (auto simp: lossless_def died_def end_worker_def Let_def)

lemma lossless_quiet [simp]:
  "lossless (set_worker i g st) = lossless st" "lossless (drop_slot k st) = lossless st"
  "lossless (heal k st) = lossless st" "lossless (spawn_worker k st) = lossless st"
  "lossless (st\<lparr> gw_limiter := l \<rparr>) = lossless st"
  by (rule lossless_cong; simp add: spawn_worker_def)+

lemma finish_retirement_lossless [simp]: "lossless (finish_retirement i st) = lossless st"
  by (auto simp: finish_retirement_def Let_def split: option.splits)

lemma begin_retirement_lossless [simp]: "lossless (begin_retirement i st) = lossless st"
  by (rule lossless_cong) (auto simp: begin_retirement_def Let_def split: option.splits)

lemma reject_lossless: "lossless st \<Longrightarrow> lossless (snd (reject q req e st))"
  by (simp add: reject_def lossless_emit)

lemma forced_stopping: "lossless st \<Longrightarrow> gw_force st \<Longrightarrow> gw_stopping st"
  by (simp add: lossless_def)

lemma lossless_died: "lossless st \<Longrightarrow> lossless (end_worker i (gw_emit (WorkerDied i) st))"
  by (intro lossless_end lossless_emit disjI2 disjI1) (auto simp: died_def)

lemma enqueue_lossless: "lossless st \<Longrightarrow> lossless (snd (enqueue q j i n st))"
  by (auto simp: enqueue_def Let_def intro!: reject_lossless lossless_emit lossless_died)

lemma route_lossless: "lossless st \<Longrightarrow> lossless (snd (route cfg q j st))"
  by (auto simp: route_def Let_def reject_lossless enqueue_lossless split: option.splits)

lemma handle_submit_lossless:
  assumes "lossless st"
  shows "lossless (snd (handle_submit cfg q j st))"
proof (rule handle_submit_cases[of cfg q j st])
  fix l
  assume h: "handle_submit cfg q j st = route cfg q j (snd (record_received q (jb_req j) (st\<lparr> gw_limiter := l \<rparr>)))"
  show ?thesis unfolding h
    by (rule route_lossless) (use assms in \<open>simp add: record_received_def lossless_emit\<close>)
qed (simp_all add: assms reject_lossless)

lemma end_workers_lossless:
  "lossless st \<Longrightarrow> gw_stopping st \<Longrightarrow> lossless (fold end_worker ns st)"
proof (induction ns arbitrary: st)
  case (Cons n ns)
  then show ?case using lossless_end[of st n] by (simp add: end_worker_def Let_def)
qed simp

lemma gw_exec_lossless:
  assumes "gw_inv cfg st" "lossless st" "gw_exec cfg l st = Some st'"
  shows "lossless st'"
proof (cases l)
  case (Submit q j)
  then show ?thesis using assms(2,3) handle_submit_lossless by (auto split: if_splits)
next
  case (Take i)
  then show ?thesis using assms(2,3)
    by (auto simp: take_job_def Let_def lossless_emit split: if_splits list.splits)
next
  case (Drain i)
  then show ?thesis using assms(2,3)
    by (auto simp: take_job_def Let_def lossless_emit split: if_splits list.splits)
next
  case (StopIdle i)
  then show ?thesis using assms(2,3) forced_stopping[OF assms(2)]
    by (auto intro!: lossless_end split: if_splits)
next
  case (Retire i)
  then show ?thesis using assms(2,3) by (auto intro!: lossless_end split: if_splits)
next
  case (Finish i forced)
  have e: "gw_force st \<Longrightarrow> lossless (end_worker i st)"
    using assms(2) forced_stopping[OF assms(2)] by (intro lossless_end) auto
  have "gw_stopping (finish_retirement i st) = gw_stopping st"
    by (auto simp: finish_retirement_def Let_def split: option.splits)
  then have f: "gw_force st \<Longrightarrow> lossless (end_worker i (finish_retirement i st))"
    using assms(2) forced_stopping[OF assms(2)] by (intro lossless_end) auto
  show ?thesis using Finish assms(2,3) e f by (auto split: if_splits phase.splits)
next
  case (Panic i)
  then show ?thesis using assms(2,3) lossless_died by (auto split: if_splits)
next
  case AbortAll
  then show ?thesis using assms(2,3) end_workers_lossless by (auto simp: lossless_def split: if_splits)
next
  case (IdleOut i)
  then show ?thesis using assms(2,3) by (auto split: if_splits)
next
  case Force
  then show ?thesis using assms gw_invD(7)[OF assms(1)] by (auto simp: lossless_def died_def split: if_splits)
qed (use assms(2,3) in \<open>auto simp: lossless_def died_def split: if_splits\<close>)

lemma gw_reaches_lossless: "gw_reaches cfg ls st \<Longrightarrow> lossless st"
proof (induction rule: gw_reaches.induct)
  case gw_init
  then show ?case by (simp add: lossless_def gateway_start_def)
qed (rule gw_exec_lossless[OF gw_reaches_inv])

text \<open>C26. The jobs of a conversation leave its queue in exactly the order in which they were
  accepted: what was accepted is what was run or dropped, in that order, followed by what still
  waits.  As long as no worker died and the gateway is not stopping, nothing is dropped: every job
  accepted was taken by the worker or is still queued, across retirements and respawns.\<close>

theorem gateway_fifo:
  assumes "gw_reaches cfg ls st"
  shows "accepted_jobs k st = handled_jobs k st @ pend k (gw_workers st)
    \<and> (\<not> gw_stopping st \<and> \<not> died st \<longrightarrow> accepted_jobs k st = taken_jobs k st @ pend k (gw_workers st))"
proof -
  have f: "accepted_jobs k st = handled_jobs k st @ pend k (gw_workers st)"
    using gw_reaches_fifo[OF assms] by (simp add: fifo_def)
  have "handled_jobs k st = taken_jobs k st" if "\<not> gw_stopping st" "\<not> died st"
  proof -
    have "\<forall>e\<in>set (gw_trace st). dropped_in k e = []"
      using gw_reaches_lossless[OF assms] that by (simp add: lossless_def)
    then have "map (\<lambda>e. took_in k e @ dropped_in k e) (gw_trace st) = map (took_in k) (gw_trace st)" by simp
    then show ?thesis by (simp only: handled_jobs_def taken_jobs_def)
  qed
  then show ?thesis using f by simp
qed

theorem gateway_fifo_witness:
  "\<not> gw_stopping (sample_state [sample_submit [97] 5, Take 0, sample_submit [97] 6, sample_submit [97] 7])
   \<and> accepted_jobs (ConversationKey FromTelegram [97])
       (sample_state [sample_submit [97] 5, Take 0, sample_submit [97] 6, sample_submit [97] 7])
     = [sample_job FromTelegram [97] 5] @ [sample_job FromTelegram [97] 6, sample_job FromTelegram [97] 7]"
proof -
  let ?st = "sample_state [sample_submit [97] 5, Take 0, sample_submit [97] 6, sample_submit [97] 7]"
  have "exec_all default_gateway [sample_submit [97] 5, Take 0, sample_submit [97] 6, sample_submit [97] 7]
      (gateway_start default_gateway) \<noteq> None" by (simp add: gw_eval)
  note f = gateway_fifo[OF sample_reaches[OF this], of "ConversationKey FromTelegram [97]"]
  have s: "\<not> gw_stopping ?st" "\<not> died ?st" by (simp_all add: gw_eval died_def)
  have "taken_jobs (ConversationKey FromTelegram [97]) ?st = [sample_job FromTelegram [97] 5]"
    by (simp add: gw_eval taken_jobs_def)
  moreover have "pend (ConversationKey FromTelegram [97]) (gw_workers ?st)
      = [sample_job FromTelegram [97] 6, sample_job FromTelegram [97] 7]"
    by (simp add: gw_eval pend_def)
  ultimately show ?thesis using f s by auto
qed

text \<open>C27. Retirement ends.  From any reachable state in which a worker has begun to drain, every
  run gives that worker at most \<open>retire_left\<close> further steps of its own, which is at most 130
  (64 queued jobs, two steps each, and the job in hand); no submit adds to its queue in the
  meantime.  And it cannot get stuck: until it is gone one of its own steps is enabled, and that
  step lowers the bound.\<close>

theorem retirement_terminates:
  assumes "gw_reaches cfg past st" "i < length (gw_workers st)" "retiring_phase (phase_of st i)"
    and "exec_all cfg ls st = Some st'"
  shows "steps_of i ls + retire_left st' i \<le> retire_left st i \<and> retire_left st i \<le> 130
    \<and> (phase_of st' i = Gone \<or> (\<exists>l st''. actor_label l = Some i \<and> gw_exec cfg l st' = Some st''
         \<and> retire_left st'' i < retire_left st' i))"
proof (intro conjI)
  have run: "retiring_phase (phase_of st' i) \<or> phase_of st' i = Gone"
    "steps_of i ls + retire_left st' i \<le> retire_left st i"
    using retire_run[OF assms(1,2) _ assms(4)] assms(3) by blast+
  show "steps_of i ls + retire_left st' i \<le> retire_left st i" by (rule run(2))
  have "worker_ok (gw_workers st ! i)"
    using gw_invD(3)[OF gw_reaches_inv[OF assms(1)]] assms(2) by (simp add: list_all_length)
  then show "retire_left st i \<le> 130"
    by (auto simp: retire_left_def worker_ok_def worker_queue_depth_def split: phase.splits)
  have inv: "gw_inv cfg st'" using gw_reaches_inv[OF exec_all_reaches[OF assms(1,4)]] .
  show "phase_of st' i = Gone \<or> (\<exists>l st''. actor_label l = Some i \<and> gw_exec cfg l st' = Some st''
      \<and> retire_left st'' i < retire_left st' i)"
  proof (cases "phase_of st' i = Gone")
    case False
    then have r: "retiring_phase (phase_of st' i)" using run(1) by simp
    have "\<exists>l. actor_label l = Some i \<and> gw_exec cfg l st' \<noteq> None"
    proof (cases "phase_of st' i")
      case Draining
      then show ?thesis
        by (cases "wk_queue (gw_workers st' ! i)")
          (auto simp: take_job_def Let_def intro: exI[of _ "Retire i"] exI[of _ "Drain i"])
    next
      case (DrainRunning j)
      then show ?thesis by (intro exI[of _ "Finish i False"]) simp
    qed (use r in \<open>auto simp: retiring_phase_def\<close>)
    then obtain l st'' where l: "actor_label l = Some i" "gw_exec cfg l st' = Some st''" by blast
    from retire_step[OF inv r l(2)] l(1) have "retire_left st'' i < retire_left st' i" by simp
    then show ?thesis using l by blast
  qed simp
qed

theorem retirement_terminates_witness:
  "retire_left (sample_state [sample_submit [97] 1, sample_submit [97] 2, IdleOut 0]) 0 = 5
   \<and> steps_of 0 [Drain 0, Finish 0 False, Shutdown, Drain 0, Finish 0 False, Retire 0] + 0 \<le> 5
   \<and> phase_of (sample_state ([sample_submit [97] 1, sample_submit [97] 2, IdleOut 0]
       @ [Drain 0, Finish 0 False, Shutdown, Drain 0, Finish 0 False, Retire 0])) 0 = Gone"
proof -
  let ?past = "[sample_submit [97] 1, sample_submit [97] 2, IdleOut 0]"
  let ?ls = "[Drain 0, Finish 0 False, Shutdown, Drain 0, Finish 0 False, Retire 0]"
  let ?st = "sample_state ?past" and ?st' = "sample_state (?past @ ?ls)"
  have r: "exec_all default_gateway ?past (gateway_start default_gateway) \<noteq> None" by (simp add: gw_eval)
  have e: "exec_all default_gateway ?ls ?st = Some ?st'" by (simp add: gw_eval)
  have i: "0 < length (gw_workers ?st)" "retiring_phase (phase_of ?st 0)"
    by (simp_all add: gw_eval retiring_phase_def)
  have b: "retire_left ?st 0 = 5" "retire_left ?st' 0 = 0" "phase_of ?st' 0 = Gone"
    by (simp_all add: gw_eval retire_left_def)
  from retirement_terminates[OF sample_reaches[OF r] i e] b show ?thesis by simp
qed

section \<open>A panic while draining\<close>

text \<open>A worker that panics after \<open>begin_retirement\<close> leaves a retiring slot behind.  The check for a
  retiring slot comes before the one that heals dead slots, so nothing short of stopping the
  gateway removes it: every later submit of that conversation is rejected, and the slot keeps
  counting against the session cap.\<close>

definition wedged :: "conversation_key \<Rightarrow> gateway \<Rightarrow> bool" where
  "wedged k st \<longleftrightarrow> (\<exists>s. slot_of st k = Some s \<and> sl_retiring s \<and> sl_tx s < length (gw_workers st)
     \<and> phase_of st (sl_tx s) = Gone)"

lemma end_worker_slots [simp]: "slot_of (end_worker i st) = slot_of st"
  by (simp add: end_worker_def Let_def)

lemma fold_end_slots [simp]: "slot_of (fold end_worker ns st) = slot_of st"
  by (induction ns arbitrary: st) simp_all

lemma reject_slots [simp]: "slot_of (snd (reject q req e st)) = slot_of st"
  by (simp add: reject_def)

lemma route_slot_other:
  assumes "k \<noteq> conversation_of (jb_req j)"
  shows "slot_of (snd (route cfg q j st)) k = slot_of st k"
proof -
  have h: "slot_of (heal (conversation_of (jb_req j)) st) k = slot_of st k" for st
    using assms by (simp add: heal_def slot_of_delete split: option.split)
  have s: "slot_of (spawn_worker (conversation_of (jb_req j)) st) k = slot_of st k" for st
    using assms by (simp add: spawn_worker_def slot_of_def map_of_update)
  have e: "slot_of (snd (enqueue q j i n st)) k = slot_of st k" for i n st
    using assms by (simp add: enqueue_def Let_def slot_of_delete)
  show ?thesis by (simp add: route_def Let_def h s e split: option.split)
qed

lemma wedged_route:
  assumes "wedged (conversation_of (jb_req j)) st"
  shows "route cfg q j st = reject q (jb_req j) Unavailable st"
  using assms by (auto simp: wedged_def route_def Let_def)

lemma wedged_cong:
  assumes "slot_of st' = slot_of st" "gw_workers st' = gw_workers st"
  shows "wedged k st' = wedged k st"
  unfolding wedged_def assms phase_of_def by (rule refl)

lemma wedged_admitted: "wedged k (snd (record_received q r (st\<lparr> gw_limiter := l \<rparr>))) = wedged k st"
  by (rule wedged_cong) (simp_all add: slot_of_def fun_eq_iff)

lemma wedged_rejects:
  assumes "wedged (conversation_of (jb_req j)) st"
  shows "\<exists>e. fst (handle_submit cfg q j st) = Inl e"
proof (rule handle_submit_cases[of cfg q j st])
  fix l
  assume "handle_submit cfg q j st = route cfg q j (snd (record_received q (jb_req j) (st\<lparr> gw_limiter := l \<rparr>)))"
  then show ?thesis using assms wedged_route wedged_admitted by (auto simp: reject_def)
qed (simp_all add: reject_def)

lemma submit_slot_wedged:
  assumes "wedged k st"
  shows "slot_of (snd (handle_submit cfg q j st)) k = slot_of st k"
proof (rule handle_submit_cases[of cfg q j st])
  fix l
  let ?st = "snd (record_received q (jb_req j) (st\<lparr> gw_limiter := l \<rparr>))"
  assume h: "handle_submit cfg q j st = route cfg q j ?st"
  have s: "slot_of ?st = slot_of st" by (simp add: slot_of_def fun_eq_iff)
  show ?thesis
  proof (cases "k = conversation_of (jb_req j)")
    case True
    then show ?thesis unfolding h using wedged_route[of j ?st cfg q] wedged_admitted assms s by simp
  next
    case False
    then show ?thesis unfolding h route_slot_other[OF False] s by simp
  qed
qed (simp_all add: slot_of_def reject_snd)

lemma retirement_slot_other:
  assumes "slot_of st k = Some s" "sl_tx s \<noteq> n"
  shows "slot_of (begin_retirement n st) k = Some s" "slot_of (finish_retirement n st) k = Some s"
proof -
  show "slot_of (begin_retirement n st) k = Some s"
    using assms by (auto simp: begin_retirement_def Let_def split: option.split) (auto simp: slot_of_def map_of_update)
  show "slot_of (finish_retirement n st) k = Some s"
    using assms by (auto simp: finish_retirement_def Let_def slot_of_delete split: option.split)
qed

lemma wedged_slot_step:
  assumes w: "slot_of st k = Some s" "sl_retiring s" "sl_tx s < length (gw_workers st)" "phase_of st (sl_tx s) = Gone"
    and ex: "gw_exec cfg l st = Some st'" "l \<noteq> Stop"
  shows "slot_of st' k = Some s"
proof (cases l)
  case (Submit q j)
  have "wedged k st" using w by (auto simp: wedged_def)
  then show ?thesis using Submit ex w(1) submit_slot_wedged by (auto split: if_splits)
next
  case (Take n)
  then show ?thesis using ex w(1) by (auto simp: take_job_def Let_def split: if_splits list.splits)
next
  case (Drain n)
  then show ?thesis using ex w(1) by (auto simp: take_job_def Let_def split: if_splits list.splits)
next
  case (IdleOut n)
  then have "sl_tx s \<noteq> n" "st' = begin_retirement n st" using ex w(4) by (auto split: if_splits)
  then show ?thesis using retirement_slot_other[OF w(1)] by simp
next
  case (Retire n)
  then have "sl_tx s \<noteq> n" "st' = end_worker n (finish_retirement n st)" using ex w(4) by (auto split: if_splits)
  then show ?thesis using retirement_slot_other[OF w(1)] by simp
next
  case (Finish n forced)
  then have "sl_tx s \<noteq> n" using ex w(4) by (auto split: if_splits phase.splits)
  then show ?thesis using Finish ex w(1) retirement_slot_other[OF w(1)] by (auto split: if_splits phase.splits)
next
  case Shutdown
  then show ?thesis using ex w(1) by (auto simp: slot_of_def)
next
  case Force
  then show ?thesis using ex w(1) by (auto simp: slot_of_def split: if_splits)
qed (use ex w(1) in \<open>auto split: if_splits\<close>)

lemma panicked_drain_wedges:
  assumes "gw_inv cfg st" "wedged k st" "gw_exec cfg l st = Some st'" "l \<noteq> Stop"
  shows "wedged k st' \<and> (\<forall>q j. conversation_of (jb_req j) = k \<longrightarrow> (\<exists>e. fst (handle_submit cfg q j st') = Inl e))"
proof -
  obtain s where s: "slot_of st k = Some s" "sl_retiring s" "sl_tx s < length (gw_workers st)"
    "phase_of st (sl_tx s) = Gone" using assms(2) by (auto simp: wedged_def)
  have "wedged k st'"
    using wedged_slot_step[OF s assms(3,4)] gone_stays[OF assms(1) s(3,4) assms(3)] s(2)
    by (auto simp: wedged_def)
  then show ?thesis using wedged_rejects by blast
qed

lemma panicked_drain_reachable:
  "gw_reaches default_gateway [sample_submit [97] 1, Take 0, Finish 0 False, IdleOut 0, Panic 0]
     (sample_state [sample_submit [97] 1, Take 0, Finish 0 False, IdleOut 0, Panic 0])"
  "wedged (ConversationKey FromTelegram [97])
     (sample_state [sample_submit [97] 1, Take 0, Finish 0 False, IdleOut 0, Panic 0])"
proof -
  have "exec_all default_gateway [sample_submit [97] 1, Take 0, Finish 0 False, IdleOut 0, Panic 0]
      (gateway_start default_gateway) \<noteq> None" by (simp add: gw_eval)
  then show "gw_reaches default_gateway [sample_submit [97] 1, Take 0, Finish 0 False, IdleOut 0, Panic 0]
     (sample_state [sample_submit [97] 1, Take 0, Finish 0 False, IdleOut 0, Panic 0])"
    by (rule sample_reaches)
qed (simp add: gw_eval wedged_def)

end
