(* ===== verification/Gateway_Worker.thy ===== *)
theory Gateway_Worker
  imports Gateway Runner Assistant_Registry
begin

text \<open>
  One trigger end to end (\<open>process\<close> of \<open>dotagent/src/gateway/worker.rs\<close>): the audit record that
  must precede the run, the typing indicator, the stdout tap with its bounded delta queue, the
  reply shaper fed by assistant frames (\<open>dotagent-core/src/assistant.rs\<close>), the harness pass and the
  one reply.  What the outside decides is the moment the force signal is seen, the lines the
  agent prints interleaved with the pump's reads, and the answers of the runner and the sink.
\<close>

section \<open>Assistant frames\<close>

datatype assistant_event = Delta rstr | Reply rstr | Session rstr nat

text \<open>serde's internally tagged enum, read from the text itself: an object must carry each key of
  the variant once, and the array form is accepted too.  \<open>parse\<close> is serde's reader, with the keys
  of an object in the order of the text.\<close>

definition one_field :: "rstr \<Rightarrow> (rstr \<times> json) list \<Rightarrow> json option" where
  "one_field key obj = (case filter (\<lambda>kv. fst kv = key) obj of [kv] \<Rightarrow> Some (snd kv) | _ \<Rightarrow> None)"

fun event_of :: "rstr \<Rightarrow> json option \<Rightarrow> json option \<Rightarrow> json option \<Rightarrow> assistant_event option" where
  "event_of tag text sess bytes = (
     if tag = lit ''delta'' then (case text of Some (JString t) \<Rightarrow> Some (Delta t) | _ \<Rightarrow> None)
     else if tag = lit ''reply'' then (case text of Some (JString t) \<Rightarrow> Some (Reply t) | _ \<Rightarrow> None)
     else if tag = lit ''session'' then
       (case (sess, bytes) of
          (Some (JString s), Some b) \<Rightarrow> map_option (Session s) (as_u64 b)
        | _ \<Rightarrow> None)
     else None)"

fun frame_of :: "json \<Rightarrow> assistant_event option" where
  "frame_of (JObject obj) = (case one_field (lit ''type'') obj of
     Some (JString tag) \<Rightarrow> event_of tag (one_field (lit ''text'') obj)
       (one_field (lit ''claude_session'') obj) (one_field (lit ''transcript_bytes'') obj)
   | _ \<Rightarrow> None)"
| "frame_of (JArray [JString tag, a]) =
     (if tag = lit ''session'' then None else event_of tag (Some a) None None)"
| "frame_of (JArray [JString tag, a, b]) =
     (if tag = lit ''session'' then event_of tag None (Some a) (Some b) else None)"
| "frame_of _ = None"

definition parse_line :: "(rstr \<Rightarrow> json option) \<Rightarrow> rstr \<Rightarrow> assistant_event option" where
  "parse_line parse line = (let trimmed = trim line
     in if trimmed = [] then None else (case parse trimmed of Some j \<Rightarrow> frame_of j | None \<Rightarrow> None))"

section \<open>The reply shaper\<close>

record reply_shaper =
  rs_enabled :: bool
  rs_saw_protocol :: bool
  rs_last_reply :: "rstr option"
  rs_session_frame :: "(rstr \<times> nat) option"

definition shaper_new :: "bool \<Rightarrow> reply_shaper" where
  "shaper_new enabled = \<lparr> rs_enabled = enabled, rs_saw_protocol = False, rs_last_reply = None,
     rs_session_frame = None \<rparr>"

definition feed :: "(rstr \<Rightarrow> json option) \<Rightarrow> rstr \<Rightarrow> reply_shaper \<Rightarrow> reply_shaper" where
  "feed parse line s =
     (if \<not> rs_enabled s then s
      else case parse_line parse line of
        None \<Rightarrow> s
      | Some (Reply text) \<Rightarrow> s\<lparr> rs_saw_protocol := True, rs_last_reply := Some text \<rparr>
      | Some (Session claude bytes) \<Rightarrow> s\<lparr> rs_saw_protocol := True, rs_session_frame := Some (claude, bytes) \<rparr>
      | Some (Delta _) \<Rightarrow> s\<lparr> rs_saw_protocol := True \<rparr>)"

text \<open>An error of the run is the text it displays.\<close>

fun shape_final_reply :: "rstr \<Rightarrow> rstr + orchestrated_outcome \<Rightarrow> reply_shaper \<Rightarrow> rstr" where
  "shape_final_reply agent (Inr (Ran run)) s =
     (if ro_exit_code run = 0
      then case (if rs_enabled s then rs_last_reply s else None) of
             Some reply \<Rightarrow> reply
           | None \<Rightarrow> if trim (ro_stdout_tail run) = [] then agent @ lit '' finished with no output.''
                     else ro_stdout_tail run
      else agent @ lit '' ''
             @ (if ro_timed_out run then lit ''timed out'' else lit ''exited '' @ show_int (ro_exit_code run))
             @ lit ''.\<newline>'' @ ro_stderr_tail run)"
| "shape_final_reply agent (Inr (PreflightAborted plugin suggest)) s =
     agent @ lit '' blocked by preflight '' @ plugin
       @ (case suggest of Some h \<Rightarrow> lit '': '' @ h | None \<Rightarrow> [])"
| "shape_final_reply agent (Inl e) s = lit ''Could not run '' @ agent @ lit '': '' @ e"

section \<open>The stdout tap and the delta pump\<close>

definition delta_channel_depth :: nat where "delta_channel_depth = 64"

text \<open>What happens on the tap while the agent runs: it prints a line, the pump takes one, the
  typing loop refreshes the indicator.\<close>

datatype tap_event = TapLine rstr | PumpTake | TypingTick

datatype process_event =
  Triggered audit_event | Typing | RunStarted | SinkDelta rstr | SinkReply rstr | SinkReplyCut rstr

record tap =
  tp_shaper :: reply_shaper
  tp_queue :: "rstr list"
  tp_dropped :: nat
  tp_out :: "process_event list"

fun tap_step :: "(rstr \<Rightarrow> json option) \<Rightarrow> tap_event \<Rightarrow> tap \<Rightarrow> tap" where
  "tap_step parse (TapLine line) t =
     (let t1 = t\<lparr> tp_shaper := feed parse line (tp_shaper t) \<rparr>
      in if length (tp_queue t1) \<ge> delta_channel_depth then t1\<lparr> tp_dropped := tp_dropped t1 + 1 \<rparr>
         else t1\<lparr> tp_queue := tp_queue t1 @ [line] \<rparr>)"
| "tap_step parse PumpTake t = (case tp_queue t of
     [] \<Rightarrow> t | l # ls \<Rightarrow> t\<lparr> tp_queue := ls, tp_out := tp_out t @ [SinkDelta l] \<rparr>)"
| "tap_step parse TypingTick t = t\<lparr> tp_out := tp_out t @ [Typing] \<rparr>"

definition tap_new :: "bool \<Rightarrow> tap" where
  "tap_new enabled = \<lparr> tp_shaper = shaper_new enabled, tp_queue = [], tp_dropped = 0, tp_out = [] \<rparr>"

definition tap_run :: "(rstr \<Rightarrow> json option) \<Rightarrow> bool \<Rightarrow> tap_event list \<Rightarrow> tap" where
  "tap_run parse enabled es = fold (tap_step parse) es (tap_new enabled)"

section \<open>One trigger\<close>

text \<open>A delivery: it completed, the force signal was already there, or the signal cut it.\<close>

datatype delivery = Delivered | ForcedBefore | ForcedDuring

datatype run_answer =
  RunJoined "rstr + orchestrated_outcome" | RunPanicked rstr | RunTaskFailed rstr | RunForced

text \<open>\<open>po_drain\<close> is what still happens on the tap after the run has returned, while the pump has its
  grace and the typing loop is stopped; a runner that keeps the tap alive may even print.\<close>

record process_outside =
  po_forced_at_start :: bool
  po_audit :: bool
  po_audit_ok :: bool
  po_audit_reply :: delivery
  po_typing :: delivery
  po_uses_protocol :: bool
  po_tap :: "tap_event list"
  po_run :: run_answer
  po_drain :: "tap_event list"
  po_pump_forced :: bool
  po_typing_forced :: bool
  po_reply :: delivery

datatype job_result = Finished | ForcedShutdown

definition triggered_event :: "trigger_request \<Rightarrow> audit_event" where
  "triggered_event req = AgentTriggered (show_source (tq_source req)) (tq_actor req) (tq_agent req)
     (case tq_schedule req of Some s \<Rightarrow> s | None \<Rightarrow> trigger_schedule_id)"

definition record_triggered :: "process_outside \<Rightarrow> bool" where
  "record_triggered q \<longleftrightarrow> po_audit q \<and> po_audit_ok q"

fun sink_reply :: "delivery \<Rightarrow> rstr \<Rightarrow> job_result \<times> process_event list" where
  "sink_reply Delivered text = (Finished, [SinkReply text])"
| "sink_reply ForcedBefore text = (ForcedShutdown, [])"
| "sink_reply ForcedDuring text = (ForcedShutdown, [SinkReplyCut text])"

definition audit_unavailable_reply :: rstr where
  "audit_unavailable_reply = lit ''Could not run trigger: audit unavailable.''"

fun run_outcome_of :: "run_answer \<Rightarrow> (rstr + orchestrated_outcome) option" where
  "run_outcome_of (RunJoined r) = Some r"
| "run_outcome_of (RunPanicked e) = Some (Inl (lit ''agent runner panicked: '' @ e))"
| "run_outcome_of (RunTaskFailed e) = Some (Inl (lit ''agent runner task failed: '' @ e))"
| "run_outcome_of RunForced = None"

definition process :: "(rstr \<Rightarrow> json option) \<Rightarrow> (trigger_request \<Rightarrow> rstr \<Rightarrow> (rstr \<times> nat) option \<Rightarrow> rstr)
    \<Rightarrow> process_outside \<Rightarrow> trigger_request \<Rightarrow> job_result \<times> process_event list" where
  "process parse fin q req =
    (if po_forced_at_start q then (ForcedShutdown, [])
     else if \<not> record_triggered q then sink_reply (po_audit_reply q) audit_unavailable_reply
     else if po_typing q \<noteq> Delivered
     then (ForcedShutdown, Triggered (triggered_event req) # (if po_typing q = ForcedDuring then [Typing] else []))
     else
       let t = tap_run parse (po_uses_protocol q) (po_tap q);
           started = [Triggered (triggered_event req), Typing, RunStarted]
       in case run_outcome_of (po_run q) of
            None \<Rightarrow> (ForcedShutdown, started @ tp_out t)
          | Some outcome \<Rightarrow>
              let t2 = fold (tap_step parse) (po_drain q) t
              in if po_pump_forced q \<or> po_typing_forced q then (ForcedShutdown, started @ tp_out t2)
                 else let reply = shape_final_reply (tq_agent req) outcome (tp_shaper t2);
                          final = fin req reply (rs_session_frame (tp_shaper t2));
                          (res, es) = sink_reply (po_reply q) final
                      in (res, started @ tp_out t2 @ es))"

text \<open>The daemon's runner: an agent that is not found keeps its reply, the others go through the
  harness (\<open>assistant_finalize\<close> of \<open>commands/daemon.rs\<close>).\<close>

definition assistant_finalize :: "(rstr \<Rightarrow> agent_manifest option) \<Rightarrow> harness_outside \<Rightarrow> registry_files
    \<Rightarrow> trigger_request \<Rightarrow> rstr \<Rightarrow> (rstr \<times> nat) option \<Rightarrow> rstr" where
  "assistant_finalize find_agent hq f req reply frame = (case find_agent (tq_agent req) of
     None \<Rightarrow> reply
   | Some m \<Rightarrow> fst (fst (finalize hq m req reply frame f)))"

definition assistant_agent :: "(rstr \<Rightarrow> agent_manifest option) \<Rightarrow> trigger_request \<Rightarrow> bool" where
  "assistant_agent find_agent req = (case find_agent (tq_agent req) of
     None \<Rightarrow> False | Some m \<Rightarrow> harness_enabled m)"

section \<open>The tap loses deltas, never frames\<close>

fun tap_lines :: "tap_event list \<Rightarrow> rstr list" where
  "tap_lines [] = []"
| "tap_lines (TapLine l # es) = l # tap_lines es"
| "tap_lines (_ # es) = tap_lines es"

fun deltas :: "process_event list \<Rightarrow> rstr list" where
  "deltas [] = []"
| "deltas (SinkDelta l # es) = l # deltas es"
| "deltas (_ # es) = deltas es"

lemma tap_lines_append [simp]: "tap_lines (xs @ ys) = tap_lines xs @ tap_lines ys"
  by (induction xs rule: tap_lines.induct) auto

lemma deltas_append [simp]: "deltas (xs @ ys) = deltas xs @ deltas ys"
  by (induction xs rule: deltas.induct) auto

lemma tap_shaper: "tp_shaper (fold (tap_step parse) es t) = fold (feed parse) (tap_lines es) (tp_shaper t)"
proof (induction es arbitrary: t)
  case (Cons e es)
  then show ?case by (cases e) (auto simp: Let_def split: list.split)
qed simp

text \<open>What the sink has seen and what is queued is a part of what was printed, in that order, and
  what is missing was counted as dropped.\<close>

definition tap_ok :: "rstr list \<Rightarrow> tap \<Rightarrow> bool" where
  "tap_ok printed t \<longleftrightarrow> subseq (deltas (tp_out t) @ tp_queue t) printed
     \<and> length (deltas (tp_out t) @ tp_queue t) + tp_dropped t = length printed
     \<and> length (tp_queue t) \<le> delta_channel_depth
     \<and> (\<forall>e\<in>set (tp_out t). e = Typing \<or> (\<exists>l. e = SinkDelta l))"

lemma tap_step_ok:
  assumes "tap_ok printed t"
  shows "tap_ok (printed @ tap_lines [e]) (tap_step parse e t)"
proof (cases e)
  case (TapLine l)
  have "subseq (deltas (tp_out t) @ tp_queue t) (printed @ [l])"
    using assms by (auto simp: tap_ok_def intro: subseq_rev_drop_many)
  moreover have "subseq (deltas (tp_out t) @ tp_queue t @ [l]) (printed @ [l])"
    using assms list_emb_append_mono[of "(=)" "deltas (tp_out t) @ tp_queue t" printed "[l]" "[l]"]
    by (simp add: tap_ok_def)
  ultimately show ?thesis using TapLine assms by (auto simp: tap_ok_def Let_def)
next
  case PumpTake
  then show ?thesis using assms by (auto simp: tap_ok_def split: list.split)
next
  case TypingTick
  then show ?thesis using assms by (auto simp: tap_ok_def)
qed

lemma tap_fold_ok: "tap_ok printed t \<Longrightarrow> tap_ok (printed @ tap_lines es) (fold (tap_step parse) es t)"
proof (induction es arbitrary: printed t)
  case (Cons e es)
  have "tap_lines (e # es) = tap_lines [e] @ tap_lines es" by (cases e) auto
  then show ?case using Cons.IH[OF tap_step_ok[OF Cons.prems]] by simp
qed simp

lemma tap_new_ok: "tap_ok [] (tap_new b)"
  by (simp add: tap_ok_def tap_new_def)

lemma tap_run_ok: "tap_ok (tap_lines (xs @ ys)) (fold (tap_step parse) ys (tap_run parse b xs))"
  using tap_fold_ok[OF tap_fold_ok[OF tap_new_ok]] by (simp add: tap_run_def)

text \<open>The shaper against its specification: the last reply frame and the last session frame of the
  printed lines.\<close>

definition frames :: "(rstr \<Rightarrow> json option) \<Rightarrow> rstr list \<Rightarrow> assistant_event list" where
  "frames parse ls = List.map_filter (parse_line parse) ls"

definition replies :: "assistant_event list \<Rightarrow> rstr list" where
  "replies fs = List.map_filter (\<lambda>e. case e of Reply t \<Rightarrow> Some t | _ \<Rightarrow> None) fs"

definition sessions :: "assistant_event list \<Rightarrow> (rstr \<times> nat) list" where
  "sessions fs = List.map_filter (\<lambda>e. case e of Session s b \<Rightarrow> Some (s, b) | _ \<Rightarrow> None) fs"

definition last_opt :: "'a list \<Rightarrow> 'a option" where
  "last_opt xs = (if xs = [] then None else Some (last xs))"

lemma frames_snoc:
  "frames parse (ls @ [l]) = frames parse ls @ (case parse_line parse l of Some e \<Rightarrow> [e] | None \<Rightarrow> [])"
  by (simp add: frames_def List.map_filter_def split: option.split)

lemma frame_snoc:
  "replies (fs @ [e]) = replies fs @ (case e of Reply t \<Rightarrow> [t] | _ \<Rightarrow> [])"
  "sessions (fs @ [e]) = sessions fs @ (case e of Session s b \<Rightarrow> [(s, b)] | _ \<Rightarrow> [])"
  by (simp_all add: replies_def sessions_def List.map_filter_def split: assistant_event.split)

lemma feed_all:
  "fold (feed parse) ls (shaper_new True) = \<lparr> rs_enabled = True, rs_saw_protocol = (frames parse ls \<noteq> []),
     rs_last_reply = last_opt (replies (frames parse ls)),
     rs_session_frame = last_opt (sessions (frames parse ls)) \<rparr>" (is "?L ls = ?R ls")
proof (induction ls rule: rev_induct)
  case Nil
  show ?case by (simp add: shaper_new_def frames_def replies_def sessions_def last_opt_def List.map_filter_def)
next
  case (snoc l ls)
  have "?L (ls @ [l]) = feed parse l (?R ls)" using snoc by simp
  also have "\<dots> = ?R (ls @ [l])"
    by (auto simp: feed_def frames_snoc frame_snoc last_opt_def split: option.split assistant_event.split)
  finally show ?case .
qed

lemma feed_disabled: "fold (feed parse) ls (shaper_new False) = shaper_new False"
  by (induction ls) (simp_all add: feed_def shaper_new_def)

lemma shaper_new_simps [simp]:
  "rs_enabled (shaper_new b) = b" "rs_last_reply (shaper_new b) = None" "rs_session_frame (shaper_new b) = None"
  by (simp_all add: shaper_new_def)

lemma feed_spec:
  "rs_last_reply (fold (feed parse) ls (shaper_new b)) = (if b then last_opt (replies (frames parse ls)) else None)"
  "rs_session_frame (fold (feed parse) ls (shaper_new b)) = (if b then last_opt (sessions (frames parse ls)) else None)"
  "rs_enabled (fold (feed parse) ls (shaper_new b)) = b"
  by (cases b; simp add: feed_all feed_disabled)+

section \<open>One reply\<close>

fun is_reply :: "process_event \<Rightarrow> bool" where
  "is_reply (SinkReply _) = True"
| "is_reply (SinkReplyCut _) = True"
| "is_reply _ = False"

text \<open>The reply a run owes its conversation, from everything the agent printed.\<close>

definition reply_due :: "(rstr \<Rightarrow> json option) \<Rightarrow> (trigger_request \<Rightarrow> rstr \<Rightarrow> (rstr \<times> nat) option \<Rightarrow> rstr)
    \<Rightarrow> process_outside \<Rightarrow> trigger_request \<Rightarrow> rstr" where
  "reply_due parse fin q req = (
     let fs = (if po_uses_protocol q then frames parse (tap_lines (po_tap q @ po_drain q)) else []);
         frame = last_opt (sessions fs)
     in fin req
          (case run_outcome_of (po_run q) of
             Some (Inr (Ran run)) \<Rightarrow>
               (case last_opt (replies fs) of
                  Some text \<Rightarrow> if ro_exit_code run = 0 then text
                    else shape_final_reply (tq_agent req) (Inr (Ran run)) (shaper_new False)
                | None \<Rightarrow> shape_final_reply (tq_agent req) (Inr (Ran run)) (shaper_new False))
           | Some r \<Rightarrow> shape_final_reply (tq_agent req) r (shaper_new False)
           | None \<Rightarrow> []) frame)"

lemma shape_reply_due:
  assumes "run_outcome_of (po_run q) = Some outcome"
  shows "fin req (shape_final_reply (tq_agent req) outcome
        (fold (feed parse) (tap_lines (po_tap q @ po_drain q)) (shaper_new (po_uses_protocol q))))
      (rs_session_frame (fold (feed parse) (tap_lines (po_tap q @ po_drain q)) (shaper_new (po_uses_protocol q))))
    = reply_due parse fin q req"
proof -
  define fs where "fs = (if po_uses_protocol q then frames parse (tap_lines (po_tap q @ po_drain q)) else [])"
  define sh where "sh = fold (feed parse) (tap_lines (po_tap q @ po_drain q)) (shaper_new (po_uses_protocol q))"
  have e: "last_opt (replies []) = None" "last_opt (sessions []) = None"
    by (simp_all add: last_opt_def replies_def sessions_def List.map_filter_def)
  have l: "(if rs_enabled sh then rs_last_reply sh else None) = last_opt (replies fs)"
    "rs_session_frame sh = last_opt (sessions fs)"
    unfolding sh_def fs_def feed_spec by (simp_all add: e)
  have "shape_final_reply (tq_agent req) outcome sh
    = (case outcome of
         Inr (Ran run) \<Rightarrow>
           (case last_opt (replies fs) of
              Some text \<Rightarrow> if ro_exit_code run = 0 then text
                else shape_final_reply (tq_agent req) (Inr (Ran run)) (shaper_new False)
            | None \<Rightarrow> shape_final_reply (tq_agent req) (Inr (Ran run)) (shaper_new False))
       | r \<Rightarrow> shape_final_reply (tq_agent req) r (shaper_new False))"
  proof (cases outcome)
    case (Inr o')
    show ?thesis
    proof (cases o')
      case (Ran run)
      show ?thesis unfolding Inr Ran shape_final_reply.simps l(1) by (simp split: option.split)
    qed (simp add: Inr)
  qed simp
  then show ?thesis
    unfolding reply_due_def assms sh_def[symmetric] fs_def[symmetric] Let_def l(2)
    by (simp split: sum.split orchestrated_outcome.split)
qed

lemma process_forms:
  obtains (nothing) "process parse fin q req = (ForcedShutdown, [])"
  | (unaudited) "\<not> record_triggered q"
      "process parse fin q req = sink_reply (po_audit_reply q) audit_unavailable_reply"
  | (untyped) es where "record_triggered q" "es = [] \<or> es = [Typing]"
      "process parse fin q req = (ForcedShutdown, Triggered (triggered_event req) # es)"
  | (cut) t ls where "record_triggered q" "tap_ok ls t" "prefix ls (tap_lines (po_tap q @ po_drain q))"
      "process parse fin q req = (ForcedShutdown, [Triggered (triggered_event req), Typing, RunStarted] @ tp_out t)"
  | (ran) t where "record_triggered q" "tap_ok (tap_lines (po_tap q @ po_drain q)) t"
      "process parse fin q req =
        (fst (sink_reply (po_reply q) (reply_due parse fin q req)),
         [Triggered (triggered_event req), Typing, RunStarted] @ tp_out t
           @ snd (sink_reply (po_reply q) (reply_due parse fin q req)))"
proof -
  let ?t = "tap_run parse (po_uses_protocol q) (po_tap q)"
  let ?t2 = "fold (tap_step parse) (po_drain q) ?t"
  have t: "tap_ok (tap_lines (po_tap q)) ?t" using tap_run_ok[of "po_tap q" "[]"] by simp
  have t2: "tap_ok (tap_lines (po_tap q @ po_drain q)) ?t2" by (rule tap_run_ok)
  have sh: "tp_shaper ?t2 = fold (feed parse) (tap_lines (po_tap q @ po_drain q)) (shaper_new (po_uses_protocol q))"
    by (simp add: tap_run_def tap_shaper tap_new_def)
  consider "po_forced_at_start q" | "\<not> po_forced_at_start q" "\<not> record_triggered q"
    | "\<not> po_forced_at_start q" "record_triggered q" "po_typing q \<noteq> Delivered"
    | "\<not> po_forced_at_start q" "record_triggered q" "po_typing q = Delivered" "run_outcome_of (po_run q) = None"
    | outcome where "\<not> po_forced_at_start q" "record_triggered q" "po_typing q = Delivered"
        "run_outcome_of (po_run q) = Some outcome" "po_pump_forced q \<or> po_typing_forced q"
    | outcome where "\<not> po_forced_at_start q" "record_triggered q" "po_typing q = Delivered"
        "run_outcome_of (po_run q) = Some outcome" "\<not> (po_pump_forced q \<or> po_typing_forced q)"
    by blast
  then show thesis
  proof cases
    case 1 show ?thesis by (rule nothing) (simp add: process_def 1)
  next
    case 2 show ?thesis by (rule unaudited) (simp_all add: process_def 2)
  next
    case 3 show ?thesis
      by (rule untyped[of "if po_typing q = ForcedDuring then [Typing] else []"]) (simp_all add: process_def 3)
  next
    case 4 show ?thesis by (rule cut[OF _ t]) (simp_all add: process_def 4)
  next
    case 5 show ?thesis by (rule cut[OF _ t2]) (use 5(5) in \<open>simp_all add: process_def Let_def 5(1-4)\<close>)
  next
    case 6
    note r = shape_reply_due[OF 6(4), of fin req parse]
    have "process parse fin q req =
        (fst (sink_reply (po_reply q) (reply_due parse fin q req)),
         [Triggered (triggered_event req), Typing, RunStarted] @ tp_out ?t2
           @ snd (sink_reply (po_reply q) (reply_due parse fin q req)))"
      unfolding process_def Let_def sh using 6 r by (simp add: case_prod_beta)
    then show ?thesis using ran[OF 6(2) t2] by blast
  qed
qed

lemma tap_out_facts:
  assumes "tap_ok ls t"
  shows "subseq (deltas (tp_out t)) ls" "\<forall>e\<in>set (tp_out t). \<not> is_reply e \<and> e \<noteq> RunStarted"
proof -
  have "subseq (deltas (tp_out t)) (deltas (tp_out t) @ tp_queue t)"
    using list_emb_append_mono[of "(=)" "deltas (tp_out t)" "deltas (tp_out t)" "[]" "tp_queue t"] by simp
  then show "subseq (deltas (tp_out t)) ls" using assms subseq_order.trans by (auto simp: tap_ok_def)
  show "\<forall>e\<in>set (tp_out t). \<not> is_reply e \<and> e \<noteq> RunStarted"
    using assms by (fastforce simp: tap_ok_def)
qed

section \<open>The runner's contract\<close>

text \<open>What a worker relies on: for an agent with the assistant harness, \<open>assistant_finalize\<close>
  returns a text without memo lines.\<close>

locale gateway_runner =
  fixes fin :: "trigger_request \<Rightarrow> rstr \<Rightarrow> (rstr \<times> nat) option \<Rightarrow> rstr"
    and has_harness :: "trigger_request \<Rightarrow> bool"
  assumes fin_clean: "has_harness req \<Longrightarrow> l \<in> set (str_lines (fin req reply frame)) \<Longrightarrow> parse_memo_line l = None"
    and fin_plain: "\<not> has_harness req \<Longrightarrow> fin req reply frame = reply"
begin

lemma delivered_clean:
  assumes "has_harness req" "record_triggered q" "process parse fin q req = (Finished, es)"
    and "SinkReply text \<in> set es" "l \<in> set (str_lines text)"
  shows "parse_memo_line l = None"
proof (cases rule: process_forms[of parse fin q req, case_names nothing unaudited untyped cut ran])
  case (ran t)
  have "\<forall>e\<in>set (tp_out t). \<not> is_reply e" using tap_out_facts[OF ran(2)] by blast
  moreover have "SinkReply text \<in> set (tp_out t @ snd (sink_reply (po_reply q) (reply_due parse fin q req)))"
    using assms(3,4) ran(3) by auto
  ultimately have "text = reply_due parse fin q req" by (cases "po_reply q") auto
  then show ?thesis using fin_clean[OF assms(1)] assms(5) by (auto simp: reply_due_def Let_def)
qed (use assms in auto)

lemma plain_untouched: "\<not> has_harness req \<Longrightarrow> reply_due parse fin q req = reply_due parse (\<lambda>_ r _. r) q req"
  by (simp add: reply_due_def Let_def fin_plain)

end

lemma assistant_finalize_strips:
  assumes "find_agent (tq_agent req) = Some m" "mf_assistant m = Some c" "ac_enabled c"
  shows "assistant_finalize find_agent hq f req reply frame = fst (strip_memos reply)"
  using assms by (simp add: assistant_finalize_def finalize_def Let_def case_prod_beta)

interpretation daemon_runner: gateway_runner "assistant_finalize find_agent hq f" "assistant_agent find_agent"
  for find_agent hq f
proof
  fix req l reply frame
  assume h: "assistant_agent find_agent req" and l: "l \<in> set (str_lines (assistant_finalize find_agent hq f req reply frame))"
  obtain m c where "find_agent (tq_agent req) = Some m" "mf_assistant m = Some c" "ac_enabled c"
    using h by (auto simp: assistant_agent_def harness_enabled_def split: option.splits)
  then show "parse_memo_line l = None" using l assistant_finalize_strips strip_memos_clean by metis
next
  fix req reply frame
  assume "\<not> assistant_agent find_agent req"
  then show "assistant_finalize find_agent hq f req reply frame = reply"
    by (auto simp: assistant_agent_def harness_enabled_def assistant_finalize_def finalize_def split: option.splits)
qed

text \<open>C28. A trigger's turn in its worker.  If it finishes, exactly one reply went out and it was the
  last thing the sink saw: the fixed refusal when the audit record could not be written, otherwise
  the text owed to the conversation, which is the last reply frame among all the lines the agent
  printed, however many deltas the bounded queue dropped.  Nothing runs unless its
  \<open>agent_triggered\<close> record was written first; the deltas delivered are a subsequence of the printed
  lines; a turn cut by the force signal completes no reply; and for an agent with the assistant
  harness no line of the reply is a memo.\<close>

theorem one_reply_per_trigger:
  assumes "process parse (assistant_finalize find_agent hq f) q req = (res, es)"
  shows "(res = Finished \<longrightarrow> (\<exists>pre. (\<forall>e\<in>set pre. \<not> is_reply e) \<and> es = pre @ [SinkReply
       (if record_triggered q then reply_due parse (assistant_finalize find_agent hq f) q req
        else audit_unavailable_reply)]))
    \<and> (res = ForcedShutdown \<longrightarrow> (\<forall>text. SinkReply text \<notin> set es))
    \<and> (RunStarted \<in> set es \<longrightarrow> record_triggered q \<and> (\<exists>rest. es = Triggered (triggered_event req) # rest))
    \<and> subseq (deltas es) (tap_lines (po_tap q @ po_drain q))
    \<and> (res = Finished \<and> record_triggered q \<and> assistant_agent find_agent req \<longrightarrow>
        (\<forall>text l. SinkReply text \<in> set es \<and> l \<in> set (str_lines text) \<longrightarrow> parse_memo_line l = None))"
proof -
  let ?fin = "assistant_finalize find_agent hq f"
  have clean: "res = Finished \<and> record_triggered q \<and> assistant_agent find_agent req \<longrightarrow>
      (\<forall>text l. SinkReply text \<in> set es \<and> l \<in> set (str_lines text) \<longrightarrow> parse_memo_line l = None)"
    using daemon_runner.delivered_clean[of find_agent req q parse hq f es] assms by blast
  show ?thesis
  proof (cases rule: process_forms[of parse ?fin q req, case_names nothing unaudited untyped cut ran])
    case unaudited
    then show ?thesis using assms by (cases "po_audit_reply q") auto
  next
    case (cut t ls)
    have "subseq (deltas (tp_out t)) (tap_lines (po_tap q @ po_drain q))"
      using tap_out_facts(1)[OF cut(2)] prefix_imp_subseq[OF cut(3)] by (rule subseq_order.trans)
    then show ?thesis using tap_out_facts(2)[OF cut(2)] cut assms by auto
  next
    case (ran t)
    note facts = tap_out_facts[OF ran(2)]
    show ?thesis
    proof (cases "po_reply q")
      case Delivered
      then have "es = ([Triggered (triggered_event req), Typing, RunStarted] @ tp_out t) @ [SinkReply (reply_due parse ?fin q req)]"
        "res = Finished" using ran(3) assms by auto
      then show ?thesis using facts ran(1) clean by (auto intro!: exI[of _ "[Triggered (triggered_event req), Typing, RunStarted] @ tp_out t"])
    qed (use ran(3) assms facts ran(1) in auto)
  qed (use assms in auto)
qed

text \<open>A run that prints one reply frame, whose text carries a memo line.\<close>

definition sample_parse :: "rstr \<Rightarrow> json option" where
  "sample_parse _ = Some (JObject [(lit ''type'', JString (lit ''reply'')),
     (lit ''text'', JString (lit ''hello\<newline>MEMO: likes tea''))])"

definition sample_process :: process_outside where
  "sample_process = \<lparr> po_forced_at_start = False, po_audit = True, po_audit_ok = True,
     po_audit_reply = Delivered, po_typing = Delivered, po_uses_protocol = True,
     po_tap = [TapLine (lit ''frame''), TypingTick, PumpTake],
     po_run = RunJoined (Inr (Ran \<lparr> ro_exit_code = 0, ro_timed_out = False, ro_duration_seconds = 1,
       ro_stdout_tail = lit ''frame'', ro_stderr_tail = [], ro_stdout_truncated_lines = 0,
       ro_stderr_truncated_lines = 0 \<rparr>)),
     po_drain = [], po_pump_forced = False, po_typing_forced = False, po_reply = Delivered \<rparr>"

lemma sample_strip: "fst (strip_memos (lit ''hello\<newline>MEMO: likes tea'')) = lit ''hello''"
  by (simp add: strip_memos_def str_lines_def parse_memo_line_def lit_def trim_def trim_start_def trim_end_def
      is_ws_def strip_cr_def Let_def)

lemma sample_frame: "parse_line sample_parse (lit ''frame'') = Some (Reply (lit ''hello\<newline>MEMO: likes tea''))"
proof -
  have "trim (lit ''frame'') \<noteq> []" by (simp add: trim_eq_Nil lit_def is_ws_def)
  then show ?thesis by (simp add: parse_line_def sample_parse_def one_field_def)
qed

lemma sample_reply:
  "process sample_parse (assistant_finalize (\<lambda>_. Some chat_manifest) chat_outside (\<lambda>_. Absent)) sample_process chat_request
   = (Finished, [Triggered (triggered_event chat_request), Typing, RunStarted, Typing, SinkDelta (lit ''frame''),
       SinkReply (lit ''hello'')])"
proof -
  have fin: "assistant_finalize (\<lambda>_. Some chat_manifest) chat_outside (\<lambda>_. Absent) req reply frame = fst (strip_memos reply)"
    for req reply frame by (rule assistant_finalize_strips[where m = chat_manifest and c = "the (mf_assistant chat_manifest)"])
      (simp_all add: chat_manifest_def)
  show ?thesis
    by (simp add: process_def sample_process_def record_triggered_def fin tap_run_def tap_new_def feed_def
        sample_frame sample_strip shaper_new_def delta_channel_depth_def)
qed

theorem one_reply_per_trigger_witness:
  "parse_memo_line (lit ''hello'') = None
   \<and> reply_due sample_parse (assistant_finalize (\<lambda>_. Some chat_manifest) chat_outside (\<lambda>_. Absent)) sample_process chat_request
     = lit ''hello''"
proof -
  note r = one_reply_per_trigger[OF sample_reply]
  have h: "record_triggered sample_process" "assistant_agent (\<lambda>_. Some chat_manifest) chat_request"
    by (simp_all add: record_triggered_def sample_process_def assistant_agent_def harness_enabled_def chat_manifest_def)
  have "lit ''hello'' \<in> set (str_lines (lit ''hello''))" by (simp add: str_lines_def lit_def)
  then show ?thesis using r h by auto
qed

end
