(* ===== verification/Pool_Exchange.thy ===== *)
theory Pool_Exchange
  imports Protocol Runner
begin

text \<open>
  One request to a persistent agent (\<open>dotagent-runner/src/persistent.rs\<close>): which instance answers
  it (\<open>resolve_key\<close>), writing the frame and knowing whether any byte left (\<open>write_frame\<close>), finding
  the answer among the lines the agent prints (\<open>read_answer\<close>), the share of stderr that belongs to
  the request (\<open>StderrRing\<close>), the handshake of a new instance and the verdict of one exchange.
  What the pipes, the clock and the reaper do is an argument.  Which slot and which process a
  request gets is theory Persistent_Pool.
\<close>

section \<open>The instance a request belongs to\<close>

definition default_instance_key :: rstr where "default_instance_key = lit ''default''"
definition scheduled_scope :: rstr where "scheduled_scope = lit ''scheduled''"

definition instance_scope :: "(rstr \<Rightarrow> rstr) \<Rightarrow> run_spec \<Rightarrow> rstr" where
  "instance_scope digest spec = (case map_of (rs_extra_env spec) (lit ''AGENT_TRIGGER_SOURCE'') of
     Some source \<Rightarrow> lit ''trigger-'' @ sanitize_key digest source
   | None \<Rightarrow> scheduled_scope)"

definition payload_field :: "rstr \<Rightarrow> json \<Rightarrow> rstr option" where
  "payload_field key payload = (case payload of
     JObject obj \<Rightarrow> (case map_of obj key of
         Some (JString s) \<Rightarrow> Some s
       | Some (JInt i) \<Rightarrow> Some (show_int i)
       | Some (JFloat n) \<Rightarrow> Some n
       | _ \<Rightarrow> None)
   | _ \<Rightarrow> None)"

definition instance_slice :: "(rstr \<Rightarrow> json option) \<Rightarrow> (rstr \<Rightarrow> rstr) \<Rightarrow> run_spec \<Rightarrow> rstr" where
  "instance_slice parse digest spec = (case lc_key (mf_lifecycle (rs_manifest spec)) of
     None \<Rightarrow> default_instance_key
   | Some key \<Rightarrow>
       (case Option.bind (Option.bind (map_of (rs_extra_env spec) (lit ''AGENT_TRIGGER_PAYLOAD'')) parse)
               (payload_field key) of
          Some v \<Rightarrow> sanitize_key digest v
        | None \<Rightarrow> default_instance_key))"

definition resolve_key :: "(rstr \<Rightarrow> json option) \<Rightarrow> (rstr \<Rightarrow> rstr) \<Rightarrow> run_spec \<Rightarrow> rstr" where
  "resolve_key parse digest spec = instance_scope digest spec @ lit '':'' @ instance_slice parse digest spec"

section \<open>The stderr of one request\<close>

definition stderr_ring_lines :: nat where "stderr_ring_lines = 500"

record stderr_ring =
  sr_lines :: "rstr list"
  sr_total :: nat

definition ring_new :: stderr_ring where "ring_new = \<lparr> sr_lines = [], sr_total = 0 \<rparr>"

definition ring_add :: "rstr \<Rightarrow> stderr_ring \<Rightarrow> stderr_ring" where
  "ring_add line r = (let ls = sr_lines r @ [line]
     in \<lparr> sr_lines = drop (length ls - stderr_ring_lines) ls, sr_total = sr_total r + 1 \<rparr>)"

definition ring_since :: "nat \<Rightarrow> stderr_ring \<Rightarrow> rstr" where
  "ring_since mark r = (
     let produced = sr_total r - mark; taken = min produced (length (sr_lines r))
     in join (lit ''\<newline>'') (drop (length (sr_lines r) - taken) (sr_lines r)))"

text \<open>The ring is the last 500 lines of the stream, and \<open>since\<close> gives the request exactly its own
  lines, or the last 500 of them.\<close>

lemma ring_contents:
  "fold ring_add ls ring_new = \<lparr> sr_lines = drop (length ls - stderr_ring_lines) ls, sr_total = length ls \<rparr>"
proof (induction ls rule: rev_induct)
  case (snoc l ls)
  define k where "k = length ls - stderr_ring_lines"
  have app: "drop k ls @ [l] = drop k (ls @ [l])" by (simp add: k_def)
  have "length (drop k (ls @ [l])) - stderr_ring_lines + k = length (ls @ [l]) - stderr_ring_lines"
    by (simp add: k_def stderr_ring_lines_def)
  then have "drop (length (drop k ls @ [l]) - stderr_ring_lines) (drop k ls @ [l])
      = drop (length (ls @ [l]) - stderr_ring_lines) (ls @ [l])"
    unfolding app by (simp only: drop_drop)
  then show ?case using snoc unfolding k_def by (simp only: fold_append fold_simps comp_apply ring_add_def Let_def
        stderr_ring.simps length_append list.size add_0 One_nat_def)
qed (simp add: ring_new_def)

lemma ring_since_exact:
  "ring_since (length before) (fold ring_add (before @ during) ring_new)
     = join (lit ''\<newline>'') (drop (length during - stderr_ring_lines) during)"
proof -
  define d b where "d = length during" and "b = length before"
  define r where "r = drop (b + d - stderr_ring_lines) (before @ during)"
  have len: "length r = min stderr_ring_lines (b + d)" by (auto simp: r_def b_def d_def)
  have "drop (length r - min d (length r)) r = drop (d - stderr_ring_lines) during"
  proof (cases "d \<le> stderr_ring_lines")
    case True
    have "length r - min d (length r) + (b + d - stderr_ring_lines) = b"
      using True len by (auto simp: min_def split: if_splits)
    then have "drop (length r - min d (length r)) r = drop b (before @ during)"
      unfolding r_def[unfolded b_def d_def] by (simp only: r_def drop_drop b_def d_def)
    then show ?thesis using True by (simp add: b_def d_def)
  next
    case False
    then have "length r - min d (length r) = 0" using len by (auto simp: min_def)
    moreover have "r = drop (d - stderr_ring_lines) during" using False by (simp add: r_def b_def)
    ultimately show ?thesis by simp
  qed
  then show ?thesis
    unfolding ring_contents ring_since_def Let_def stderr_ring.simps length_append
    by (simp only: r_def b_def d_def add_diff_cancel_left')
qed

section \<open>Writing a frame\<close>

datatype write_result = Wrote nat | WriteFailed rstr

record frame_write_error =
  fw_wrote_bytes :: bool
  fw_message :: rstr

text \<open>\<open>len\<close> is the length of the line still to write and \<open>written\<close> what the pipe took already; a
  list that ends early is a writer that is still blocked.  \<open>flushed\<close> is the answer of the final
  flush.\<close>

fun write_loop :: "nat \<Rightarrow> nat \<Rightarrow> write_result list \<Rightarrow> rstr option \<Rightarrow> (frame_write_error + unit) option" where
  "write_loop len written results flushed =
     (if len \<le> written
      then Some (case flushed of None \<Rightarrow> Inr ()
                 | Some e \<Rightarrow> Inl \<lparr> fw_wrote_bytes = True, fw_message = e \<rparr>)
      else case results of
        [] \<Rightarrow> None
      | Wrote n # rs \<Rightarrow>
          if n = 0 then Some (Inl \<lparr> fw_wrote_bytes = (written > 0), fw_message = lit ''write returned zero bytes'' \<rparr>)
          else write_loop len (written + n) rs flushed
      | WriteFailed e # rs \<Rightarrow> Some (Inl \<lparr> fw_wrote_bytes = (written > 0), fw_message = e \<rparr>))"

declare write_loop.simps [simp del]

text \<open>What serde makes of the frame: its bytes, or the error that precedes any write.\<close>

definition write_frame :: "rstr + nat \<Rightarrow> write_result list \<Rightarrow> rstr option \<Rightarrow> (frame_write_error + unit) option" where
  "write_frame encoded results flushed = (case encoded of
     Inl e \<Rightarrow> Some (Inl \<lparr> fw_wrote_bytes = False, fw_message = lit ''serializing frame: '' @ e \<rparr>)
   | Inr n \<Rightarrow> write_loop (n + 1) 0 results flushed)"

text \<open>The bytes the pipe accepted.\<close>

fun accepted_bytes :: "nat \<Rightarrow> nat \<Rightarrow> write_result list \<Rightarrow> nat" where
  "accepted_bytes len written results =
     (if len \<le> written then written
      else case results of
        Wrote n # rs \<Rightarrow> if n = 0 then written else accepted_bytes len (written + n) rs
      | _ \<Rightarrow> written)"

declare accepted_bytes.simps [simp del]

lemma accepted_ge: "written \<le> accepted_bytes len written results"
proof (induction len written results rule: accepted_bytes.induct)
  case (1 len written results)
  then show ?case
    by (subst accepted_bytes.simps) (force split: list.split write_result.split)
qed

lemma write_loop_honest:
  "write_loop len written results flushed = Some (Inl e) \<Longrightarrow> 0 < len
     \<Longrightarrow> fw_wrote_bytes e \<longleftrightarrow> accepted_bytes len written results > 0"
proof (induction len written results flushed rule: write_loop.induct)
  case (1 len written results flushed)
  show ?case
  proof (cases "len \<le> written")
    case True
    then show ?thesis using 1(2,3)
      by (subst accepted_bytes.simps) (auto simp: write_loop.simps[of len] split: option.splits)
  next
    case False
    show ?thesis
    proof (cases results)
      case Nil
      then show ?thesis using 1(2) False by (simp add: write_loop.simps[of len])
    next
      case (Cons r rs)
      show ?thesis
      proof (cases r)
        case (Wrote n)
        show ?thesis
        proof (cases "n = 0")
          case True
          then show ?thesis using 1(2) False Cons Wrote
            by (subst accepted_bytes.simps) (auto simp: write_loop.simps[of len])
        next
          case n: False
          have "write_loop len (written + n) rs flushed = Some (Inl e)"
            using 1(2) False Cons Wrote n by (simp add: write_loop.simps[of len written])
          from 1(1)[OF False Cons Wrote n this 1(3)] show ?thesis
            using False Cons Wrote n by (simp add: accepted_bytes.simps[of len written])
        qed
      next
        case (WriteFailed m)
        then show ?thesis using 1(2) False Cons
          by (subst accepted_bytes.simps) (auto simp: write_loop.simps[of len])
      qed
    qed
  qed
qed

section \<open>Reading the answer\<close>

text \<open>What the next read of the agent's stdout gives; a list that ends is an agent that has not said
  more yet.\<close>

datatype read_event = GotLine rstr | EndOfFile | ReadFailed rstr

fun read_answer :: "(rstr \<Rightarrow> json option) \<Rightarrow> rstr \<Rightarrow> read_event list \<Rightarrow> (rstr + inbound_frame) option" where
  "read_answer parse i [] = None"
| "read_answer parse i (GotLine line # es) = (case parse_inbound parse line of
     Some f \<Rightarrow> if answers f i then Some (Inr f) else read_answer parse i es
   | None \<Rightarrow> read_answer parse i es)"
| "read_answer parse i (EndOfFile # es) = Some (Inl (lit ''agent closed stdout''))"
| "read_answer parse i (ReadFailed e # es) = Some (Inl (lit ''reading stdout: '' @ e))"

lemma read_answer_answers: "read_answer parse i es = Some (Inr f) \<Longrightarrow> answers f i"
  by (induction parse i es rule: read_answer.induct) (auto split: option.splits if_splits)

text \<open>Lines that answer nothing in flight, the late answer to an earlier request among them, change
  nothing.\<close>

lemma read_answer_skips:
  assumes "\<forall>e\<in>set stale. \<exists>line. e = GotLine line
    \<and> (case parse_inbound parse line of Some f \<Rightarrow> \<not> answers f i | None \<Rightarrow> True)"
  shows "read_answer parse i (stale @ es) = read_answer parse i es"
  using assms by (induction stale) (auto split: option.splits)

lemma answers_own_id: "if_id f = Some j \<Longrightarrow> answers f i \<Longrightarrow> j = i"
  by (auto simp: answers_def split: if_splits)

text \<open>The handshake of a new instance: after the hello frame is written, the first \<open>ready\<close> decides.\<close>

fun await_ready :: "(rstr \<Rightarrow> json option) \<Rightarrow> read_event list \<Rightarrow> (rstr + unit) option" where
  "await_ready parse [] = None"
| "await_ready parse (GotLine line # es) = (case parse_inbound parse line of
     Some f \<Rightarrow>
       if is_ready f then Some (if if_ok f then Inr ()
         else Inl (case if_error f of Some e \<Rightarrow> e | None \<Rightarrow> lit ''agent refused the handshake''))
       else await_ready parse es
   | None \<Rightarrow> await_ready parse es)"
| "await_ready parse (EndOfFile # es) = Some (Inl (lit ''agent exited before the handshake''))"
| "await_ready parse (ReadFailed e # es) = Some (Inl (lit ''reading handshake: '' @ e))"

record spawn_outside =
  su_tempdir_ok :: bool
  su_spawn_error :: "rstr option"
  su_pid :: nat
  su_hello :: "rstr + nat"
  su_writes :: "write_result list"
  su_flushed :: "rstr option"
  su_events :: "read_event list"

definition handshake :: "(rstr \<Rightarrow> json option) \<Rightarrow> spawn_outside \<Rightarrow> (rstr + unit) option" where
  "handshake parse q = (case write_frame (su_hello q) (su_writes q) (su_flushed q) of
     None \<Rightarrow> None
   | Some (Inl e) \<Rightarrow> Some (Inl (fw_message e))
   | Some (Inr _) \<Rightarrow> await_ready parse (su_events q))"

text \<open>An instance, without its pipes: \<open>in_proc\<close> is the supervisor's id.\<close>

record instance_rec =
  in_proc :: nat
  in_pid :: nat
  in_stderr :: stderr_ring
  in_invocations :: nat
  in_seq :: nat

definition spawn_instance :: "(rstr \<Rightarrow> json option) \<Rightarrow> spawn_outside \<Rightarrow> run_spec \<Rightarrow> nat
    \<Rightarrow> runner_error + instance_rec" where
  "spawn_instance parse q spec proc = (
     if \<not> su_tempdir_ok q then Inl RunIo
     else case su_spawn_error q of
       Some e \<Rightarrow> Inl (RunSpawn e)
     | None \<Rightarrow>
         (case handshake parse q of
            Some (Inr _) \<Rightarrow> Inr \<lparr> in_proc = proc, in_pid = su_pid q, in_stderr = ring_new,
                              in_invocations = 0, in_seq = 0 \<rparr>
          | Some (Inl e) \<Rightarrow> Inl (RunSpawn (lit ''persistent agent '' @ spec_agent spec
                                  @ lit '' failed to start: '' @ e))
          | None \<Rightarrow> Inl (RunSpawn (lit ''persistent agent '' @ spec_agent spec
                     @ lit '' did not answer the handshake within ''
                     @ show_nat (lc_startup_timeout_seconds (mf_lifecycle (rs_manifest spec))) @ lit ''s''))))"

section \<open>One exchange\<close>

datatype exchange_result =
  Answered run_outcome | DeadBeforeRequest rstr | ExchangeLost request_lost | ExchangeTimedOut

definition classify_write_failure :: "frame_write_error \<Rightarrow> bool \<Rightarrow> int \<Rightarrow> exchange_result" where
  "classify_write_failure e reaper_owned elapsed =
     (if reaper_owned then ExchangeTimedOut
      else if fw_wrote_bytes e
      then ExchangeLost \<lparr> rl_reason = lit ''write failed after request bytes were written: '' @ fw_message e,
                          rl_duration_seconds = elapsed \<rparr>
      else DeadBeforeRequest (lit ''write failed before request bytes were written: '' @ fw_message e))"

text \<open>What the outside answers during an exchange.  \<open>xo_deadline\<close>: the answer did not come in time,
  whatever is on the pipe; \<open>xo_stderr\<close>: the lines the agent wrote to stderr meanwhile.\<close>

record exchange_outside =
  xo_exited :: "rstr option"
  xo_retimed :: bool
  xo_encoded :: "rstr + nat"
  xo_writes :: "write_result list"
  xo_flushed :: "rstr option"
  xo_reaper_owns_write :: bool
  xo_deadline :: bool
  xo_events :: "read_event list"
  xo_reaper_owns :: bool
  xo_stderr :: "rstr list"
  xo_elapsed :: int

definition request_for :: "(rstr \<Rightarrow> json option) \<Rightarrow> run_spec \<Rightarrow> nat \<Rightarrow> request_frame" where
  "request_for parse spec sq = \<lparr> rq_v = protocol_version, rq_kind = lit ''request'',
     rq_id = show_nat sq, rq_agent = spec_agent spec, rq_schedule = rs_schedule_id spec,
     rq_args = rs_args spec, rq_deadline_seconds = am_timeout_seconds (mf_agent (rs_manifest spec)),
     rq_trigger = trigger_from_env parse (rs_extra_env spec) \<rparr>"

definition answered_outcome :: "inbound_frame \<Rightarrow> rstr \<Rightarrow> int \<Rightarrow> run_outcome" where
  "answered_outcome f stderr_delta elapsed = (
     let stdout = (case if_output f of Some t \<Rightarrow> t
           | None \<Rightarrow> (case if_error f of Some t \<Rightarrow> t | None \<Rightarrow> []));
         (stdout_tail, stdout_truncated) = tail_lines stdout tail_lines_max;
         (stderr_tail, stderr_truncated) = tail_lines stderr_delta tail_lines_max
     in \<lparr> ro_exit_code = resolved_exit_code f, ro_timed_out = False, ro_duration_seconds = elapsed,
          ro_stdout_tail = stdout_tail, ro_stderr_tail = stderr_tail,
          ro_stdout_truncated_lines = stdout_truncated, ro_stderr_truncated_lines = stderr_truncated \<rparr>)"

text \<open>A writer that stays blocked is stopped by the reaper, which kills the process at the deadline:
  that is the timed-out case.\<close>

definition exchange :: "(rstr \<Rightarrow> json option) \<Rightarrow> exchange_outside \<Rightarrow> instance_rec \<Rightarrow> exchange_result \<times> instance_rec" where
  "exchange parse q inst = (case xo_exited q of
     Some status \<Rightarrow> (DeadBeforeRequest (lit ''process already exited ('' @ status @ lit '')''), inst)
   | None \<Rightarrow>
       if \<not> xo_retimed q
       then (DeadBeforeRequest (lit ''supervisor had already collected the process''), inst)
       else
         let inst1 = inst\<lparr> in_seq := in_seq inst + 1 \<rparr>;
             i = show_nat (in_seq inst1);
             mark = sr_total (in_stderr inst1)
         in case write_frame (xo_encoded q) (xo_writes q) (xo_flushed q) of
              None \<Rightarrow> (ExchangeTimedOut, inst1)
            | Some (Inl e) \<Rightarrow> (classify_write_failure e (xo_reaper_owns_write q) (xo_elapsed q), inst1)
            | Some (Inr _) \<Rightarrow>
                let inst2 = inst1\<lparr> in_stderr := fold ring_add (xo_stderr q) (in_stderr inst1) \<rparr>;
                    delta = ring_since mark (in_stderr inst2)
                in case (if xo_deadline q then None else read_answer parse i (xo_events q)) of
                     None \<Rightarrow> (ExchangeTimedOut, inst2)
                   | Some r \<Rightarrow>
                       if xo_reaper_owns q then (ExchangeTimedOut, inst2)
                       else case r of
                         Inl e \<Rightarrow> (ExchangeLost \<lparr> rl_reason = e, rl_duration_seconds = xo_elapsed q \<rparr>, inst2)
                       | Inr f \<Rightarrow> (Answered (answered_outcome f delta (xo_elapsed q)),
                                   inst2\<lparr> in_invocations := in_invocations inst2 + 1 \<rparr>))"

text \<open>The request bytes this exchange put into the agent's pipe.\<close>

definition bytes_sent :: "exchange_outside \<Rightarrow> nat" where
  "bytes_sent q = (if xo_exited q \<noteq> None \<or> \<not> xo_retimed q then 0
     else case xo_encoded q of Inl _ \<Rightarrow> 0 | Inr n \<Rightarrow> accepted_bytes (n + 1) 0 (xo_writes q))"

text \<open>The only verdict that is retried is one under which no byte of the request was sent.\<close>

lemma dead_before_request_sent_nothing:
  assumes "exchange parse q inst = (DeadBeforeRequest why, inst')"
  shows "bytes_sent q = 0"
proof (cases "xo_exited q \<noteq> None \<or> \<not> xo_retimed q")
  case False
  then obtain e where w: "write_frame (xo_encoded q) (xo_writes q) (xo_flushed q) = Some (Inl e)" "\<not> fw_wrote_bytes e"
    using assms
    by (auto simp: exchange_def Let_def classify_write_failure_def split: option.splits if_splits sum.splits)
  show ?thesis
  proof (cases "xo_encoded q")
    case (Inr n)
    then have "write_loop (n + 1) 0 (xo_writes q) (xo_flushed q) = Some (Inl e)" using w by (simp add: write_frame_def)
    then show ?thesis using write_loop_honest[of "n + 1" 0] w(2) False Inr by (simp add: bytes_sent_def)
  qed (simp add: bytes_sent_def)
qed (simp add: bytes_sent_def)

lemma exchange_proc [simp]: "in_proc (snd (exchange parse q inst)) = in_proc inst"
  by (auto simp: exchange_def Let_def split: option.split sum.split)

lemma answered_only_by_own_answer:
  assumes "exchange parse q inst = (Answered ro, inst')"
  obtains f delta where "ro = answered_outcome f delta (xo_elapsed q)" "answers f (show_nat (in_seq inst + 1))"
    "in_seq inst' = in_seq inst + 1" "in_invocations inst' = in_invocations inst + 1"
proof -
  obtain f where f: "read_answer parse (show_nat (in_seq inst + 1)) (xo_events q) = Some (Inr f)"
    "ro = answered_outcome f (ring_since (sr_total (in_stderr inst)) (fold ring_add (xo_stderr q) (in_stderr inst))) (xo_elapsed q)"
    "in_seq inst' = in_seq inst + 1" "in_invocations inst' = in_invocations inst + 1"
    using assms
    by (auto simp: exchange_def Let_def classify_write_failure_def split: option.splits if_splits sum.splits)
  then show ?thesis using that read_answer_answers by blast
qed

end
