(* ===== verification/Persistent_Pool.thy ===== *)
theory Persistent_Pool
  imports Pool_Exchange Audit_Event
begin

text \<open>
  The pool of persistent agents (\<open>PersistentPool\<close> of \<open>dotagent-runner/src/persistent.rs\<close>) as the
  tasks that share it: requests, drains and sweeps interleave at the points where the code locks
  the map, the allocation mutex or a slot.  A step of a task is one critical section, or one call
  it makes while it holds a slot; what processes and the supervisor answer is an argument.

  A slot cell is never forgotten here: the list of cells is every cell ever allocated, and a task
  refers to one by its index, as an \<open>Arc\<close> does.
\<close>

section \<open>State\<close>

type_synonym pool_key = "rstr \<times> rstr"

datatype slot_state = Starting | Live instance_rec | Retiring | Stopped

text \<open>\<open>sc_key\<close> is the key the cell was allocated for and \<open>sc_proc\<close> the process spawned into it; the
  code has neither field, they are for the proofs.\<close>

record slot_cell =
  sc_state :: slot_state
  sc_lock :: "nat option"
  sc_key :: pool_key
  sc_proc :: "nat option"

record slot_entry =
  se_slot :: nat
  se_last_used :: instant

datatype recycle_reason = Idle | MaxInvocations | Crashed | Timeout | Evicted | ShutdownReason | ConfigChanged

fun reason_str :: "recycle_reason \<Rightarrow> rstr" where
  "reason_str Idle = lit ''idle''"
| "reason_str MaxInvocations = lit ''max_invocations''"
| "reason_str Crashed = lit ''crashed''"
| "reason_str Timeout = lit ''timeout''"
| "reason_str Evicted = lit ''evicted''"
| "reason_str ShutdownReason = lit ''shutdown''"
| "reason_str ConfigChanged = lit ''config_changed''"

text \<open>A request: its agent and instance key, and what the manifest says of recycling.\<close>

record pool_request =
  pq_spec :: run_spec
  pq_key :: pool_key

definition pq_max_invocations :: "pool_request \<Rightarrow> nat" where
  "pq_max_invocations r = lc_max_invocations (mf_lifecycle (rs_manifest (pq_spec r)))"

definition pq_timeout :: "pool_request \<Rightarrow> nat" where
  "pq_timeout r = am_timeout_seconds (mf_agent (rs_manifest (pq_spec r)))"

text \<open>Where a task is.  An attempt of the retry loop is its number and the last error so far.  A
  request: before the allocation mutex, choosing its slot, with a slot but
  not its lock, and with the lock.  \<open>retire_held\<close> and \<open>retire_slot\<close> are shared, so their positions
  carry what to do next.\<close>

type_synonym attempt = "nat \<times> rstr"

datatype pool_result = PoolOk run_outcome | PoolErr runner_error

datatype cont =
  BackToChoosing pool_request attempt
| BackToDrain recycle_reason "(pool_key \<times> nat) list"
| NextAttempt pool_request attempt
| Finish pool_result

datatype pc =
  Resting
| WantSlot pool_request attempt
| Choosing pool_request attempt
| WantCell pool_request attempt nat
| Held pool_request attempt nat
| RetireWant pool_key nat recycle_reason cont
| RetireKill pool_key nat instance_rec recycle_reason cont
| RetireForget pool_key nat cont
| Touching pool_key pool_result
| Returned pool_result
| WantDrain "rstr option" recycle_reason
| Draining recycle_reason "(pool_key \<times> nat) list"

datatype pool_event =
  PoolAudit audit_event
| BytesSent nat nat
| PoolReturned nat pool_result

record pool =
  pp_slots :: "(pool_key \<times> slot_entry) list"
  pp_cells :: "slot_cell list"
  pp_alloc :: "nat option"
  pp_tasks :: "nat \<Rightarrow> pc"
  pp_alive :: "nat list"
  pp_next_proc :: nat
  pp_trace :: "pool_event list"

definition pool_new :: pool where
  "pool_new = \<lparr> pp_slots = [], pp_cells = [], pp_alloc = None, pp_tasks = (\<lambda>_. Resting),
     pp_alive = [], pp_next_proc = 0, pp_trace = [] \<rparr>"

section \<open>Pieces of a step\<close>

definition goto :: "nat \<Rightarrow> pc \<Rightarrow> pool \<Rightarrow> pool" where
  "goto t p st = st\<lparr> pp_tasks := (pp_tasks st)(t := p) \<rparr>"

definition set_cell :: "nat \<Rightarrow> (slot_cell \<Rightarrow> slot_cell) \<Rightarrow> pool \<Rightarrow> pool" where
  "set_cell c g st = st\<lparr> pp_cells := (pp_cells st)[c := g (pp_cells st ! c)] \<rparr>"

definition emit_pool :: "pool_event \<Rightarrow> pool \<Rightarrow> pool" where
  "emit_pool e st = st\<lparr> pp_trace := pp_trace st @ [e] \<rparr>"

definition entry_of :: "pool \<Rightarrow> pool_key \<Rightarrow> slot_entry option" where
  "entry_of st k = map_of (pp_slots st) k"

text \<open>\<open>try_lock\<close> answers only for a cell nobody holds.\<close>

definition is_stopped_now :: "pool \<Rightarrow> nat \<Rightarrow> bool" where
  "is_stopped_now st c \<longleftrightarrow> sc_lock (pp_cells st ! c) = None \<and> sc_state (pp_cells st ! c) = Stopped"

definition mine :: "rstr \<Rightarrow> pool \<Rightarrow> (pool_key \<times> slot_entry) list" where
  "mine agent st = filter (\<lambda>e. fst (fst e) = agent) (pp_slots st)"

definition release_alloc :: "pool \<Rightarrow> pool" where
  "release_alloc st = st\<lparr> pp_alloc := None \<rparr>"

definition remove_entry :: "pool_key \<Rightarrow> pool \<Rightarrow> pool" where
  "remove_entry k st = st\<lparr> pp_slots := AList.delete k (pp_slots st) \<rparr>"

definition reserve :: "pool_key \<Rightarrow> instant \<Rightarrow> pool \<Rightarrow> pool" where
  "reserve k now st = st\<lparr>
     pp_slots := AList.update k \<lparr> se_slot = length (pp_cells st), se_last_used = now \<rparr> (pp_slots st),
     pp_cells := pp_cells st @ [\<lparr> sc_state = Starting, sc_lock = None, sc_key = k, sc_proc = None \<rparr>] \<rparr>"

text \<open>\<open>touch\<close>.\<close>

definition touch_entry :: "pool_key \<Rightarrow> instant \<Rightarrow> pool \<Rightarrow> pool" where
  "touch_entry k now st = (case entry_of st k of
     None \<Rightarrow> st
   | Some e \<Rightarrow> st\<lparr> pp_slots := AList.update k (e\<lparr> se_last_used := now \<rparr>) (pp_slots st) \<rparr>)"

text \<open>\<open>forget_slot\<close>.\<close>

definition forget_slot :: "pool_key \<Rightarrow> nat \<Rightarrow> pool \<Rightarrow> pool" where
  "forget_slot k c st = (case entry_of st k of
     Some e \<Rightarrow> if se_slot e = c then remove_entry k st else st
   | None \<Rightarrow> st)"

definition attempts_max :: nat where "attempts_max = 2"

text \<open>The top of the retry loop, and where it gives up.\<close>

fun next_attempt :: "pool_request \<Rightarrow> attempt \<Rightarrow> pc" where
  "next_attempt r (n, last_error) =
     (if n + 1 < attempts_max then WantSlot r (n + 1, last_error)
      else Returned (PoolErr (RunSpawn (lit ''persistent agent '' @ fst (pq_key r)
             @ lit '' died twice in a row: '' @ last_error))))"

fun resume :: "cont \<Rightarrow> pc" where
  "resume (BackToChoosing r n) = Choosing r n"
| "resume (BackToDrain reason rest) = Draining reason rest"
| "resume (NextAttempt r n) = next_attempt r n"
| "resume (Finish res) = Returned res"

text \<open>\<open>retire_held\<close> from the moment the state is \<open>Retiring\<close>: the instance is terminated with the
  slot's lock still held.\<close>

definition start_retiring :: "nat \<Rightarrow> pool_key \<Rightarrow> nat \<Rightarrow> instance_rec \<Rightarrow> recycle_reason \<Rightarrow> cont \<Rightarrow> pool \<Rightarrow> pool" where
  "start_retiring t key c inst reason k st =
     goto t (RetireKill key c inst reason k) (set_cell c (\<lambda>x. x\<lparr> sc_state := Retiring \<rparr>) st)"

definition timed_out_outcome :: "pool_request \<Rightarrow> run_outcome" where
  "timed_out_outcome r = \<lparr> ro_exit_code = timed_out_exit_code, ro_timed_out = True,
     ro_duration_seconds = int (pq_timeout r), ro_stdout_tail = [],
     ro_stderr_tail = lit ''persistent agent did not answer within '' @ show_nat (pq_timeout r)
       @ lit ''s '' @ [0x2014] @ lit '' instance recycled'',
     ro_stdout_truncated_lines = 0, ro_stderr_truncated_lines = 0 \<rparr>"

section \<open>Steps\<close>

datatype pool_label =
  Request nat pool_request
| LockAlloc nat
| Choose nat instant pool_key
| LockCell nat
| Look nat
| SpawnInto nat spawn_outside
| Exchange nat exchange_outside bool
| Terminated nat
| Forget nat
| Touch nat instant
| Return nat
| Drain nat "rstr option" recycle_reason
| DrainNext nat
| Sweep
| ProcessDies nat

text \<open>\<open>slot_for\<close> inside the allocation mutex.  \<open>victim\<close> is the entry \<open>min_by_key\<close> finds: one with the
  least recent use.\<close>

definition least_used :: "rstr \<Rightarrow> pool \<Rightarrow> pool_key \<Rightarrow> bool" where
  "least_used agent st v \<longleftrightarrow> (\<exists>e. (v, e) \<in> set (mine agent st)
     \<and> (\<forall>(v', e') \<in> set (mine agent st). se_last_used e \<le> se_last_used e'))"

definition choose_slot :: "(rstr \<Rightarrow> nat) \<Rightarrow> nat \<Rightarrow> instant \<Rightarrow> pool_key \<Rightarrow> pool_request \<Rightarrow> attempt \<Rightarrow> pool \<Rightarrow> pool option" where
  "choose_slot mx t now victim r n st = (
     let k = pq_key r;
         st1 = (case entry_of st k of
                  Some e \<Rightarrow> if is_stopped_now st (se_slot e) then remove_entry k st else st
                | None \<Rightarrow> st)
     in case entry_of st1 k of
          Some e \<Rightarrow> Some (goto t (WantCell r n (se_slot e)) (release_alloc (touch_entry k now st1)))
        | None \<Rightarrow>
            if length (mine (fst k) st1) < mx (fst k)
            then Some (goto t (WantCell r n (length (pp_cells st1))) (release_alloc (reserve k now st1)))
            else if least_used (fst k) st1 victim
            then (case entry_of st1 victim of
                    Some e \<Rightarrow> Some (goto t (RetireWant victim (se_slot e) Evicted (BackToChoosing r n)) st1)
                  | None \<Rightarrow> None)
            else None)"

definition lock_cell :: "nat \<Rightarrow> nat \<Rightarrow> pool \<Rightarrow> pool option" where
  "lock_cell t c st = (if sc_lock (pp_cells st ! c) = None
     then Some (set_cell c (\<lambda>x. x\<lparr> sc_lock := Some t \<rparr>) st) else None)"

definition unlock :: "nat \<Rightarrow> pool \<Rightarrow> pool" where
  "unlock c st = set_cell c (\<lambda>x. x\<lparr> sc_lock := None \<rparr>) st"

definition stop_cell :: "nat \<Rightarrow> pool \<Rightarrow> pool" where
  "stop_cell c st = set_cell c (\<lambda>x. x\<lparr> sc_state := Stopped, sc_lock := None \<rparr>) st"

text \<open>What a request does with a slot it has just locked: a stopped or retiring cell is left, and the
  attempt is spent.\<close>

definition look :: "nat \<Rightarrow> pool_request \<Rightarrow> attempt \<Rightarrow> nat \<Rightarrow> pool \<Rightarrow> pool option" where
  "look t r n c st = (case sc_state (pp_cells st ! c) of
     Stopped \<Rightarrow> Some (goto t (next_attempt r n) (unlock c st))
   | Retiring \<Rightarrow> Some (goto t (next_attempt r n) (unlock c st))
   | _ \<Rightarrow> None)"

definition spawn_into :: "(rstr \<Rightarrow> json option) \<Rightarrow> nat \<Rightarrow> spawn_outside \<Rightarrow> pool_request \<Rightarrow> attempt \<Rightarrow> nat \<Rightarrow> pool \<Rightarrow> pool option" where
  "spawn_into parse t q r n c st = (case sc_state (pp_cells st ! c) of
     Starting \<Rightarrow>
       (case spawn_instance parse q (pq_spec r) (pp_next_proc st) of
          Inr inst \<Rightarrow>
            Some (emit_pool (PoolAudit (PersistentAgentStarted (fst (pq_key r)) (snd (pq_key r)) (in_pid inst)))
              (set_cell c (\<lambda>x. x\<lparr> sc_state := Live inst, sc_proc := Some (in_proc inst) \<rparr>)
                (st\<lparr> pp_alive := in_proc inst # pp_alive st, pp_next_proc := pp_next_proc st + 1 \<rparr>)))
        | Inl e \<Rightarrow>
            Some (goto t (RetireForget (pq_key r) c (Finish (PoolErr e)))
              (stop_cell c (st\<lparr> pp_next_proc := pp_next_proc st + 1 \<rparr>))))
   | _ \<Rightarrow> None)"

text \<open>One request on a live slot; \<open>idle_ok\<close> is the answer of \<open>retime\<close> when the reaper is handed the
  idle clock.\<close>

definition exchange_step :: "(rstr \<Rightarrow> json option) \<Rightarrow> nat \<Rightarrow> exchange_outside \<Rightarrow> bool \<Rightarrow> pool_request \<Rightarrow> attempt \<Rightarrow> nat
    \<Rightarrow> pool \<Rightarrow> pool option" where
  "exchange_step parse t q idle_ok r n c st = (case sc_state (pp_cells st ! c) of
     Live inst0 \<Rightarrow>
       (case exchange parse q inst0 of (res, inst) \<Rightarrow>
          let st1 = emit_pool (BytesSent t (bytes_sent q)) (set_cell c (\<lambda>x. x\<lparr> sc_state := Live inst \<rparr>) st)
          in Some (case res of
               Answered ro \<Rightarrow>
                 if pq_max_invocations r > 0 \<and> in_invocations inst \<ge> pq_max_invocations r
                 then start_retiring t (pq_key r) c inst MaxInvocations (Finish (PoolOk ro)) st1
                 else if \<not> idle_ok then start_retiring t (pq_key r) c inst Idle (Finish (PoolOk ro)) st1
                 else goto t (Touching (pq_key r) (PoolOk ro)) (unlock c st1)
             | ExchangeTimedOut \<Rightarrow>
                 start_retiring t (pq_key r) c inst Timeout (Finish (PoolOk (timed_out_outcome r))) st1
             | DeadBeforeRequest why \<Rightarrow> start_retiring t (pq_key r) c inst Crashed (NextAttempt r (fst n, why)) st1
             | ExchangeLost lost \<Rightarrow>
                 start_retiring t (pq_key r) c inst Crashed (Finish (PoolErr (RequestLost lost))) st1))
   | _ \<Rightarrow> None)"

text \<open>\<open>terminate\<close> has returned: the process is gone, and only now is the slot stopped and let go.\<close>

definition terminated :: "nat \<Rightarrow> pool_key \<Rightarrow> nat \<Rightarrow> instance_rec \<Rightarrow> recycle_reason \<Rightarrow> cont \<Rightarrow> pool \<Rightarrow> pool" where
  "terminated t key c inst reason k st =
     goto t (RetireForget key c k)
       (stop_cell c
         (emit_pool (PoolAudit (PersistentAgentRecycled (fst key) (snd key) (reason_str reason) (in_invocations inst)))
           (st\<lparr> pp_alive := removeAll (in_proc inst) (pp_alive st) \<rparr>)))"

text \<open>\<open>retire_slot\<close> once it has the lock.\<close>

definition retire_slot :: "nat \<Rightarrow> pool_key \<Rightarrow> nat \<Rightarrow> recycle_reason \<Rightarrow> cont \<Rightarrow> pool \<Rightarrow> pool" where
  "retire_slot t key c reason k st = (case sc_state (pp_cells st ! c) of
     Live inst \<Rightarrow> start_retiring t key c inst reason k st
   | _ \<Rightarrow> goto t (RetireForget key c k) (stop_cell c st))"

text \<open>\<open>reap_dead\<close> for one entry: what it reaps, and the audit record of an instance.\<close>

definition reaped :: "pool \<Rightarrow> slot_entry \<Rightarrow> bool" where
  "reaped st e = (let x = pp_cells st ! se_slot e in sc_lock x = None \<and> (case sc_state x of
     Stopped \<Rightarrow> True | Live inst \<Rightarrow> in_proc inst \<notin> set (pp_alive st) | _ \<Rightarrow> False))"

definition reap_event :: "pool \<Rightarrow> pool_key \<times> slot_entry \<Rightarrow> pool_event list" where
  "reap_event st ke = (if reaped st (snd ke) then (case sc_state (pp_cells st ! se_slot (snd ke)) of
       Live inst \<Rightarrow> [PoolAudit (PersistentAgentRecycled (fst (fst ke)) (snd (fst ke)) (reason_str Idle)
                      (in_invocations inst))]
     | _ \<Rightarrow> []) else [])"

definition reaped_cell :: "pool \<Rightarrow> nat \<Rightarrow> bool" where
  "reaped_cell st c \<longleftrightarrow> (\<exists>ke \<in> set (pp_slots st). se_slot (snd ke) = c \<and> reaped st (snd ke))"

definition sweep :: "pool \<Rightarrow> pool" where
  "sweep st = st\<lparr>
     pp_slots := filter (\<lambda>ke. \<not> reaped st (snd ke)) (pp_slots st),
     pp_cells := map (\<lambda>c. if reaped_cell st c then (pp_cells st ! c)\<lparr> sc_state := Stopped \<rparr> else pp_cells st ! c) [0..<length (pp_cells st)],
     pp_trace := pp_trace st @ concat (map (reap_event st) (pp_slots st)) \<rparr>"

fun pool_exec :: "(rstr \<Rightarrow> json option) \<Rightarrow> (rstr \<Rightarrow> nat) \<Rightarrow> pool_label \<Rightarrow> pool \<Rightarrow> pool option" where
  "pool_exec parse mx (Request t r) st =
     (if pp_tasks st t = Resting then Some (goto t (WantSlot r (0, [])) st) else None)"
| "pool_exec parse mx (LockAlloc t) st =
     (if pp_alloc st \<noteq> None then None
      else case pp_tasks st t of
        WantSlot r n \<Rightarrow> Some (goto t (Choosing r n) (st\<lparr> pp_alloc := Some t \<rparr>))
      | WantDrain only reason \<Rightarrow>
          Some (goto t (Draining reason (map (\<lambda>(k, e). (k, se_slot e))
                  (filter (\<lambda>(k, e). case only of None \<Rightarrow> True | Some a \<Rightarrow> fst k = a) (pp_slots st))))
                (st\<lparr> pp_alloc := Some t \<rparr>))
      | _ \<Rightarrow> None)"
| "pool_exec parse mx (Choose t now victim) st = (case pp_tasks st t of
     Choosing r n \<Rightarrow> choose_slot mx t now victim r n st | _ \<Rightarrow> None)"
| "pool_exec parse mx (LockCell t) st = (case pp_tasks st t of
     WantCell r n c \<Rightarrow> map_option (goto t (Held r n c)) (lock_cell t c st)
   | RetireWant key c reason k \<Rightarrow> map_option (retire_slot t key c reason k) (lock_cell t c st)
   | _ \<Rightarrow> None)"
| "pool_exec parse mx (Look t) st = (case pp_tasks st t of
     Held r n c \<Rightarrow> look t r n c st | _ \<Rightarrow> None)"
| "pool_exec parse mx (SpawnInto t q) st = (case pp_tasks st t of
     Held r n c \<Rightarrow> spawn_into parse t q r n c st | _ \<Rightarrow> None)"
| "pool_exec parse mx (Exchange t q idle_ok) st = (case pp_tasks st t of
     Held r n c \<Rightarrow> exchange_step parse t q idle_ok r n c st | _ \<Rightarrow> None)"
| "pool_exec parse mx (Terminated t) st = (case pp_tasks st t of
     RetireKill key c inst reason k \<Rightarrow> Some (terminated t key c inst reason k st) | _ \<Rightarrow> None)"
| "pool_exec parse mx (Forget t) st = (case pp_tasks st t of
     RetireForget key c k \<Rightarrow> Some (goto t (resume k) (forget_slot key c st)) | _ \<Rightarrow> None)"
| "pool_exec parse mx (Touch t now) st = (case pp_tasks st t of
     Touching key res \<Rightarrow> Some (goto t (Returned res) (touch_entry key now st)) | _ \<Rightarrow> None)"
| "pool_exec parse mx (Return t) st = (case pp_tasks st t of
     Returned res \<Rightarrow> Some (goto t Resting (emit_pool (PoolReturned t res) st)) | _ \<Rightarrow> None)"
| "pool_exec parse mx (Drain t only reason) st =
     (if pp_tasks st t = Resting then Some (goto t (WantDrain only reason) st) else None)"
| "pool_exec parse mx (DrainNext t) st = (case pp_tasks st t of
     Draining reason [] \<Rightarrow> Some (goto t Resting (release_alloc st))
   | Draining reason ((k, c) # rest) \<Rightarrow> Some (goto t (RetireWant k c reason (BackToDrain reason rest)) st)
   | _ \<Rightarrow> None)"
| "pool_exec parse mx Sweep st = Some (sweep st)"
| "pool_exec parse mx (ProcessDies p) st = Some (st\<lparr> pp_alive := removeAll p (pp_alive st) \<rparr>)"

inductive pool_reaches :: "(rstr \<Rightarrow> json option) \<Rightarrow> (rstr \<Rightarrow> nat) \<Rightarrow> pool_label list \<Rightarrow> pool \<Rightarrow> bool"
  for parse mx where
  pool_init: "pool_reaches parse mx [] pool_new"
| pool_next: "pool_reaches parse mx ls st \<Longrightarrow> pool_exec parse mx l st = Some st'
    \<Longrightarrow> pool_reaches parse mx (ls @ [l]) st'"

end
