(* ===== verification/Pool_Invariant.thy ===== *)
theory Pool_Invariant
  imports Persistent_Pool
begin

text \<open>
  The invariant of the pool's tasks: every cell that is not stopped is the current entry of its
  key, locks and positions agree, and every process that is alive belongs to such a cell.  From it,
  one process per key and the hard ceiling per agent, whatever the interleaving.
\<close>

section \<open>The invariant\<close>

fun holds :: "pc \<Rightarrow> nat option" where
  "holds (Held r n c) = Some c"
| "holds (RetireKill k c i reason co) = Some c"
| "holds _ = None"

fun cont_refs :: "cont \<Rightarrow> (pool_key \<times> nat) list" where
  "cont_refs (BackToDrain reason rest) = rest"
| "cont_refs _ = []"

fun refs :: "pc \<Rightarrow> (pool_key \<times> nat) list" where
  "refs (WantCell r n c) = [(pq_key r, c)]"
| "refs (Held r n c) = [(pq_key r, c)]"
| "refs (RetireWant k c reason co) = (k, c) # cont_refs co"
| "refs (RetireKill k c i reason co) = (k, c) # cont_refs co"
| "refs (RetireForget k c co) = (k, c) # cont_refs co"
| "refs (Draining reason rest) = rest"
| "refs _ = []"

fun cont_alloc :: "cont \<Rightarrow> bool" where
  "cont_alloc (BackToChoosing r n) = True"
| "cont_alloc (BackToDrain reason rest) = True"
| "cont_alloc _ = False"

fun has_alloc :: "pc \<Rightarrow> bool" where
  "has_alloc (Choosing r n) = True"
| "has_alloc (Draining reason rest) = True"
| "has_alloc (RetireWant k c reason co) = cont_alloc co"
| "has_alloc (RetireKill k c i reason co) = cont_alloc co"
| "has_alloc (RetireForget k c co) = cont_alloc co"
| "has_alloc _ = False"

fun kill_of :: "pc \<Rightarrow> nat option" where
  "kill_of (RetireKill k c i reason co) = Some (in_proc i)"
| "kill_of _ = None"

fun forget_of :: "pc \<Rightarrow> nat option" where
  "forget_of (RetireForget k c co) = Some c"
| "forget_of _ = None"

definition slots_ok :: "(rstr \<Rightarrow> nat) \<Rightarrow> pool \<Rightarrow> bool" where
  "slots_ok mx st \<longleftrightarrow> distinct (map fst (pp_slots st)) \<and> (\<forall>a. length (mine a st) \<le> mx a)
     \<and> (\<forall>k e. entry_of st k = Some e \<longrightarrow> se_slot e < length (pp_cells st) \<and> sc_key (pp_cells st ! se_slot e) = k)"

definition cell_ok :: "pool \<Rightarrow> nat \<Rightarrow> slot_cell \<Rightarrow> bool" where
  "cell_ok st c x \<longleftrightarrow>
     (sc_state x \<noteq> Stopped \<longrightarrow> (\<exists>e. entry_of st (sc_key x) = Some e \<and> se_slot e = c))
     \<and> (\<forall>t. sc_lock x = Some t \<longrightarrow> holds (pp_tasks st t) = Some c)
     \<and> (sc_state x = Retiring \<longrightarrow> (\<exists>t. sc_lock x = Some t \<and> kill_of (pp_tasks st t) \<noteq> None))
     \<and> (\<forall>i. sc_state x = Live i \<longrightarrow> sc_proc x = Some (in_proc i))
     \<and> (\<forall>p. sc_proc x = Some p \<longrightarrow> p < pp_next_proc st)"

definition task_ok :: "pool \<Rightarrow> nat \<Rightarrow> pc \<Rightarrow> bool" where
  "task_ok st t p \<longleftrightarrow>
     (\<forall>c. holds p = Some c \<longrightarrow> sc_lock (pp_cells st ! c) = Some t)
     \<and> (\<forall>(k, c) \<in> set (refs p). c < length (pp_cells st) \<and> sc_key (pp_cells st ! c) = k)
     \<and> (\<forall>c q. holds p = Some c \<longrightarrow> kill_of p = Some q \<longrightarrow>
           sc_state (pp_cells st ! c) = Retiring \<and> sc_proc (pp_cells st ! c) = Some q)
     \<and> (\<forall>c. forget_of p = Some c \<longrightarrow> sc_state (pp_cells st ! c) = Stopped)
     \<and> (has_alloc p \<longleftrightarrow> pp_alloc st = Some t)"

fun in_use :: "slot_state \<Rightarrow> bool" where
  "in_use (Live i) = True" | "in_use Retiring = True" | "in_use _ = False"

definition alive_ok :: "pool \<Rightarrow> bool" where
  "alive_ok st \<longleftrightarrow> (\<forall>p \<in> set (pp_alive st). p < pp_next_proc st
     \<and> (\<exists>c < length (pp_cells st). sc_proc (pp_cells st ! c) = Some p \<and> in_use (sc_state (pp_cells st ! c))))"

definition pool_inv :: "(rstr \<Rightarrow> nat) \<Rightarrow> pool \<Rightarrow> bool" where
  "pool_inv mx st \<longleftrightarrow> slots_ok mx st \<and> (\<forall>c < length (pp_cells st). cell_ok st c (pp_cells st ! c))
     \<and> (\<forall>t. task_ok st t (pp_tasks st t)) \<and> alive_ok st"

lemma pool_invI:
  assumes "slots_ok mx st" "\<And>c. c < length (pp_cells st) \<Longrightarrow> cell_ok st c (pp_cells st ! c)"
    and "\<And>t. task_ok st t (pp_tasks st t)" "alive_ok st"
  shows "pool_inv mx st"
  using assms by (simp add: pool_inv_def)

lemma pool_invD:
  assumes "pool_inv mx st"
  shows "slots_ok mx st" "c < length (pp_cells st) \<Longrightarrow> cell_ok st c (pp_cells st ! c)"
    "task_ok st t (pp_tasks st t)" "alive_ok st"
  using assms by (simp_all add: pool_inv_def)

lemma holds_ref: "holds p = Some c \<Longrightarrow> \<exists>k. (k, c) \<in> set (refs p)"
  by (cases p) auto

lemma holds_bound:
  assumes "pool_inv mx st" "holds (pp_tasks st t) = Some c"
  shows "c < length (pp_cells st)"
  using holds_ref[OF assms(2)] pool_invD(3)[OF assms(1), of t] by (force simp: task_ok_def)

lemma forget_ref: "forget_of p = Some c \<Longrightarrow> \<exists>k. (k, c) \<in> set (refs p)"
  by (cases p) auto

section \<open>A task moves\<close>

text \<open>A task changes its position, and perhaps takes or gives the allocation mutex, without touching
  a cell.\<close>

lemma goto_inv:
  assumes inv: "pool_inv mx st" and h: "holds (pp_tasks st t) = None" "holds p = None"
    and r: "\<forall>(k, c) \<in> set (refs p). c < length (pp_cells st) \<and> sc_key (pp_cells st ! c) = k"
    and f: "\<forall>c. forget_of p = Some c \<longrightarrow> sc_state (pp_cells st ! c) = Stopped"
    and a: "has_alloc p \<longleftrightarrow> al = Some t" "\<forall>u. u \<noteq> t \<longrightarrow> (al = Some u \<longleftrightarrow> pp_alloc st = Some u)"
  shows "pool_inv mx (goto t p (st\<lparr> pp_alloc := al \<rparr>))"
proof (rule pool_invI)
  let ?st = "goto t p (st\<lparr> pp_alloc := al \<rparr>)"
  have c: "pp_cells ?st = pp_cells st" "pp_slots ?st = pp_slots st" "pp_next_proc ?st = pp_next_proc st"
    "pp_alive ?st = pp_alive st" "pp_alloc ?st = al" "entry_of ?st = entry_of st"
    by (simp_all add: goto_def entry_of_def fun_eq_iff)
  have m: "mine b ?st = mine b st" for b by (simp add: mine_def c)
  show "slots_ok mx ?st" using pool_invD(1)[OF inv] unfolding slots_ok_def c m .
  show "alive_ok ?st" using pool_invD(4)[OF inv] unfolding alive_ok_def c .
  fix d
  assume "d < length (pp_cells ?st)"
  then have d: "d < length (pp_cells st)" by (simp add: c)
  have "kill_of q = None" if "holds q = None" for q using that by (cases q) auto
  then have k: "kill_of (pp_tasks st t) = None" using h(1) by simp
  have own: "sc_lock (pp_cells st ! d) = Some u \<Longrightarrow> u \<noteq> t" for u
    using pool_invD(2)[OF inv d] h(1) by (auto simp: cell_ok_def)
  then show "cell_ok ?st d (pp_cells ?st ! d)"
    using pool_invD(2)[OF inv d] unfolding cell_ok_def c by (auto simp: goto_def)
next
  fix u
  have "pp_alloc (goto t p (st\<lparr> pp_alloc := al \<rparr>)) = al" "pp_cells (goto t p (st\<lparr> pp_alloc := al \<rparr>)) = pp_cells st"
    "pp_tasks (goto t p (st\<lparr> pp_alloc := al \<rparr>)) u = (if u = t then p else pp_tasks st u)"
    by (simp_all add: goto_def)
  then show "task_ok (goto t p (st\<lparr> pp_alloc := al \<rparr>)) u (pp_tasks (goto t p (st\<lparr> pp_alloc := al \<rparr>)) u)"
    using pool_invD(3)[OF inv, of u] h r f a by (auto simp: task_ok_def)
qed

lemma goto_keep:
  assumes "pool_inv mx st" "holds (pp_tasks st t) = None" "holds p = None"
    and "\<forall>(k, c) \<in> set (refs p). c < length (pp_cells st) \<and> sc_key (pp_cells st ! c) = k"
    and "\<forall>c. forget_of p = Some c \<longrightarrow> sc_state (pp_cells st ! c) = Stopped"
    and "has_alloc p \<longleftrightarrow> pp_alloc st = Some t"
  shows "pool_inv mx (goto t p st)"
  using goto_inv[OF assms(1-5), of "pp_alloc st"] assms(6) by simp

text \<open>A task changes its position and one cell it holds or takes: the frame of every locked step.\<close>

lemma cell_step_inv:
  assumes inv: "pool_inv mx st" and c: "c < length (pp_cells st)"
    and lock: "sc_lock (pp_cells st ! c) = None \<or> sc_lock (pp_cells st ! c) = Some t"
    and old: "holds (pp_tasks st t) = None \<or> holds (pp_tasks st t) = Some c"
    and p: "holds p = None \<or> holds p = Some c"
      "\<forall>(k, d) \<in> set (refs p). d < length (pp_cells st) \<and> sc_key (pp_cells st ! d) = k"
      "\<forall>d. forget_of p = Some d \<longrightarrow> d = c \<and> sc_state x = Stopped"
      "has_alloc p \<longleftrightarrow> has_alloc (pp_tasks st t)"
    and x: "sc_key x = sc_key (pp_cells st ! c)" "sc_lock x = (if holds p = Some c then Some t else None)"
      "sc_state (pp_cells st ! c) = Stopped \<longrightarrow> sc_state x = Stopped"
      "sc_state x = Retiring \<longrightarrow> kill_of p \<noteq> None"
      "\<forall>q. kill_of p = Some q \<longrightarrow> sc_state x = Retiring \<and> sc_proc x = Some q"
      "\<forall>i. sc_state x = Live i \<longrightarrow> sc_proc x = Some (in_proc i)"
      "\<forall>q. sc_proc x = Some q \<longrightarrow> q < nx"
    and nx: "pp_next_proc st \<le> nx"
    and al: "\<forall>q \<in> set al. q < nx \<and> (sc_proc x = Some q \<and> in_use (sc_state x)
               \<or> q \<in> set (pp_alive st) \<and> \<not> (sc_proc (pp_cells st ! c) = Some q \<and> in_use (sc_state (pp_cells st ! c))))"
  shows "pool_inv mx (goto t p (st\<lparr> pp_cells := (pp_cells st)[c := x], pp_alive := al, pp_next_proc := nx, pp_trace := tr \<rparr>))"
proof (rule pool_invI)
  let ?st = "goto t p (st\<lparr> pp_cells := (pp_cells st)[c := x], pp_alive := al, pp_next_proc := nx, pp_trace := tr \<rparr>)"
  have f: "pp_slots ?st = pp_slots st" "pp_next_proc ?st = nx" "pp_alive ?st = al" "pp_alloc ?st = pp_alloc st"
    "entry_of ?st = entry_of st" "length (pp_cells ?st) = length (pp_cells st)"
    by (simp_all add: goto_def entry_of_def fun_eq_iff)
  have cell: "pp_cells ?st ! d = (if d = c then x else pp_cells st ! d)" for d
    using c by (simp add: goto_def nth_list_update)
  have task: "pp_tasks ?st u = (if u = t then p else pp_tasks st u)" for u by (simp add: goto_def)
  have m: "mine b ?st = mine b st" for b by (simp add: mine_def f)
  have key: "sc_key (pp_cells ?st ! d) = sc_key (pp_cells st ! d)" for d using x(1) by (simp add: cell)
  show "slots_ok mx ?st" using pool_invD(1)[OF inv] unfolding slots_ok_def f m key .
  show "alive_ok ?st"
    unfolding alive_ok_def f
  proof
    fix q
    assume q: "q \<in> set al"
    show "q < nx \<and> (\<exists>d<length (pp_cells st). sc_proc (pp_cells ?st ! d) = Some q \<and> in_use (sc_state (pp_cells ?st ! d)))"
    proof (cases "sc_proc x = Some q \<and> in_use (sc_state x)")
      case True
      then show ?thesis using al q c by (intro conjI exI[of _ c]) (auto simp: cell)
    next
      case False
      then have "q \<in> set (pp_alive st)" "\<not> (sc_proc (pp_cells st ! c) = Some q \<and> in_use (sc_state (pp_cells st ! c)))"
        "q < nx" using al q by auto
      moreover from this(1) obtain d where "d < length (pp_cells st)" "sc_proc (pp_cells st ! d) = Some q"
        "in_use (sc_state (pp_cells st ! d))" using pool_invD(4)[OF inv] by (auto simp: alive_ok_def)
      ultimately show ?thesis by (intro conjI exI[of _ d]) (auto simp: cell)
    qed
  qed
  fix d
  assume "d < length (pp_cells ?st)"
  then have d: "d < length (pp_cells st)" by (simp add: f)
  note ok = pool_invD(2)[OF inv d]
  show "cell_ok ?st d (pp_cells ?st ! d)"
  proof (cases "d = c")
    case True
    have "sc_state x \<noteq> Stopped \<Longrightarrow> \<exists>e. entry_of st (sc_key x) = Some e \<and> se_slot e = c"
      using ok True x(1,3) by (auto simp: cell_ok_def)
    moreover have "holds (pp_tasks ?st u) = Some c" if "sc_lock x = Some u" for u
      using x(2) that task by (simp split: if_splits)
    moreover have "\<exists>u. sc_lock x = Some u \<and> kill_of (pp_tasks ?st u) \<noteq> None" if r: "sc_state x = Retiring"
    proof -
      have k: "kill_of p \<noteq> None" using x(4) r by simp
      then have "holds p = Some c" using p(1) by (cases p) auto
      then show ?thesis using k x(2) task by (intro exI[of _ t]) simp
    qed
    ultimately show ?thesis using True x(6,7) unfolding cell_ok_def f cell by simp
  next
    case False
    have o: "sc_lock (pp_cells st ! d) = Some u \<Longrightarrow> u \<noteq> t" for u
      using ok old False by (auto simp: cell_ok_def)
    have "q < nx" if "sc_proc (pp_cells st ! d) = Some q" for q
      using ok that nx by (auto simp: cell_ok_def)
    moreover have "\<exists>u. sc_lock (pp_cells st ! d) = Some u \<and> kill_of (pp_tasks ?st u) \<noteq> None"
      if r: "sc_state (pp_cells st ! d) = Retiring"
    proof -
      obtain u where "sc_lock (pp_cells st ! d) = Some u" "kill_of (pp_tasks st u) \<noteq> None"
        using ok r unfolding cell_ok_def by blast
      then show ?thesis using o task by (intro exI[of _ u]) simp
    qed
    moreover have "holds (pp_tasks ?st u) = Some d" if "sc_lock (pp_cells st ! d) = Some u" for u
      using ok that o task by (simp add: cell_ok_def)
    ultimately show ?thesis using ok False unfolding cell_ok_def f cell by simp
  qed
next
  fix u
  let ?st = "goto t p (st\<lparr> pp_cells := (pp_cells st)[c := x], pp_alive := al, pp_next_proc := nx, pp_trace := tr \<rparr>)"
  have f: "pp_alloc ?st = pp_alloc st" "length (pp_cells ?st) = length (pp_cells st)" by (simp_all add: goto_def)
  have cell: "pp_cells ?st ! d = (if d = c then x else pp_cells st ! d)" for d
    using c by (simp add: goto_def nth_list_update)
  have task: "pp_tasks ?st u = (if u = t then p else pp_tasks st u)" by (simp add: goto_def)
  have key: "sc_key (pp_cells ?st ! d) = sc_key (pp_cells st ! d)" for d using x(1) by (simp add: cell)
  note ok = pool_invD(3)[OF inv, of u]
  show "task_ok ?st u (pp_tasks ?st u)"
  proof (cases "u = t")
    case True
    have "has_alloc p \<longleftrightarrow> pp_alloc st = Some t" using ok True p(4) by (simp add: task_ok_def)
    moreover have "holds p = Some d \<Longrightarrow> d = c" for d using p(1) by auto
    ultimately show ?thesis unfolding task_ok_def task f key using True p(2,3) x(2,5) by (auto simp: cell)
  next
    case False
    have o: "holds (pp_tasks st u) = Some d \<Longrightarrow> d \<noteq> c" for d
      using ok lock False by (auto simp: task_ok_def)
    have g: "forget_of (pp_tasks st u) = Some c \<Longrightarrow> sc_state x = Stopped"
      using ok x(3) by (simp add: task_ok_def)
    show ?thesis using ok False o g unfolding task_ok_def task f key by (auto simp: cell)
  qed
qed

section \<open>The map changes\<close>

lemma slots_change_inv:
  assumes inv: "pool_inv mx st" and d: "distinct (map fst ss)"
    and m: "\<And>a. length (filter (\<lambda>e. fst (fst e) = a) ss) \<le> mx a"
    and e: "\<And>k e. map_of ss k = Some e \<Longrightarrow> se_slot e < length (pp_cells st) \<and> sc_key (pp_cells st ! se_slot e) = k"
    and l: "\<And>c. c < length (pp_cells st) \<Longrightarrow> sc_state (pp_cells st ! c) \<noteq> Stopped
        \<Longrightarrow> \<exists>e. map_of ss (sc_key (pp_cells st ! c)) = Some e \<and> se_slot e = c"
  shows "pool_inv mx (st\<lparr> pp_slots := ss \<rparr>)"
proof (rule pool_invI)
  show "slots_ok mx (st\<lparr> pp_slots := ss \<rparr>)" using d m e by (auto simp: slots_ok_def mine_def entry_of_def)
  show "alive_ok (st\<lparr> pp_slots := ss \<rparr>)" using pool_invD(4)[OF inv] by (simp add: alive_ok_def)
  show "task_ok (st\<lparr> pp_slots := ss \<rparr>) t (pp_tasks (st\<lparr> pp_slots := ss \<rparr>) t)" for t
    using pool_invD(3)[OF inv, of t] by (simp add: task_ok_def)
  fix c
  assume "c < length (pp_cells (st\<lparr> pp_slots := ss \<rparr>))"
  then have c: "c < length (pp_cells st)" by simp
  show "cell_ok (st\<lparr> pp_slots := ss \<rparr>) c (pp_cells (st\<lparr> pp_slots := ss \<rparr>) ! c)"
    using pool_invD(2)[OF inv c] l[OF c] by (simp add: cell_ok_def entry_of_def)
qed

lemma slots_okD:
  assumes "slots_ok mx st"
  shows "distinct (map fst (pp_slots st))" "length (filter (\<lambda>e. fst (fst e) = a) (pp_slots st)) \<le> mx a"
    "map_of (pp_slots st) k = Some e \<Longrightarrow> se_slot e < length (pp_cells st) \<and> sc_key (pp_cells st ! se_slot e) = k"
  using assms unfolding slots_ok_def mine_def entry_of_def by blast+

lemma cell_entry:
  assumes "pool_inv mx st" "c < length (pp_cells st)" "sc_state (pp_cells st ! c) \<noteq> Stopped"
  shows "\<exists>e. map_of (pp_slots st) (sc_key (pp_cells st ! c)) = Some e \<and> se_slot e = c"
  using pool_invD(2)[OF assms(1,2)] assms(3) by (auto simp: cell_ok_def entry_of_def)

lemma update_same_filter:
  assumes "k \<in> fst ` set xs"
  shows "length (filter (\<lambda>e. P (fst e)) (AList.update k v xs)) = length (filter (\<lambda>e. P (fst e)) xs)"
  using assms by (induction xs) auto

lemma touch_inv: "pool_inv mx st \<Longrightarrow> pool_inv mx (touch_entry k now st)"
proof (cases "entry_of st k")
  case (Some e)
  assume inv: "pool_inv mx st"
  note ok = slots_okD[OF pool_invD(1)[OF inv]]
  have k: "k \<in> fst ` set (pp_slots st)" using Some by (force simp: entry_of_def dest: map_of_SomeD)
  have "pool_inv mx (st\<lparr> pp_slots := AList.update k (e\<lparr> se_last_used := now \<rparr>) (pp_slots st) \<rparr>)"
  proof (rule slots_change_inv[OF inv])
    show "distinct (map fst (AList.update k (e\<lparr> se_last_used := now \<rparr>) (pp_slots st)))"
      using ok(1) by (rule distinct_update)
    show "length (filter (\<lambda>x. fst (fst x) = a) (AList.update k (e\<lparr> se_last_used := now \<rparr>) (pp_slots st))) \<le> mx a" for a
      using ok(2)[of a] update_same_filter[OF k, of "\<lambda>q. fst q = a"] by simp
    have e: "map_of (pp_slots st) k = Some e" using Some by (simp add: entry_of_def)
    show "se_slot e' < length (pp_cells st) \<and> sc_key (pp_cells st ! se_slot e') = k'"
      if m: "map_of (AList.update k (e\<lparr> se_last_used := now \<rparr>) (pp_slots st)) k' = Some e'" for k' e'
    proof (cases "k' = k")
      case True
      then show ?thesis using m ok(3)[OF e] by (auto simp: map_of_update)
    next
      case False
      then show ?thesis using m ok(3)[of k' e'] by (simp add: map_of_update)
    qed
    show "\<exists>e'. map_of (AList.update k (e\<lparr> se_last_used := now \<rparr>) (pp_slots st)) (sc_key (pp_cells st ! c)) = Some e' \<and> se_slot e' = c"
      if c: "c < length (pp_cells st)" "sc_state (pp_cells st ! c) \<noteq> Stopped" for c
      using cell_entry[OF inv c] e by (cases "sc_key (pp_cells st ! c) = k") (auto simp: map_of_update)
  qed
  then show ?thesis using Some by (simp add: touch_entry_def)
qed (simp add: touch_entry_def)

lemma filter_delete_le: "length (filter P (AList.delete k xs)) \<le> length (filter P xs)"
  by (induction xs) auto

lemma remove_inv:
  assumes inv: "pool_inv mx st" and "\<And>e. entry_of st k = Some e \<Longrightarrow> sc_state (pp_cells st ! se_slot e) = Stopped"
  shows "pool_inv mx (remove_entry k st)"
  unfolding remove_entry_def
proof (rule slots_change_inv[OF inv])
  note ok = slots_okD[OF pool_invD(1)[OF inv]]
  show "distinct (map fst (AList.delete k (pp_slots st)))" using ok(1) by (rule distinct_delete)
  show "length (filter (\<lambda>e. fst (fst e) = a) (AList.delete k (pp_slots st))) \<le> mx a" for a
    using ok(2)[of a] filter_delete_le[of "\<lambda>e. fst (fst e) = a" k "pp_slots st"] by linarith
  show "se_slot e < length (pp_cells st) \<and> sc_key (pp_cells st ! se_slot e) = k'"
    if "map_of (AList.delete k (pp_slots st)) k' = Some e" for k' e
    using that ok(3) by (auto simp: delete_conv' split: if_splits)
  fix c
  assume c: "c < length (pp_cells st)" "sc_state (pp_cells st ! c) \<noteq> Stopped"
  obtain e where e: "map_of (pp_slots st) (sc_key (pp_cells st ! c)) = Some e" "se_slot e = c"
    using cell_entry[OF inv c] by blast
  then have "sc_key (pp_cells st ! c) \<noteq> k" using assms(2)[of e] c(2) by (auto simp: entry_of_def)
  then show "\<exists>e. map_of (AList.delete k (pp_slots st)) (sc_key (pp_cells st ! c)) = Some e \<and> se_slot e = c"
    using e by (simp add: delete_conv')
qed

lemma forget_inv:
  assumes "pool_inv mx st" "sc_state (pp_cells st ! c) = Stopped"
  shows "pool_inv mx (forget_slot k c st)"
  using assms remove_inv[OF assms(1), of k] by (auto simp: forget_slot_def split: option.splits)

lemma update_new: "k \<notin> fst ` set xs \<Longrightarrow> AList.update k v xs = xs @ [(k, v)]"
  by (induction xs) auto

lemma reserve_inv:
  assumes inv: "pool_inv mx st" and n: "entry_of st k = None" "length (mine (fst k) st) < mx (fst k)"
  shows "pool_inv mx (reserve k now st)"
proof (rule pool_invI)
  let ?st = "reserve k now st" and ?n = "length (pp_cells st)"
  note ok = slots_okD[OF pool_invD(1)[OF inv]]
  have f: "pp_alive ?st = pp_alive st" "pp_next_proc ?st = pp_next_proc st" "pp_tasks ?st = pp_tasks st"
    "pp_alloc ?st = pp_alloc st" "length (pp_cells ?st) = Suc ?n"
    "pp_slots ?st = AList.update k \<lparr> se_slot = ?n, se_last_used = now \<rparr> (pp_slots st)"
    by (simp_all add: reserve_def)
  have old: "d < ?n \<Longrightarrow> pp_cells ?st ! d = pp_cells st ! d" for d by (simp add: reserve_def nth_append)
  have new: "pp_cells ?st ! ?n = \<lparr> sc_state = Starting, sc_lock = None, sc_key = k, sc_proc = None \<rparr>"
    by (simp add: reserve_def)
  have k: "k \<notin> fst ` set (pp_slots st)" using n(1) by (auto simp: entry_of_def map_of_eq_None_iff)
  then have upd: "AList.update k v (pp_slots st) = pp_slots st @ [(k, v)]" for v
    by (rule update_new)
  show "slots_ok mx ?st"
    unfolding slots_ok_def
  proof (intro conjI allI impI)
    show "distinct (map fst (pp_slots ?st))" unfolding f using ok(1) by (rule distinct_update)
    show "length (mine a ?st) \<le> mx a" for a
      using ok(2)[of a] n(2) unfolding mine_def f upd by auto
    fix k' e
    assume "entry_of ?st k' = Some e"
    then have "(k' = k \<and> se_slot e = ?n) \<or> (k' \<noteq> k \<and> map_of (pp_slots st) k' = Some e)"
      unfolding entry_of_def f by (auto simp: map_of_update split: if_splits)
    then show "se_slot e < length (pp_cells ?st)" "sc_key (pp_cells ?st ! se_slot e) = k'"
      using ok(3)[of k' e] old new by (auto simp: f)
  qed
  show "alive_ok ?st"
    unfolding alive_ok_def f
  proof
    fix p assume "p \<in> set (pp_alive st)"
    then obtain d where "p < pp_next_proc st" "d < ?n" "sc_proc (pp_cells st ! d) = Some p"
      "in_use (sc_state (pp_cells st ! d))" using pool_invD(4)[OF inv] by (auto simp: alive_ok_def)
    then show "p < pp_next_proc st \<and> (\<exists>d<Suc ?n. sc_proc (pp_cells ?st ! d) = Some p \<and> in_use (sc_state (pp_cells ?st ! d)))"
      by (intro conjI exI[of _ d]) (auto simp: old)
  qed
  show "task_ok ?st t (pp_tasks ?st t)" for t
  proof -
    note t = pool_invD(3)[OF inv, of t]
    have "\<forall>(k, c) \<in> set (refs (pp_tasks st t)). c < ?n" using t by (auto simp: task_ok_def)
    then have "holds (pp_tasks st t) = Some c \<Longrightarrow> c < ?n" "forget_of (pp_tasks st t) = Some c \<Longrightarrow> c < ?n" for c
      using holds_ref forget_ref by fastforce+
    then show ?thesis using t unfolding task_ok_def f by (auto simp: old)
  qed
  fix d
  assume "d < length (pp_cells ?st)"
  then have "d < Suc ?n" unfolding f(5) .
  then consider "d < ?n" | "d = ?n" by (auto simp only: less_Suc_eq)
  then show "cell_ok ?st d (pp_cells ?st ! d)"
  proof cases
    case 1
    have "sc_key (pp_cells st ! d) \<noteq> k" if "sc_state (pp_cells st ! d) \<noteq> Stopped"
      using cell_entry[OF inv 1 that] n(1) by (auto simp: entry_of_def)
    then show ?thesis using pool_invD(2)[OF inv 1]
      unfolding cell_ok_def f old[OF 1] entry_of_def f(6) map_of_update by auto
  next
    case 2
    then show ?thesis unfolding 2 new cell_ok_def entry_of_def f(6) map_of_update by simp
  qed
qed

lemma sweep_inv:
  assumes inv: "pool_inv mx st"
  shows "pool_inv mx (sweep st)"
proof (rule pool_invI)
  let ?st = "sweep st"
  note ok = slots_okD[OF pool_invD(1)[OF inv]]
  have f: "pp_alive ?st = pp_alive st" "pp_next_proc ?st = pp_next_proc st" "pp_tasks ?st = pp_tasks st"
    "pp_alloc ?st = pp_alloc st" "length (pp_cells ?st) = length (pp_cells st)"
    "pp_slots ?st = filter (\<lambda>ke. \<not> reaped st (snd ke)) (pp_slots st)"
    by (simp_all add: sweep_def)
  have cell: "c < length (pp_cells st) \<Longrightarrow> pp_cells ?st ! c =
      (if reaped_cell st c then (pp_cells st ! c)\<lparr> sc_state := Stopped \<rparr> else pp_cells st ! c)" for c
    by (simp add: sweep_def)
  have keys: "c < length (pp_cells st) \<Longrightarrow> sc_key (pp_cells ?st ! c) = sc_key (pp_cells st ! c)"
    "c < length (pp_cells st) \<Longrightarrow> sc_lock (pp_cells ?st ! c) = sc_lock (pp_cells st ! c)"
    "c < length (pp_cells st) \<Longrightarrow> sc_proc (pp_cells ?st ! c) = sc_proc (pp_cells st ! c)" for c
    by (simp_all add: cell)
  have hit: "sc_lock (pp_cells st ! c) = None"
    "sc_state (pp_cells st ! c) = Stopped \<or> (\<exists>i. sc_state (pp_cells st ! c) = Live i \<and> in_proc i \<notin> set (pp_alive st))"
    if h: "reaped_cell st c" for c
  proof -
    obtain e where e: "se_slot e = c" "reaped st e" using h by (auto simp: reaped_cell_def)
    then show "sc_lock (pp_cells st ! c) = None" by (simp add: reaped_def Let_def)
    show "sc_state (pp_cells st ! c) = Stopped \<or> (\<exists>i. sc_state (pp_cells st ! c) = Live i \<and> in_proc i \<notin> set (pp_alive st))"
      using e by (cases "sc_state (pp_cells st ! c)") (simp_all add: reaped_def Let_def)
  qed
  have sub: "map_of (pp_slots ?st) k = Some e \<Longrightarrow> map_of (pp_slots st) k = Some e" for k e
  proof -
    assume "map_of (pp_slots ?st) k = Some e"
    then have "(k, e) \<in> set (pp_slots st)" unfolding f by (auto dest: map_of_SomeD)
    then show "map_of (pp_slots st) k = Some e" using ok(1) by (rule map_of_is_SomeI[rotated])
  qed
  show "slots_ok mx ?st"
    unfolding slots_ok_def
  proof (intro conjI allI impI)
    show "distinct (map fst (pp_slots ?st))" unfolding f using ok(1) by (rule distinct_map_filter)
    show "length (mine a ?st) \<le> mx a" for a
    proof -
      have "mine a ?st = filter (\<lambda>ke. \<not> reaped st (snd ke)) (filter (\<lambda>e. fst (fst e) = a) (pp_slots st))"
        unfolding mine_def f filter_filter by (simp add: conj_commute)
      then have "length (mine a ?st) \<le> length (filter (\<lambda>e. fst (fst e) = a) (pp_slots st))"
        by (simp only: length_filter_le)
      then show ?thesis using ok(2)[of a] by linarith
    qed
    fix k e assume "entry_of ?st k = Some e"
    then have "map_of (pp_slots st) k = Some e" using sub by (simp add: entry_of_def)
    from ok(3)[OF this] show "se_slot e < length (pp_cells ?st)" "sc_key (pp_cells ?st ! se_slot e) = k"
      by (auto simp: f keys)
  qed
  show "alive_ok ?st"
    unfolding alive_ok_def f
  proof
    fix p assume p: "p \<in> set (pp_alive st)"
    then obtain d where d: "p < pp_next_proc st" "d < length (pp_cells st)" "sc_proc (pp_cells st ! d) = Some p"
      "in_use (sc_state (pp_cells st ! d))" using pool_invD(4)[OF inv] by (auto simp: alive_ok_def)
    have "\<not> reaped_cell st d"
    proof
      assume h: "reaped_cell st d"
      then obtain i where i: "sc_state (pp_cells st ! d) = Live i" "in_proc i \<notin> set (pp_alive st)"
        using hit(2)[OF h] d(4) by auto
      then show False using pool_invD(2)[OF inv d(2)] d(3) p by (auto simp: cell_ok_def)
    qed
    then show "p < pp_next_proc st \<and> (\<exists>d<length (pp_cells st). sc_proc (pp_cells ?st ! d) = Some p
        \<and> in_use (sc_state (pp_cells ?st ! d)))"
      using d by (intro conjI exI[of _ d]) (auto simp: cell)
  qed
  show "task_ok ?st t (pp_tasks ?st t)" for t
  proof -
    note t = pool_invD(3)[OF inv, of t]
    have b: "holds (pp_tasks st t) = Some c \<Longrightarrow> c < length (pp_cells st)" for c by (rule holds_bound[OF inv])
    have g: "forget_of (pp_tasks st t) = Some c \<Longrightarrow> c < length (pp_cells st)" for c
      using forget_ref[of "pp_tasks st t" c] t by (fastforce simp: task_ok_def)
    have "holds (pp_tasks st t) = Some c \<Longrightarrow> \<not> reaped_cell st c" for c
      using t hit(1)[of c] by (auto simp: task_ok_def)
    then have "holds (pp_tasks st t) = Some c \<Longrightarrow> pp_cells ?st ! c = pp_cells st ! c" for c
      using b cell by simp
    moreover have "forget_of (pp_tasks st t) = Some c \<Longrightarrow> sc_state (pp_cells ?st ! c) = Stopped" for c
      using g cell t by (simp add: task_ok_def)
    ultimately show ?thesis using t keys unfolding task_ok_def f by auto
  qed
  fix c
  assume "c < length (pp_cells ?st)"
  then have c: "c < length (pp_cells st)" by (simp add: f)
  note o = pool_invD(2)[OF inv c]
  show "cell_ok ?st c (pp_cells ?st ! c)"
  proof (cases "reaped_cell st c")
    case True
    then show ?thesis using o cell[OF c] hit(1)[OF True] by (auto simp: cell_ok_def f)
  next
    case False
    have "\<exists>e. entry_of ?st (sc_key (pp_cells st ! c)) = Some e \<and> se_slot e = c"
      if ns: "sc_state (pp_cells st ! c) \<noteq> Stopped"
    proof -
      obtain e where e: "map_of (pp_slots st) (sc_key (pp_cells st ! c)) = Some e" "se_slot e = c"
        using cell_entry[OF inv c ns] by blast
      then have "(sc_key (pp_cells st ! c), e) \<in> set (pp_slots ?st)"
        using False e(2) map_of_SomeD[OF e(1)] unfolding f reaped_cell_def by force
      moreover have "distinct (map fst (pp_slots ?st))" unfolding f using ok(1) by (rule distinct_map_filter)
      ultimately show ?thesis using e(2) map_of_is_SomeI[of "pp_slots ?st"] unfolding entry_of_def by blast
    qed
    then show ?thesis using o cell[OF c] False unfolding cell_ok_def f by auto
  qed
qed

section \<open>Every step keeps it\<close>

lemma alive_bound: "pool_inv mx st \<Longrightarrow> q \<in> set (pp_alive st) \<Longrightarrow> q < pp_next_proc st"
  using pool_invD(4) by (auto simp: alive_ok_def)

lemma cellD:
  assumes "pool_inv mx st" "c < length (pp_cells st)"
  shows "sc_lock (pp_cells st ! c) = None \<Longrightarrow> sc_state (pp_cells st ! c) \<noteq> Retiring"
    "sc_state (pp_cells st ! c) = Live i \<Longrightarrow> sc_proc (pp_cells st ! c) = Some (in_proc i)"
    "sc_proc (pp_cells st ! c) = Some q \<Longrightarrow> q < pp_next_proc st"
  using pool_invD(2)[OF assms] by (auto simp: cell_ok_def)

lemma taskD:
  assumes "pool_inv mx st"
  shows "(k, c) \<in> set (refs (pp_tasks st t)) \<Longrightarrow> c < length (pp_cells st)"
    "(k, c) \<in> set (refs (pp_tasks st t)) \<Longrightarrow> sc_key (pp_cells st ! c) = k"
    "holds (pp_tasks st t) = Some c \<Longrightarrow> sc_lock (pp_cells st ! c) = Some t"
    "has_alloc (pp_tasks st t) \<longleftrightarrow> pp_alloc st = Some t"
    "forget_of (pp_tasks st t) = Some c \<Longrightarrow> sc_state (pp_cells st ! c) = Stopped"
  using pool_invD(3)[OF assms, of t] by (auto simp: task_ok_def)

lemma refs_ok:
  assumes "pool_inv mx st" "set (refs p) \<subseteq> set (refs (pp_tasks st t))"
  shows "\<forall>(k, c) \<in> set (refs p). c < length (pp_cells st) \<and> sc_key (pp_cells st ! c) = k"
  using pool_invD(3)[OF assms(1), of t] assms(2) by (auto simp: task_ok_def)

text \<open>A held cell that is not being killed is not retiring.\<close>

lemma held_not_retiring:
  assumes "pool_inv mx st" "pp_tasks st t = Held r n c"
  shows "sc_state (pp_cells st ! c) \<noteq> Retiring"
proof
  assume r: "sc_state (pp_cells st ! c) = Retiring"
  have "c < length (pp_cells st)" using taskD(1)[OF assms(1), of "pq_key r" c t] assms(2) by simp
  then obtain u where "sc_lock (pp_cells st ! c) = Some u" "kill_of (pp_tasks st u) \<noteq> None"
    using pool_invD(2)[OF assms(1)] r unfolding cell_ok_def by blast
  moreover have "sc_lock (pp_cells st ! c) = Some t" using taskD(3)[OF assms(1), of t c] assms(2) by simp
  ultimately show False using assms(2) by simp
qed

text \<open>The cells a task holds change state through these four shapes.\<close>

lemma take_lock_inv:
  assumes inv: "pool_inv mx st" and c: "(k, c) \<in> set (refs (pp_tasks st t))" "sc_lock (pp_cells st ! c) = None"
    and t: "holds (pp_tasks st t) = None" "pp_tasks st t = WantCell r n c"
  shows "pool_inv mx (goto t (Held r n c) (set_cell c (\<lambda>x. x\<lparr> sc_lock := Some t \<rparr>) st))"
proof -
  let ?x = "(pp_cells st ! c)\<lparr> sc_lock := Some t \<rparr>"
  have b: "c < length (pp_cells st)" using taskD(1)[OF inv c(1)] .
  have "pool_inv mx (goto t (Held r n c) (st\<lparr> pp_cells := (pp_cells st)[c := ?x], pp_alive := pp_alive st,
      pp_next_proc := pp_next_proc st, pp_trace := pp_trace st \<rparr>))"
    using c(2) t cellD[OF inv b] alive_bound[OF inv]
    by (intro cell_step_inv[OF inv b] refs_ok[OF inv, of _ t]) auto
  moreover have "set_cell c (\<lambda>x. x\<lparr> sc_lock := Some t \<rparr>) st
      = st\<lparr> pp_cells := (pp_cells st)[c := ?x], pp_alive := pp_alive st, pp_next_proc := pp_next_proc st, pp_trace := pp_trace st \<rparr>"
    by (simp add: set_cell_def)
  ultimately show ?thesis by simp
qed

text \<open>A cell goes to \<open>Stopped\<close> and is let go.\<close>

lemma stop_cell_inv:
  assumes inv: "pool_inv mx st" and b: "c < length (pp_cells st)"
    and lock: "sc_lock (pp_cells st ! c) = None \<or> sc_lock (pp_cells st ! c) = Some t"
    and old: "holds (pp_tasks st t) = None \<or> holds (pp_tasks st t) = Some c"
    and p: "holds p = None" "kill_of p = None" "set (refs p) \<subseteq> set (refs (pp_tasks st t))"
      "\<forall>d. forget_of p = Some d \<longrightarrow> d = c" "has_alloc p \<longleftrightarrow> has_alloc (pp_tasks st t)"
    and nx: "pp_next_proc st \<le> nx"
    and al: "\<forall>q \<in> set al. q \<in> set (pp_alive st) \<and> \<not> (sc_proc (pp_cells st ! c) = Some q \<and> in_use (sc_state (pp_cells st ! c)))"
  shows "pool_inv mx (goto t p (stop_cell c (st\<lparr> pp_alive := al, pp_next_proc := nx, pp_trace := tr \<rparr>)))"
proof -
  let ?x = "(pp_cells st ! c)\<lparr> sc_state := Stopped, sc_lock := None \<rparr>"
  have n: "\<forall>q\<in>set al. q < nx" "\<forall>q. sc_proc (pp_cells st ! c) = Some q \<longrightarrow> q < nx"
    using nx al cellD(3)[OF inv b] alive_bound[OF inv] by (meson order.strict_trans2)+
  have "pool_inv mx (goto t p (st\<lparr> pp_cells := (pp_cells st)[c := ?x], pp_alive := al,
      pp_next_proc := nx, pp_trace := tr \<rparr>))"
    using lock old p(1,2,4,5) nx al n
    by (intro cell_step_inv[OF inv b] refs_ok[OF inv p(3)]) auto
  moreover have "stop_cell c (st\<lparr> pp_alive := al, pp_next_proc := nx, pp_trace := tr \<rparr>)
      = st\<lparr> pp_cells := (pp_cells st)[c := ?x], pp_alive := al, pp_next_proc := nx, pp_trace := tr \<rparr>"
    by (rule pool.equality) (simp_all add: stop_cell_def set_cell_def)
  ultimately show ?thesis by simp
qed

text \<open>A live cell goes to \<open>Retiring\<close>, in the hands of the task that will terminate it.\<close>

lemma start_retiring_inv:
  assumes inv: "pool_inv mx st" and b: "c < length (pp_cells st)"
    and lock: "sc_lock (pp_cells st ! c) = None \<or> sc_lock (pp_cells st ! c) = Some t"
    and old: "holds (pp_tasks st t) = None \<or> holds (pp_tasks st t) = Some c"
    and live: "sc_state (pp_cells st ! c) = Live i" "in_proc i' = in_proc i"
    and p: "set (refs (RetireKill k c i' reason co)) \<subseteq> set (refs (pp_tasks st t))"
      "cont_alloc co \<longleftrightarrow> has_alloc (pp_tasks st t)"
  shows "pool_inv mx (goto t (RetireKill k c i' reason co)
    (set_cell c (\<lambda>x. x\<lparr> sc_state := Retiring, sc_lock := Some t \<rparr>) (st\<lparr> pp_trace := tr \<rparr>)))"
proof -
  let ?x = "(pp_cells st ! c)\<lparr> sc_state := Retiring, sc_lock := Some t \<rparr>"
  have pr: "sc_proc (pp_cells st ! c) = Some (in_proc i)" using cellD(2)[OF inv b live(1)] .
  have "pool_inv mx (goto t (RetireKill k c i' reason co) (st\<lparr> pp_cells := (pp_cells st)[c := ?x],
      pp_alive := pp_alive st, pp_next_proc := pp_next_proc st, pp_trace := tr \<rparr>))"
    using lock old p(2) pr live cellD(3)[OF inv b] alive_bound[OF inv]
    by (intro cell_step_inv[OF inv b] refs_ok[OF inv p(1)]) auto
  moreover have "set_cell c (\<lambda>x. x\<lparr> sc_state := Retiring, sc_lock := Some t \<rparr>) (st\<lparr> pp_trace := tr \<rparr>)
      = st\<lparr> pp_cells := (pp_cells st)[c := ?x], pp_alive := pp_alive st, pp_next_proc := pp_next_proc st, pp_trace := tr \<rparr>"
    by (rule pool.equality) (simp_all add: set_cell_def)
  ultimately show ?thesis by simp
qed

text \<open>A held cell gets a live instance: the one just spawned, or the same after an exchange.\<close>

lemma live_cell_inv:
  assumes inv: "pool_inv mx st" and t: "pp_tasks st t = Held r n c"
    and s: "sc_state (pp_cells st ! c) \<noteq> Stopped"
    and i: "in_proc i < nx" "pp_next_proc st \<le> nx"
    and al: "\<forall>q \<in> set al. q = in_proc i
        \<or> q \<in> set (pp_alive st) \<and> \<not> (sc_proc (pp_cells st ! c) = Some q \<and> in_use (sc_state (pp_cells st ! c)))"
    and p: "p = Held r n c \<and> lk = Some t \<or> p = Touching (pq_key r) res \<and> lk = None"
  shows "pool_inv mx (goto t p (set_cell c (\<lambda>x. x\<lparr> sc_state := Live i, sc_proc := Some (in_proc i), sc_lock := lk \<rparr>)
    (st\<lparr> pp_alive := al, pp_next_proc := nx, pp_trace := tr \<rparr>)))"
proof -
  let ?x = "(pp_cells st ! c)\<lparr> sc_state := Live i, sc_proc := Some (in_proc i), sc_lock := lk \<rparr>"
  have b: "c < length (pp_cells st)" using taskD(1)[OF inv, of "pq_key r" c t] t by simp
  have l: "sc_lock (pp_cells st ! c) = Some t" using taskD(3)[OF inv, of t c] t by simp
  have n: "\<forall>q\<in>set al. q < nx"
  proof
    fix q assume "q \<in> set al"
    then consider "q = in_proc i" | "q < pp_next_proc st" using al alive_bound[OF inv] by blast
    then show "q < nx" using i by cases simp_all
  qed
  have "pool_inv mx (goto t p (st\<lparr> pp_cells := (pp_cells st)[c := ?x],
      pp_alive := al, pp_next_proc := nx, pp_trace := tr \<rparr>))"
    using l t s i al p n
    by (intro cell_step_inv[OF inv b] refs_ok[OF inv, of _ t]) auto
  moreover have "set_cell c (\<lambda>x. x\<lparr> sc_state := Live i, sc_proc := Some (in_proc i), sc_lock := lk \<rparr>)
        (st\<lparr> pp_alive := al, pp_next_proc := nx, pp_trace := tr \<rparr>)
      = st\<lparr> pp_cells := (pp_cells st)[c := ?x], pp_alive := al, pp_next_proc := nx, pp_trace := tr \<rparr>"
    by (rule pool.equality) (simp_all add: set_cell_def)
  ultimately show ?thesis by simp
qed

lemma alloc_none: "pool_inv mx st \<Longrightarrow> \<not> has_alloc (pp_tasks st t) \<Longrightarrow> pp_alloc st \<noteq> Some t"
  using taskD(4) by blast

lemma next_attempt_facts [simp]:
  "holds (next_attempt r n) = None" "refs (next_attempt r n) = []" "forget_of (next_attempt r n) = None"
  "kill_of (next_attempt r n) = None" "has_alloc (next_attempt r n) = False"
  by (cases n; simp)+

lemma resume_facts [simp]:
  "holds (resume co) = None" "refs (resume co) = cont_refs co" "forget_of (resume co) = None"
  "has_alloc (resume co) = cont_alloc co"
  by (cases co; simp)+

lemma set_cell_twice:
  "c < length (pp_cells st) \<Longrightarrow> set_cell c g (set_cell c f st) = set_cell c (\<lambda>x. g (f x)) st"
  by (simp add: set_cell_def)

lemma set_cell_cong:
  "g (pp_cells st ! c) = f (pp_cells st ! c) \<Longrightarrow> set_cell c g st = set_cell c f st"
  by (simp add: set_cell_def)

lemma cell_lock_same:
  assumes "sc_lock x = l"
  shows "x\<lparr> sc_state := s, sc_lock := l \<rparr> = x\<lparr> sc_state := s \<rparr>"
    "x\<lparr> sc_state := s, sc_proc := p, sc_lock := l \<rparr> = x\<lparr> sc_state := s, sc_proc := p \<rparr>"
    "x\<lparr> sc_lock := m, sc_state := s \<rparr> = x\<lparr> sc_state := s, sc_lock := m \<rparr>"
  using assms by (cases x; simp)+

lemma cell_swap: "x\<lparr> sc_lock := m, sc_state := s \<rparr> = x\<lparr> sc_state := s, sc_lock := m \<rparr>" for x :: slot_cell
  by (cases x) simp

lemma pool_inv_trace: "pool_inv mx (st\<lparr> pp_trace := tr \<rparr>) = pool_inv mx st"
proof -
  have e: "entry_of (st\<lparr> pp_trace := tr \<rparr>) = entry_of st" by (simp add: entry_of_def fun_eq_iff)
  have m: "mine a (st\<lparr> pp_trace := tr \<rparr>) = mine a st" for a by (simp add: mine_def)
  have c: "cell_ok (st\<lparr> pp_trace := tr \<rparr>) = cell_ok st" unfolding cell_ok_def e fun_eq_iff by simp
  have t: "task_ok (st\<lparr> pp_trace := tr \<rparr>) = task_ok st" unfolding task_ok_def fun_eq_iff by simp
  show ?thesis unfolding pool_inv_def slots_ok_def alive_ok_def e m c t by simp
qed

lemma pool_inv_alive:
  assumes "pool_inv mx st" "set al \<subseteq> set (pp_alive st)"
  shows "pool_inv mx (st\<lparr> pp_alive := al \<rparr>)"
proof -
  let ?st = "st\<lparr> pp_alive := al \<rparr>"
  have e: "entry_of ?st = entry_of st" by (simp add: entry_of_def fun_eq_iff)
  have m: "mine a ?st = mine a st" for a by (simp add: mine_def)
  have c: "cell_ok ?st = cell_ok st" unfolding cell_ok_def e fun_eq_iff by simp
  have t: "task_ok ?st = task_ok st" unfolding task_ok_def fun_eq_iff by simp
  have "slots_ok mx ?st" using pool_invD(1)[OF assms(1)] unfolding slots_ok_def e m by simp
  moreover have "alive_ok ?st" using pool_invD(4)[OF assms(1)] assms(2) by (auto simp: alive_ok_def)
  ultimately show ?thesis using assms(1) unfolding pool_inv_def c t by simp
qed

lemma entry_valid:
  assumes "pool_inv mx st" "(k, e) \<in> set (pp_slots st)"
  shows "se_slot e < length (pp_cells st)" "sc_key (pp_cells st ! se_slot e) = k"
proof -
  note ok = slots_okD[OF pool_invD(1)[OF assms(1)]]
  have "map_of (pp_slots st) k = Some e" using ok(1) assms(2) by (rule map_of_is_SomeI)
  from ok(3)[OF this] show "se_slot e < length (pp_cells st)" "sc_key (pp_cells st ! se_slot e) = k" by auto
qed

lemma entry_of_mem: "entry_of st k = Some e \<Longrightarrow> (k, e) \<in> set (pp_slots st)"
  by (simp add: entry_of_def map_of_SomeD)

lemma choose_slot_inv:
  assumes inv: "pool_inv mx st" and t: "pp_tasks st t = Choosing r n"
    and ch: "choose_slot mx t now victim r n st = Some st'"
  shows "pool_inv mx st'"
proof -
  let ?k = "pq_key r"
  define st1 where "st1 = (case entry_of st ?k of
      Some e \<Rightarrow> if is_stopped_now st (se_slot e) then remove_entry ?k st else st | None \<Rightarrow> st)"
  have i1: "pool_inv mx st1"
    using inv remove_inv[OF inv, of ?k] by (auto simp: st1_def is_stopped_now_def split: option.split)
  have t1: "pp_tasks st1 t = Choosing r n" "pp_alloc st1 = Some t"
    using t taskD(4)[OF inv, of t] by (auto simp: st1_def remove_entry_def split: option.split)
  have rel: "release_alloc X = X\<lparr> pp_alloc := None \<rparr>" for X by (simp add: release_alloc_def)
  show ?thesis
  proof (cases "entry_of st1 ?k")
    case (Some e)
    then have s: "st' = goto t (WantCell r n (se_slot e)) ((touch_entry ?k now st1)\<lparr> pp_alloc := None \<rparr>)"
      using ch unfolding choose_slot_def Let_def st1_def[symmetric] by (simp add: rel)
    have c: "pp_cells (touch_entry ?k now st1) = pp_cells st1" "pp_tasks (touch_entry ?k now st1) = pp_tasks st1"
      "pp_alloc (touch_entry ?k now st1) = pp_alloc st1"
      by (auto simp: touch_entry_def split: option.split)
    show ?thesis unfolding s
      by (rule goto_inv[OF touch_inv[OF i1]])
        (use entry_valid[OF i1 entry_of_mem[OF Some]] t1 c in auto)
  next
    case None
    show ?thesis
    proof (cases "length (mine (fst ?k) st1) < mx (fst ?k)")
      case True
      then have s: "st' = goto t (WantCell r n (length (pp_cells st1))) ((reserve ?k now st1)\<lparr> pp_alloc := None \<rparr>)"
        using ch None unfolding choose_slot_def Let_def st1_def[symmetric] by (simp add: rel)
      show ?thesis unfolding s
        by (rule goto_inv[OF reserve_inv[OF i1 None True]]) (use t1 in \<open>auto simp: reserve_def\<close>)
    next
      case False
      then obtain e where e: "entry_of st1 victim = Some e"
        and s: "st' = goto t (RetireWant victim (se_slot e) Evicted (BackToChoosing r n)) st1"
        using ch None unfolding choose_slot_def Let_def st1_def[symmetric] by (auto split: if_splits option.splits)
      show ?thesis unfolding s
        by (rule goto_keep[OF i1]) (use entry_valid[OF i1 entry_of_mem[OF e]] t1 in auto)
    qed
  qed
qed

lemma retire_slot_inv:
  assumes inv: "pool_inv mx st" and t: "pp_tasks st t = RetireWant k c reason co"
    and l: "sc_lock (pp_cells st ! c) = None"
  shows "pool_inv mx (retire_slot t k c reason co (set_cell c (\<lambda>x. x\<lparr> sc_lock := Some t \<rparr>) st))"
proof -
  have b: "c < length (pp_cells st)" using taskD(1)[OF inv, of k c t] t by simp
  let ?st = "set_cell c (\<lambda>x. x\<lparr> sc_lock := Some t \<rparr>) st"
  have s: "sc_state (pp_cells ?st ! c) = sc_state (pp_cells st ! c)" using b by (simp add: set_cell_def)
  show ?thesis
  proof (cases "sc_state (pp_cells st ! c)")
    case (Live i)
    have "retire_slot t k c reason co ?st = goto t (RetireKill k c i reason co)
        (set_cell c (\<lambda>x. x\<lparr> sc_state := Retiring, sc_lock := Some t \<rparr>) (st\<lparr> pp_trace := pp_trace st \<rparr>))"
      using Live b by (simp add: retire_slot_def s start_retiring_def set_cell_twice cell_swap)
    then show ?thesis using start_retiring_inv[OF inv b _ _ Live refl, of t k reason co "pp_trace st"] l t by simp
  next
    case Retiring
    then show ?thesis using cellD(1)[OF inv b l] by simp
  next
    case Starting
    have "retire_slot t k c reason co ?st = goto t (RetireForget k c co) (stop_cell c
        (st\<lparr> pp_alive := pp_alive st, pp_next_proc := pp_next_proc st, pp_trace := pp_trace st \<rparr>))"
      using Starting b by (simp add: retire_slot_def s stop_cell_def set_cell_twice)
    then show ?thesis using stop_cell_inv[OF inv b, of t "RetireForget k c co" "pp_next_proc st" "pp_alive st" "pp_trace st"]
      l t Starting by simp
  next
    case Stopped
    have "retire_slot t k c reason co ?st = goto t (RetireForget k c co) (stop_cell c
        (st\<lparr> pp_alive := pp_alive st, pp_next_proc := pp_next_proc st, pp_trace := pp_trace st \<rparr>))"
      using Stopped b by (simp add: retire_slot_def s stop_cell_def set_cell_twice)
    then show ?thesis using stop_cell_inv[OF inv b, of t "RetireForget k c co" "pp_next_proc st" "pp_alive st" "pp_trace st"]
      l t Stopped by simp
  qed
qed

lemma heldD:
  assumes "pool_inv mx st" "pp_tasks st t = Held r n c"
  shows "c < length (pp_cells st)" "sc_lock (pp_cells st ! c) = Some t" "sc_state (pp_cells st ! c) \<noteq> Retiring"
    "pp_alloc st \<noteq> Some t"
  using taskD(1)[OF assms(1), of "pq_key r" c t] taskD(3,4)[OF assms(1), of t]
    held_not_retiring[OF assms] assms(2) by auto

lemma look_inv:
  assumes inv: "pool_inv mx st" and t: "pp_tasks st t = Held r n c" and lk: "look t r n c st = Some st'"
  shows "pool_inv mx st'"
proof -
  note h = heldD[OF inv t]
  have s: "sc_state (pp_cells st ! c) = Stopped" "st' = goto t (next_attempt r n) (unlock c st)"
    using lk h(3) by (auto simp: look_def split: slot_state.splits)
  have "unlock c st = stop_cell c (st\<lparr> pp_alive := pp_alive st, pp_next_proc := pp_next_proc st, pp_trace := pp_trace st \<rparr>)"
    using s(1) by (simp add: unlock_def stop_cell_def) (rule set_cell_cong; simp)
  then show ?thesis unfolding s(2)
    using stop_cell_inv[OF inv h(1), of t "next_attempt r n" "pp_next_proc st" "pp_alive st" "pp_trace st"] h(2) t s(1)
    by simp
qed

lemma spawn_into_inv:
  assumes inv: "pool_inv mx st" and t: "pp_tasks st t = Held r n c" and sp: "spawn_into parse t q r n c st = Some st'"
  shows "pool_inv mx st'"
proof -
  note h = heldD[OF inv t]
  have s: "sc_state (pp_cells st ! c) = Starting" using sp by (auto simp: spawn_into_def split: slot_state.splits)
  show ?thesis
  proof (cases "spawn_instance parse q (pq_spec r) (pp_next_proc st)")
    case (Inl e)
    then have "st' = goto t (RetireForget (pq_key r) c (Finish (PoolErr e))) (stop_cell c
        (st\<lparr> pp_alive := pp_alive st, pp_next_proc := pp_next_proc st + 1, pp_trace := pp_trace st \<rparr>))"
      using sp s by (simp add: spawn_into_def)
    then show ?thesis
      using stop_cell_inv[OF inv h(1), of t "RetireForget (pq_key r) c (Finish (PoolErr e))" "pp_next_proc st + 1"
          "pp_alive st" "pp_trace st"] h(2) t s by simp
  next
    case (Inr inst)
    have p: "in_proc inst = pp_next_proc st"
      using Inr by (auto simp: spawn_instance_def split: if_splits option.splits sum.splits)
    let ?e = "PoolAudit (PersistentAgentStarted (fst (pq_key r)) (snd (pq_key r)) (in_pid inst))"
    have "st' = goto t (Held r n c) (set_cell c (\<lambda>x. x\<lparr> sc_state := Live inst, sc_proc := Some (in_proc inst), sc_lock := Some t \<rparr>)
        (st\<lparr> pp_alive := in_proc inst # pp_alive st, pp_next_proc := pp_next_proc st + 1, pp_trace := pp_trace st @ [?e] \<rparr>))"
      using sp s Inr h(2) t
      by (intro pool.equality) (auto simp: spawn_into_def goto_def set_cell_def emit_pool_def cell_lock_same[OF h(2)])
    then show ?thesis
      using live_cell_inv[OF inv t, of inst "pp_next_proc st + 1" "in_proc inst # pp_alive st" "Held r n c" "Some t"
          _ "pp_trace st @ [?e]"] s p by simp
  qed
qed

lemma cell_proc_same:
  "sc_proc x = p \<Longrightarrow> x\<lparr> sc_state := s, sc_proc := p, sc_lock := l \<rparr> = x\<lparr> sc_state := s, sc_lock := l \<rparr>"
  by (cases x) simp

lemma exchange_step_inv:
  assumes inv: "pool_inv mx st" and t: "pp_tasks st t = Held r n c"
    and ex: "exchange_step parse t q idle_ok r n c st = Some st'"
  shows "pool_inv mx st'"
proof -
  note h = heldD[OF inv t]
  obtain i0 where s: "sc_state (pp_cells st ! c) = Live i0"
    using ex by (auto simp: exchange_step_def split: slot_state.splits)
  obtain res inst where x: "exchange parse q i0 = (res, inst)" by fastforce
  have p: "in_proc inst = in_proc i0" using exchange_proc[of parse q i0] x by simp
  have pr: "sc_proc (pp_cells st ! c) = Some (in_proc i0)" "in_proc i0 < pp_next_proc st"
    using cellD(2,3)[OF inv h(1)] s by auto
  let ?tr = "pp_trace st @ [BytesSent t (bytes_sent q)]"
  let ?st1 = "emit_pool (BytesSent t (bytes_sent q)) (set_cell c (\<lambda>x. x\<lparr> sc_state := Live inst \<rparr>) st)"
  have kill: "pool_inv mx (start_retiring t (pq_key r) c inst reason co ?st1)" if "\<not> cont_alloc co" "cont_refs co = []" for reason co
  proof -
    have "start_retiring t (pq_key r) c inst reason co ?st1 = goto t (RetireKill (pq_key r) c inst reason co)
        (set_cell c (\<lambda>x. x\<lparr> sc_state := Retiring, sc_lock := Some t \<rparr>) (st\<lparr> pp_trace := ?tr \<rparr>))"
      using h(1) by (intro pool.equality)
        (auto simp: start_retiring_def goto_def set_cell_def emit_pool_def cell_lock_same[OF h(2)])
    then show ?thesis
      using start_retiring_inv[OF inv h(1) _ _ s p, of t "pq_key r" reason co ?tr] h(2) t that by simp
  qed
  have live: "pool_inv mx (goto t (Touching (pq_key r) res') (unlock c ?st1))" for res'
  proof -
    have "goto t (Touching (pq_key r) res') (unlock c ?st1) = goto t (Touching (pq_key r) res')
        (set_cell c (\<lambda>x. x\<lparr> sc_state := Live inst, sc_proc := Some (in_proc inst), sc_lock := None \<rparr>)
          (st\<lparr> pp_alive := pp_alive st, pp_next_proc := pp_next_proc st, pp_trace := ?tr \<rparr>))"
      using h(1) by (intro pool.equality)
        (auto simp: goto_def set_cell_def emit_pool_def unlock_def p cell_proc_same[OF pr(1)])
    then show ?thesis
      using live_cell_inv[OF inv t, of inst "pp_next_proc st" "pp_alive st" "Touching (pq_key r) res'" None res' ?tr]
        s p pr by fastforce
  qed
  show ?thesis
    using ex kill live unfolding exchange_step_def
    by (cases res) (auto simp: s x Let_def split: if_splits)
qed

lemma terminated_inv:
  assumes inv: "pool_inv mx st" and t: "pp_tasks st t = RetireKill k c i reason co"
  shows "pool_inv mx (terminated t k c i reason co st)"
proof -
  have b: "c < length (pp_cells st)" "sc_lock (pp_cells st ! c) = Some t"
    using taskD(1)[OF inv, of k c t] taskD(3)[OF inv, of t c] t by simp_all
  have pr: "sc_proc (pp_cells st ! c) = Some (in_proc i)" using pool_invD(3)[OF inv, of t] t by (simp add: task_ok_def)
  let ?tr = "pp_trace st @ [PoolAudit (PersistentAgentRecycled (fst k) (snd k) (reason_str reason) (in_invocations i))]"
  have "terminated t k c i reason co st = goto t (RetireForget k c co) (stop_cell c
      (st\<lparr> pp_alive := removeAll (in_proc i) (pp_alive st), pp_next_proc := pp_next_proc st, pp_trace := ?tr \<rparr>))"
    by (intro pool.equality) (auto simp: terminated_def goto_def stop_cell_def set_cell_def emit_pool_def)
  then show ?thesis
    using stop_cell_inv[OF inv b(1), of t "RetireForget k c co" "pp_next_proc st" "removeAll (in_proc i) (pp_alive st)" ?tr]
      b(2) t pr by simp
qed

lemma pool_exec_inv:
  assumes inv: "pool_inv mx st" and ex: "pool_exec parse mx l st = Some st'"
  shows "pool_inv mx st'"
proof (cases l)
  case (Request t r)
  then show ?thesis using ex taskD(4)[OF inv, of t] by (auto split: if_splits intro!: goto_keep[OF inv])
next
  case (LockAlloc t)
  have drain: "\<forall>(k, c) \<in> set (map (\<lambda>(k, e). (k, se_slot e)) (filter P (pp_slots st))).
      c < length (pp_cells st) \<and> sc_key (pp_cells st ! c) = k" for P
    using entry_valid[OF inv] by auto
  have n: "pp_alloc st = None" using ex LockAlloc by (auto split: if_splits)
  show ?thesis
  proof (cases "pp_tasks st t")
    case (WantSlot r n)
    then show ?thesis using ex LockAlloc n by (auto intro!: goto_inv[OF inv])
  next
    case (WantDrain only reason)
    then have "st' = goto t (Draining reason (map (\<lambda>(k, e). (k, se_slot e))
        (filter (\<lambda>(k, e). case only of None \<Rightarrow> True | Some a \<Rightarrow> fst k = a) (pp_slots st)))) (st\<lparr> pp_alloc := Some t \<rparr>)"
      using ex LockAlloc n by simp
    then show ?thesis using n drain WantDrain by (simp only:) (rule goto_inv[OF inv]; simp)
  qed (use ex LockAlloc n in auto)
next
  case (Choose t now victim)
  then show ?thesis using ex choose_slot_inv[OF inv] by (auto split: pc.splits)
next
  case (LockCell t)
  show ?thesis
  proof (cases "pp_tasks st t")
    case (WantCell r n c)
    then show ?thesis using ex LockCell take_lock_inv[OF inv, of "pq_key r" c t r n]
      by (auto simp: lock_cell_def split: if_splits)
  next
    case (RetireWant k c reason co)
    then show ?thesis using ex LockCell retire_slot_inv[OF inv RetireWant]
      by (auto simp: lock_cell_def split: if_splits)
  qed (use ex LockCell in auto)
next
  case (Look t)
  then show ?thesis using ex look_inv[OF inv] by (auto split: pc.splits)
next
  case (SpawnInto t q)
  then show ?thesis using ex spawn_into_inv[OF inv] by (auto split: pc.splits)
next
  case (Exchange t q ok)
  then show ?thesis using ex exchange_step_inv[OF inv] by (auto split: pc.splits)
next
  case (Terminated t)
  then show ?thesis using ex terminated_inv[OF inv] by (auto split: pc.splits)
next
  case (Forget t)
  then obtain k c co where f: "pp_tasks st t = RetireForget k c co" "st' = goto t (resume co) (forget_slot k c st)"
    using ex by (auto split: pc.splits)
  have s: "pp_tasks (forget_slot k c st) = pp_tasks st" "pp_cells (forget_slot k c st) = pp_cells st"
    "pp_alloc (forget_slot k c st) = pp_alloc st"
    by (auto simp: forget_slot_def remove_entry_def split: option.split)
  have st: "sc_state (pp_cells st ! c) = Stopped" using taskD(5)[OF inv, of t c] f(1) by simp
  show ?thesis unfolding f(2)
    by (rule goto_keep[OF forget_inv[OF inv st]])
      (use refs_ok[OF inv, of "resume co" t] taskD(4)[OF inv, of t] f(1) s in auto)
next
  case (Touch t now)
  then obtain k res where f: "pp_tasks st t = Touching k res" "st' = goto t (Returned res) (touch_entry k now st)"
    using ex by (auto split: pc.splits)
  have s: "pp_tasks (touch_entry k now st) = pp_tasks st" "pp_alloc (touch_entry k now st) = pp_alloc st"
    by (auto simp: touch_entry_def split: option.split)
  show ?thesis unfolding f(2)
    by (rule goto_keep[OF touch_inv[OF inv]]) (use taskD(4)[OF inv, of t] f(1) s in auto)
next
  case (Return t)
  then obtain res where f: "pp_tasks st t = Returned res" "st' = goto t Resting (emit_pool (PoolReturned t res) st)"
    using ex by (auto split: pc.splits)
  have "pool_inv mx (goto t Resting st)"
    by (rule goto_keep[OF inv]) (use taskD(4)[OF inv, of t] f(1) in auto)
  moreover have "st' = (goto t Resting st)\<lparr> pp_trace := pp_trace st @ [PoolReturned t res] \<rparr>"
    unfolding f(2) by (simp add: goto_def emit_pool_def)
  ultimately show ?thesis by (simp add: pool_inv_trace)
next
  case (Drain t only reason)
  then show ?thesis using ex taskD(4)[OF inv, of t] by (auto split: if_splits intro!: goto_keep[OF inv])
next
  case (DrainNext t)
  then obtain reason rest where d: "pp_tasks st t = Draining reason rest" using ex by (auto split: pc.splits)
  show ?thesis
  proof (cases rest)
    case Nil
    then show ?thesis using ex DrainNext d taskD(4)[OF inv, of t]
      by (auto simp: release_alloc_def intro!: goto_inv[OF inv])
  next
    case (Cons kc rest')
    obtain k c where kc: "kc = (k, c)" by fastforce
    then have "st' = goto t (RetireWant k c reason (BackToDrain reason rest')) st" using ex DrainNext d Cons by simp
    then show ?thesis
      using refs_ok[OF inv, of "RetireWant k c reason (BackToDrain reason rest')" t] taskD(4)[OF inv, of t] d Cons kc
      by (auto intro!: goto_keep[OF inv])
  qed
next
  case Sweep
  then show ?thesis using ex sweep_inv[OF inv] by simp
next
  case (ProcessDies p)
  then have "st' = st\<lparr> pp_alive := removeAll p (pp_alive st) \<rparr>" using ex by simp
  then show ?thesis using pool_inv_alive[OF inv, of "removeAll p (pp_alive st)"] by auto
qed

lemma pool_new_inv: "pool_inv mx pool_new"
  by (simp add: pool_inv_def pool_new_def slots_ok_def mine_def entry_of_def cell_ok_def task_ok_def alive_ok_def)

lemma pool_reaches_inv: "pool_reaches parse mx ls st \<Longrightarrow> pool_inv mx st"
  by (induction rule: pool_reaches.induct) (auto intro: pool_new_inv pool_exec_inv)

end
