(* ===== verification/Pool_Runs.thy ===== *)
theory Pool_Runs
  imports Pool_Invariant
begin

text \<open>
  What the invariant gives over whole runs of the persistent pool: one process per key and the
  ceiling per agent, at most one sending of each request, and no deadlock between the allocation
  mutex, the slots and the retirements.
\<close>

section \<open>Every process has one cell\<close>



definition cell_procs :: "pool \<Rightarrow> nat option list" where
  "cell_procs st = map sc_proc (pp_cells st)"



lemma set_cell_procs: "(\<And>x. sc_proc (g x) = sc_proc x) \<Longrightarrow> cell_procs (set_cell c g st) = cell_procs st"
  by (cases "c < length (pp_cells st)") (auto simp: cell_procs_def set_cell_def map_update intro!: nth_equalityI simp: nth_list_update)

lemma cell_ops_procs [simp]:
  "cell_procs (unlock c st) = cell_procs st" "cell_procs (stop_cell c st) = cell_procs st"
  "cell_procs (set_cell c (\<lambda>x. x\<lparr> sc_state := s \<rparr>) st) = cell_procs st"
  "cell_procs (set_cell c (\<lambda>x. x\<lparr> sc_lock := l \<rparr>) st) = cell_procs st"
  unfolding unlock_def stop_cell_def by (rule set_cell_procs; simp)+

lemma cell_procs_simps [simp]:
  "cell_procs (goto t p st) = cell_procs st" "cell_procs (emit_pool e st) = cell_procs st"
  "cell_procs (release_alloc st) = cell_procs st" "cell_procs (remove_entry k st) = cell_procs st"
  "cell_procs (touch_entry k now st) = cell_procs st" "cell_procs (forget_slot k c st) = cell_procs st"
  "cell_procs (reserve k now st) = cell_procs st @ [None]"
  "cell_procs (start_retiring t k c i reason co st) = cell_procs st"
  "cell_procs (st\<lparr> pp_alive := al \<rparr>) = cell_procs st" "cell_procs (st\<lparr> pp_next_proc := nx \<rparr>) = cell_procs st"
  "cell_procs (st\<lparr> pp_alloc := ac \<rparr>) = cell_procs st"
proof -
  have g: "cell_procs (goto t p st) = cell_procs st" for t p st by (simp add: cell_procs_def goto_def)
  show "cell_procs (start_retiring t k c i reason co st) = cell_procs st" by (simp add: start_retiring_def g)
qed (auto simp: goto_def emit_pool_def release_alloc_def remove_entry_def touch_entry_def forget_slot_def
      reserve_def cell_procs_def split: option.split)

lemma sweep_procs [simp]: "cell_procs (sweep st) = cell_procs st"
  by (auto simp: cell_procs_def sweep_def intro!: nth_equalityI)


lemma retire_slot_procs [simp]: "cell_procs (retire_slot t k c reason co st) = cell_procs st"
  by (auto simp: retire_slot_def split: slot_state.split)











section \<open>One sending per request\<close>

text \<open>What a task's trace says of its current request: how often bytes of it were sent, and how many
  exchanges were tried, since the last result it returned.\<close>

fun sendings :: "nat \<Rightarrow> pool_event list \<Rightarrow> nat \<Rightarrow> nat" where
  "sendings t [] m = m"
| "sendings t (PoolReturned u res # es) m = sendings t es (if u = t then 0 else m)"
| "sendings t (BytesSent u b # es) m = sendings t es (if u = t \<and> b > 0 then m + 1 else m)"
| "sendings t (PoolAudit a # es) m = sendings t es m"

fun exchanges :: "nat \<Rightarrow> pool_event list \<Rightarrow> nat \<Rightarrow> nat" where
  "exchanges t [] m = m"
| "exchanges t (PoolReturned u res # es) m = exchanges t es (if u = t then 0 else m)"
| "exchanges t (BytesSent u b # es) m = exchanges t es (if u = t then m + 1 else m)"
| "exchanges t (PoolAudit a # es) m = exchanges t es m"

lemma sendings_append [simp]: "sendings t (es @ fs) m = sendings t fs (sendings t es m)"
  by (induction t es m rule: sendings.induct) auto

lemma exchanges_append [simp]: "exchanges t (es @ fs) m = exchanges t fs (exchanges t es m)"
  by (induction t es m rule: exchanges.induct) auto

lemma reap_events_quiet [simp]:
  "sendings t (concat (map (reap_event st) xs)) m = m" "exchanges t (concat (map (reap_event st) xs)) m = m"
  by (induction xs) (auto simp: reap_event_def split: slot_state.split)

text \<open>How many exchanges a position has behind it at most, and whether it can still send.\<close>

fun cont_tries :: "cont \<Rightarrow> nat" where
  "cont_tries (BackToChoosing r n) = fst n"
| "cont_tries (BackToDrain reason rest) = 0"
| "cont_tries (NextAttempt r n) = fst n + 1"
| "cont_tries (Finish res) = attempts_max"

fun tries :: "pc \<Rightarrow> nat" where
  "tries (WantSlot r n) = fst n"
| "tries (Choosing r n) = fst n"
| "tries (WantCell r n c) = fst n"
| "tries (Held r n c) = fst n"
| "tries (RetireWant k c reason co) = cont_tries co"
| "tries (RetireKill k c i reason co) = cont_tries co"
| "tries (RetireForget k c co) = cont_tries co"
| "tries (Touching k res) = attempts_max"
| "tries (Returned res) = attempts_max"
| "tries _ = 0"

fun cont_done :: "cont \<Rightarrow> bool" where
  "cont_done (Finish res) = True" | "cont_done _ = False"

fun past_sending :: "pc \<Rightarrow> bool" where
  "past_sending (RetireWant k c reason co) = cont_done co"
| "past_sending (RetireKill k c i reason co) = cont_done co"
| "past_sending (RetireForget k c co) = cont_done co"
| "past_sending (Touching k res) = True"
| "past_sending (Returned res) = True"
| "past_sending _ = False"

fun cont_sends :: "cont \<Rightarrow> bool" where
  "cont_sends (BackToChoosing r n) = True" | "cont_sends _ = False"

text \<open>An attempt is under way: its number is below the limit.\<close>

fun attempting :: "pc \<Rightarrow> bool" where
  "attempting (WantSlot r n) = True"
| "attempting (Choosing r n) = True"
| "attempting (WantCell r n c) = True"
| "attempting (Held r n c) = True"
| "attempting (RetireWant k c reason co) = cont_sends co"
| "attempting (RetireKill k c i reason co) = cont_sends co"
| "attempting (RetireForget k c co) = cont_sends co"
| "attempting _ = False"

definition sends_ok :: "nat \<Rightarrow> pool_event list \<Rightarrow> pc \<Rightarrow> bool" where
  "sends_ok t tr p \<longleftrightarrow> sendings t tr 0 \<le> (if past_sending p then 1 else 0)
     \<and> exchanges t tr 0 \<le> tries p \<and> tries p \<le> attempts_max \<and> (attempting p \<longrightarrow> tries p < attempts_max)"

lemma pool_frame [simp]:
  "pp_tasks (goto t p st) = (pp_tasks st)(t := p)" "pp_trace (goto t p st) = pp_trace st"
  "pp_tasks (set_cell c g st) = pp_tasks st" "pp_trace (set_cell c g st) = pp_trace st"
  "pp_tasks (emit_pool e st) = pp_tasks st" "pp_trace (emit_pool e st) = pp_trace st @ [e]"
  "pp_tasks (release_alloc st) = pp_tasks st" "pp_trace (release_alloc st) = pp_trace st"
  "pp_tasks (remove_entry k st) = pp_tasks st" "pp_trace (remove_entry k st) = pp_trace st"
  "pp_tasks (touch_entry k now st) = pp_tasks st" "pp_trace (touch_entry k now st) = pp_trace st"
  "pp_tasks (forget_slot k c st) = pp_tasks st" "pp_trace (forget_slot k c st) = pp_trace st"
  "pp_tasks (reserve k now st) = pp_tasks st" "pp_trace (reserve k now st) = pp_trace st"
  "pp_tasks (unlock c st) = pp_tasks st" "pp_trace (unlock c st) = pp_trace st"
  "pp_tasks (stop_cell c st) = pp_tasks st" "pp_trace (stop_cell c st) = pp_trace st"
  "pp_tasks (sweep st) = pp_tasks st" "pp_trace (sweep st) = pp_trace st @ concat (map (reap_event st) (pp_slots st))"
  by (auto simp: goto_def set_cell_def emit_pool_def release_alloc_def remove_entry_def touch_entry_def
      forget_slot_def reserve_def unlock_def stop_cell_def sweep_def split: option.split)

lemma next_attempt_sends:
  assumes "sendings t tr 0 = 0" "exchanges t tr 0 \<le> fst n + 1" "fst n < attempts_max"
  shows "sends_ok t tr (next_attempt r n)"
  using assms by (cases n) (auto simp: sends_ok_def attempts_max_def)

lemma resume_sends:
  assumes "sends_ok t tr (RetireForget k c co)"
  shows "sends_ok t tr (resume co)"
proof (cases co)
  case (NextAttempt r n)
  then show ?thesis using assms next_attempt_sends[of t tr n r] by (simp add: sends_ok_def)
qed (use assms in \<open>auto simp: sends_ok_def\<close>)

lemma choose_slot_sends:
  assumes "choose_slot mx t now v r n st = Some st'" "pp_tasks st t = Choosing r n"
    and "\<And>u. sends_ok u (pp_trace st) (pp_tasks st u)"
  shows "sends_ok u (pp_trace st') (pp_tasks st' u)"
proof -
  have "pp_trace st' = pp_trace st"
    "\<exists>p. pp_tasks st' = (pp_tasks st)(t := p) \<and> tries p = fst n \<and> attempting p \<and> \<not> past_sending p"
    using assms(1) by (auto simp: choose_slot_def Let_def split: option.splits if_splits intro!: exI)
  then show ?thesis using assms(3)[of u] assms(3)[of t] assms(2) by (cases "u = t") (auto simp: sends_ok_def)
qed

lemma exchange_step_sends:
  assumes "exchange_step parse t q ok r n c st = Some st'" "pp_tasks st t = Held r n c"
    and ih: "\<And>u. sends_ok u (pp_trace st) (pp_tasks st u)"
  shows "sends_ok u (pp_trace st') (pp_tasks st' u)"
proof -
  obtain i where i: "sc_state (pp_cells st ! c) = Live i"
    using assms(1) by (auto simp: exchange_step_def split: slot_state.splits)
  obtain res inst where x: "exchange parse q i = (res, inst)" by fastforce
  have tr: "pp_trace st' = pp_trace st @ [BytesSent t (bytes_sent q)]"
    using assms(1) by (auto simp: exchange_step_def i x Let_def start_retiring_def split: exchange_result.splits if_splits)
  have own: "sendings t (pp_trace st) 0 = 0" "exchanges t (pp_trace st) 0 \<le> fst n" "fst n < attempts_max"
    using ih[of t] assms(2) by (auto simp: sends_ok_def)
  have p: "\<exists>p. pp_tasks st' = (pp_tasks st)(t := p) \<and> \<not> attempting p \<and> tries p \<le> attempts_max \<and> fst n + 1 \<le> tries p
      \<and> (past_sending p \<or> bytes_sent q = 0)"
    using assms(1) own(3) dead_before_request_sent_nothing[of parse q i]
    by (auto simp: exchange_step_def i x Let_def start_retiring_def split: exchange_result.splits if_splits intro!: exI)
  show ?thesis
  proof (cases "u = t")
    case True
    then show ?thesis using p tr own by (auto simp: sends_ok_def)
  next
    case False
    then show ?thesis using p tr ih[of u] by (auto simp: sends_ok_def)
  qed
qed

lemma pool_exec_sends:
  assumes ex: "pool_exec parse mx l st = Some st'" and ih: "\<And>u. sends_ok u (pp_trace st) (pp_tasks st u)"
  shows "sends_ok u (pp_trace st') (pp_tasks st' u)"
proof (cases l)
  case (Choose t now v)
  then obtain r n where "choose_slot mx t now v r n st = Some st'" "pp_tasks st t = Choosing r n"
    using ex by (auto split: pc.splits)
  then show ?thesis using choose_slot_sends[OF _ _ ih] by blast
next
  case (Exchange t q ok)
  then obtain r n c where "exchange_step parse t q ok r n c st = Some st'" "pp_tasks st t = Held r n c"
    using ex by (auto split: pc.splits)
  then show ?thesis using exchange_step_sends[OF _ _ ih] by blast
next
  case (Look t)
  then obtain r n c where h: "look t r n c st = Some st'" "pp_tasks st t = Held r n c"
    using ex by (auto split: pc.splits)
  then have "st' = goto t (next_attempt r n) (unlock c st)" by (auto simp: look_def split: slot_state.splits)
  then show ?thesis using ih[of u] ih[of t] h(2) next_attempt_sends[of t "pp_trace st" n r]
    by (cases "u = t") (auto simp: sends_ok_def)
next
  case (Forget t)
  then obtain k c co where h: "st' = goto t (resume co) (forget_slot k c st)" "pp_tasks st t = RetireForget k c co"
    using ex by (auto split: pc.splits)
  then show ?thesis using ih[of u] ih[of t] resume_sends[of t "pp_trace st" k c co] by auto
next
  case (SpawnInto t q)
  then obtain r n c where h: "spawn_into parse t q r n c st = Some st'" "pp_tasks st t = Held r n c"
    using ex by (auto split: pc.splits)
  then show ?thesis using ih[of u] ih[of t]
    by (cases "u = t") (auto simp: spawn_into_def sends_ok_def attempts_max_def split: slot_state.splits sum.splits)
next
  case (LockCell t)
  show ?thesis
  proof (cases "pp_tasks st t")
    case (WantCell r n c)
    then have "st' = goto t (Held r n c) (set_cell c (\<lambda>x. x\<lparr> sc_lock := Some t \<rparr>) st)"
      using ex LockCell by (auto simp: lock_cell_def split: if_splits)
    then show ?thesis using ih[of u] WantCell by (auto simp: sends_ok_def)
  next
    case (RetireWant k c reason co)
    have "pp_trace (retire_slot t k c reason co x) = pp_trace x"
      "\<exists>p. pp_tasks (retire_slot t k c reason co x) = (pp_tasks x)(t := p) \<and> tries p = cont_tries co
        \<and> past_sending p = cont_done co \<and> attempting p = cont_sends co" for x
      by (auto simp: retire_slot_def start_retiring_def split: slot_state.split intro!: exI)
    moreover have "st' = retire_slot t k c reason co (set_cell c (\<lambda>x. x\<lparr> sc_lock := Some t \<rparr>) st)"
      using ex LockCell RetireWant by (auto simp: lock_cell_def split: if_splits)
    ultimately obtain p where "pp_trace st' = pp_trace st" "pp_tasks st' = (pp_tasks st)(t := p)"
      "tries p = cont_tries co" "past_sending p = cont_done co" "attempting p = cont_sends co" by (metis pool_frame(3,4))
    then show ?thesis using ih[of u] RetireWant by (auto simp: sends_ok_def)
  qed (use ex LockCell in auto)
next
  case (Terminated t)
  then show ?thesis using ex ih[of u] ih[of t]
    by (cases "u = t") (auto simp: terminated_def sends_ok_def split: pc.splits)
next
  case (Return t)
  then show ?thesis using ex ih[of u] by (cases "u = t") (auto simp: sends_ok_def attempts_max_def split: pc.splits)
qed (use ex ih[of u] in \<open>auto simp: sends_ok_def attempts_max_def split: if_splits pc.splits list.splits prod.splits\<close>)

lemma pool_reaches_sends: "pool_reaches parse mx ls st \<Longrightarrow> sends_ok u (pp_trace st) (pp_tasks st u)"
proof (induction arbitrary: u rule: pool_reaches.induct)
  case pool_init
  then show ?case by (simp add: sends_ok_def pool_new_def attempts_max_def)
next
  case (pool_next ls st l st')
  then show ?case using pool_exec_sends by blast
qed

text \<open>C11. within one request the pool puts bytes of the request frame into an agent's pipe in at most
  one exchange, and tries at most two: a request is retried only while nothing of it was sent.\<close>

theorem pool_at_most_once:
  assumes "pool_reaches parse mx ls st"
  shows "sendings t (pp_trace st) 0 \<le> 1 \<and> exchanges t (pp_trace st) 0 \<le> 2"
proof -
  have "sends_ok t (pp_trace st) (pp_tasks st t)" by (rule pool_reaches_sends[OF assms])
  then show ?thesis by (auto simp: sends_ok_def attempts_max_def split: if_splits)
qed

section \<open>No deadlock\<close>

text \<open>The steps of the tasks themselves: what arrives from outside and what dies do not count.\<close>

fun own_step :: "pool_label \<Rightarrow> bool" where
  "own_step (Request t r) = False"
| "own_step (Drain t only reason) = False"
| "own_step Sweep = False"
| "own_step (ProcessDies p) = False"
| "own_step l = True"

definition can_move :: "(rstr \<Rightarrow> json option) \<Rightarrow> (rstr \<Rightarrow> nat) \<Rightarrow> pool \<Rightarrow> bool" where
  "can_move parse mx st \<longleftrightarrow> (\<exists>l. own_step l \<and> pool_exec parse mx l st \<noteq> None)"

lemma can_moveI: "own_step l \<Longrightarrow> pool_exec parse mx l st \<noteq> None \<Longrightarrow> can_move parse mx st"
  by (auto simp: can_move_def)

text \<open>Whoever holds a slot can go on: a request looks, spawns or exchanges, a retirement is waiting
  for the supervisor only.\<close>

lemma holder_moves:
  assumes inv: "pool_inv mx st" and h: "holds (pp_tasks st t) = Some c"
  shows "can_move parse mx st"
proof (cases "pp_tasks st t")
  case (Held r n d)
  show ?thesis
  proof (cases "sc_state (pp_cells st ! d)")
    case Starting
    show ?thesis
      by (rule can_moveI[of "SpawnInto t q"], simp)
        (use Held Starting in \<open>simp add: spawn_into_def split: sum.split\<close>)
  next
    case (Live i)
    show ?thesis
      by (rule can_moveI[of "Exchange t q True"], simp)
        (use Held Live in \<open>simp add: exchange_step_def Let_def split: prod.split\<close>)
  qed (use Held in \<open>auto intro!: can_moveI[of "Look t"] simp: look_def\<close>)
next
  case (RetireKill k d i reason co)
  then show ?thesis by (auto intro!: can_moveI[of "Terminated t"])
qed (use h in auto)

lemma lock_moves:
  assumes inv: "pool_inv mx st"
    and t: "pp_tasks st t = WantCell r n c \<or> pp_tasks st t = RetireWant k c reason co"
  shows "can_move parse mx st"
proof (cases "sc_lock (pp_cells st ! c)")
  case None
  then have "pool_exec parse mx (LockCell t) st \<noteq> None" using t by (auto simp: lock_cell_def)
  then show ?thesis using can_moveI[of "LockCell t"] by simp
next
  case (Some u)
  have "c < length (pp_cells st)" using t taskD(1)[OF inv, of "pq_key r" c t] taskD(1)[OF inv, of k c t] by fastforce
  then have "holds (pp_tasks st u) = Some c" using pool_invD(2)[OF inv] Some by (auto simp: cell_ok_def)
  then show ?thesis by (rule holder_moves[OF inv])
qed

lemma least_used_exists:
  assumes "mine a st \<noteq> []"
  shows "\<exists>v. least_used a st v"
proof -
  let ?ts = "(\<lambda>x. se_last_used (snd x)) ` set (mine a st)"
  have "Min ?ts \<in> ?ts" using assms by (intro Min_in) auto
  then obtain x where x: "x \<in> set (mine a st)" "se_last_used (snd x) = Min ?ts" by auto
  have "se_last_used (snd x) \<le> se_last_used (snd y)" if "y \<in> set (mine a st)" for y
    unfolding x(2) using that by (intro Min_le) auto
  then show ?thesis using x(1) unfolding least_used_def by (intro exI[of _ "fst x"] exI[of _ "snd x"]) force
qed

lemma choose_moves:
  assumes inv: "pool_inv mx st" and t: "pp_tasks st t = Choosing r n" and mx: "0 < mx (fst (pq_key r))"
  shows "can_move parse mx st"
proof -
  let ?k = "pq_key r"
  define st1 where "st1 = (case entry_of st ?k of
      Some e \<Rightarrow> if is_stopped_now st (se_slot e) then remove_entry ?k st else st | None \<Rightarrow> st)"
  have d: "distinct (map fst (pp_slots st1))"
    using slots_okD(1)[OF pool_invD(1)[OF inv]]
    by (auto simp: st1_def remove_entry_def distinct_delete split: option.split)
  show ?thesis
  proof (cases "entry_of st1 ?k = None \<and> \<not> length (mine (fst ?k) st1) < mx (fst ?k)")
    case True
    then have "mine (fst ?k) st1 \<noteq> []" using mx by auto
    then obtain v where v: "least_used (fst ?k) st1 v" using least_used_exists by blast
    then obtain e where "(v, e) \<in> set (pp_slots st1)" by (auto simp: least_used_def mine_def)
    then have "entry_of st1 v = Some e" using d by (simp add: entry_of_def)
    then have "pool_exec parse mx (Choose t 0 v) st \<noteq> None" using t True v
      by (simp add: choose_slot_def Let_def st1_def[symmetric])
    then show ?thesis using can_moveI[of "Choose t 0 v"] by simp
  next
    case False
    then have "pool_exec parse mx (Choose t 0 v) st \<noteq> None" for v using t
      by (cases "entry_of st1 ?k") (simp_all add: choose_slot_def Let_def st1_def[symmetric])
    then show ?thesis using can_moveI[of "Choose t 0 undefined"] by simp
  qed
qed

text \<open>C14. the allocation mutex is held across a whole retirement, a slot's lock across a whole request,
  and still nobody waits for ever: in every reachable state in which some task is under way, a step
  of some task is enabled, provided no ceiling is zero.\<close>

theorem pool_no_deadlock:
  assumes "pool_reaches parse mx ls st" "\<forall>a. 0 < mx a" "pp_tasks st t \<noteq> Resting"
  shows "\<exists>l st'. own_step l \<and> pool_exec parse mx l st = Some st'"
proof -
  note inv = pool_reaches_inv[OF assms(1)]
  have alloc: "can_move parse mx st" if al: "pp_alloc st = Some u" for u
  proof -
    have h: "has_alloc (pp_tasks st u)" using taskD(4)[OF inv, of u] al by simp
    show ?thesis
    proof (cases "pp_tasks st u")
      case (Choosing r n)
      then show ?thesis using choose_moves[OF inv] assms(2) by blast
    next
      case (Draining reason rest)
      then have "pool_exec parse mx (DrainNext u) st \<noteq> None" by (cases rest) auto
      then show ?thesis using can_moveI[of "DrainNext u"] by simp
    next
      case (RetireWant k c reason co)
      then show ?thesis using lock_moves[OF inv] by blast
    next
      case (RetireKill k c i reason co)
      then show ?thesis using holder_moves[OF inv, of u c] by simp
    next
      case (RetireForget k c co)
      then show ?thesis using can_moveI[of "Forget u" parse mx st] by simp
    qed (use h in auto)
  qed
  have "can_move parse mx st"
  proof (cases "pp_tasks st t")
    case (WantSlot r n)
    then show ?thesis using alloc can_moveI[of "LockAlloc t" parse mx st] by (cases "pp_alloc st") auto
  next
    case (WantDrain only reason)
    then show ?thesis using alloc can_moveI[of "LockAlloc t" parse mx st] by (cases "pp_alloc st") auto
  next
    case (Choosing r n)
    then show ?thesis using alloc[of t] taskD(4)[OF inv, of t] by simp
  next
    case (Draining reason rest)
    then show ?thesis using alloc[of t] taskD(4)[OF inv, of t] by simp
  next
    case (WantCell r n c)
    then show ?thesis using lock_moves[OF inv] by blast
  next
    case (RetireWant k c reason co)
    then show ?thesis using lock_moves[OF inv] by blast
  next
    case (Held r n c)
    then show ?thesis using holder_moves[OF inv, of t c] by simp
  next
    case (RetireKill k c i reason co)
    then show ?thesis using holder_moves[OF inv, of t c] by simp
  next
    case (RetireForget k c co)
    then show ?thesis using can_moveI[of "Forget t" parse mx st] by simp
  next
    case (Touching k res)
    then show ?thesis using can_moveI[of "Touch t 0" parse mx st] by simp
  next
    case (Returned res)
    then show ?thesis using can_moveI[of "Return t" parse mx st] by simp
  qed (use assms(3) in simp)
  then show ?thesis by (auto simp: can_move_def)
qed

section \<open>A run of the pool\<close>

fun pool_run :: "(rstr \<Rightarrow> json option) \<Rightarrow> (rstr \<Rightarrow> nat) \<Rightarrow> pool_label list \<Rightarrow> pool \<Rightarrow> pool option" where
  "pool_run parse mx [] st = Some st"
| "pool_run parse mx (l # ls) st = (case pool_exec parse mx l st of None \<Rightarrow> None | Some st' \<Rightarrow> pool_run parse mx ls st')"

lemma pool_run_reaches:
  "pool_reaches parse mx past st \<Longrightarrow> pool_run parse mx ls st = Some st' \<Longrightarrow> pool_reaches parse mx (past @ ls) st'"
proof (induction ls arbitrary: past st)
  case (Cons l ls)
  then obtain st1 where l: "pool_exec parse mx l st = Some st1" "pool_run parse mx ls st1 = Some st'"
    by (auto split: option.splits)
  from Cons.IH[OF pool_next[OF Cons.prems(1) l(1)] l(2)] show ?case by simp
qed simp

definition ready_parse :: "rstr \<Rightarrow> json option" where
  "ready_parse line = Some (JObject [(lit ''kind'', JString (lit ''ready''))])"

definition good_spawn :: spawn_outside where
  "good_spawn = \<lparr> su_tempdir_ok = True, su_spawn_error = None, su_pid = 77, su_hello = Inr 9,
     su_writes = [Wrote 4, Wrote 6], su_flushed = None, su_events = [GotLine [123, 125]] \<rparr>"

definition gone_exchange :: exchange_outside where
  "gone_exchange = \<lparr> xo_exited = Some [49], xo_retimed = True, xo_encoded = Inr 3, xo_writes = [], xo_flushed = None,
     xo_reaper_owns_write = False, xo_deadline = False, xo_events = [], xo_reaper_owns = False, xo_stderr = [],
     xo_elapsed = 0 \<rparr>"

definition late_exchange :: exchange_outside where
  "late_exchange = gone_exchange\<lparr> xo_exited := None, xo_writes := [Wrote 4], xo_deadline := True \<rparr>"

definition pool_sample :: pool_request where
  "pool_sample = \<lparr> pq_spec = plain_spec, pq_key = ([112], [100]) \<rparr>"

definition pool_start :: "pool_label list" where
  "pool_start = [Request 0 pool_sample, LockAlloc 0, Choose 0 5 ([112], [100]), LockCell 0, SpawnInto 0 good_spawn]"

definition pool_retry :: "pool_label list" where
  "pool_retry = pool_start @ [Exchange 0 gone_exchange True, Terminated 0, Forget 0, LockAlloc 0,
     Choose 0 8 ([112], [100]), LockCell 0, SpawnInto 0 good_spawn, Exchange 0 late_exchange True]"

definition sampled :: "pool_label list \<Rightarrow> pool" where
  "sampled ls = the (pool_run ready_parse (\<lambda>_. 1) ls pool_new)"

lemma good_spawn_instance: "spawn_instance ready_parse good_spawn spec p
    = Inr \<lparr> in_proc = p, in_pid = 77, in_stderr = ring_new, in_invocations = 0, in_seq = 0 \<rparr>"
proof -
  have "parse_inbound ready_parse [123, 125] = Some \<lparr> if_v = 0, if_kind = Some (lit ''ready''), if_id = None,
      if_ok = True, if_output = None, if_error = None, if_exit_code = None \<rparr>" by code_simp
  then show ?thesis
    by (simp add: spawn_instance_def good_spawn_def handshake_def write_frame_def write_loop.simps is_ready_def)
qed

lemmas pool_eval = sampled_def pool_start_def pool_retry_def pool_sample_def pool_new_def choose_slot_def Let_def entry_of_def mine_def
  lock_cell_def spawn_into_def exchange_step_def good_spawn_instance goto_def set_cell_def emit_pool_def release_alloc_def
  reserve_def remove_entry_def touch_entry_def forget_slot_def start_retiring_def terminated_def stop_cell_def
  unlock_def is_stopped_now_def exchange_def gone_exchange_def late_exchange_def bytes_sent_def write_frame_def
  write_loop.simps accepted_bytes.simps attempts_max_def

lemma sampled_reaches:
  assumes "pool_run ready_parse (\<lambda>_. 1) ls pool_new \<noteq> None"
  shows "pool_reaches ready_parse (\<lambda>_. 1) ls (sampled ls)"
  using pool_run_reaches[OF pool_init, of ready_parse "\<lambda>_. 1" ls "sampled ls"] assms by (auto simp: sampled_def)


theorem pool_at_most_once_witness:
  "sendings 0 (pp_trace (sampled pool_retry)) 0 = 1 \<and> exchanges 0 (pp_trace (sampled pool_retry)) 0 = 2
   \<and> sendings 1 (pp_trace (sampled pool_retry)) 0 \<le> 1"
proof -
  have r: "pool_run ready_parse (\<lambda>_. 1) pool_retry pool_new \<noteq> None" by (simp add: pool_eval)
  have a: "sendings 0 (pp_trace (sampled pool_retry)) 0 = 1" "exchanges 0 (pp_trace (sampled pool_retry)) 0 = 2"
    by (simp_all add: pool_eval)
  from pool_at_most_once[OF sampled_reaches[OF r], of 1] a show ?thesis by blast
qed

theorem pool_no_deadlock_witness:
  "pp_tasks (sampled pool_retry) 0 \<noteq> Resting
   \<and> (\<exists>l st'. own_step l \<and> pool_exec ready_parse (\<lambda>_. 1) l (sampled pool_retry) = Some st')"
proof -
  have r: "pool_run ready_parse (\<lambda>_. 1) pool_retry pool_new \<noteq> None" by (simp add: pool_eval)
  have a: "pp_tasks (sampled pool_retry) 0 \<noteq> Resting" by (simp add: pool_eval)
  from pool_no_deadlock[OF sampled_reaches[OF r] _ a] a show ?thesis by simp
qed

end
