(* ===== verification/Orphan.thy ===== *)
theory Orphan
  imports Audit_Event "HOL-Library.Multiset"
begin

text \<open>
  What a new daemon does about processes a previous one left behind
  (\<open>dotagent-supervisor/src/orphan.rs\<close>, and \<open>reap_boot_orphans\<close> with its peer guard in
  \<open>dotagent/src/commands/daemon.rs\<close>).  The operating system is an argument: what \<open>ps\<close> says of a pid
  and what \<open>killpg\<close> answers at each step.  Every contact with it is recorded in a trace, so that the
  safety of the signals is a statement about the trace.
\<close>

section \<open>Records and what the system says\<close>

datatype process_kind = AgentKind | PersistentKind | PluginInfo | PluginValidate | PreflightKind | SinkKind
  | NotifyKind | SkillKind

fun show_kind :: "process_kind \<Rightarrow> rstr" where
  "show_kind AgentKind = lit ''agent''"
| "show_kind PersistentKind = lit ''persistent''"
| "show_kind PluginInfo = lit ''plugin_info''"
| "show_kind PluginValidate = lit ''plugin_validate''"
| "show_kind PreflightKind = lit ''preflight''"
| "show_kind SinkKind = lit ''sink''"
| "show_kind NotifyKind = lit ''notify''"
| "show_kind SkillKind = lit ''skill''"

record process_owner =
  ow_agent :: rstr
  ow_schedule :: "rstr option"
  ow_hook_event :: "rstr option"
  ow_plugin :: "rstr option"

record process_info =
  pi_id :: nat
  pi_pid :: nat
  pi_kind :: process_kind
  pi_owner :: process_owner
  pi_label :: rstr
  pi_started_at :: instant
  pi_deadline_seconds :: nat
  pi_age_seconds :: nat
  pi_deadline_pct :: nat
  pi_pgid :: "int option"
  pi_command :: rstr

record process_facts =
  pf_pgid :: int
  pf_started_at :: instant
  pf_command :: rstr

datatype probed = Facts process_facts | Unreadable | NoSuchProcess

datatype skip_reason = Unusable | SkipGone | SkipUnreadable | NotGroupLeader | StartTimeMismatch
  | CommandMismatch | Ambiguous

fun show_skip :: "skip_reason \<Rightarrow> rstr" where
  "show_skip Unusable = lit ''unusable_record''"
| "show_skip SkipGone = lit ''already_gone''"
| "show_skip SkipUnreadable = lit ''unreadable_process''"
| "show_skip NotGroupLeader = lit ''not_group_leader''"
| "show_skip StartTimeMismatch = lit ''start_time_mismatch''"
| "show_skip CommandMismatch = lit ''command_mismatch''"
| "show_skip Ambiguous = lit ''ambiguous_record''"

datatype verdict = Reap int | Skip skip_reason

section \<open>Identity\<close>

text \<open>\<open>u32 as i32\<close>.\<close>

definition as_i32 :: "nat \<Rightarrow> int" where
  "as_i32 n = (let i = int n mod 2 ^ 32 in if i < 2 ^ 31 then i else i - 2 ^ 32)"

definition usable :: "nat \<Rightarrow> process_info \<Rightarrow> bool" where
  "usable self_pid r \<longleftrightarrow> pi_pid r > 1 \<and> pi_pid r \<noteq> self_pid"

definition basename :: "rstr \<Rightarrow> rstr" where
  "basename path = last (split_on 47 path)"

definition looks_like_path :: "rstr \<Rightarrow> bool" where
  "looks_like_path token =
     (if starts_with [45] token then False
      else if 47 \<in> set token then True
      else case rsplit_once 46 token of
        None \<Rightarrow> False
      | Some (stem, ext) \<Rightarrow> stem \<noteq> [] \<and> ext \<noteq> [] \<and> list_all is_alnum_c ext)"

definition command_matches :: "rstr \<Rightarrow> rstr \<Rightarrow> bool" where
  "command_matches recorded observed = (case (split_ws recorded, split_ws observed) of
     (rec_prog # rec_args, obs_prog # obs_args) \<Rightarrow>
       (if \<not> (basename rec_prog = basename obs_prog
              \<or> list_ex (\<lambda>t. basename t = basename obs_prog) (rec_prog # rec_args))
        then False
        else case find looks_like_path (rev (rec_prog # rec_args)) of
          Some anchor \<Rightarrow> list_ex (\<lambda>t. t = anchor) (obs_prog # obs_args)
        | None \<Rightarrow> rec_args = obs_args)
   | _ \<Rightarrow> False)"

definition default_start_tolerance :: int where "default_start_tolerance = 5 * second"
definition start_forward_tolerance :: int where "start_forward_tolerance = 1 * second"

definition classify :: "process_info \<Rightarrow> probed \<Rightarrow> nat \<Rightarrow> int \<Rightarrow> verdict" where
  "classify r p self_pid tolerance =
     (if \<not> usable self_pid r then Skip Unusable
      else case pi_pgid r of
        None \<Rightarrow> Skip Ambiguous
      | Some pgid \<Rightarrow>
          if trim (pi_command r) = [] then Skip Ambiguous
          else if pgid \<noteq> as_i32 (pi_pid r) then Skip Ambiguous
          else case p of
            Unreadable \<Rightarrow> Skip SkipUnreadable
          | NoSuchProcess \<Rightarrow> Skip SkipGone
          | Facts f \<Rightarrow>
              if pf_pgid f \<noteq> pgid then Skip NotGroupLeader
              else let behind = pi_started_at r - pf_started_at f
                   in if behind < - start_forward_tolerance \<or> behind > tolerance then Skip StartTimeMismatch
                      else if \<not> command_matches (pi_command r) (pf_command f) then Skip CommandMismatch
                      else Reap pgid)"

text \<open>Parsing a line of \<open>ps\<close>: \<open>stamp\<close> is chrono on the four date fields, resolved in the local zone;
  an ambiguous or impossible time is \<open>None\<close>.\<close>

definition parse_i32 :: "rstr \<Rightarrow> int option" where
  "parse_i32 s = (case parse_i64 s of
     Some i \<Rightarrow> if - (2 ^ 31) \<le> i \<and> i < 2 ^ 31 then Some i else None | None \<Rightarrow> None)"

definition parse_ps_line :: "(rstr \<Rightarrow> instant option) \<Rightarrow> rstr \<Rightarrow> process_facts option" where
  "parse_ps_line stamp line = (case split_ws line of
     p # weekday # month # day # time # year # cmd \<Rightarrow>
       (case (parse_i32 p, stamp (join [32] [month, day, time, year])) of
          (Some pgid, Some at) \<Rightarrow> Some \<lparr> pf_pgid = pgid, pf_started_at = at, pf_command = join [32] cmd \<rparr>
        | _ \<Rightarrow> None)
   | _ \<Rightarrow> None)"

text \<open>\<open>probe_process\<close>: \<open>ps\<close> could not be run, or its exit status and output.\<close>

definition probe_process :: "(rstr \<Rightarrow> instant option) \<Rightarrow> (bool \<times> rstr) option \<Rightarrow> probed" where
  "probe_process stamp out = (case out of
     None \<Rightarrow> Unreadable
   | Some (success, text) \<Rightarrow>
       if \<not> success then NoSuchProcess
       else case str_lines text of
         [] \<Rightarrow> Unreadable
       | l # ls \<Rightarrow> (case parse_ps_line stamp l of Some f \<Rightarrow> Facts f | None \<Rightarrow> Unreadable))"

section \<open>The sweep\<close>

definition sigterm :: int where "sigterm = 15"
definition sigkill :: int where "sigkill = 9"
definition kill_confirm_attempts :: nat where "kill_confirm_attempts = 20"

text \<open>What the sweep did to the system: it asked about a pid, it sent a signal to a group and was told
  an error or none, it waited for the grace period.\<close>

datatype os_event = Asked nat probed | Sent int int "rstr option" | Grace

text \<open>The system's answers, by the number of events so far: any system, changing in any way.\<close>

record system =
  sy_probe :: "nat \<Rightarrow> nat \<Rightarrow> probed"
  sy_kill :: "nat \<Rightarrow> int \<Rightarrow> int \<Rightarrow> rstr option"

record orphan_report =
  rp_reaped :: "(process_info \<times> int) list"
  rp_skipped :: "(process_info \<times> skip_reason) list"
  rp_survived :: "(process_info \<times> rstr) list"
  rp_snapshot_error :: "rstr option"

definition empty_report :: orphan_report where
  "empty_report = \<lparr> rp_reaped = [], rp_skipped = [], rp_survived = [], rp_snapshot_error = None \<rparr>"

definition ask :: "system \<Rightarrow> nat \<Rightarrow> os_event list \<Rightarrow> probed \<times> os_event list" where
  "ask q pid tr = (let a = sy_probe q (length tr) pid in (a, tr @ [Asked pid a]))"

definition send :: "system \<Rightarrow> int \<Rightarrow> int \<Rightarrow> os_event list \<Rightarrow> rstr option \<times> os_event list" where
  "send q pgid sg tr = (let a = sy_kill q (length tr) pgid sg in (a, tr @ [Sent pgid sg a]))"

definition probe_record :: "system \<Rightarrow> nat \<Rightarrow> process_info \<Rightarrow> os_event list \<Rightarrow> probed \<times> os_event list" where
  "probe_record q self_pid r tr = (if usable self_pid r then ask q (pi_pid r) tr else (NoSuchProcess, tr))"

fun confirm_gone :: "system \<Rightarrow> nat \<Rightarrow> nat \<Rightarrow> os_event list \<Rightarrow> bool \<times> os_event list" where
  "confirm_gone q 0 pid tr = (False, tr)"
| "confirm_gone q (Suc n) pid tr = (case ask q pid tr of (a, tr1) \<Rightarrow>
     if a = NoSuchProcess then (True, tr1) else confirm_gone q n pid tr1)"

definition survive :: "process_info \<Rightarrow> rstr \<Rightarrow> orphan_report \<Rightarrow> orphan_report" where
  "survive r why rep = rep\<lparr> rp_survived := rp_survived rep @ [(r, why)] \<rparr>"

definition escalate :: "system \<Rightarrow> nat \<Rightarrow> int \<Rightarrow> process_info \<times> int \<Rightarrow> orphan_report \<times> os_event list
    \<Rightarrow> orphan_report \<times> os_event list" where
  "escalate q self_pid tol v s = (case (v, s) of ((r, pgid), (rep, tr)) \<Rightarrow>
     case probe_record q self_pid r tr of (a, tr1) \<Rightarrow>
       (case classify r a self_pid tol of
          Skip SkipGone \<Rightarrow> (rep\<lparr> rp_reaped := rp_reaped rep @ [(r, pgid)] \<rparr>, tr1)
        | Reap _ \<Rightarrow>
            (case send q pgid sigkill tr1 of
               (None, tr2) \<Rightarrow>
                 (case confirm_gone q kill_confirm_attempts (pi_pid r) tr2 of (gone, tr3) \<Rightarrow>
                    if gone then (rep\<lparr> rp_reaped := rp_reaped rep @ [(r, pgid)] \<rparr>, tr3)
                    else (survive r (lit ''still alive after SIGKILL'') rep, tr3))
             | (Some e, tr2) \<Rightarrow> (survive r (lit ''SIGKILL failed: '' @ e) rep, tr2))
        | Skip why \<Rightarrow> (survive r (lit ''identity changed during grace: '' @ show_skip why) rep, tr1)))"

text \<open>The first pass: one question per record, in their order.\<close>

fun sort_out :: "system \<Rightarrow> nat \<Rightarrow> int \<Rightarrow> process_info list \<Rightarrow> os_event list
    \<Rightarrow> (process_info \<times> int) list \<times> (process_info \<times> skip_reason) list \<times> os_event list" where
  "sort_out q self_pid tol [] tr = ([], [], tr)"
| "sort_out q self_pid tol (r # rs) tr = (case probe_record q self_pid r tr of (a, tr1) \<Rightarrow>
     case sort_out q self_pid tol rs tr1 of (victims, skipped, tr2) \<Rightarrow>
       (case classify r a self_pid tol of
          Reap pgid \<Rightarrow> ((r, pgid) # victims, skipped, tr2)
        | Skip why \<Rightarrow> (victims, (r, why) # skipped, tr2)))"

text \<open>\<open>SIGTERM\<close> to each confirmed group.\<close>

fun term_all :: "system \<Rightarrow> (process_info \<times> int) list \<Rightarrow> orphan_report \<times> os_event list
    \<Rightarrow> (process_info \<times> int) list \<times> orphan_report \<times> os_event list" where
  "term_all q [] (rep, tr) = ([], rep, tr)"
| "term_all q ((r, pgid) # vs) (rep, tr) = (case send q pgid sigterm tr of
     (None, tr1) \<Rightarrow> (case term_all q vs (rep, tr1) of (signalled, rep2, tr2) \<Rightarrow> ((r, pgid) # signalled, rep2, tr2))
   | (Some e, tr1) \<Rightarrow> term_all q vs (survive r (lit ''SIGTERM failed: '' @ e) rep, tr1))"

definition reap :: "system \<Rightarrow> nat \<Rightarrow> int \<Rightarrow> process_info list \<Rightarrow> os_event list \<Rightarrow> orphan_report \<times> os_event list" where
  "reap q self_pid tol records tr0 = (case sort_out q self_pid tol records tr0 of (victims, skipped, tr1) \<Rightarrow>
     let rep = empty_report\<lparr> rp_skipped := skipped \<rparr>
     in if victims = [] then (rep, tr1)
        else case term_all q victims (rep, tr1) of (signalled, rep2, tr2) \<Rightarrow>
          if signalled = [] then (rep2, tr2)
          else fold (escalate q self_pid tol) signalled (rep2, tr2 @ [Grace]))"

text \<open>\<open>reap_snapshot_file\<close>: \<open>read\<close> is the read of the file, \<open>Inl None\<close> when it does not exist; \<open>decode\<close>
  is serde.\<close>

definition reap_snapshot_file :: "system \<Rightarrow> nat \<Rightarrow> int \<Rightarrow> (rstr option + rstr) \<Rightarrow> (rstr \<Rightarrow> rstr + process_info list)
    \<Rightarrow> os_event list \<Rightarrow> orphan_report \<times> os_event list" where
  "reap_snapshot_file q self_pid tol read decode tr = (case read of
     Inl None \<Rightarrow> (empty_report, tr)
   | Inl (Some e) \<Rightarrow> (empty_report\<lparr> rp_snapshot_error := Some e \<rparr>, tr)
   | Inr raw \<Rightarrow> (case decode raw of
       Inl e \<Rightarrow> (empty_report\<lparr> rp_snapshot_error := Some e \<rparr>, tr)
     | Inr records \<Rightarrow> reap q self_pid tol records tr))"

section \<open>Only proven processes are signalled\<close>

text \<open>The three axes on which a description proves that a pid still is the recorded process.\<close>

definition proven :: "nat \<Rightarrow> int \<Rightarrow> process_info \<Rightarrow> process_facts \<Rightarrow> int \<Rightarrow> bool" where
  "proven self_pid tol r f pgid \<longleftrightarrow> pi_pid r > 1 \<and> pi_pid r \<noteq> self_pid
     \<and> pi_pgid r = Some pgid \<and> pgid = as_i32 (pi_pid r) \<and> pf_pgid f = pgid
     \<and> - start_forward_tolerance \<le> pi_started_at r - pf_started_at f
     \<and> pi_started_at r - pf_started_at f \<le> tol
     \<and> trim (pi_command r) \<noteq> [] \<and> command_matches (pi_command r) (pf_command f)"

lemma classify_reap: "classify r a self_pid tol = Reap pgid \<longleftrightarrow> (\<exists>f. a = Facts f \<and> proven self_pid tol r f pgid)"
  by (cases a) (auto simp: classify_def usable_def proven_def Let_def split: option.split)

definition justified :: "process_info list \<Rightarrow> nat \<Rightarrow> int \<Rightarrow> os_event list \<Rightarrow> int \<Rightarrow> int \<Rightarrow> bool" where
  "justified records self_pid tol pre pgid sg \<longleftrightarrow> (\<exists>r \<in> set records. \<exists>f. proven self_pid tol r f pgid
     \<and> (sg = sigterm \<and> Asked (pi_pid r) (Facts f) \<in> set pre \<and> Grace \<notin> set pre
        \<or> sg = sigkill \<and> Grace \<in> set pre \<and> pre \<noteq> [] \<and> last pre = Asked (pi_pid r) (Facts f)))"

definition sound :: "process_info list \<Rightarrow> nat \<Rightarrow> int \<Rightarrow> os_event list \<Rightarrow> bool" where
  "sound records self_pid tol tr \<longleftrightarrow>
     (\<forall>pre pgid sg a post. tr = pre @ Sent pgid sg a # post \<longrightarrow> justified records self_pid tol pre pgid sg)"

lemma sound_Nil [simp]: "sound records self_pid tol []"
  by (simp add: sound_def)

lemma sound_snoc: "sound records self_pid tol (tr @ [e]) \<longleftrightarrow> sound records self_pid tol tr
    \<and> (\<forall>pgid sg a. e = Sent pgid sg a \<longrightarrow> justified records self_pid tol tr pgid sg)"
proof -
  have split: "tr @ [e] = pre @ x # post \<longleftrightarrow> (post = [] \<and> tr = pre \<and> e = x) \<or> (\<exists>post'. post = post' @ [e] \<and> tr = pre @ x # post')"
    for pre x post by (cases post rule: rev_cases) auto
  show ?thesis unfolding sound_def split by (intro iffI conjI allI impI) (simp_all, blast)
qed

lemma ask_sound: "ask q pid tr = (a, tr') \<Longrightarrow> tr' = tr @ [Asked pid a]
    \<and> (sound records self_pid tol tr' \<longleftrightarrow> sound records self_pid tol tr)"
  by (auto simp: ask_def Let_def sound_snoc)

lemma probe_record_sound:
  assumes "probe_record q self_pid r tr = (a, tr')"
  shows "sound records self_pid tol tr' \<longleftrightarrow> sound records self_pid tol tr"
    "tr' = (if usable self_pid r then tr @ [Asked (pi_pid r) a] else tr)"
  using assms ask_sound[of q "pi_pid r" tr a tr'] by (auto simp: probe_record_def split: if_splits)

lemma confirm_gone_facts:
  "confirm_gone q n pid tr = (g, tr') \<Longrightarrow> (\<exists>new. tr' = tr @ new \<and> (g \<longrightarrow> Asked pid NoSuchProcess \<in> set new))
    \<and> (sound records self_pid tol tr' \<longleftrightarrow> sound records self_pid tol tr)"
proof (induction q n pid tr arbitrary: g tr' rule: confirm_gone.induct)
  case (2 q n pid tr)
  obtain a tr1 where a: "ask q pid tr = (a, tr1)" by fastforce
  note as = ask_sound[OF a, of records self_pid tol]
  show ?case
  proof (cases "a = NoSuchProcess")
    case True
    then show ?thesis using 2(2) a as by auto
  next
    case False
    then have c: "confirm_gone q n pid tr1 = (g, tr')" using 2(2) a by simp
    from 2(1)[OF a[symmetric] False c] show ?thesis using as by auto
  qed
qed simp

lemma sort_out_facts:
  "sort_out q self_pid tol rs tr = (victims, skipped, tr') \<Longrightarrow>
     (\<exists>new. tr' = tr @ new \<and> Grace \<notin> set new)
     \<and> (sound records self_pid tol tr' \<longleftrightarrow> sound records self_pid tol tr)
     \<and> (\<forall>(r, pgid) \<in> set victims. r \<in> set rs \<and> (\<exists>f. proven self_pid tol r f pgid \<and> Asked (pi_pid r) (Facts f) \<in> set tr'))
     \<and> mset (map fst victims) + mset (map fst skipped) = mset rs"
proof (induction q self_pid tol rs tr arbitrary: victims skipped tr' rule: sort_out.induct)
  case (2 q self_pid tol r rs tr)
  obtain a tr1 where a: "probe_record q self_pid r tr = (a, tr1)" by fastforce
  obtain vs ss tr2 where s: "sort_out q self_pid tol rs tr1 = (vs, ss, tr2)" by (metis prod_cases3)
  note pr = probe_record_sound(1)[OF a, of records tol] probe_record_sound(2)[OF a]
  note ih = 2(1)[OF a[symmetric] s]
  have t: "tr' = tr2" using 2(2) a s by (simp split: verdict.splits)
  have ext: "\<exists>new. tr2 = tr @ new \<and> Grace \<notin> set new" using ih pr(2) by (auto split: if_splits)
  show ?case
  proof (cases "classify r a self_pid tol")
    case (Reap pgid)
    then have v: "victims = (r, pgid) # vs" "skipped = ss" using 2(2) a s by simp_all
    obtain f where f: "a = Facts f" "proven self_pid tol r f pgid" using Reap by (auto simp: classify_reap)
    then have "usable self_pid r" by (simp add: proven_def usable_def)
    then have "Asked (pi_pid r) (Facts f) \<in> set tr2" using pr(2) ih f(1) by auto
    then show ?thesis using ih ext pr(1) f(2) unfolding t v by auto
  next
    case (Skip why)
    then have v: "victims = vs" "skipped = (r, why) # ss" using 2(2) a s by simp_all
    show ?thesis using ih ext pr(1) unfolding t v by auto
  qed
qed simp

text \<open>The infos of a report, and what must be true of an entry it calls reaped: its group took a
  \<open>SIGTERM\<close>, and later the system found nobody under that pid.\<close>

definition accounted :: "orphan_report \<Rightarrow> process_info multiset" where
  "accounted rep = mset (map fst (rp_reaped rep)) + mset (map fst (rp_skipped rep)) + mset (map fst (rp_survived rep))"

definition seen_gone :: "os_event list \<Rightarrow> process_info \<times> int \<Rightarrow> bool" where
  "seen_gone tr v \<longleftrightarrow> (\<exists>pre mid post. tr = pre @ Sent (snd v) sigterm None # mid @ Asked (pi_pid (fst v)) NoSuchProcess # post)"

lemma seen_gone_append: "seen_gone tr v \<Longrightarrow> seen_gone (tr @ new) v"
  unfolding seen_gone_def by (metis append_Cons append_assoc)

lemma seen_goneI:
  assumes "Sent (snd v) sigterm None \<in> set tr" "Asked (pi_pid (fst v)) NoSuchProcess \<in> set new"
  shows "seen_gone (tr @ new) v"
proof -
  obtain a b where "tr = a @ Sent (snd v) sigterm None # b" using assms(1) by (meson split_list)
  moreover obtain c d where "new = c @ Asked (pi_pid (fst v)) NoSuchProcess # d" using assms(2) by (meson split_list)
  ultimately show ?thesis unfolding seen_gone_def
    by (intro exI[of _ a] exI[of _ "b @ c"] exI[of _ d]) simp
qed

lemma accounted_simps [simp]:
  "accounted (survive r why rep) = add_mset r (accounted rep)"
  "accounted (rep\<lparr> rp_reaped := rp_reaped rep @ [(r, pgid)] \<rparr>) = add_mset r (accounted rep)"
  "rp_reaped (survive r why rep) = rp_reaped rep"
  by (simp_all add: accounted_def survive_def)

lemma term_all_facts:
  assumes "term_all q vs (rep, tr) = (signalled, rep', tr')" "sound records self_pid tol tr" "Grace \<notin> set tr"
    and "\<forall>(r, pgid) \<in> set vs. r \<in> set records \<and> (\<exists>f. proven self_pid tol r f pgid \<and> Asked (pi_pid r) (Facts f) \<in> set tr)"
  shows "sound records self_pid tol tr' \<and> set tr \<subseteq> set tr' \<and> rp_reaped rep' = rp_reaped rep
     \<and> (\<forall>v \<in> set signalled. fst v \<in> set records \<and> pi_pgid (fst v) = Some (snd v) \<and> Sent (snd v) sigterm None \<in> set tr')
     \<and> accounted rep' + mset (map fst signalled) = accounted rep + mset (map fst vs)"
  using assms
proof (induction q vs "(rep, tr)" arbitrary: rep tr signalled rep' tr' rule: term_all.induct)
  case (2 q r pgid vs rep tr)
  obtain a tr1 where a: "send q pgid sigterm tr = (a, tr1)" by fastforce
  have t1: "tr1 = tr @ [Sent pgid sigterm a]" using a by (auto simp: send_def Let_def)
  obtain f where "r \<in> set records" "proven self_pid tol r f pgid" "Asked (pi_pid r) (Facts f) \<in> set tr"
    using 2(6) by auto
  then have g: "pi_pgid r = Some pgid" by (simp add: proven_def)
  from \<open>r \<in> set records\<close> \<open>proven self_pid tol r f pgid\<close> \<open>Asked (pi_pid r) (Facts f) \<in> set tr\<close>
  have "justified records self_pid tol tr pgid sigterm" using 2(5) by (auto simp: justified_def)
  then have s1: "sound records self_pid tol tr1" "Grace \<notin> set tr1" using 2(4,5) unfolding t1 by (auto simp: sound_snoc)
  have vs1: "\<forall>(r, pgid) \<in> set vs. r \<in> set records
      \<and> (\<exists>f. proven self_pid tol r f pgid \<and> Asked (pi_pid r) (Facts f) \<in> set tr1)" using 2(6) t1 by auto
  show ?case
  proof (cases a)
    case None
    obtain sg rp t2 where r: "term_all q vs (rep, tr1) = (sg, rp, t2)" by (metis prod_cases3)
    have e: "signalled = (r, pgid) # sg" "rep' = rp" "tr' = t2" using 2(3) a None r by simp_all
    have ar: "(None, tr1) = send q pgid sigterm tr" using a None by simp
    from 2(1)[OF ar refl r s1 vs1] show ?thesis
      using t1 None g \<open>r \<in> set records\<close> unfolding e by auto
  next
    case (Some er)
    have r: "term_all q vs (survive r (lit ''SIGTERM failed: '' @ er) rep, tr1) = (signalled, rep', tr')"
      using 2(3) a Some by simp
    have ar: "(Some er, tr1) = send q pgid sigterm tr" using a Some by simp
    from 2(2)[OF ar refl r s1 vs1] show ?thesis using t1 by auto
  qed
qed auto

lemma escalate_facts:
  assumes "escalate q self_pid tol (r, pgid) (rep, tr) = (rep', tr')" "sound records self_pid tol tr" "Grace \<in> set tr"
    and "r \<in> set records" "Sent pgid sigterm None \<in> set tr" "pi_pgid r = Some pgid" "\<forall>v \<in> set (rp_reaped rep). seen_gone tr v"
  shows "sound records self_pid tol tr' \<and> set tr \<subseteq> set tr' \<and> (\<forall>v \<in> set (rp_reaped rep'). seen_gone tr' v)
     \<and> accounted rep' = add_mset r (accounted rep)"
proof -
  obtain a tr1 where a: "probe_record q self_pid r tr = (a, tr1)" by fastforce
  note pr = probe_record_sound(1)[OF a, of records tol] probe_record_sound(2)[OF a]
  have keep: "\<forall>v \<in> set (rp_reaped rep). seen_gone (tr @ new) v" for new using assms(7) seen_gone_append by blast
  have keep1: "\<forall>v \<in> set (rp_reaped rep). seen_gone tr1 v" using keep[of "[Asked (pi_pid r) a]"] keep[of "[]"] pr(2) by auto
  show ?thesis
  proof (cases "classify r a self_pid tol")
    case (Skip why)
    show ?thesis
    proof (cases "why = SkipGone")
      case True
      then have g: "a = NoSuchProcess" "usable self_pid r"
        using Skip by (auto simp: classify_def Let_def split: if_splits option.splits probed.splits)
      have "seen_gone (tr @ [Asked (pi_pid r) a]) (r, pgid)" by (rule seen_goneI) (use assms(5) g(1) in auto)
      then have "seen_gone tr1 (r, pgid)" using pr(2) g(2) by simp
      then show ?thesis using assms(1,2) a Skip True pr keep1 by (auto simp: escalate_def)
    next
      case False
      then have "rep' = survive r (lit ''identity changed during grace: '' @ show_skip why) rep" "tr' = tr1"
        using assms(1) a Skip by (auto simp: escalate_def split: skip_reason.splits)
      then show ?thesis using assms(2) pr keep1 by auto
    qed
  next
    case (Reap p)
    then obtain f where f: "a = Facts f" "proven self_pid tol r f p" by (auto simp: classify_reap)
    have u: "usable self_pid r" using f(2) by (simp add: proven_def usable_def)
    then have t1: "tr1 = tr @ [Asked (pi_pid r) a]" using pr(2) by simp
    obtain k tr2 where k: "send q pgid sigkill tr1 = (k, tr2)" by fastforce
    have t2: "tr2 = tr1 @ [Sent pgid sigkill k]" using k by (auto simp: send_def Let_def)
    have "p = pgid" using f(2) assms(6) by (simp add: proven_def)
    then have "justified records self_pid tol tr1 pgid sigkill"
      using f assms(3,4) t1 unfolding justified_def by (intro bexI[of _ r] exI[of _ f]) auto
    then have s2: "sound records self_pid tol tr2" using assms(2) pr(1) unfolding t2 by (simp add: sound_snoc)
    have keep2: "\<forall>v \<in> set (rp_reaped rep). seen_gone tr2 v" using keep1 seen_gone_append unfolding t2 by blast
    show ?thesis
    proof (cases k)
      case (Some e)
      then show ?thesis using assms(1) a Reap k s2 keep2 t1 t2 by (auto simp: escalate_def)
    next
      case None
      obtain g tr3 where c: "confirm_gone q kill_confirm_attempts (pi_pid r) tr2 = (g, tr3)" by fastforce
      note cf = confirm_gone_facts[OF c, of records self_pid tol]
      obtain new where new: "tr3 = tr2 @ new" "g \<longrightarrow> Asked (pi_pid r) NoSuchProcess \<in> set new" using cf by blast
      have keep3: "\<forall>v \<in> set (rp_reaped rep). seen_gone tr3 v" using keep2 seen_gone_append unfolding new(1) by blast
      have gone: "seen_gone tr3 (r, pgid)" if g
        unfolding new(1) by (rule seen_goneI) (use assms(5) new(2) t1 t2 that in auto)
      have t3: "tr' = tr3" using assms(1) a Reap k None c by (auto simp: escalate_def split: if_splits)
      have "rep' = (if g then rep\<lparr> rp_reaped := rp_reaped rep @ [(r, pgid)] \<rparr> else survive r (lit ''still alive after SIGKILL'') rep)"
        using assms(1) a Reap k None c by (auto simp: escalate_def split: if_splits)
      then show ?thesis using t3 cf s2 keep3 gone t1 t2 new(1) by (cases g) auto
    qed
  qed
qed

lemma escalate_all_facts:
  assumes "fold (escalate q self_pid tol) vs (rep, tr) = (rep', tr')" "sound records self_pid tol tr" "Grace \<in> set tr"
    and "\<forall>v \<in> set vs. fst v \<in> set records \<and> pi_pgid (fst v) = Some (snd v) \<and> Sent (snd v) sigterm None \<in> set tr"
    and "\<forall>v \<in> set (rp_reaped rep). seen_gone tr v"
  shows "sound records self_pid tol tr' \<and> (\<forall>v \<in> set (rp_reaped rep'). seen_gone tr' v)
     \<and> accounted rep' = accounted rep + mset (map fst vs)"
  using assms
proof (induction vs arbitrary: rep tr)
  case (Cons v vs)
  obtain r pgid where v: "v = (r, pgid)" by fastforce
  obtain rep1 tr1 where e: "escalate q self_pid tol (r, pgid) (rep, tr) = (rep1, tr1)" by fastforce
  have f: "sound records self_pid tol tr1" "set tr \<subseteq> set tr1" "\<forall>v \<in> set (rp_reaped rep1). seen_gone tr1 v"
    "accounted rep1 = add_mset r (accounted rep)"
    using escalate_facts[OF e Cons.prems(2,3) _ _ _ Cons.prems(5)] Cons.prems(4) v by auto
  have "fold (escalate q self_pid tol) vs (rep1, tr1) = (rep', tr')" using Cons.prems(1) v e by simp
  from Cons.IH[OF this f(1)] f Cons.prems(3,4) show ?case using v by auto
qed simp

text \<open>The reap as a whole.\<close>

lemma reap_facts:
  assumes "reap q self_pid tol records [] = (rep, tr)"
  shows "sound records self_pid tol tr \<and> (\<forall>v \<in> set (rp_reaped rep). seen_gone tr v) \<and> accounted rep = mset records"
proof -
  obtain vs ss tr1 where s: "sort_out q self_pid tol records [] = (vs, ss, tr1)" by (metis prod_cases3)
  note so = sort_out_facts[OF s]
  let ?rep = "empty_report\<lparr> rp_skipped := ss \<rparr>"
  have acc: "accounted ?rep + mset (map fst vs) = mset records" using so by (simp add: accounted_def empty_report_def ac_simps)
  have s1: "sound records self_pid tol tr1" "Grace \<notin> set tr1" using so by auto
  show ?thesis
  proof (cases "vs = []")
    case True
    then show ?thesis using assms s s1 acc by (auto simp: reap_def Let_def empty_report_def)
  next
    case False
    obtain sg rep2 tr2 where t: "term_all q vs (?rep, tr1) = (sg, rep2, tr2)" by (metis prod_cases3)
    note ta = term_all_facts[OF t s1]
    have ta: "sound records self_pid tol tr2" "rp_reaped rep2 = []" "accounted rep2 + mset (map fst sg) = mset records"
      "\<forall>v \<in> set sg. fst v \<in> set records \<and> pi_pgid (fst v) = Some (snd v) \<and> Sent (snd v) sigterm None \<in> set tr2"
      using ta so acc by (auto simp: empty_report_def)
    show ?thesis
    proof (cases "sg = []")
      case True
      then show ?thesis using assms s False t ta by (auto simp: reap_def Let_def)
    next
      case sg: False
      have "fold (escalate q self_pid tol) sg (rep2, tr2 @ [Grace]) = (rep, tr)"
        using assms s False t sg by (simp add: reap_def Let_def)
      from escalate_all_facts[OF this, of records] ta show ?thesis by (auto simp: sound_snoc)
    qed
  qed
qed

text \<open>C9. a boot-time sweep sends a signal only to the group of a recorded process that the system
  described as that process, on all three axes: \<open>SIGTERM\<close> after such an answer in the first pass, and
  \<open>SIGKILL\<close> only as the very next contact after a second such answer, past the grace.\<close>

theorem orphan_signals_proven:
  assumes "reap q self_pid tol records [] = (rep, pre @ Sent pgid sg a # post)"
  shows "\<exists>r \<in> set records. \<exists>f. proven self_pid tol r f pgid
     \<and> (sg = sigterm \<and> Asked (pi_pid r) (Facts f) \<in> set pre \<and> Grace \<notin> set pre
        \<or> sg = sigkill \<and> Grace \<in> set pre \<and> pre \<noteq> [] \<and> last pre = Asked (pi_pid r) (Facts f))"
  using reap_facts[OF assms] unfolding sound_def justified_def by blast

theorem orphan_report_true:
  assumes "reap q self_pid tol records [] = (rep, tr)"
  shows "mset (map fst (rp_reaped rep)) + mset (map fst (rp_skipped rep)) + mset (map fst (rp_survived rep)) = mset records
     \<and> (\<forall>v \<in> set (rp_reaped rep). seen_gone tr v)"
  using reap_facts[OF assms] by (simp add: accounted_def)

section \<open>At boot\<close>

text \<open>\<open>str::parse::<u32>\<close>: no minus sign.\<close>

text \<open>The pid of a live daemon other than this one, from the pidfile; \<open>exists\<close> is \<open>process_exists\<close>.\<close>

definition live_peer_daemon :: "rstr option \<Rightarrow> nat \<Rightarrow> (nat \<Rightarrow> bool) \<Rightarrow> nat option" where
  "live_peer_daemon pidfile self_pid exists = (case pidfile of
     None \<Rightarrow> None
   | Some text \<Rightarrow> (case parse_u32 (trim text) of
       None \<Rightarrow> None
     | Some pid \<Rightarrow> if pid = self_pid then None else if exists pid then Some pid else None))"

record boot =
  bt_pidfile :: "rstr option"
  bt_snapshot :: "rstr option"
  bt_kept :: "rstr option"
  bt_audit :: "audit_event list"

definition write_pidfile :: "nat \<Rightarrow> boot \<Rightarrow> boot" where
  "write_pidfile self_pid st = st\<lparr> bt_pidfile := Some (show_nat self_pid) \<rparr>"

definition orphan_event :: "process_info \<times> int \<Rightarrow> audit_event" where
  "orphan_event v = (case v of (r, pgid) \<Rightarrow> OrphanReaped (ow_agent (pi_owner r)) (show_kind (pi_kind r)) (pi_label r)
     (pi_pid r) (pi_age_seconds r) (pi_deadline_seconds r))"

text \<open>\<open>read_error\<close> and \<open>rename_ok\<close>: whether the snapshot can be read and moved aside.\<close>

definition reap_boot_orphans :: "system \<Rightarrow> nat \<Rightarrow> (nat \<Rightarrow> bool) \<Rightarrow> rstr option \<Rightarrow> bool \<Rightarrow> (rstr \<Rightarrow> rstr + process_info list)
    \<Rightarrow> boot \<Rightarrow> boot \<times> os_event list" where
  "reap_boot_orphans q self_pid exists read_error rename_ok decode st = (case bt_snapshot st of
     None \<Rightarrow> (st, [])
   | Some raw \<Rightarrow>
       if live_peer_daemon (bt_pidfile st) self_pid exists \<noteq> None then (st, [])
       else case reap_snapshot_file q self_pid default_start_tolerance
                   (case read_error of Some e \<Rightarrow> Inl (Some e) | None \<Rightarrow> Inr raw) decode [] of (rep, tr) \<Rightarrow>
         (case rp_snapshot_error rep of
            Some e \<Rightarrow> (if rename_ok then st\<lparr> bt_snapshot := None, bt_kept := Some raw \<rparr> else st, tr)
          | None \<Rightarrow> (st\<lparr> bt_audit := bt_audit st @ map orphan_event (rp_reaped rep), bt_snapshot := None \<rparr>, tr)))"

text \<open>The start of \<open>run\<close>: this daemon's pid is published first, the orphans are reaped next.\<close>

definition daemon_boot :: "system \<Rightarrow> nat \<Rightarrow> (nat \<Rightarrow> bool) \<Rightarrow> rstr option \<Rightarrow> bool \<Rightarrow> (rstr \<Rightarrow> rstr + process_info list)
    \<Rightarrow> boot \<Rightarrow> boot \<times> os_event list" where
  "daemon_boot q self_pid exists read_error rename_ok decode st =
     reap_boot_orphans q self_pid exists read_error rename_ok decode (write_pidfile self_pid st)"

lemma show_nat_trim: "trim (show_nat n) = show_nat n"
proof -
  have ws: "\<not> is_ws c" if "c \<in> set (show_nat n)" for c
    using show_nat_digits[OF that] by (auto simp: is_digit_c_def is_ws_def)
  have "dropWhile is_ws xs = xs" if "xs \<noteq> []" "\<And>c. c \<in> set xs \<Longrightarrow> \<not> is_ws c" for xs
    using that by (cases xs) auto
  from this[of "show_nat n"] this[of "rev (show_nat n)"] show ?thesis
    using ws by (simp add: trim_def trim_start_def trim_end_def)
qed

theorem boot_ignores_live_peer:
  assumes "self_pid < 2 ^ 32"
  shows "daemon_boot q self_pid exists read_error rename_ok decode st
     = daemon_boot q self_pid (\<lambda>_. False) read_error rename_ok decode st
   \<and> (bt_snapshot st = Some raw \<and> read_error = None \<and> decode raw = Inr records
       \<longrightarrow> snd (daemon_boot q self_pid exists read_error rename_ok decode st)
           = snd (reap q self_pid default_start_tolerance records []))"
proof -
  have "live_peer_daemon (bt_pidfile (write_pidfile self_pid st)) self_pid ps = None" for ps
    using parse_u32_show[OF assms] by (simp add: live_peer_daemon_def write_pidfile_def show_nat_trim)
  then show ?thesis
    by (auto simp: daemon_boot_def reap_boot_orphans_def write_pidfile_def reap_snapshot_file_def
        split: option.split prod.split)
qed

section \<open>A sweep\<close>

definition sample_orphan :: process_info where
  "sample_orphan = \<lparr> pi_id = 1, pi_pid = 60, pi_kind = PersistentKind,
     pi_owner = \<lparr> ow_agent = [97], ow_schedule = None, ow_hook_event = None, ow_plugin = None \<rparr>,
     pi_label = [97], pi_started_at = 10 * second, pi_deadline_seconds = 600, pi_age_seconds = 3, pi_deadline_pct = 0,
     pi_pgid = Some 60, pi_command = [102, 32, 47, 97] \<rparr>"

definition sample_facts :: process_facts where
  "sample_facts = \<lparr> pf_pgid = 60, pf_started_at = 9 * second, pf_command = [102, 32, 47, 97] \<rparr>"

text \<open>The process is still there after the first signal and gone after the second.\<close>

definition sample_system :: system where
  "sample_system = \<lparr> sy_probe = (\<lambda>i pid. if i < 4 then Facts sample_facts else NoSuchProcess), sy_kill = (\<lambda>_ _ _. None) \<rparr>"

lemma command_matches_refl: "split_ws c \<noteq> [] \<Longrightarrow> command_matches c c"
  by (cases "split_ws c") (auto simp: command_matches_def list_ex_iff dest!: find_SomeD split: option.split)

lemma sample_classify: "classify sample_orphan (Facts sample_facts) 7 default_start_tolerance = Reap 60"
proof -
  have "split_ws [102, 32, 47, 97] \<noteq> []" by (subst split_ws.simps) (simp add: is_ws_def)
  then have "command_matches [102, 32, 47, 97] [102, 32, 47, 97]" by (rule command_matches_refl)
  moreover have "trim [102, 32, 47, 97] \<noteq> []" by (simp add: trim_eq_Nil is_ws_def)
  ultimately show ?thesis
    by (simp add: classify_reap proven_def sample_orphan_def sample_facts_def as_i32_def
        start_forward_tolerance_def default_start_tolerance_def time_simps)
qed

lemma sample_usable: "usable 7 sample_orphan" "pi_pid sample_orphan = 60"
  by (simp_all add: usable_def sample_orphan_def)

lemma sample_reap:
  "reap sample_system 7 default_start_tolerance [sample_orphan] [] =
     (empty_report\<lparr> rp_reaped := [(sample_orphan, 60)] \<rparr>,
      [Asked 60 (Facts sample_facts), Sent 60 sigterm None, Grace, Asked 60 (Facts sample_facts),
       Sent 60 sigkill None, Asked 60 NoSuchProcess])"
proof -
  have "confirm_gone sample_system kill_confirm_attempts 60 [Asked 60 (Facts sample_facts), Sent 60 sigterm None, Grace,
      Asked 60 (Facts sample_facts), Sent 60 sigkill None] = (True, [Asked 60 (Facts sample_facts), Sent 60 sigterm None, Grace,
      Asked 60 (Facts sample_facts), Sent 60 sigkill None, Asked 60 NoSuchProcess])"
    by (simp add: kill_confirm_attempts_def numeral_eq_Suc ask_def sample_system_def)
  then show ?thesis
    by (simp add: reap_def Let_def probe_record_def sample_usable ask_def send_def sample_classify escalate_def
        sample_system_def empty_report_def)
qed

theorem orphan_signals_proven_witness:
  "proven 7 default_start_tolerance sample_orphan sample_facts 60 \<and> sigkill \<noteq> sigterm
   \<and> snd (reap sample_system 7 default_start_tolerance [sample_orphan] []) \<noteq> []"
proof -
  let ?pre = "[Asked 60 (Facts sample_facts), Sent 60 sigterm None, Grace, Asked 60 (Facts sample_facts)]"
  have "reap sample_system 7 default_start_tolerance [sample_orphan] []
      = (empty_report\<lparr> rp_reaped := [(sample_orphan, 60)] \<rparr>, ?pre @ Sent 60 sigkill None # [Asked 60 NoSuchProcess])"
    unfolding sample_reap by simp
  from orphan_signals_proven[OF this] sample_reap show ?thesis by (auto simp: sigterm_def sigkill_def sample_usable)
qed

theorem orphan_report_true_witness:
  "rp_reaped (fst (reap sample_system 7 default_start_tolerance [sample_orphan] [])) = [(sample_orphan, 60)]
   \<and> seen_gone (snd (reap sample_system 7 default_start_tolerance [sample_orphan] [])) (sample_orphan, 60)"
  using orphan_report_true[OF sample_reap] unfolding sample_reap by simp

text \<open>A second daemon, pid 7, starts while the first, pid 50, is alive with a child, pid 60: it
  signals the child.\<close>

theorem boot_ignores_live_peer_witness:
  "Sent 60 sigterm None \<in> set (snd (daemon_boot sample_system 7 (\<lambda>pid. pid = 50) None True (\<lambda>_. Inr [sample_orphan])
     \<lparr> bt_pidfile = Some [53, 48], bt_snapshot = Some [91], bt_kept = None, bt_audit = [] \<rparr>))"
proof -
  let ?st = "\<lparr> bt_pidfile = Some [53, 48], bt_snapshot = Some [91], bt_kept = None, bt_audit = [] \<rparr>"
  have "snd (daemon_boot sample_system 7 (\<lambda>pid. pid = 50) None True (\<lambda>_. Inr [sample_orphan]) ?st)
      = snd (reap sample_system 7 default_start_tolerance [sample_orphan] [])"
    by (rule mp[OF conjunct2[OF boot_ignores_live_peer]]) simp_all
  then show ?thesis by (simp add: sample_reap)
qed

end
