(* ===== verification/Supervisor.thy ===== *)
theory Supervisor
  imports Orphan
begin

text \<open>
  The process supervisor (\<open>dotagent-supervisor/src/lib.rs\<close> and \<open>reaper.rs\<close>): its registry, and the
  parties that compete for the end of a process, as steps on one state: the handle that waits, a
  cancelled wait, \<open>terminate\<close>, the reaper and the shutdown.  A step is one critical section or one
  contact with the system.  Whether a process exits, and when its status is collected, is decided by
  the order of the steps.  Instants and durations are nanoseconds.
\<close>

section \<open>State\<close>

record entry =
  en_info :: process_info
  en_started :: nat
  en_pgid :: "int option"
  en_deadline :: nat
  en_claimed :: bool

text \<open>\<open>None\<close> in a hash map's iteration order is not fixed; the list is some order of it.\<close>

type_synonym registry = "(nat \<times> entry) list"

text \<open>Who won the claim on an entry.  A kill remembers the process group it was claimed with, so that it
  no longer needs the entry.\<close>

datatype claimer = ByTerminate | ByReaper nat | ByWaiter nat

datatype kill_stage = Claimed | TermSent | KillSent

type_synonym kill = "claimer \<times> int option \<times> kill_stage"

text \<open>Where the child is: in the handle, in a wait (\<open>True\<close>: \<open>wait_with_output\<close>, which gives the child up
  at the deadline), in a handle whose \<open>drop\<close> has looked at the entry, in a final \<open>child.wait()\<close>, or
  released to the runtime.\<close>

datatype child_place = InHandle | InWait bool | Dropping | Collecting | Released

datatype sup_event =
  Started nat
| Finished nat "int option"
| KilledTimeout nat
| Signal nat int bool

record supervisor =
  sv_registry :: registry
  sv_next_id :: nat
  sv_kills :: "(nat \<times> kill) list"
  sv_place :: "nat \<Rightarrow> child_place"
  sv_collected :: "nat list"
  sv_reaper_owned :: "nat list"
  sv_wake :: nat
  sv_trace :: "sup_event list"

definition supervisor_new :: supervisor where
  "supervisor_new = \<lparr> sv_registry = [], sv_next_id = 1, sv_kills = [], sv_place = (\<lambda>_. Released), sv_collected = [],
     sv_reaper_owned = [], sv_wake = 0, sv_trace = [] \<rparr>"

section \<open>Registry operations\<close>

definition sup_emit :: "sup_event \<Rightarrow> supervisor \<Rightarrow> supervisor" where
  "sup_emit e st = st\<lparr> sv_trace := sv_trace st @ [e] \<rparr>"

definition wake_all :: "supervisor \<Rightarrow> supervisor" where
  "wake_all st = st\<lparr> sv_wake := (sv_wake st + 1) mod 2 ^ 64 \<rparr>"

definition set_place :: "nat \<Rightarrow> child_place \<Rightarrow> supervisor \<Rightarrow> supervisor" where
  "set_place i p st = st\<lparr> sv_place := (sv_place st)(i := p) \<rparr>"

definition entry_at :: "supervisor \<Rightarrow> nat \<Rightarrow> entry option" where
  "entry_at st i = map_of (sv_registry st) i"

definition drop_entry :: "nat \<Rightarrow> supervisor \<Rightarrow> supervisor" where
  "drop_entry i st = st\<lparr> sv_registry := AList.delete i (sv_registry st) \<rparr>"

text \<open>\<open>deregister\<close>: remove and wake.\<close>

definition deregister :: "nat \<Rightarrow> supervisor \<Rightarrow> supervisor" where
  "deregister i st = wake_all (drop_entry i st)"

definition spawn_registered :: "process_info \<Rightarrow> int option \<Rightarrow> nat \<Rightarrow> nat \<Rightarrow> supervisor \<Rightarrow> supervisor" where
  "spawn_registered info pgid deadline now st = (let i = sv_next_id st in
     sup_emit (Started i)
       (wake_all (set_place i InHandle
         (st\<lparr> sv_next_id := i + 1,
              sv_registry := AList.update i
                \<lparr> en_info = info\<lparr> pi_id := i, pi_pgid := pgid, pi_deadline_seconds := deadline div 10 ^ 9,
                                  pi_age_seconds := 0, pi_deadline_pct := 0 \<rparr>,
                  en_started = now, en_pgid = pgid, en_deadline = deadline, en_claimed = False \<rparr> (sv_registry st) \<rparr>))))"

definition retime :: "nat \<Rightarrow> nat \<Rightarrow> nat \<Rightarrow> supervisor \<Rightarrow> bool \<times> supervisor" where
  "retime i deadline now st = (case entry_at st i of
     Some e \<Rightarrow>
       if en_claimed e then (False, st)
       else (True, wake_all (st\<lparr> sv_registry := AList.update i
               (e\<lparr> en_started := now, en_deadline := deadline,
                   en_info := (en_info e)\<lparr> pi_deadline_seconds := deadline div 10 ^ 9 \<rparr> \<rparr>) (sv_registry st) \<rparr>))
   | None \<Rightarrow> (False, st))"

text \<open>\<open>claim\<close>: at most one owner of the kill.\<close>

definition claim :: "claimer \<Rightarrow> nat \<Rightarrow> supervisor \<Rightarrow> supervisor option" where
  "claim who i st = (case entry_at st i of
     None \<Rightarrow> None
   | Some e \<Rightarrow>
       if en_claimed e then None
       else Some (st\<lparr> sv_registry := AList.update i (e\<lparr> en_claimed := True \<rparr>) (sv_registry st),
                      sv_kills := (i, (who, en_pgid e, Claimed)) # sv_kills st \<rparr>))"

definition kill_of :: "supervisor \<Rightarrow> nat \<Rightarrow> kill option" where
  "kill_of st i = map_of (sv_kills st) i"

definition drop_kill :: "nat \<Rightarrow> supervisor \<Rightarrow> supervisor" where
  "drop_kill i st = st\<lparr> sv_kills := AList.delete i (sv_kills st) \<rparr>"

definition set_stage :: "nat \<Rightarrow> kill \<Rightarrow> supervisor \<Rightarrow> supervisor" where
  "set_stage i k st = st\<lparr> sv_kills := AList.update i k (sv_kills st) \<rparr>"

definition collect :: "nat \<Rightarrow> supervisor \<Rightarrow> supervisor" where
  "collect i st = st\<lparr> sv_collected := i # sv_collected st \<rparr>"

text \<open>A signal to the group of process \<open>i\<close>, when it has one; the event remembers whether the leader's
  status had been collected by then, that is, whether its pid could belong to somebody else.\<close>

definition signal_group :: "nat \<Rightarrow> int option \<Rightarrow> int \<Rightarrow> supervisor \<Rightarrow> supervisor" where
  "signal_group i pgid sg st = (case pgid of
     Some _ \<Rightarrow> sup_emit (Signal i sg (i \<in> set (sv_collected st))) st | None \<Rightarrow> st)"

text \<open>\<open>project_info\<close> and \<open>snapshot\<close>.\<close>

definition project_info :: "nat \<Rightarrow> entry \<Rightarrow> process_info" where
  "project_info now e = (let age = now - en_started e in (en_info e)\<lparr>
     pi_age_seconds := age div 10 ^ 9,
     pi_deadline_pct := (if en_deadline e = 0 then 0
       else min 100 ((age div 10 ^ 6 * 100) div max 1 (en_deadline e div 10 ^ 6))) \<rparr>)"

definition snapshot :: "nat \<Rightarrow> supervisor \<Rightarrow> process_info list" where
  "snapshot now st = map (\<lambda>(i, e). project_info now e) (sv_registry st)"

section \<open>The reaper\<close>

definition remaining :: "nat \<Rightarrow> entry \<Rightarrow> nat" where
  "remaining now e = en_deadline e - (now - en_started e)"

definition reapable :: "entry \<Rightarrow> bool" where
  "reapable e \<longleftrightarrow> \<not> en_claimed e \<and> en_pgid e \<noteq> None"

definition next_deadline :: "nat \<Rightarrow> registry \<Rightarrow> nat option" where
  "next_deadline now reg = (case map (remaining now) (filter reapable (map snd reg)) of
     [] \<Rightarrow> None | d # ds \<Rightarrow> Some (fold min ds d))"

definition overdue :: "nat \<Rightarrow> entry \<Rightarrow> bool" where
  "overdue now e \<longleftrightarrow> now - en_started e \<ge> en_deadline e"

text \<open>The first pass of \<open>sweep_once\<close>: find and claim under one lock.\<close>

definition sweep_victims :: "nat \<Rightarrow> registry \<Rightarrow> (nat \<times> entry) list" where
  "sweep_victims now reg = filter (\<lambda>(i, e). reapable e \<and> overdue now e) reg"

definition sweep_mark :: "nat \<Rightarrow> supervisor \<Rightarrow> supervisor" where
  "sweep_mark now st = (let victims = sweep_victims now (sv_registry st) in
     st\<lparr> sv_registry := map (\<lambda>(i, e). (i, if reapable e \<and> overdue now e then e\<lparr> en_claimed := True \<rparr> else e)) (sv_registry st),
         sv_reaper_owned := map fst victims @ sv_reaper_owned st,
         sv_kills := map (\<lambda>(i, e). (i, (ByReaper (now - en_started e), en_pgid e, Claimed))) victims @ sv_kills st \<rparr>)"

section \<open>Steps\<close>

datatype sup_label =
  SpawnStep process_info "int option" nat nat
| RetimeStep nat nat nat
| TerminateStep nat
| SweepStep nat
| TermStep nat
| KillStep nat
| EndStep nat
| WaitStep nat bool
| ExitStep nat "int option"
| WaitFailed nat
| DeadlineStep nat nat
| CancelStep nat
| DropLook nat
| DropRemove nat
| CollectStep nat
| ShutdownStep int

text \<open>The end of a kill: the owner removes the entry and reports it, unless somebody else removed it.\<close>

definition end_kill :: "nat \<Rightarrow> claimer \<Rightarrow> supervisor \<Rightarrow> supervisor" where
  "end_kill i who st = (case entry_at st i of
     None \<Rightarrow> drop_kill i st
   | Some e \<Rightarrow>
       drop_kill i (case who of
         ByTerminate \<Rightarrow> sup_emit (Finished i None) (deregister i st)
       | ByReaper age \<Rightarrow> sup_emit (KilledTimeout i) (drop_entry i st)
       | ByWaiter elapsed \<Rightarrow> sup_emit (KilledTimeout i) (deregister i st)))"

text \<open>\<open>finish\<close>: the child ended by itself.\<close>

definition finish :: "nat \<Rightarrow> int option \<Rightarrow> supervisor \<Rightarrow> supervisor" where
  "finish i code st = (case entry_at st i of
     Some e \<Rightarrow> if en_claimed e then st else sup_emit (Finished i code) (deregister i st)
   | None \<Rightarrow> st)"

text \<open>\<open>force_claimed\<close>: kill, remove, report, without a pause.\<close>

definition force_claimed :: "nat \<Rightarrow> int option \<Rightarrow> supervisor \<Rightarrow> supervisor" where
  "force_claimed i pgid st = (let st1 = signal_group i pgid sigkill st
     in drop_kill i (case entry_at st1 i of
          Some e \<Rightarrow> sup_emit (Finished i None) (deregister i st1)
        | None \<Rightarrow> st1))"

text \<open>A wait is dropped at an await point only: before its deadline, or during the grace of its own kill.\<close>

definition at_await :: "supervisor \<Rightarrow> nat \<Rightarrow> bool" where
  "at_await st i \<longleftrightarrow> (case kill_of st i of Some (ByWaiter _, _, stage) \<Rightarrow> stage = TermSent | _ \<Rightarrow> True)"

definition own_kill :: "supervisor \<Rightarrow> nat \<Rightarrow> bool" where
  "own_kill st i \<longleftrightarrow> (case kill_of st i of Some (ByWaiter _, _) \<Rightarrow> True | _ \<Rightarrow> False)"

text \<open>\<open>Drop\<close> of \<open>WaitCleanup\<close>: it uses the claim it has, or tries to claim now.\<close>

definition cancel_wait :: "nat \<Rightarrow> supervisor \<Rightarrow> supervisor" where
  "cancel_wait i st = (case kill_of st i of
     Some (ByWaiter _, pgid, TermSent) \<Rightarrow> force_claimed i pgid st
   | _ \<Rightarrow> (case claim (ByWaiter 0) i st of
       Some st1 \<Rightarrow> force_claimed i (case entry_at st i of Some e \<Rightarrow> en_pgid e | None \<Rightarrow> None) st1
     | None \<Rightarrow> st))"

text \<open>The wait reached its deadline.\<close>

definition wait_deadline :: "nat \<Rightarrow> bool \<Rightarrow> nat \<Rightarrow> supervisor \<Rightarrow> supervisor" where
  "wait_deadline i out elapsed st = (case claim (ByWaiter elapsed) i st of
     Some st1 \<Rightarrow> if out then set_place i Released st1 else st1
   | None \<Rightarrow> set_place i (if out then Released else Collecting) st)"

fun sup_exec :: "sup_label \<Rightarrow> supervisor \<Rightarrow> supervisor option" where
  "sup_exec (SpawnStep info pgid deadline now) st = Some (spawn_registered info pgid deadline now st)"
| "sup_exec (RetimeStep i deadline now) st = Some (snd (retime i deadline now st))"
| "sup_exec (TerminateStep i) st = Some (case claim ByTerminate i st of Some st1 \<Rightarrow> st1 | None \<Rightarrow> st)"
| "sup_exec (SweepStep now) st = Some (sweep_mark now st)"
| "sup_exec (TermStep i) st = (case kill_of st i of
     Some (who, pgid, Claimed) \<Rightarrow> Some (set_stage i (who, pgid, TermSent) (signal_group i pgid sigterm st))
   | _ \<Rightarrow> None)"
| "sup_exec (KillStep i) st = (case kill_of st i of
     Some (who, pgid, TermSent) \<Rightarrow> Some (set_stage i (who, pgid, KillSent) (signal_group i pgid sigkill st))
   | _ \<Rightarrow> None)"
| "sup_exec (EndStep i) st = (case kill_of st i of
     Some (who, pgid, KillSent) \<Rightarrow>
       Some (let st1 = end_kill i who st
             in if own_kill st i \<and> sv_place st i = InWait False then set_place i Collecting st1 else st1)
   | _ \<Rightarrow> None)"
| "sup_exec (WaitStep i out) st = (if sv_place st i = InHandle then Some (set_place i (InWait out) st) else None)"
| "sup_exec (ExitStep i code) st = (case sv_place st i of
     InWait out \<Rightarrow> if own_kill st i then None else Some (set_place i Released (collect i (finish i code st)))
   | _ \<Rightarrow> None)"
| "sup_exec (WaitFailed i) st = (case sv_place st i of
     InWait out \<Rightarrow> if own_kill st i then None else Some (set_place i Released (finish i None st))
   | _ \<Rightarrow> None)"
| "sup_exec (DeadlineStep i elapsed) st = (case sv_place st i of
     InWait out \<Rightarrow> if own_kill st i then None else Some (wait_deadline i out elapsed st)
   | _ \<Rightarrow> None)"
| "sup_exec (CancelStep i) st = (case sv_place st i of
     InWait out \<Rightarrow> if at_await st i then Some (set_place i Released (cancel_wait i st)) else None
   | Collecting \<Rightarrow> Some (set_place i Released st)
   | Released \<Rightarrow> if own_kill st i \<and> at_await st i then Some (cancel_wait i st) else None
   | _ \<Rightarrow> None)"
| "sup_exec (DropLook i) st = (if sv_place st i = InHandle
     then Some (set_place i (case entry_at st i of
            Some e \<Rightarrow> if en_claimed e then Released else Dropping | None \<Rightarrow> Released) st)
     else None)"
| "sup_exec (DropRemove i) st = (if sv_place st i = Dropping then Some (set_place i Released (deregister i st)) else None)"
| "sup_exec (CollectStep i) st = (if i < sv_next_id st \<and> sv_place st i \<in> {InHandle, Collecting, Released} then Some (collect i st) else None)"
| "sup_exec (ShutdownStep sg) st = Some (fold (\<lambda>(i, e). signal_group i (en_pgid e) sg) (sv_registry st) st)"

inductive sup_reaches :: "sup_label list \<Rightarrow> supervisor \<Rightarrow> bool" where
  sup_init: "sup_reaches [] supervisor_new"
| sup_next: "sup_reaches ls st \<Longrightarrow> sup_exec l st = Some st' \<Longrightarrow> sup_reaches (ls @ [l]) st'"

end
