(* ===== verification/Supervisor_Runs.thy ===== *)
theory Supervisor_Runs
  imports Supervisor
begin

text \<open>
  What holds over whole runs of the supervisor: every process ends at most once in the events, a
  claimed entry always has the one owner that will end it, and the reaper wakes exactly when there
  is something to claim.
\<close>

section \<open>What an operation does to one id\<close>

fun ends :: "nat \<Rightarrow> sup_event list \<Rightarrow> nat" where
  "ends i [] = 0"
| "ends i (Finished j code # es) = (if j = i then 1 else 0) + ends i es"
| "ends i (KilledTimeout j # es) = (if j = i then 1 else 0) + ends i es"
| "ends i (Started j # es) = ends i es"
| "ends i (Signal j sg late # es) = ends i es"

lemma ends_append [simp]: "ends i (es @ fs) = ends i es + ends i fs"
  by (induction i es rule: ends.induct) auto

definition ended :: "supervisor \<Rightarrow> nat \<Rightarrow> nat" where
  "ended st i = ends i (sv_trace st)"

named_theorems sup_view \<open>the views of a state after an operation\<close>

lemma emit_view [sup_view]:
  "entry_at (sup_emit e st) = entry_at st" "kill_of (sup_emit e st) = kill_of st" "sv_next_id (sup_emit e st) = sv_next_id st"
  "ended (sup_emit (Started i) st) = ended st" "ended (sup_emit (Signal i sg late) st) = ended st"
  "ended (sup_emit (Finished i code) st) = (ended st)(i := Suc (ended st i))"
  "ended (sup_emit (KilledTimeout i) st) = (ended st)(i := Suc (ended st i))"
  by (auto simp: sup_emit_def entry_at_def kill_of_def ended_def fun_eq_iff)

lemma place_view [sup_view]:
  "entry_at (set_place i p st) = entry_at st" "kill_of (set_place i p st) = kill_of st"
  "sv_next_id (set_place i p st) = sv_next_id st" "ended (set_place i p st) = ended st"
  by (auto simp: set_place_def entry_at_def kill_of_def ended_def fun_eq_iff)

lemma wake_view [sup_view]:
  "entry_at (wake_all st) = entry_at st" "kill_of (wake_all st) = kill_of st"
  "sv_next_id (wake_all st) = sv_next_id st" "ended (wake_all st) = ended st"
  by (auto simp: wake_all_def entry_at_def kill_of_def ended_def fun_eq_iff)

lemma drop_entry_view [sup_view]:
  "entry_at (drop_entry i st) = (entry_at st)(i := None)" "kill_of (drop_entry i st) = kill_of st"
  "sv_next_id (drop_entry i st) = sv_next_id st" "ended (drop_entry i st) = ended st"
  by (auto simp: drop_entry_def entry_at_def kill_of_def ended_def fun_eq_iff delete_conv)

lemma deregister_view [sup_view]:
  "entry_at (deregister i st) = (entry_at st)(i := None)" "kill_of (deregister i st) = kill_of st"
  "sv_next_id (deregister i st) = sv_next_id st" "ended (deregister i st) = ended st"
  by (simp_all add: deregister_def sup_view)

lemma drop_kill_view [sup_view]:
  "entry_at (drop_kill i st) = entry_at st" "kill_of (drop_kill i st) = (kill_of st)(i := None)"
  "sv_next_id (drop_kill i st) = sv_next_id st" "ended (drop_kill i st) = ended st"
  by (auto simp: drop_kill_def entry_at_def kill_of_def ended_def fun_eq_iff delete_conv)

lemma stage_view [sup_view]:
  "entry_at (set_stage i k st) = entry_at st" "kill_of (set_stage i k st) = (kill_of st)(i \<mapsto> k)"
  "sv_next_id (set_stage i k st) = sv_next_id st" "ended (set_stage i k st) = ended st"
  by (auto simp: set_stage_def entry_at_def kill_of_def ended_def fun_eq_iff update_conv)

lemma collect_view [sup_view]:
  "entry_at (collect i st) = entry_at st" "kill_of (collect i st) = kill_of st"
  "sv_next_id (collect i st) = sv_next_id st" "ended (collect i st) = ended st"
  by (auto simp: collect_def entry_at_def kill_of_def ended_def fun_eq_iff)

lemma signal_view [sup_view]:
  "entry_at (signal_group i pg sg st) = entry_at st" "kill_of (signal_group i pg sg st) = kill_of st"
  "sv_next_id (signal_group i pg sg st) = sv_next_id st" "ended (signal_group i pg sg st) = ended st"
  by (auto simp: signal_group_def sup_view split: option.split)

lemma signals_view [sup_view]:
  "entry_at (fold (\<lambda>(i, e). signal_group i (en_pgid e) sg) xs st) = entry_at st"
  "kill_of (fold (\<lambda>(i, e). signal_group i (en_pgid e) sg) xs st) = kill_of st"
  "sv_next_id (fold (\<lambda>(i, e). signal_group i (en_pgid e) sg) xs st) = sv_next_id st"
  "ended (fold (\<lambda>(i, e). signal_group i (en_pgid e) sg) xs st) = ended st"
  by (induction xs arbitrary: st) (auto simp: sup_view)

lemma claim_view:
  assumes "claim who i st = Some st'"
  obtains e where "entry_at st i = Some e" "\<not> en_claimed e" "entry_at st' = (entry_at st)(i \<mapsto> e\<lparr> en_claimed := True \<rparr>)"
    "kill_of st' = (kill_of st)(i \<mapsto> (who, en_pgid e, Claimed))" "sv_next_id st' = sv_next_id st" "ended st' = ended st"
proof -
  obtain e where e: "entry_at st i = Some e" "\<not> en_claimed e"
    "st' = st\<lparr> sv_registry := AList.update i (e\<lparr> en_claimed := True \<rparr>) (sv_registry st),
                sv_kills := (i, (who, en_pgid e, Claimed)) # sv_kills st \<rparr>"
    using assms by (auto simp: claim_def split: option.splits if_splits)
  show ?thesis using that[OF e(1,2)] e(3) by (auto simp: entry_at_def kill_of_def ended_def fun_eq_iff update_conv)
qed

section \<open>The invariant\<close>

definition id_ok :: "nat \<Rightarrow> nat \<Rightarrow> entry option \<Rightarrow> kill option \<Rightarrow> nat \<Rightarrow> bool" where
  "id_ok nx i en k n \<longleftrightarrow> n \<le> 1 \<and> (en \<noteq> None \<longrightarrow> n = 0 \<and> i < nx) \<and> (k \<noteq> None \<or> n > 0 \<longrightarrow> i < nx)
     \<and> (\<forall>e. en = Some e \<longrightarrow> (en_claimed e \<longleftrightarrow> k \<noteq> None))"

definition sup_inv :: "supervisor \<Rightarrow> bool" where
  "sup_inv st \<longleftrightarrow> distinct (map fst (sv_registry st))
     \<and> (\<forall>i. id_ok (sv_next_id st) i (entry_at st i) (kill_of st i) (ended st i))"

lemma sup_invD: "sup_inv st \<Longrightarrow> id_ok (sv_next_id st) i (entry_at st i) (kill_of st i) (ended st i)"
  by (simp add: sup_inv_def)

definition keys_ok :: "supervisor \<Rightarrow> bool" where
  "keys_ok st \<longleftrightarrow> distinct (map fst (sv_registry st))"

lemma keys_ok_ops [sup_view]:
  "keys_ok (sup_emit e st) = keys_ok st" "keys_ok (set_place i p st) = keys_ok st" "keys_ok (wake_all st) = keys_ok st"
  "keys_ok (drop_kill i st) = keys_ok st" "keys_ok (set_stage i k st) = keys_ok st" "keys_ok (collect i st) = keys_ok st"
  "keys_ok (signal_group i pg sg st) = keys_ok st"
  by (auto simp: keys_ok_def sup_emit_def set_place_def wake_all_def drop_kill_def set_stage_def collect_def
      signal_group_def split: option.split)

lemma keys_ok_drop [sup_view]: "keys_ok st \<Longrightarrow> keys_ok (deregister i st)" "keys_ok st \<Longrightarrow> keys_ok (drop_entry i st)"
  by (simp_all add: keys_ok_def deregister_def wake_all_def drop_entry_def distinct_delete)

lemma keys_ok_signals [sup_view]:
  "keys_ok (fold (\<lambda>(i, e). signal_group i (en_pgid e) sg) xs st) = keys_ok st"
proof (induction xs arbitrary: st)
  case (Cons x xs)
  then show ?case by (cases x) (simp add: keys_ok_ops(7))
qed simp

lemma keys_ok_claim: "keys_ok st \<Longrightarrow> claim who i st = Some st' \<Longrightarrow> keys_ok st'"
  by (auto simp: claim_def keys_ok_def distinct_update split: option.splits if_splits)

lemma sup_invI:
  assumes "keys_ok st" "\<And>i. id_ok (sv_next_id st) i (entry_at st i) (kill_of st i) (ended st i)"
  shows "sup_inv st"
  using assms by (simp add: sup_inv_def keys_ok_def)

lemma sup_inv_keys: "sup_inv st \<Longrightarrow> keys_ok st"
  by (simp add: sup_inv_def keys_ok_def)

text \<open>An operation that changes no entry, no kill and no count.\<close>

lemma sup_inv_same:
  assumes "sup_inv st" "keys_ok st'" "sv_next_id st' = sv_next_id st" "entry_at st' = entry_at st" "kill_of st' = kill_of st"
    "ended st' = ended st"
  shows "sup_inv st'"
  by (rule sup_invI) (use assms sup_invD in auto)

lemma sup_inv_quiet:
  assumes "sup_inv st"
  shows "sup_inv (set_place i p st)" "sup_inv (collect i st)" "sup_inv (signal_group i pg sg st)"
  by (rule sup_inv_same[OF assms]; simp add: sup_view sup_inv_keys[OF assms])+

lemma claim_inv:
  assumes inv: "sup_inv st" and c: "claim who i st = Some st'"
  shows "sup_inv st'"
proof -
  obtain e where e: "entry_at st i = Some e" "\<not> en_claimed e" "entry_at st' = (entry_at st)(i \<mapsto> e\<lparr> en_claimed := True \<rparr>)"
    "kill_of st' = (kill_of st)(i \<mapsto> (who, en_pgid e, Claimed))" "sv_next_id st' = sv_next_id st" "ended st' = ended st"
    using claim_view[OF c] by metis
  show ?thesis
  proof (rule sup_invI)
    show "keys_ok st'" by (rule keys_ok_claim[OF sup_inv_keys[OF inv] c])
    show "id_ok (sv_next_id st') j (entry_at st' j) (kill_of st' j) (ended st' j)" for j
      using sup_invD[OF inv, of j] e by (auto simp: id_ok_def)
  qed
qed

lemma set_stage_inv:
  assumes inv: "sup_inv st" and k: "kill_of st i \<noteq> None"
  shows "sup_inv (set_stage i k' st)"
proof (rule sup_invI)
  show "keys_ok (set_stage i k' st)" using sup_inv_keys[OF inv] by (simp add: sup_view)
  show "id_ok (sv_next_id (set_stage i k' st)) j (entry_at (set_stage i k' st) j) (kill_of (set_stage i k' st) j)
      (ended (set_stage i k' st) j)" for j
    using sup_invD[OF inv, of j] k by (cases "j = i") (simp_all add: id_ok_def sup_view)
qed

text \<open>An entry leaves, with or without its end being reported, and its kill with it.\<close>

lemma leave_inv:
  assumes inv: "sup_inv st" and keys: "keys_ok st'" and v: "sv_next_id st' = sv_next_id st"
    "entry_at st' = (entry_at st)(i := None)" "kill_of st' = kill_of st \<or> kill_of st' = (kill_of st)(i := None)"
    "ended st' = ended st \<or> entry_at st i \<noteq> None \<and> ended st' = (ended st)(i := Suc (ended st i))"
  shows "sup_inv st'"
proof (rule sup_invI[OF keys])
  fix j
  show "id_ok (sv_next_id st') j (entry_at st' j) (kill_of st' j) (ended st' j)"
    using sup_invD[OF inv, of j] v by (cases "j = i") (auto simp: id_ok_def)
qed

lemma end_kill_inv:
  assumes inv: "sup_inv st"
  shows "sup_inv (end_kill i who st)"
proof (cases "entry_at st i")
  case None
  then have "entry_at st = (entry_at st)(i := None)" by auto
  then show ?thesis using None sup_inv_keys[OF inv]
    by (intro leave_inv[OF inv, of _ i]) (auto simp: end_kill_def sup_view)
next
  case (Some e)
  show ?thesis using Some sup_inv_keys[OF inv]
    by (intro leave_inv[OF inv, of _ i]) (cases who; simp add: end_kill_def sup_view)+
qed

lemma finish_inv: "sup_inv st \<Longrightarrow> sup_inv (finish i code st)"
  using leave_inv[of st "sup_emit (Finished i code) (deregister i st)" i] sup_inv_keys[of st]
  by (auto simp: finish_def sup_view split: option.split)

lemma deregister_inv: "sup_inv st \<Longrightarrow> sup_inv (deregister i st)"
  by (rule leave_inv[of st _ i]) (simp_all add: sup_view sup_inv_keys)

lemma force_claimed_inv:
  assumes inv: "sup_inv st"
  shows "sup_inv (force_claimed i pgid st)"
proof -
  let ?s = "signal_group i pgid sigkill st"
  note s = sup_inv_quiet(3)[OF inv, of i pgid sigkill]
  show ?thesis
  proof (cases "entry_at ?s i")
    case None
    then have "entry_at ?s = (entry_at ?s)(i := None)" by auto
    then show ?thesis using None sup_inv_keys[OF s]
      by (intro leave_inv[OF s, of _ i]) (auto simp: force_claimed_def Let_def sup_view)
  next
    case (Some e)
    then show ?thesis using sup_inv_keys[OF s]
      by (intro leave_inv[OF s, of _ i]) (simp_all add: force_claimed_def Let_def sup_view)
  qed
qed

lemma cancel_wait_inv:
  assumes inv: "sup_inv st"
  shows "sup_inv (cancel_wait i st)"
proof -
  have c: "sup_inv st'" if "claim who i st = Some st'" for who st' by (rule claim_inv[OF inv that])
  show ?thesis using force_claimed_inv[OF inv] force_claimed_inv[OF c] inv
    by (auto simp: cancel_wait_def split: option.split claimer.split kill_stage.split)
qed

lemma wait_deadline_inv:
  assumes inv: "sup_inv st"
  shows "sup_inv (wait_deadline i out elapsed st)"
  using sup_inv_quiet(1)[OF inv] claim_inv[OF inv] sup_inv_quiet(1)[OF claim_inv[OF inv]]
  by (auto simp: wait_deadline_def split: option.split)

section \<open>The sweep and the spawn\<close>

lemma map_of_filter_keys:
  "distinct (map fst xs) \<Longrightarrow> map_of (map (\<lambda>(i, e). (i, f e)) (filter (\<lambda>(i, e). P e) xs)) i
     = (case map_of xs i of Some e \<Rightarrow> if P e then Some (f e) else None | None \<Rightarrow> None)"
proof (induction xs)
  case (Cons x xs)
  obtain j e where x: "x = (j, e)" by fastforce
  have "j \<notin> fst ` set xs" using Cons.prems x by simp
  then have "map_of (map (\<lambda>(i, e). (i, f e)) (filter (\<lambda>(i, e). P e) xs)) j = None"
    by (force simp: map_of_eq_None_iff image_iff)
  then show ?case using Cons x by (auto split: option.splits)
qed simp

lemma map_of_map_entry: "map_of (map (\<lambda>(i, e). (i, f e)) xs) i = map_option f (map_of xs i)"
  by (induction xs) auto

text \<open>What the first pass does to each id: an entry that is reapable and overdue is claimed, and only
  those.\<close>

lemma sweep_view:
  assumes "keys_ok st"
  shows "entry_at (sweep_mark now st) i
      = map_option (\<lambda>e. if reapable e \<and> overdue now e then e\<lparr> en_claimed := True \<rparr> else e) (entry_at st i)"
    "kill_of (sweep_mark now st) i = (case entry_at st i of
       Some e \<Rightarrow> if reapable e \<and> overdue now e then Some (ByReaper (now - en_started e), en_pgid e, Claimed) else kill_of st i
     | None \<Rightarrow> kill_of st i)"
    "sv_next_id (sweep_mark now st) = sv_next_id st" "ended (sweep_mark now st) = ended st" "keys_ok (sweep_mark now st)"
proof -
  note d = assms[unfolded keys_ok_def]
  show "entry_at (sweep_mark now st) i
      = map_option (\<lambda>e. if reapable e \<and> overdue now e then e\<lparr> en_claimed := True \<rparr> else e) (entry_at st i)"
    by (simp add: sweep_mark_def Let_def entry_at_def map_of_map_entry)
  show "kill_of (sweep_mark now st) i = (case entry_at st i of
       Some e \<Rightarrow> if reapable e \<and> overdue now e then Some (ByReaper (now - en_started e), en_pgid e, Claimed) else kill_of st i
     | None \<Rightarrow> kill_of st i)"
    using map_of_filter_keys[OF d, of "\<lambda>e. (ByReaper (now - en_started e), en_pgid e, Claimed)"
        "\<lambda>e. reapable e \<and> overdue now e" i]
    by (auto simp: sweep_mark_def Let_def sweep_victims_def kill_of_def entry_at_def map_add_def split: option.splits)
  show "keys_ok (sweep_mark now st)"
    using d by (simp add: keys_ok_def sweep_mark_def Let_def comp_def case_prod_unfold)
qed (simp_all add: sweep_mark_def Let_def ended_def fun_eq_iff)

lemma sweep_mark_inv:
  assumes inv: "sup_inv st"
  shows "sup_inv (sweep_mark now st)"
proof (rule sup_invI)
  note v = sweep_view[OF sup_inv_keys[OF inv]]
  show "keys_ok (sweep_mark now st)" by (rule v(5))
  show "id_ok (sv_next_id (sweep_mark now st)) i (entry_at (sweep_mark now st) i) (kill_of (sweep_mark now st) i)
      (ended (sweep_mark now st) i)" for i
    using sup_invD[OF inv, of i] unfolding v
    by (cases "entry_at st i") (auto simp: id_ok_def reapable_def)
qed

lemma spawn_registered_inv:
  assumes inv: "sup_inv st"
  shows "sup_inv (spawn_registered info pgid deadline now st)"
proof (rule sup_invI)
  let ?st = "spawn_registered info pgid deadline now st"
  show "keys_ok ?st" using sup_inv_keys[OF inv]
    by (simp add: keys_ok_def spawn_registered_def Let_def sup_emit_def wake_all_def set_place_def distinct_update)
  have v: "sv_next_id ?st = Suc (sv_next_id st)" "kill_of ?st = kill_of st" "ended ?st = ended st"
    "\<exists>e. entry_at ?st = (entry_at st)(sv_next_id st \<mapsto> e) \<and> \<not> en_claimed e"
    by (auto simp: spawn_registered_def Let_def sup_emit_def wake_all_def set_place_def kill_of_def ended_def
        entry_at_def fun_eq_iff update_conv intro!: exI)
  then show "id_ok (sv_next_id ?st) i (entry_at ?st i) (kill_of ?st i) (ended ?st i)" for i
    using sup_invD[OF inv, of i] by (cases "i = sv_next_id st") (auto simp: id_ok_def)
qed

lemma retime_inv:
  assumes inv: "sup_inv st"
  shows "sup_inv (snd (retime i deadline now st))"
proof (cases "entry_at st i")
  case (Some e)
  show ?thesis
  proof (cases "en_claimed e")
    case False
    let ?st = "snd (retime i deadline now st)"
    have v: "sv_next_id ?st = sv_next_id st" "kill_of ?st = kill_of st" "ended ?st = ended st" "keys_ok ?st"
      "\<exists>e'. entry_at ?st = (entry_at st)(i \<mapsto> e') \<and> \<not> en_claimed e'"
      using Some False sup_inv_keys[OF inv]
      by (auto simp: retime_def wake_all_def kill_of_def ended_def keys_ok_def entry_at_def fun_eq_iff update_conv
          distinct_update intro!: exI)
    show ?thesis
    proof (rule sup_invI[OF v(4)])
      show "id_ok (sv_next_id ?st) j (entry_at ?st j) (kill_of ?st j) (ended ?st j)" for j
        using sup_invD[OF inv, of j] v Some False by (cases "j = i") (auto simp: id_ok_def)
    qed
  qed (use Some inv in \<open>simp add: retime_def\<close>)
qed (use inv in \<open>simp add: retime_def\<close>)

section \<open>Every step\<close>

lemma sup_exec_inv:
  assumes inv: "sup_inv st" and ex: "sup_exec l st = Some st'"
  shows "sup_inv st'"
proof (cases l)
  case (TerminateStep i)
  then show ?thesis using ex inv claim_inv[OF inv] by (auto split: option.splits)
next
  case (TermStep i)
  then obtain who pg where k: "kill_of st i = Some (who, pg, Claimed)"
    "st' = set_stage i (who, pg, TermSent) (signal_group i pg sigterm st)"
    using ex by (auto split: option.splits kill_stage.splits)
  then show ?thesis using set_stage_inv[OF sup_inv_quiet(3)[OF inv]] by (simp add: sup_view)
next
  case (KillStep i)
  then obtain who pg where k: "kill_of st i = Some (who, pg, TermSent)"
    "st' = set_stage i (who, pg, KillSent) (signal_group i pg sigkill st)"
    using ex by (auto split: option.splits kill_stage.splits)
  then show ?thesis using set_stage_inv[OF sup_inv_quiet(3)[OF inv]] by (simp add: sup_view)
next
  case (EndStep i)
  then show ?thesis using ex end_kill_inv[OF inv] sup_inv_quiet(1)[OF end_kill_inv[OF inv]]
    by (auto simp: Let_def split: option.splits kill_stage.splits if_splits)
next
  case (ShutdownStep sg)
  then have "st' = fold (\<lambda>(i, e). signal_group i (en_pgid e) sg) (sv_registry st) st" using ex by simp
  then show ?thesis by (intro sup_inv_same[OF inv]) (simp_all add: sup_view sup_inv_keys[OF inv])
qed (use ex inv spawn_registered_inv[OF inv] retime_inv[OF inv] sweep_mark_inv[OF inv] sup_inv_quiet[OF inv] sup_inv_quiet(1)[OF cancel_wait_inv[OF inv]]
      cancel_wait_inv[OF inv] wait_deadline_inv[OF inv] sup_inv_quiet(1)[OF deregister_inv[OF inv]] sup_inv_quiet(1)[OF finish_inv[OF inv]]
      sup_inv_quiet(1)[OF sup_inv_quiet(2)[OF finish_inv[OF inv]]]
    in \<open>auto split: if_splits child_place.splits\<close>)

lemma sup_reaches_inv: "sup_reaches ls st \<Longrightarrow> sup_inv st"
proof (induction rule: sup_reaches.induct)
  case sup_init
  then show ?case
    by (simp add: sup_inv_def id_ok_def supervisor_new_def entry_at_def kill_of_def ended_def)
next
  case (sup_next ls st l st')
  then show ?case using sup_exec_inv by blast
qed


fun sup_run :: "sup_label list \<Rightarrow> supervisor \<Rightarrow> supervisor option" where
  "sup_run [] st = Some st"
| "sup_run (l # ls) st = (case sup_exec l st of None \<Rightarrow> None | Some st' \<Rightarrow> sup_run ls st')"

lemma sup_run_reaches:
  "sup_reaches past st \<Longrightarrow> sup_run ls st = Some st' \<Longrightarrow> sup_reaches (past @ ls) st'"
proof (induction ls arbitrary: past st)
  case (Cons l ls)
  then obtain st1 where l: "sup_exec l st = Some st1" "sup_run ls st1 = Some st'" by (auto split: option.splits)
  from Cons.IH[OF sup_next[OF Cons.prems(1) l(1)] l(2)] show ?case by simp
qed simp

text \<open>The three steps of a kill, from its stage on.\<close>

fun kill_steps :: "kill_stage \<Rightarrow> nat \<Rightarrow> sup_label list" where
  "kill_steps Claimed i = [TermStep i, KillStep i, EndStep i]"
| "kill_steps TermSent i = [KillStep i, EndStep i]"
| "kill_steps KillSent i = [EndStep i]"

lemma end_kill_view:
  assumes "entry_at st i = Some e"
  shows "entry_at (end_kill i who st) i = None" "ended (end_kill i who st) i = Suc (ended st i)"
    "kill_of (end_kill i who st) i = None"
  using assms by (cases who; simp add: end_kill_def sup_view)+

lemma end_step_ends:
  assumes "kill_of st i = Some (who, pg, KillSent)" "entry_at st i = Some e"
  shows "\<exists>st'. sup_run [EndStep i] st = Some st' \<and> entry_at st' i = None \<and> ended st' i = Suc (ended st i) \<and> kill_of st' i = None"
  using assms end_kill_view[OF assms(2), of who] by (simp add: Let_def sup_view)

lemma kill_steps_end:
  assumes "kill_of st i = Some (who, pg, stage)" "entry_at st i = Some e"
  shows "\<exists>st'. sup_run (kill_steps stage i) st = Some st' \<and> entry_at st' i = None \<and> ended st' i = Suc (ended st i)
    \<and> kill_of st' i = None"
proof -
  have late: "\<exists>st'. sup_run [KillStep i, EndStep i] s = Some st' \<and> entry_at st' i = None \<and> ended st' i = Suc (ended s i)
      \<and> kill_of st' i = None" if k: "kill_of s i = Some (who, pg, TermSent)" "entry_at s i = Some e" for s
  proof -
    let ?s = "set_stage i (who, pg, KillSent) (signal_group i pg sigkill s)"
    have "kill_of ?s i = Some (who, pg, KillSent)" "entry_at ?s i = Some e" "ended ?s i = ended s i"
      using k by (simp_all add: sup_view)
    from end_step_ends[OF this(1,2)] this(3) show ?thesis using k(1) by simp
  qed
  show ?thesis
  proof (cases stage)
    case Claimed
    let ?s = "set_stage i (who, pg, TermSent) (signal_group i pg sigterm st)"
    have "kill_of ?s i = Some (who, pg, TermSent)" "entry_at ?s i = Some e" "ended ?s i = ended st i"
      using assms by (simp_all add: sup_view)
    from late[OF this(1,2)] this(3) show ?thesis using assms(1) Claimed by simp
  next
    case TermSent
    then show ?thesis using late[OF _ assms(2)] assms(1) by simp
  next
    case KillSent
    then show ?thesis using end_step_ends[of st i who pg e] assms by simp
  qed
qed

theorem claimed_entry_ends:
  assumes "sup_reaches ls st" "entry_at st i = Some e" "en_claimed e"
  shows "\<exists>stage st'. sup_run (kill_steps stage i) st = Some st' \<and> entry_at st' i = None \<and> ended st' i = 1"
proof -
  have o: "kill_of st i \<noteq> None" "ended st i = 0"
    using sup_invD[OF sup_reaches_inv[OF assms(1)], of i] assms(2,3) by (auto simp: id_ok_def)
  then obtain who pg stage where "kill_of st i = Some (who, pg, stage)" by auto
  from kill_steps_end[OF this assms(2)] o(2) show ?thesis by auto
qed

section \<open>When the reaper wakes\<close>

lemma next_deadline_Min:
  "next_deadline now reg = (if filter reapable (map snd reg) = [] then None
     else Some (Min (remaining now ` set (filter reapable (map snd reg)))))"
proof (cases "map (remaining now) (filter reapable (map snd reg))")
  case (Cons d ds)
  have "fold min ds d = Min (set (d # ds))" by (simp only: Min.set_eq_fold)
  also have "set (d # ds) = remaining now ` set (filter reapable (map snd reg))" using Cons by (metis set_map)
  finally show ?thesis using Cons by (auto simp: next_deadline_def)
qed (simp add: next_deadline_def)

lemma remaining_overdue:
  "en_started e \<le> now \<Longrightarrow> now \<le> t \<Longrightarrow> now + remaining now e \<le> t \<longleftrightarrow> overdue t e"
  by (auto simp: remaining_def overdue_def)

text \<open>C4. the deadline the reaper sleeps for is exact.  A sweep at \<open>t\<close> finds something to claim if and
  only if the deadline computed at \<open>now\<close> has passed by \<open>t\<close>: it never oversleeps one and never wakes
  for nothing.\<close>

theorem reaper_wakes_exactly:
  assumes "\<forall>(i, e) \<in> set reg. en_started e \<le> now" "now \<le> t"
  shows "sweep_victims t reg \<noteq> [] \<longleftrightarrow> (\<exists>d. next_deadline now reg = Some d \<and> now + d \<le> t)"
proof -
  let ?es = "filter reapable (map snd reg)"
  have v: "sweep_victims t reg \<noteq> [] \<longleftrightarrow> (\<exists>e \<in> set ?es. overdue t e)"
    by (force simp: sweep_victims_def filter_empty_conv)
  have s: "en_started e \<le> now" if "e \<in> set ?es" for e using that assms(1) by auto
  show ?thesis
  proof (cases "?es = []")
    case True
    then show ?thesis unfolding v next_deadline_Min by simp
  next
    case False
    have "(\<exists>e \<in> set ?es. overdue t e) \<longleftrightarrow> (\<exists>r \<in> remaining now ` set ?es. now + r \<le> t)"
      using s remaining_overdue[OF _ assms(2)] by (auto simp del: set_filter)
    also have "\<dots> \<longleftrightarrow> now + Min (remaining now ` set ?es) \<le> t"
    proof
      assume "\<exists>r \<in> remaining now ` set ?es. now + r \<le> t"
      then obtain r where "r \<in> remaining now ` set ?es" "now + r \<le> t" by blast
      moreover have "Min (remaining now ` set ?es) \<le> r" by (rule Min_le) (use calculation in simp_all)
      ultimately show "now + Min (remaining now ` set ?es) \<le> t" by linarith
    next
      assume "now + Min (remaining now ` set ?es) \<le> t"
      moreover have "Min (remaining now ` set ?es) \<in> remaining now ` set ?es"
        using False by (intro Min_in) (simp_all only: finite_imageI List.finite_set image_is_empty set_empty not_False_eq_True)
      ultimately show "\<exists>r \<in> remaining now ` set ?es. now + r \<le> t" by blast
    qed
    finally show ?thesis unfolding v next_deadline_Min if_not_P[OF False] by blast
  qed
qed

section \<open>A run\<close>

definition sample_spawn :: sup_label where
  "sample_spawn = SpawnStep sample_orphan (Some 60) 5 0"

definition ran :: "sup_label list \<Rightarrow> supervisor" where
  "ran ls = the (sup_run ls supervisor_new)"

lemmas sup_eval = ran_def sample_spawn_def supervisor_new_def spawn_registered_def sup_emit_def wake_all_def set_place_def
  sweep_mark_def sweep_victims_def reapable_def overdue_def entry_at_def kill_of_def ended_def signal_group_def set_stage_def
  collect_def finish_def end_kill_def drop_kill_def drop_entry_def deregister_def own_kill_def claim_def Let_def

lemma ran_reaches: "sup_run ls supervisor_new \<noteq> None \<Longrightarrow> sup_reaches ls (ran ls)"
  using sup_run_reaches[OF sup_init, of ls "ran ls"] by (auto simp: ran_def)


theorem claimed_entry_ends_witness:
  "\<exists>stage st'. sup_run (kill_steps stage 1) (ran [sample_spawn, SweepStep 9]) = Some st' \<and> entry_at st' 1 = None \<and> ended st' 1 = 1"
proof -
  let ?ls = "[sample_spawn, SweepStep 9]"
  have r: "sup_run ?ls supervisor_new \<noteq> None" by (simp add: sup_eval)
  have "\<exists>e. entry_at (ran ?ls) 1 = Some e \<and> en_claimed e" by (simp add: sup_eval)
  then show ?thesis using claimed_entry_ends[OF ran_reaches[OF r]] by blast
qed

theorem reaper_wakes_exactly_witness:
  "sweep_victims 5 (sv_registry (ran [sample_spawn])) \<noteq> [] \<and> sweep_victims 4 (sv_registry (ran [sample_spawn])) = []"
proof -
  let ?reg = "sv_registry (ran [sample_spawn])"
  have h: "\<forall>(i, e) \<in> set ?reg. en_started e \<le> 2" by (simp add: sup_eval)
  have d: "next_deadline 2 ?reg = Some 3" by (simp add: sup_eval next_deadline_def remaining_def)
  show ?thesis using reaper_wakes_exactly[OF h, of 5] reaper_wakes_exactly[OF h, of 4] d by simp
qed

text \<open>The claim of the reaper does not keep the child: the waiter that lost it collects the status as
  soon as the process dies of the \<open>SIGTERM\<close>, and the \<open>SIGKILL\<close> at the end of the grace goes to a
  process group whose leader's pid is free by then.\<close>

lemma reaper_kills_after_collection:
  "\<exists>ls st. sup_reaches ls st \<and> Signal 1 sigkill True \<in> set (sv_trace st)"
proof -
  let ?ls = "[sample_spawn, WaitStep 1 False, SweepStep 9, TermStep 1, ExitStep 1 None, KillStep 1]"
  have r: "sup_run ?ls supervisor_new \<noteq> None" by (simp add: sup_eval)
  have "Signal 1 sigkill True \<in> set (sv_trace (ran ?ls))" by (simp add: sup_eval)
  then show ?thesis using ran_reaches[OF r] by blast
qed

text \<open>A waiter that wins its own claim in \<open>wait_status\<close> does keep it: nothing collects the status
  between its claim and its last signal.\<close>

lemma own_kill_keeps_child:
  assumes "own_kill st i" "sv_place st i = InWait out" "i \<notin> set (sv_collected st)" "sup_exec l st = Some st'"
    and "sv_place st' i = InWait out"
  shows "i \<notin> set (sv_collected st')"
proof -
  have c: "sv_collected (sup_emit e s) = sv_collected s" "sv_collected (wake_all s) = sv_collected s"
    "sv_collected (set_place j p s) = sv_collected s" "sv_collected (deregister j s) = sv_collected s"
    "sv_collected (drop_entry j s) = sv_collected s" "sv_collected (drop_kill j s) = sv_collected s"
    "sv_collected (set_stage j k s) = sv_collected s" "sv_collected (signal_group j pg sg s) = sv_collected s"
    "sv_collected (sweep_mark now s) = sv_collected s" "sv_collected (snd (retime j d now s)) = sv_collected s"
    "sv_collected (spawn_registered info pg d now s) = sv_collected s" "sv_collected (finish j code s) = sv_collected s"
    "sv_collected (end_kill j who s) = sv_collected s" "sv_collected (force_claimed j pg s) = sv_collected s"
    "sv_collected (collect j s) = j # sv_collected s" for e s j p k pg sg now d info code who
    by (auto simp: sup_emit_def wake_all_def set_place_def deregister_def drop_entry_def drop_kill_def set_stage_def
        signal_group_def sweep_mark_def retime_def spawn_registered_def finish_def end_kill_def force_claimed_def
        collect_def Let_def split: option.split claimer.split)
  have cl: "claim who j s = Some s' \<Longrightarrow> sv_collected s' = sv_collected s" for who j s s'
    by (auto simp: claim_def split: option.splits if_splits)
  have sg: "sv_collected (fold (\<lambda>(j, e). signal_group j (en_pgid e) sig) xs s) = sv_collected s" for sig xs s
    by (induction xs arbitrary: s) (auto simp: c)
  have cw: "sv_collected (cancel_wait j s) = sv_collected s" "sv_collected (wait_deadline j b el s) = sv_collected s" for j s b el
    by (auto simp: cancel_wait_def wait_deadline_def c cl split: option.split claimer.split kill_stage.split)
  show ?thesis using assms
    by (cases l) (auto simp: c cl sg cw Let_def split: option.splits kill_stage.splits child_place.splits if_splits)
qed

end
