(* ===== verification/Memory_Record.thy ===== *)
theory Memory_Record
  imports Prelude
begin

text \<open>
  One remembered fact and its text conventions (\<open>dotagent-memory/src/record.rs\<close>), and the term
  extraction of recall (\<open>score.rs\<close>).  A fact is a block whose text carries the statement and its
  \<open>[[topic]]\<close> links.  Unicode tables for non-ASCII characters are a parameter.
\<close>

record unicode =
  uc_alnum :: "nat \<Rightarrow> bool"
  uc_lower :: "nat \<Rightarrow> rstr"
  uc_upper :: "nat \<Rightarrow> rstr"

definition alnum :: "unicode \<Rightarrow> nat \<Rightarrow> bool" where
  "alnum u c = (if c < 128 then is_alnum_c c else uc_alnum u c)"

definition lower :: "unicode \<Rightarrow> nat \<Rightarrow> rstr" where
  "lower u c = (if c < 128 then [if is_upper_c c then c + 32 else c] else uc_lower u c)"

definition upper :: "unicode \<Rightarrow> nat \<Rightarrow> rstr" where
  "upper u c = (if c < 128 then [if is_lower_c c then c - 32 else c] else uc_upper u c)"

section \<open>Records\<close>

record provenance =
  pv_agent :: "rstr option"
  pv_source :: "rstr option"
  pv_session :: "rstr option"

definition no_provenance :: provenance where
  "no_provenance = \<lparr> pv_agent = None, pv_source = None, pv_session = None \<rparr>"

definition with_session :: "rstr \<Rightarrow> provenance \<Rightarrow> provenance" where
  "with_session session p = p\<lparr> pv_session := (if trim session = [] then None else Some session) \<rparr>"

record memory =
  me_id :: rstr
  me_date :: rstr
  me_text :: rstr
  me_topics :: "rstr list"
  me_provenance :: provenance
  me_seen :: nat
  me_superseded_by :: "rstr option"

definition is_superseded :: "memory \<Rightarrow> bool" where
  "is_superseded mm \<longleftrightarrow> me_superseded_by mm \<noteq> None"

section \<open>Dates\<close>

definition is_iso_shape :: "rstr \<Rightarrow> bool" where
  "is_iso_shape b \<longleftrightarrow> length b = 10 \<and> b ! 4 = 45 \<and> b ! 7 = 45
     \<and> list_all (\<lambda>i. i = 4 \<or> i = 7 \<or> is_digit_c (b ! i)) [0..<10]"

definition is_journal_slug :: "rstr \<Rightarrow> bool" where
  "is_journal_slug slug = is_iso_shape slug"

text \<open>\<open>prev\<close> is the character before the position, when there is one.\<close>

definition is_iso_date_at :: "nat option \<Rightarrow> rstr \<Rightarrow> bool" where
  "is_iso_date_at prev s \<longleftrightarrow> is_iso_shape (take 10 s)
     \<and> (case prev of None \<Rightarrow> True | Some c \<Rightarrow> \<not> (is_digit_c c \<or> c = 45 \<or> c = 46 \<or> c = 91))
     \<and> (case drop 10 s of [] \<Rightarrow> True
        | c # cs \<Rightarrow> if is_digit_c c \<or> c = 45 \<or> c = 93 then False
            else if c = 46 then (case cs of d # _ \<Rightarrow> \<not> is_digit_c d | [] \<Rightarrow> True) else True)"

text \<open>\<open>str::find\<close> and \<open>str::rfind\<close> of a pattern, as the text before it and the text after it.\<close>

fun split_at_str :: "rstr \<Rightarrow> rstr \<Rightarrow> (rstr \<times> rstr) option" where
  "split_at_str p s = (case strip_prefix p s of
     Some r \<Rightarrow> Some ([], r)
   | None \<Rightarrow> (case s of [] \<Rightarrow> None | c # cs \<Rightarrow> map_option (\<lambda>(a, b). (c # a, b)) (split_at_str p cs)))"

declare split_at_str.simps [simp del]

definition rsplit_at_str :: "rstr \<Rightarrow> rstr \<Rightarrow> (rstr \<times> rstr) option" where
  "rsplit_at_str p s = map_option (\<lambda>(a, b). (rev b, rev a)) (split_at_str (rev p) (rev s))"

lemma split_at_str_eq: "split_at_str p s = Some (a, b) \<Longrightarrow> s = a @ p @ b"
proof (induction p s arbitrary: a b rule: split_at_str.induct)
  case (1 p s)
  show ?case
  proof (cases "strip_prefix p s")
    case None
    then obtain c cs a' where "s = c # cs" "split_at_str p cs = Some (a', b)" "a = c # a'"
      using 1(2) by (subst (asm) split_at_str.simps) (auto split: list.splits)
    then show ?thesis using 1(1)[OF None] by simp
  next
    case (Some r)
    have "split_at_str p s = Some ([], r)" by (subst split_at_str.simps) (simp add: Some)
    then show ?thesis using 1(2) Some by (simp add: strip_prefix_Some)
  qed
qed

abbreviation open_link :: rstr where "open_link \<equiv> [91, 91]"
abbreviation close_link :: rstr where "close_link \<equiv> [93, 93]"

text \<open>\<open>link_dates\<close>: an existing link is copied whole, a bare date is wrapped.\<close>

function link_dates_from :: "nat option \<Rightarrow> rstr \<Rightarrow> rstr" where
  "link_dates_from prev s = (case s of [] \<Rightarrow> []
     | c # cs \<Rightarrow>
         (case (case strip_prefix open_link s of Some r \<Rightarrow> split_at_str close_link r | None \<Rightarrow> None) of
            Some (inner, rest) \<Rightarrow> open_link @ inner @ close_link @ link_dates_from (Some 93) rest
          | None \<Rightarrow>
              if is_iso_date_at prev s
              then open_link @ take 10 s @ close_link @ link_dates_from (Some (s ! 9)) (drop 10 s)
              else c # link_dates_from (Some c) cs))"
  by pat_completeness auto

termination
proof (relation "measure (\<lambda>(prev, s). length s)")
  fix prev :: "nat option" and s :: rstr and c cs x inner rest
  assume s: "s = c # cs"
    and x: "(case strip_prefix open_link s of Some r \<Rightarrow> split_at_str close_link r | None \<Rightarrow> None) = Some x" "(inner, rest) = x"
  then obtain r where "strip_prefix open_link s = Some r" "split_at_str close_link r = Some (inner, rest)"
    by (auto split: option.splits)
  then show "((Some 93, rest), (prev, s)) \<in> measure (\<lambda>(prev, s). length s)"
    using split_at_str_eq[of close_link r inner rest] by (auto simp: strip_prefix_Some)
qed auto

declare link_dates_from.simps [simp del]

definition link_dates :: "rstr \<Rightarrow> rstr" where
  "link_dates text = link_dates_from None text"

definition block_text :: "rstr \<Rightarrow> rstr list \<Rightarrow> rstr" where
  "block_text text topics = (let t = link_dates (trim text) in
     if topics = [] then t
     else t @ [32] @ join [32] (map (\<lambda>s. open_link @ s @ close_link) topics))"

section \<open>Links\<close>

definition push_unique :: "rstr list \<Rightarrow> rstr \<Rightarrow> rstr list" where
  "push_unique topics link = (if link \<noteq> [] \<and> link \<notin> set topics then topics @ [link] else topics)"

definition collapse_whitespace :: "rstr \<Rightarrow> rstr" where
  "collapse_whitespace s = join [32] (split_ws s)"

definition ends_with :: "rstr \<Rightarrow> rstr \<Rightarrow> bool" where
  "ends_with p s = starts_with (rev p) (rev s)"

definition contains_str :: "rstr \<Rightarrow> rstr \<Rightarrow> bool" where
  "contains_str p s \<longleftrightarrow> split_at_str p s \<noteq> None"

lemma rsplit_at_str_eq: "rsplit_at_str p s = Some (a, b) \<Longrightarrow> s = a @ p @ b"
proof -
  assume "rsplit_at_str p s = Some (a, b)"
  then have "split_at_str (rev p) (rev s) = Some (rev b, rev a)" by (auto simp: rsplit_at_str_def)
  from split_at_str_eq[OF this] have "rev (rev s) = rev (rev b @ rev p @ rev a)" by simp
  then show ?thesis by simp
qed

lemma length_trim_end: "length (trim_end s) \<le> length s"
  unfolding trim_end_def by (simp add: length_dropWhile_le[of is_ws "rev s", simplified])

text \<open>\<open>str::replace\<close>, for a pattern that is not empty.\<close>

function replace_str :: "rstr \<Rightarrow> rstr \<Rightarrow> rstr \<Rightarrow> rstr" where
  "replace_str p r s = (if p = [] then s
     else case split_at_str p s of None \<Rightarrow> s | Some (a, b) \<Rightarrow> a @ r @ replace_str p r b)"
  by pat_completeness auto
termination
  by (relation "measure (\<lambda>(p, r, s). length s)") (auto dest!: split_at_str_eq)

declare replace_str.simps [simp del]

text \<open>The trailing run: what is left of the text, and the links in their order.\<close>

function peel :: "rstr \<Rightarrow> rstr list \<Rightarrow> rstr \<times> rstr list" where
  "peel head trailing = (if \<not> ends_with close_link head then (head, trailing)
     else case rsplit_at_str open_link head of
       None \<Rightarrow> (head, trailing)
     | Some (before, after) \<Rightarrow>
         let link = trim (take (length after - 2) after)
         in if contains_str open_link link \<or> contains_str close_link link then (head, trailing)
            else if is_journal_slug link then (head, trailing)
            else peel (trim_end before) (link # trailing))"
  by pat_completeness auto

termination
proof (relation "measure (\<lambda>(head, trailing). length head)")
  fix head :: rstr and trailing x before after link
  assume "rsplit_at_str open_link head = Some x" "(before, after) = x"
  then have "length before < length head" using rsplit_at_str_eq[of open_link head before after] by auto
  then show "((trim_end before, link # trailing), (head, trailing)) \<in> measure (\<lambda>(head, trailing). length head)"
    using length_trim_end[of before] by simp
qed auto

declare peel.simps [simp del]

text \<open>The links inside the statement: their text stays, and they are topics.\<close>

function inline_links :: "rstr \<Rightarrow> rstr list \<Rightarrow> rstr \<times> rstr list" where
  "inline_links rest topics = (case split_at_str open_link rest of
     None \<Rightarrow> (rest, topics)
   | Some (pre, r1) \<Rightarrow> (case split_at_str close_link r1 of
       None \<Rightarrow> (rest, topics)
     | Some (inner, r2) \<Rightarrow> (case inline_links r2 (push_unique topics (trim inner)) of
         (st, ts) \<Rightarrow> (pre @ trim inner @ st, ts))))"
  by pat_completeness auto

termination
proof (relation "measure (\<lambda>(rest, topics). length rest)")
  fix rest :: rstr and topics x pre r1 y inner r2
  assume "split_at_str open_link rest = Some x" "(pre, r1) = x" "split_at_str close_link r1 = Some y" "(inner, r2) = y"
  then show "((r2, push_unique topics (trim inner)), (rest, topics)) \<in> measure (\<lambda>(rest, topics). length rest)"
    using split_at_str_eq[of open_link rest pre r1] split_at_str_eq[of close_link r1 inner r2] by auto
qed simp

declare inline_links.simps [simp del]

definition split_links :: "rstr \<Rightarrow> rstr \<times> rstr list" where
  "split_links text = (case peel (trim_end text) [] of (head, trailing) \<Rightarrow>
     case inline_links head [] of (st, topics) \<Rightarrow>
       (collapse_whitespace st, fold (\<lambda>l ts. push_unique ts l) trailing topics))"

section \<open>Keys and slugs\<close>

fun key_fold :: "unicode \<Rightarrow> rstr \<Rightarrow> bool \<Rightarrow> rstr \<Rightarrow> rstr" where
  "key_fold u out pending [] = out"
| "key_fold u out pending (c # cs) =
     (if alnum u c
      then key_fold u ((if pending \<and> out \<noteq> [] then out @ [32] else out) @ lower u c) False cs
      else key_fold u out True cs)"

definition dedup_key :: "unicode \<Rightarrow> rstr \<Rightarrow> rstr" where
  "dedup_key u text = key_fold u [] False (fst (split_links text))"

fun slug_fold :: "unicode \<Rightarrow> rstr \<Rightarrow> bool \<Rightarrow> rstr \<Rightarrow> rstr" where
  "slug_fold u out last_dash [] = out"
| "slug_fold u out last_dash (c # cs) =
     (if alnum u c then slug_fold u (out @ lower u c) False cs
      else if c = 47 then slug_fold u (out @ [47]) True cs
      else if \<not> last_dash then slug_fold u (out @ [45]) True cs
      else slug_fold u out last_dash cs)"

definition slugify :: "unicode \<Rightarrow> rstr \<Rightarrow> rstr" where
  "slugify u topic = rev (dropWhile (\<lambda>c. c = 45) (rev (slug_fold u [] True (trim topic))))"

text \<open>\<open>BTreeSet\<close> of strings orders by bytes, which is the order of code points.\<close>

fun insert_sorted :: "rstr \<Rightarrow> rstr list \<Rightarrow> rstr list" where
  "insert_sorted x [] = [x]"
| "insert_sorted x (y # ys) = (if x = y then y # ys
     else if lexordp (<) x y then x # y # ys else y # insert_sorted x ys)"

definition normalize_topics :: "unicode \<Rightarrow> rstr list \<Rightarrow> rstr list" where
  "normalize_topics u topics = fold insert_sorted (filter (\<lambda>s. s \<noteq> []) (map (slugify u) topics)) []"

definition title_for :: "unicode \<Rightarrow> rstr \<Rightarrow> rstr" where
  "title_for u slug = join [32] (map (\<lambda>w. case w of [] \<Rightarrow> [] | f # r \<Rightarrow> upper u f @ r)
     (filter (\<lambda>w. w \<noteq> []) (split_on 45 (last (split_on 47 slug)))))"

section \<open>Terms of a query\<close>

definition fold_accent :: "nat \<Rightarrow> nat" where
  "fold_accent c =
     (if c \<in> {0xE1, 0xE0, 0xE2, 0xE3, 0xE4, 0xE5} then 97
      else if c \<in> {0xE9, 0xE8, 0xEA, 0xEB} then 101
      else if c \<in> {0xED, 0xEC, 0xEE, 0xEF} then 105
      else if c \<in> {0xF3, 0xF2, 0xF4, 0xF5, 0xF6} then 111
      else if c \<in> {0xFA, 0xF9, 0xFB, 0xFC} then 117
      else if c = 0xE7 then 99
      else if c = 0xF1 then 110
      else if c = 0xFD \<or> c = 0xFF then 121
      else c)"

definition normalize_term :: "unicode \<Rightarrow> rstr \<Rightarrow> rstr" where
  "normalize_term u raw = (let folded = map fold_accent (concat (map (lower u) raw)) in
     case strip_suffix [115] folded of
       Some stem \<Rightarrow> if 4 \<le> length stem then stem else folded
     | None \<Rightarrow> folded)"

text \<open>\<open>str::split\<close> on a predicate.\<close>

fun split_pred :: "(nat \<Rightarrow> bool) \<Rightarrow> rstr \<Rightarrow> rstr list" where
  "split_pred P [] = [[]]"
| "split_pred P (c # cs) = (if P c then [] # split_pred P cs
     else case split_pred P cs of [] \<Rightarrow> [[c]] | p # ps \<Rightarrow> (c # p) # ps)"

definition stopwords :: "rstr list" where
  "stopwords = [
  lit ''para'', lit ''pra'', lit ''pelo'', lit ''pela'', lit ''com'', lit ''sem'', lit ''mas'', lit ''que'',
     lit ''porque'', lit ''quando'', lit ''onde'', lit ''como'', lit ''qual'', lit ''quais'', lit ''isso'',
     lit ''isto'', lit ''aquilo'', lit ''esse'', lit ''essa'', lit ''este'', lit ''esta'', lit ''dos'',
     lit ''das'', lit ''nos'', lit ''nas'', lit ''uma'', lit ''uns'', lit ''umas'', lit ''foi'', lit ''era'',
     lit ''ser'', lit ''sao'', [115, 227, 111], lit ''tem'', lit ''ter'', lit ''tudo'', lit ''todo'',
     lit ''toda'', lit ''mais'', lit ''menos'', lit ''muito'', lit ''voce'', [118, 111, 99, 234],
     lit ''meu'', lit ''minha'', lit ''seu'', lit ''sua'', [110, 227, 111], lit ''nao'', lit ''sim'',
     lit ''aqui'', lit ''ali'', lit ''hoje'', lit ''agora'', lit ''ainda'', [101, 110, 116, 227, 111],
     lit ''entao'', lit ''the'', lit ''and'', lit ''for'', lit ''with'', lit ''that'', lit ''this'',
     lit ''from'', lit ''was'', lit ''were'', lit ''are'', lit ''you'', lit ''your'', lit ''our'',
     lit ''his'', lit ''her'', lit ''their'', lit ''what'', lit ''when'', lit ''where'', lit ''which'',
     lit ''who'', lit ''how'', lit ''why'', lit ''all'', lit ''any'', lit ''can'', lit ''did'', lit ''does'',
     lit ''has'', lit ''have'', lit ''had'', lit ''not'', lit ''but'', lit ''its'', [105, 116, 39, 115],
     lit ''about'', lit ''into'', lit ''than'', lit ''then'', lit ''them'', lit ''they'', lit ''there'',
     lit ''here'', lit ''now'', lit ''just'', lit ''some'', lit ''such'', lit ''only'', lit ''over'',
     lit ''also'', lit ''been'', lit ''being'', lit ''will'', lit ''would'', lit ''should'', lit ''could'']"

definition is_stopword :: "rstr \<Rightarrow> bool" where
  "is_stopword token \<longleftrightarrow> token \<in> set stopwords"

fun collect_terms :: "rstr list \<Rightarrow> rstr list \<Rightarrow> rstr list" where
  "collect_terms [] out = out"
| "collect_terms (t # ts) out =
     (if length t < 3 \<or> is_stopword t \<or> t \<in> set out then collect_terms ts out
      else collect_terms ts (out @ [t]))"

definition terms :: "unicode \<Rightarrow> rstr \<Rightarrow> rstr list" where
  "terms u text = collect_terms (map (normalize_term u) (split_pred (\<lambda>c. \<not> alnum u c) text)) []"

end
