(* ===== verification/Memory_Store.thy ===== *)
theory Memory_Store
  imports Memory_Record "HOL-Library.Multiset"
begin

text \<open>
  The memory store (\<open>dotagent-memory/src/lib.rs\<close>) over an outl workspace.  outl is not part of the
  sources: its operations are the fields of \<open>outl\<close>, functions on a workspace \<open>'w\<close> that give a
  result and the workspace left behind, and what the store relies on is stated in
  \<open>Memory_Store_Runs\<close>.  Every operation of the store is a function on the workspace with the
  errors of \<open>MemoryError\<close> as values; what was written before an error stays written.
\<close>

section \<open>The workspace\<close>

datatype memory_error = NoWorkspace | OpenFailed rstr | WriteFailed rstr | EmptyMemory | MemoryNotFound rstr

datatype prop_value = PText rstr | PPageRef rstr | PTag rstr | PList

type_synonym node_id = nat

record 'w outl =
  ol_present :: "'w \<Rightarrow> bool"
  ol_init :: "'w \<Rightarrow> (rstr + unit) \<times> 'w"
  ol_open :: "'w \<Rightarrow> (rstr + unit) \<times> 'w"
  ol_root :: node_id
  ol_show :: "node_id \<Rightarrow> rstr"
  ol_rows :: "'w \<Rightarrow> (node_id \<times> node_id \<times> nat) list"
  ol_slug :: "'w \<Rightarrow> node_id \<Rightarrow> rstr option"
  ol_text :: "'w \<Rightarrow> node_id \<Rightarrow> rstr option"
  ol_props :: "'w \<Rightarrow> node_id \<Rightarrow> (rstr \<times> prop_value) list"
  ol_pages :: "'w \<Rightarrow> rstr list"
  ol_open_today :: "'w \<Rightarrow> (rstr + node_id) \<times> 'w"
  ol_open_page :: "rstr \<Rightarrow> rstr \<Rightarrow> 'w \<Rightarrow> (rstr + node_id) \<times> 'w"
  ol_append :: "node_id \<Rightarrow> rstr \<Rightarrow> 'w \<Rightarrow> (rstr + node_id) \<times> 'w"
  ol_edit :: "node_id \<Rightarrow> rstr \<Rightarrow> 'w \<Rightarrow> (rstr + unit) \<times> 'w"
  ol_delete :: "node_id \<Rightarrow> 'w \<Rightarrow> (rstr + unit) \<times> 'w"
  ol_set_prop :: "node_id \<Rightarrow> rstr \<Rightarrow> rstr \<Rightarrow> 'w \<Rightarrow> (rstr + unit) \<times> 'w"
  ol_project :: "node_id \<Rightarrow> 'w \<Rightarrow> (rstr + unit) \<times> 'w"

text \<open>An operation of the store, and the \<open>?\<close> operator between two of them.\<close>

type_synonym ('w, 'a) act = "'w \<Rightarrow> (memory_error + 'a) \<times> 'w"

definition give :: "'a \<Rightarrow> ('w, 'a) act" where
  "give x w = (Inr x, w)"

definition refuse :: "memory_error \<Rightarrow> ('w, 'a) act" where
  "refuse e w = (Inl e, w)"

definition seq :: "('w, 'a) act \<Rightarrow> ('a \<Rightarrow> ('w, 'b) act) \<Rightarrow> ('w, 'b) act" where
  "seq f g w = (case f w of (Inl e, w') \<Rightarrow> (Inl e, w') | (Inr x, w') \<Rightarrow> g x w')"

definition map_err :: "(rstr \<Rightarrow> memory_error) \<Rightarrow> ('w \<Rightarrow> (rstr + 'a) \<times> 'w) \<Rightarrow> ('w, 'a) act" where
  "map_err h f w = (case f w of (Inl e, w') \<Rightarrow> (Inl (h e), w') | (Inr x, w') \<Rightarrow> (Inr x, w'))"

lemma seq_Inr: "seq f g w = (Inr y, w2) \<longleftrightarrow> (\<exists>x w1. f w = (Inr x, w1) \<and> g x w1 = (Inr y, w2))"
  by (auto simp: seq_def split: prod.splits sum.splits)

lemma map_err_Inr: "map_err h f w = (Inr y, w1) \<longleftrightarrow> f w = (Inr y, w1)"
  by (auto simp: map_err_def split: prod.splits sum.splits)

lemma give_Inr: "give x w = (Inr y, w1) \<longleftrightarrow> y = x \<and> w1 = w"
  by (auto simp: give_def)

lemmas act_Inr = seq_Inr map_err_Inr give_Inr

definition open_ws :: "'w outl \<Rightarrow> ('w, unit) act" where
  "open_ws ol = map_err OpenFailed (ol_open ol)"

definition set_prop :: "'w outl \<Rightarrow> node_id \<Rightarrow> rstr \<Rightarrow> rstr \<Rightarrow> ('w, unit) act" where
  "set_prop ol n key v = map_err WriteFailed (ol_set_prop ol n key v)"

definition project :: "'w outl \<Rightarrow> node_id \<Rightarrow> ('w, unit) act" where
  "project ol page = map_err WriteFailed (ol_project ol page)"

text \<open>\<open>MemoryStore::open\<close> and \<open>open_or_init\<close>.\<close>

definition store_open :: "'w outl \<Rightarrow> ('w, unit) act" where
  "store_open ol w = (if \<not> ol_present ol w then (Inl NoWorkspace, w) else (Inr (), w))"

definition open_or_init :: "'w outl \<Rightarrow> ('w, unit) act" where
  "open_or_init ol w = (if \<not> ol_present ol w then map_err OpenFailed (ol_init ol) w else (Inr (), w))"

section \<open>Reading facts\<close>

definition key_agent :: rstr where "key_agent = lit ''agent''"
definition key_source :: rstr where "key_source = lit ''source''"
definition key_session :: rstr where "key_session = lit ''session''"
definition key_seen :: rstr where "key_seen = lit ''seen''"
definition key_last_seen :: rstr where "key_last_seen = lit ''last-seen''"
definition key_superseded_by :: rstr where "key_superseded_by = lit ''superseded-by''"

lemmas key_defs = key_agent_def key_source_def key_session_def key_seen_def key_last_seen_def key_superseded_by_def

fun prop_text :: "prop_value \<Rightarrow> rstr option" where
  "prop_text (PText s) = Some s"
| "prop_text (PPageRef s) = Some s"
| "prop_text (PTag s) = Some s"
| "prop_text PList = None"

definition u32_max :: nat where "u32_max = 2 ^ 32 - 1"

definition seen_of :: "rstr \<Rightarrow> nat" where
  "seen_of v = max 1 (case parse_u32 (trim v) of Some n \<Rightarrow> n | None \<Rightarrow> 1)"

definition apply_prop :: "rstr \<times> prop_value \<Rightarrow> memory \<Rightarrow> memory" where
  "apply_prop kv mm = (case prop_text (snd kv) of
     None \<Rightarrow> mm
   | Some v \<Rightarrow>
       if fst kv = key_agent then mm\<lparr> me_provenance := (me_provenance mm)\<lparr> pv_agent := Some v \<rparr> \<rparr>
       else if fst kv = key_source then mm\<lparr> me_provenance := (me_provenance mm)\<lparr> pv_source := Some v \<rparr> \<rparr>
       else if fst kv = key_session then mm\<lparr> me_provenance := (me_provenance mm)\<lparr> pv_session := Some v \<rparr> \<rparr>
       else if fst kv = key_seen then mm\<lparr> me_seen := seen_of v \<rparr>
       else if fst kv = key_superseded_by then mm\<lparr> me_superseded_by := Some v \<rparr>
       else mm)"

definition read_fact :: "'w outl \<Rightarrow> 'w \<Rightarrow> node_id \<Rightarrow> rstr \<Rightarrow> memory option" where
  "read_fact ol w node date =
     (let raw = (case ol_text ol w node of Some s \<Rightarrow> s | None \<Rightarrow> [])
      in if trim raw = [] then None
         else case split_links raw of (stated, topics) \<Rightarrow>
           if trim stated = [] \<and> topics = [] then None
           else Some (fold apply_prop (ol_props ol w node)
                  \<lparr> me_id = ol_show ol node, me_date = date, me_text = stated, me_topics = topics,
                    me_provenance = no_provenance, me_seen = 1, me_superseded_by = None \<rparr>))"

record fact =
  fa_node :: node_id
  fa_page :: node_id
  fa_memory :: memory

text \<open>\<open>children_index\<close>: the rows in the order of their position, grouped by parent.\<close>

definition children_of :: "'w outl \<Rightarrow> 'w \<Rightarrow> node_id \<Rightarrow> node_id list" where
  "children_of ol w parent =
     map fst (filter (\<lambda>r. fst (snd r) = parent) (sort_key (\<lambda>r. snd (snd r)) (ol_rows ol w)))"

text \<open>The recursion of the code goes down the tree; the fuel bounds its depth.\<close>

fun collect_blocks :: "'w outl \<Rightarrow> 'w \<Rightarrow> nat \<Rightarrow> node_id \<Rightarrow> node_id \<Rightarrow> rstr \<Rightarrow> fact list" where
  "collect_blocks ol w 0 page parent date = []"
| "collect_blocks ol w (Suc n) page parent date =
     concat (map (\<lambda>node.
       (case read_fact ol w node date of
          Some mm \<Rightarrow> [\<lparr> fa_node = node, fa_page = page, fa_memory = mm \<rparr>] | None \<Rightarrow> [])
       @ collect_blocks ol w n page node date) (children_of ol w parent))"

definition page_date :: "rstr \<Rightarrow> rstr" where
  "page_date slug = (if is_journal_slug slug then slug else [])"

definition scan :: "'w outl \<Rightarrow> 'w \<Rightarrow> fact list" where
  "scan ol w = concat (map (\<lambda>page_id. case ol_slug ol w page_id of
      None \<Rightarrow> []
    | Some slug \<Rightarrow> collect_blocks ol w (length (ol_rows ol w)) page_id page_id (page_date slug))
    (children_of ol w (ol_root ol)))"

definition find_by_key :: "unicode \<Rightarrow> 'w outl \<Rightarrow> 'w \<Rightarrow> rstr \<Rightarrow> fact option" where
  "find_by_key u ol w key = (if key = [] then None
     else find (\<lambda>f. \<not> is_superseded (fa_memory f) \<and> dedup_key u (me_text (fa_memory f)) = key) (scan ol w))"

definition find_by_id :: "'w outl \<Rightarrow> 'w \<Rightarrow> rstr \<Rightarrow> fact option" where
  "find_by_id ol w i = find (\<lambda>f. me_id (fa_memory f) = i) (scan ol w)"

section \<open>Writing facts\<close>

fun ensure_topic_pages :: "unicode \<Rightarrow> 'w outl \<Rightarrow> rstr list \<Rightarrow> ('w, unit) act" where
  "ensure_topic_pages u ol [] = give ()"
| "ensure_topic_pages u ol (slug # slugs) =
     (if is_journal_slug slug then ensure_topic_pages u ol slugs
      else seq (map_err WriteFailed (ol_open_page ol slug (title_for u slug))) (\<lambda>topic_id.
           seq (project ol topic_id) (\<lambda>_. ensure_topic_pages u ol slugs)))"

text \<open>The topics of a rewritten fact: \<open>extend\<close>, \<open>sort\<close>, \<open>dedup\<close>.\<close>

definition merge_topics :: "rstr list \<Rightarrow> rstr list \<Rightarrow> rstr list" where
  "merge_topics have_topics missing = fold insert_sorted (have_topics @ missing) []"

definition reinforce :: "unicode \<Rightarrow> 'w outl \<Rightarrow> rstr \<Rightarrow> fact \<Rightarrow> rstr list \<Rightarrow> ('w, memory) act" where
  "reinforce u ol today existing topics =
     (let mm = (fa_memory existing)\<lparr> me_seen := min u32_max (me_seen (fa_memory existing) + 1) \<rparr>;
          missing = filter (\<lambda>t. t \<notin> set (me_topics mm)) topics;
          mm = (if missing \<noteq> [] then mm\<lparr> me_topics := merge_topics (me_topics mm) missing \<rparr> else mm)
      in seq (if missing \<noteq> []
              then seq (ensure_topic_pages u ol (me_topics mm)) (\<lambda>_.
                map_err WriteFailed (ol_edit ol (fa_node existing) (block_text (me_text mm) (me_topics mm))))
              else give ()) (\<lambda>_.
         seq (set_prop ol (fa_node existing) key_seen (show_nat (me_seen mm))) (\<lambda>_.
         seq (set_prop ol (fa_node existing) key_last_seen today) (\<lambda>_.
         seq (project ol (fa_page existing)) (\<lambda>_. give mm)))))"

definition prop_given :: "rstr option \<Rightarrow> rstr option" where
  "prop_given v = (case v of Some s \<Rightarrow> if trim s = [] then None else Some (trim s) | None \<Rightarrow> None)"

definition write_prop :: "'w outl \<Rightarrow> node_id \<Rightarrow> rstr \<Rightarrow> rstr option \<Rightarrow> ('w, unit) act" where
  "write_prop ol node key v = (case prop_given v of Some s \<Rightarrow> set_prop ol node key s | None \<Rightarrow> give ())"

definition write_provenance :: "'w outl \<Rightarrow> node_id \<Rightarrow> provenance \<Rightarrow> ('w, unit) act" where
  "write_provenance ol node p =
     seq (write_prop ol node key_agent (pv_agent p)) (\<lambda>_.
     seq (write_prop ol node key_source (pv_source p)) (\<lambda>_.
     write_prop ol node key_session (pv_session p)))"

definition store_new :: "unicode \<Rightarrow> 'w outl \<Rightarrow> rstr \<Rightarrow> rstr \<Rightarrow> rstr list \<Rightarrow> provenance \<Rightarrow> ('w, memory) act" where
  "store_new u ol today stated topics p =
     seq (ensure_topic_pages u ol topics) (\<lambda>_.
     seq (map_err WriteFailed (ol_open_today ol)) (\<lambda>page_id.
     seq (map_err WriteFailed (ol_append ol page_id (block_text stated topics))) (\<lambda>node.
     seq (set_prop ol node key_seen (lit ''1'')) (\<lambda>_.
     seq (write_provenance ol node p) (\<lambda>_.
     seq (project ol page_id) (\<lambda>_.
     give \<lparr> me_id = ol_show ol node, me_date = today, me_text = stated, me_topics = topics,
            me_provenance = p, me_seen = 1, me_superseded_by = None \<rparr>))))))"

definition remember_with :: "unicode \<Rightarrow> 'w outl \<Rightarrow> rstr \<Rightarrow> rstr \<Rightarrow> rstr list \<Rightarrow> provenance \<Rightarrow> ('w, memory) act" where
  "remember_with u ol today raw topics p =
     (let stated = trim raw; slugs = normalize_topics u topics
      in if stated = [] then refuse EmptyMemory
         else seq (open_ws ol) (\<lambda>_ w. case find_by_key u ol w (dedup_key u stated) of
                Some existing \<Rightarrow> reinforce u ol today existing slugs w
              | None \<Rightarrow> store_new u ol today stated slugs p w))"

definition remember_fact :: "unicode \<Rightarrow> 'w outl \<Rightarrow> rstr \<Rightarrow> rstr \<Rightarrow> rstr list \<Rightarrow> ('w, memory) act" where
  "remember_fact u ol today raw topics = remember_with u ol today raw topics no_provenance"

definition supersede :: "unicode \<Rightarrow> 'w outl \<Rightarrow> rstr \<Rightarrow> rstr \<Rightarrow> rstr \<Rightarrow> rstr list \<Rightarrow> provenance \<Rightarrow> ('w, memory) act" where
  "supersede u ol today old_id raw topics p =
     (let stated = trim raw
      in if stated = [] then refuse EmptyMemory
         else seq (remember_with u ol today stated topics p) (\<lambda>fresh.
           if me_id fresh = old_id then give fresh
           else seq (open_ws ol) (\<lambda>_ w. case find_by_id ol w old_id of
                  None \<Rightarrow> (Inl (MemoryNotFound old_id), w)
                | Some target \<Rightarrow>
                    seq (set_prop ol (fa_node target) key_superseded_by (me_id fresh)) (\<lambda>_.
                    seq (project ol (fa_page target)) (\<lambda>_. give fresh)) w)))"

definition forget :: "'w outl \<Rightarrow> rstr \<Rightarrow> ('w, bool) act" where
  "forget ol i = seq (open_ws ol) (\<lambda>_ w. case find_by_id ol w i of
     None \<Rightarrow> (Inr False, w)
   | Some target \<Rightarrow> seq (map_err WriteFailed (ol_delete ol (fa_node target))) (\<lambda>_.
       seq (project ol (fa_page target)) (\<lambda>_. give True)) w)"

definition get_memory :: "'w outl \<Rightarrow> rstr \<Rightarrow> ('w, memory option) act" where
  "get_memory ol i = seq (open_ws ol) (\<lambda>_ w. (Inr (map_option fa_memory (find_by_id ol w i)), w))"

section \<open>Recall\<close>

text \<open>
  A candidate's score is computed with 32-bit floats.  What it is computed from is exact: the hits
  are halves (\<open>1.0\<close> for a term, \<open>0.5\<close> more for a topic) and counted here twice; how the float
  expression orders two candidates is the parameter \<open>ranking\<close>.
\<close>

record ranking =
  rk_score :: "nat \<Rightarrow> nat \<Rightarrow> int \<Rightarrow> nat \<Rightarrow> int"
  rk_baseline :: "int \<Rightarrow> nat \<Rightarrow> int"

definition hits2 :: "unicode \<Rightarrow> rstr list \<Rightarrow> memory \<Rightarrow> nat" where
  "hits2 u query_terms mm =
     (let body = terms u (me_text mm); topics = concat (map (terms u) (me_topics mm))
      in sum_list (map (\<lambda>t. (if t \<in> set body \<or> t \<in> set topics then 2 else 0) + (if t \<in> set topics then 1 else 0))
           query_terms))"

definition age_days :: "(rstr \<Rightarrow> int option) \<Rightarrow> int \<Rightarrow> rstr \<Rightarrow> int" where
  "age_days parse_day today date = (case parse_day date of None \<Rightarrow> 0 | Some day \<Rightarrow> today - day)"

text \<open>\<open>sort_by\<close> is stable: an element goes behind those that come before it.\<close>

fun place :: "('a \<Rightarrow> 'a \<Rightarrow> bool) \<Rightarrow> 'a \<Rightarrow> 'a list \<Rightarrow> 'a list" where
  "place before x [] = [x]"
| "place before x (y # ys) = (if before y x then y # place before x ys else x # y # ys)"

definition sort_by :: "('a \<Rightarrow> 'a \<Rightarrow> bool) \<Rightarrow> 'a list \<Rightarrow> 'a list" where
  "sort_by before xs = foldr (place before) xs []"

definition ranks_before :: "int \<times> memory \<Rightarrow> int \<times> memory \<Rightarrow> bool" where
  "ranks_before a b \<longleftrightarrow> fst b < fst a
     \<or> fst a = fst b \<and> (lexordp (<) (me_date (snd b)) (me_date (snd a))
        \<or> me_date (snd a) = me_date (snd b) \<and> lexordp (<) (me_text (snd a)) (me_text (snd b)))"

definition sort_by_score :: "(int \<times> memory) list \<Rightarrow> (int \<times> memory) list" where
  "sort_by_score scored = sort_by ranks_before scored"

definition live_memories :: "'w outl \<Rightarrow> 'w \<Rightarrow> memory list" where
  "live_memories ol w = filter (\<lambda>mm. \<not> is_superseded mm) (map fa_memory (scan ol w))"

definition recent :: "ranking \<Rightarrow> 'w outl \<Rightarrow> (rstr \<Rightarrow> int option) \<Rightarrow> int \<Rightarrow> nat \<Rightarrow> ('w, memory list) act" where
  "recent rk ol parse_day today limit = seq (open_ws ol) (\<lambda>_ w.
     (Inr (take limit (map snd (sort_by_score
        (map (\<lambda>mm. (rk_baseline rk (age_days parse_day today (me_date mm)) (me_seen mm), mm)) (live_memories ol w))))), w))"

definition recall :: "unicode \<Rightarrow> ranking \<Rightarrow> 'w outl \<Rightarrow> (rstr \<Rightarrow> int option) \<Rightarrow> int \<Rightarrow> rstr \<Rightarrow> nat \<Rightarrow> ('w, memory list) act" where
  "recall u rk ol parse_day today query limit =
     (let ts = terms u query
      in if ts = [] then (if trim query = [] then recent rk ol parse_day today limit else give [])
         else seq (open_ws ol) (\<lambda>_ w.
           (Inr (take limit (map snd (sort_by_score
              (map (\<lambda>mm. (rk_score rk (hits2 u ts mm) (length ts) (age_days parse_day today (me_date mm)) (me_seen mm), mm))
                (filter (\<lambda>mm. 0 < hits2 u ts mm) (live_memories ol w)))))), w)))"

definition newer_first :: "memory \<Rightarrow> memory \<Rightarrow> bool" where
  "newer_first a b \<longleftrightarrow> lexordp (<) (me_date b) (me_date a)"

definition recall_topic :: "unicode \<Rightarrow> 'w outl \<Rightarrow> rstr \<Rightarrow> ('w, memory list) act" where
  "recall_topic u ol topic = seq (open_ws ol) (\<lambda>_ w.
     (Inr (sort_by newer_first (filter (\<lambda>mm. slugify u topic \<in> set (me_topics mm)) (live_memories ol w))), w))"

record memory_stats =
  mt_live :: nat
  mt_superseded :: nat
  mt_reinforced :: nat
  mt_topics :: nat

definition topic_slugs :: "'w outl \<Rightarrow> ('w, rstr list) act" where
  "topic_slugs ol = seq (open_ws ol) (\<lambda>_ w. (Inr (filter (\<lambda>s. \<not> is_journal_slug s) (ol_pages ol w)), w))"

definition memory_stats_of :: "'w outl \<Rightarrow> ('w, memory_stats) act" where
  "memory_stats_of ol = seq (open_ws ol) (\<lambda>_ w.
     (let facts = scan ol w; gone = length (filter (\<lambda>f. is_superseded (fa_memory f)) facts)
      in (Inr \<lparr> mt_live = length facts - gone, mt_superseded = gone,
           mt_reinforced = length (filter (\<lambda>f. \<not> is_superseded (fa_memory f) \<and> 1 < me_seen (fa_memory f)) facts),
           mt_topics = length (filter (\<lambda>s. \<not> is_journal_slug s) (ol_pages ol w)) \<rparr>, w)))"

end
