(* ===== verification/Memory_Text.thy ===== *)
theory Memory_Text
  imports Memory_Record
begin

text \<open>
  What the text of a stored fact gives back.  \<open>block_text\<close> renders a statement and its topics,
  \<open>split_links\<close> takes the block apart again: for a statement without brackets the statement comes
  back with its white space collapsed, its dates unlinked and its topics collected, so a fact keeps
  the key it is compared by.  The exception is a date given as a topic.
\<close>

section \<open>Searching for a doubled bracket\<close>

lemma split_at_str_free: "c \<notin> set s \<Longrightarrow> split_at_str [c, c] s = None"
proof (induction s)
  case (Cons x s) then show ?case by (subst split_at_str.simps) (auto simp: strip_prefix_None)
qed (subst split_at_str.simps, simp)

lemma split_at_str_first: "c \<notin> set a \<Longrightarrow> split_at_str [c, c] (a @ [c, c] @ b) = Some (a, b)"
proof (induction a)
  case (Cons x a)
  then have "strip_prefix [c, c] ((x # a) @ [c, c] @ b) = None" by (auto simp: strip_prefix_None)
  then show ?case using Cons by (subst split_at_str.simps) simp
qed (subst split_at_str.simps, simp)

lemma rsplit_at_str_last: "c \<notin> set b \<Longrightarrow> rsplit_at_str [c, c] (a @ [c, c] @ b) = Some (a, b)"
  using split_at_str_first[of c "rev b" "rev a"] by (simp add: rsplit_at_str_def)

lemma contains_str_free: "c \<notin> set s \<Longrightarrow> \<not> contains_str [c, c] s"
  by (simp add: contains_str_def split_at_str_free)

section \<open>Texts without brackets\<close>

definition plain :: "rstr \<Rightarrow> bool" where
  "plain s \<longleftrightarrow> 91 \<notin> set s \<and> 93 \<notin> set s"

definition trimmed :: "rstr \<Rightarrow> bool" where
  "trimmed s \<longleftrightarrow> (s = [] \<or> \<not> is_ws (hd s) \<and> \<not> is_ws (last s))"

lemma trim_trimmed: "trimmed s \<Longrightarrow> trim s = s"
proof (cases "s = []")
  case False
  assume t: "trimmed s"
  then have "trim_start s = s" using False by (cases s) (auto simp: trimmed_def trim_start_def)
  then show ?thesis using t False by (cases s rule: rev_cases) (auto simp: trim_def trimmed_def trim_end_def)
qed (simp add: trim_def trim_start_def trim_end_def)

lemma trim_end_last: "s = [] \<or> \<not> is_ws (last s) \<Longrightarrow> trim_end s = s"
  by (cases s rule: rev_cases) (auto simp: trim_end_def)


lemma trim_end_subset: "set (trim_end s) \<subseteq> set s"
  unfolding trim_end_def using set_dropWhileD by fastforce

lemma trim_subset: "set (trim s) \<subseteq> set s"
  unfolding trim_def trim_start_def using trim_end_subset set_dropWhileD by fastforce

lemma is_iso_shape_chars:
  assumes "is_iso_shape d" "c \<in> set d"
  shows "is_digit_c c \<or> c = 45"
proof -
  obtain i where "i < length d" "d ! i = c" using assms(2) by (auto simp: in_set_conv_nth)
  then show ?thesis using assms(1) by (cases "i = 4 \<or> i = 7") (auto simp: is_iso_shape_def list_all_iff)
qed

lemma iso_plain: "is_iso_shape d \<Longrightarrow> plain d"
  using is_iso_shape_chars[of d 91] is_iso_shape_chars[of d 93] by (auto simp: plain_def is_digit_c_def)

lemma iso_trimmed: "is_iso_shape d \<Longrightarrow> trimmed d"
proof -
  assume iso: "is_iso_shape d"
  have "\<not> is_ws c" if "c \<in> set d" for c
    using is_iso_shape_chars[OF iso that] by (auto simp: is_ws_def is_digit_c_def)
  then show "trimmed d" by (auto simp: trimmed_def)
qed

lemma iso_not_Nil: "is_iso_shape d \<Longrightarrow> d \<noteq> []"
  by (auto simp: is_iso_shape_def)

section \<open>Linking dates and unlinking them\<close>

lemma link_dates_plain_cons:
  assumes "plain (c # cs)"
  shows "link_dates_from prev (c # cs) =
    (if is_iso_date_at prev (c # cs)
     then open_link @ take 10 (c # cs) @ close_link @ link_dates_from (Some ((c # cs) ! 9)) (drop 10 (c # cs))
     else c # link_dates_from (Some c) cs)"
  using assms by (subst link_dates_from.simps) (auto simp: plain_def)

lemma link_dates_Nil [simp]: "link_dates_from prev [] = []"
  by (subst link_dates_from.simps) simp

lemma iso_date_at_shape: "is_iso_date_at prev s \<Longrightarrow> is_iso_shape (take 10 s)"
  by (simp add: is_iso_date_at_def)

lemma plain_drop: "plain s \<Longrightarrow> plain (drop n s)"
  by (auto simp: plain_def dest: in_set_dropD)

lemma plain_ConsD: "plain (c # cs) \<Longrightarrow> plain cs"
  by (simp add: plain_def)

text \<open>The induction the facts below share: a plain text is empty, starts with a date that gets
  linked, or starts with a character that is copied.\<close>

lemma link_dates_induct [consumes 1, case_names Nil date char]:
  assumes "plain s"
    and "\<And>prev. P prev []"
    and "\<And>prev d rest. is_iso_shape d \<Longrightarrow> plain rest \<Longrightarrow>
           link_dates_from prev (d @ rest) = open_link @ d @ close_link @ link_dates_from (Some (last d)) rest \<Longrightarrow>
           P (Some (last d)) rest \<Longrightarrow> P prev (d @ rest)"
    and "\<And>prev c cs. plain (c # cs) \<Longrightarrow> link_dates_from prev (c # cs) = c # link_dates_from (Some c) cs \<Longrightarrow>
           P (Some c) cs \<Longrightarrow> P prev (c # cs)"
  shows "P prev s"
  using assms(1)
proof (induction "length s" arbitrary: prev s rule: less_induct)
  case less
  show ?case
  proof (cases s)
    case Nil then show ?thesis using assms(2) by simp
  next
    case (Cons c cs)
    note lk = link_dates_plain_cons[OF less.prems[unfolded Cons], of prev]
    show ?thesis
    proof (cases "is_iso_date_at prev (c # cs)")
      case True
      define d where "d = take 10 (c # cs)"
      have iso: "is_iso_shape d" using iso_date_at_shape[OF True] by (simp add: d_def)
      have len: "length d = 10" using iso by (simp add: is_iso_shape_def)
      have "d \<noteq> []" using len by auto
      then have nth: "(c # cs) ! 9 = last d"
        using len last_conv_nth[of d] nth_take[of 9 10 "c # cs"] unfolding d_def by simp
      have sp: "s = d @ drop 10 s" unfolding Cons d_def by (simp only: append_take_drop_id)
      have "length (drop 10 s) < length s" using Cons by simp
      then have "P (Some (last d)) (drop 10 s)" by (rule less.hyps) (rule plain_drop[OF less.prems])
      then have "P prev (d @ drop 10 s)"
        using assms(3)[of d "drop 10 s" prev] iso plain_drop[OF less.prems, of 10] lk True nth sp Cons
        by (simp add: d_def del: nth_Cons_numeral take_Suc_Cons drop_Suc_Cons)
      then show ?thesis using sp by simp
    next
      case False
      then show ?thesis
        using assms(4)[of c cs prev] less lk Cons plain_ConsD[of c cs] by simp
    qed
  qed
qed

lemma inline_links_next:
  assumes "91 \<notin> set pre" "93 \<notin> set d" "trimmed d"
  shows "inline_links (pre @ open_link @ d @ close_link @ rest) ts
    = (case inline_links rest (push_unique ts d) of (st, ts') \<Rightarrow> (pre @ d @ st, ts'))"
  using split_at_str_first[OF assms(1), of "d @ close_link @ rest"] split_at_str_first[OF assms(2), of rest]
  by (subst inline_links.simps) (simp add: trim_trimmed[OF assms(3)])

lemma inline_links_free: "91 \<notin> set s \<Longrightarrow> inline_links s ts = (s, ts)"
  by (subst inline_links.simps) (simp add: split_at_str_free)




section \<open>The trailing run\<close>

lemma ends_with_append: "ends_with p (a @ p)"
  by (simp add: ends_with_def)

lemma ends_with_last: "ends_with close_link s \<Longrightarrow> s \<noteq> [] \<and> last s = 93"
  by (auto simp: ends_with_def prefix_def rev_swap)

lemma peel_stops: "s = [] \<or> last s \<noteq> 93 \<Longrightarrow> peel s tr = (s, tr)"
  using ends_with_last[of s] by (subst peel.simps) auto

lemma peel_link:
  assumes "plain x" "trimmed x"
  shows "peel (a @ open_link @ x @ close_link) tr =
    (if is_journal_slug x then (a @ open_link @ x @ close_link, tr) else peel (trim_end a) (x # tr))"
proof -
  have "91 \<notin> set (x @ close_link)" "91 \<notin> set x" "93 \<notin> set x" using assms(1) by (simp_all add: plain_def)
  then show ?thesis
    using rsplit_at_str_last[of 91 "x @ close_link" a] ends_with_append[of close_link "a @ open_link @ x"]
    by (subst peel.simps) (simp add: Let_def trim_trimmed[OF assms(2)] contains_str_free)
qed

definition topic_slug :: "rstr \<Rightarrow> bool" where
  "topic_slug x \<longleftrightarrow> plain x \<and> trimmed x \<and> x \<noteq> []"

definition link_run :: "rstr list \<Rightarrow> rstr" where
  "link_run ts = concat (map (\<lambda>x. 32 # open_link @ x @ close_link) ts)"

lemma block_text_run: "block_text text ts = link_dates (trim text) @ link_run ts"
proof -
  have "[32] @ join [32] (map (\<lambda>s. open_link @ s @ close_link) ts) = link_run ts" if "ts \<noteq> []" for ts
    using that by (induction ts rule: induct_list012) (auto simp: link_run_def)
  then show ?thesis by (auto simp: block_text_def Let_def link_run_def)
qed

lemma trim_end_blank: "trim_end (a @ [32]) = trim_end a"
  by (simp add: trim_end_def is_ws_def)

lemma trim_end_run: "trim_end a = a \<Longrightarrow> trim_end (a @ link_run ts) = a @ link_run ts"
  by (cases ts rule: rev_cases) (auto simp: link_run_def is_ws_def intro!: trim_end_last)

lemma peel_run:
  assumes "trim_end a = a" "\<forall>x\<in>set ts. topic_slug x \<and> \<not> is_journal_slug x"
  shows "peel (a @ link_run ts) tr = peel a (ts @ tr)"
  using assms(2)
proof (induction ts arbitrary: tr rule: rev_induct)
  case Nil then show ?case by (simp add: link_run_def)
next
  case (snoc x ts)
  have sp: "a @ link_run (ts @ [x]) = (a @ link_run ts @ [32]) @ open_link @ x @ close_link"
    by (simp add: link_run_def)
  have x: "plain x" "trimmed x" "\<not> is_journal_slug x" using snoc.prems by (auto simp: topic_slug_def)
  show ?case
    unfolding sp peel_link[OF x(1,2)]
    using snoc x(3) trim_end_run[OF assms(1), of ts] trim_end_blank[of "a @ link_run ts"] by simp
qed

section \<open>Words\<close>

lemma split_ws_Nil [simp]: "split_ws [] = []"
  by (subst split_ws.simps) simp

lemma split_ws_blank: "is_ws c \<Longrightarrow> split_ws (c # s) = split_ws s"
  by (subst (1 2) split_ws.simps) simp

lemma split_ws_word:
  assumes "w \<noteq> []" "\<forall>c\<in>set w. \<not> is_ws c" "s = [] \<or> is_ws (hd s)"
  shows "split_ws (w @ s) = w # split_ws s"
proof -
  obtain c w' where w: "w = c # w'" using assms(1) by (cases w) auto
  have "takeWhile (\<lambda>x. \<not> is_ws x) (w' @ s) = w'" "dropWhile (\<lambda>x. \<not> is_ws x) (w' @ s) = s"
    using assms(2,3) w by (cases s; auto simp: takeWhile_append2 dropWhile_append2 takeWhile_append dropWhile_append)+
  then show ?thesis using assms(2) w by (subst split_ws.simps) simp
qed

lemma split_ws_cases:
  obtains (Nil) "s = []"
    | (blank) c s' where "s = c # s'" "is_ws c"
    | (word) w s' where "s = w @ s'" "w \<noteq> []" "\<forall>c\<in>set w. \<not> is_ws c" "s' = [] \<or> is_ws (hd s')"
proof (cases s)
  case (Cons c s')
  show ?thesis
  proof (cases "is_ws c")
    case False
    have "s = takeWhile (\<lambda>x. \<not> is_ws x) s @ dropWhile (\<lambda>x. \<not> is_ws x) s" by simp
    then show ?thesis
    proof (rule word)
      show "takeWhile (\<lambda>x. \<not> is_ws x) s \<noteq> []" using False Cons by simp
      show "\<forall>c\<in>set (takeWhile (\<lambda>x. \<not> is_ws x) s). \<not> is_ws c" using set_takeWhileD by fastforce
      show "dropWhile (\<lambda>x. \<not> is_ws x) s = [] \<or> is_ws (hd (dropWhile (\<lambda>x. \<not> is_ws x) s))"
        using hd_dropWhile by blast
    qed
  qed (rule blank[OF Cons])
qed (rule Nil)

lemma split_ws_induct [case_names Nil blank word]:
  assumes "P []" "\<And>c s. is_ws c \<Longrightarrow> P s \<Longrightarrow> P (c # s)"
    and "\<And>w s. w \<noteq> [] \<Longrightarrow> \<forall>c\<in>set w. \<not> is_ws c \<Longrightarrow> s = [] \<or> is_ws (hd s) \<Longrightarrow> P s \<Longrightarrow> P (w @ s)"
  shows "P s"
proof (induction "length s" arbitrary: s rule: less_induct)
  case less
  show ?case
  proof (cases s rule: split_ws_cases)
    case (word w s')
    have "P s'" using word less[of s'] by simp
    then show ?thesis unfolding word(1) by (rule assms(3)[OF word(2-4)])
  qed (use assms less in auto)
qed


lemma split_ws_snoc: "is_ws c \<Longrightarrow> split_ws (s @ [c]) = split_ws s"
proof (induction s rule: split_ws_induct)
  case (word w s)
  have one: "split_ws w = [w]" using split_ws_word[of w "[]"] word.hyps by simp
  show ?case
  proof (cases "s = []")
    case True
    then show ?thesis using split_ws_word[of w "[c]"] word.hyps word.prems one by (simp add: split_ws_blank)
  next
    case False
    then have "s @ [c] = [] \<or> is_ws (hd (s @ [c]))" using word.hyps(3) by simp
    then show ?thesis using split_ws_word[OF word.hyps(1,2)] word.hyps(3) word.IH[OF word.prems] by simp
  qed
qed (auto simp: split_ws_blank)

lemma split_ws_trail: "\<forall>c\<in>set w. is_ws c \<Longrightarrow> split_ws (s @ w) = split_ws s"
  by (induction w arbitrary: s rule: rev_induct) (simp_all add: split_ws_snoc flip: append_assoc)

lemma split_ws_trim_end: "split_ws (trim_end s) = split_ws s"
  using trim_end_split[of s] split_ws_trail[of _ "trim_end s"] by metis


lemma split_ws_join:
  "\<forall>w\<in>set ws. w \<noteq> [] \<and> (\<forall>c\<in>set w. \<not> is_ws c) \<Longrightarrow> split_ws (join [32] ws) = ws"
proof (induction "[32] :: rstr" ws rule: join.induct)
  case (2 w) then show ?case using split_ws_word[of w "[]"] by simp
next
  case (3 w v ws)
  then show ?case using split_ws_word[of w "[32] @ join [32] (v # ws)"]
    by (simp add: is_ws_def[of 32] split_ws_blank)
qed simp





section \<open>The fact comes back\<close>





lemma split_links_plain: "plain s \<Longrightarrow> fst (split_links s) = collapse_whitespace s"
proof -
  assume "plain s"
  then have "plain (trim_end s)" using trim_end_subset[of s] by (auto simp: plain_def)
  moreover from this have "trim_end s = [] \<or> last (trim_end s) \<noteq> 93" by (metis last_in_set plain_def)
  ultimately show ?thesis
    by (simp add: split_links_def peel_stops inline_links_free plain_def collapse_whitespace_def split_ws_trim_end)
qed

lemma dedup_key_plain: "plain s \<Longrightarrow> dedup_key u s = key_fold u [] False (collapse_whitespace s)"
  by (simp add: dedup_key_def split_links_plain)

section \<open>The slugs of the topics\<close>












definition ascii_only :: unicode where
  "ascii_only = \<lparr> uc_alnum = (\<lambda>_. False), uc_lower = (\<lambda>c. [c]), uc_upper = (\<lambda>c. [c]) \<rparr>"


lemmas text_eval = lit_def is_alnum_c_def is_digit_c_def is_lower_c_def is_upper_c_def alnum_def lower_def
  ascii_only_def is_ws_def trim_def trim_start_def trim_end_def



section \<open>A day among the topics\<close>

text \<open>\<open>split_links\<close> never takes a day off the trailing run, on the ground that a day is never one of
  the appended topics.  It can be: a topic written by the caller may be a day, and a fact that holds
  a linked date is read back with that day among its topics, which \<open>reinforce\<close> then appends.  The
  statement read back has the day once more at its end.\<close>

lemma inline_undoes_link_day:
  assumes "plain s" "plain pre" "is_iso_shape day"
  shows "fst (inline_links (pre @ link_dates_from prev s @ [32] @ open_link @ day @ close_link) ts)
    = pre @ s @ [32] @ day"
  using assms(1,2)
proof (induction arbitrary: pre ts rule: link_dates_induct)
  case (Nil prev)
  then have "91 \<notin> set (pre @ [32])" "93 \<notin> set day" using iso_plain[OF assms(3)] by (simp_all add: plain_def)
  from inline_links_next[OF this iso_trimmed[OF assms(3)], of "[]" ts] show ?case
    by (simp add: inline_links_free)
next
  case (date prev d rest)
  have "plain ([] :: rstr)" by (simp add: plain_def)
  from date.IH[OF this] show ?case
    using date.prems iso_plain[OF date.hyps(1)] inline_links_next[of pre d _ ts] iso_trimmed[OF date.hyps(1)]
    by (simp add: date.hyps(3) plain_def split_beta)
next
  case (char prev c cs)
  then show ?case using char.IH[of "pre @ [c]" ts] by (simp add: plain_def)
qed

lemma day_topic_stays_in_statement:
  assumes "plain stated" "is_iso_shape day" "\<forall>x\<in>set ts. topic_slug x \<and> \<not> is_journal_slug x"
  shows "fst (split_links (block_text stated (day # ts))) = collapse_whitespace (trim stated @ [32] @ day)"
proof -
  have pl: "plain (trim stated)" using assms(1) trim_subset[of stated] by (auto simp: plain_def)
  let ?D = "link_dates (trim stated) @ [32] @ open_link @ day @ close_link"
  have te: "trim_end ?D = ?D" by (rule trim_end_last) (simp add: is_ws_def)
  have blk: "block_text stated (day # ts) = ?D @ link_run ts" by (simp add: block_text_run link_run_def)
  have "peel (trim_end (block_text stated (day # ts))) [] = peel ?D ts"
    unfolding blk trim_end_run[OF te] by (simp only: peel_run[OF te assms(3)] append_Nil2)
  also have "\<dots> = (?D, ts)"
    using peel_link[OF iso_plain[OF assms(2)] iso_trimmed[OF assms(2)], of "link_dates (trim stated) @ [32]" ts] assms(2)
    by (simp add: is_journal_slug_def)
  finally show ?thesis
    using inline_undoes_link_day[OF pl _ assms(2), of "[]" None "[]"]
    by (simp add: split_links_def split_beta plain_def link_dates_def)
qed

lemma key_fold_extends: "length out \<le> length (key_fold u out p s)"
  by (induction u out p s rule: key_fold.induct) auto

lemma rent_words:
  "collapse_whitespace (lit ''rent 2026-08-24'') = lit ''rent 2026-08-24''"
  "collapse_whitespace (lit ''rent 2026-08-24 2026-08-24'') = lit ''rent 2026-08-24 2026-08-24''"
  using split_ws_join[of "[lit ''rent'', lit ''2026-08-24'']"]
    split_ws_join[of "[lit ''rent'', lit ''2026-08-24'', lit ''2026-08-24'']"]
  by (simp_all add: collapse_whitespace_def lit_def is_ws_def)

lemma upto_ten: "[0..<10] = [0, 1, 2, 3, 4, 5, 6, 7, 8, 9]"
  by code_simp

lemma day_topic_breaks_key:
  "dedup_key ascii_only (fst (split_links (block_text (lit ''rent 2026-08-24'') [lit ''2026-08-24'', lit ''home''])))
    \<noteq> dedup_key ascii_only (lit ''rent 2026-08-24'')"
proof -
  have iso: "is_iso_shape (lit ''2026-08-24'')"
    unfolding is_iso_shape_def upto_ten by (simp add: lit_def is_digit_c_def)
  have trim: "trim (lit ''rent 2026-08-24'') @ [32] @ lit ''2026-08-24'' = lit ''rent 2026-08-24 2026-08-24''"
    by (simp add: text_eval)
  have "fst (split_links (block_text (lit ''rent 2026-08-24'') [lit ''2026-08-24'', lit ''home''])) = lit ''rent 2026-08-24 2026-08-24''"
    using day_topic_stays_in_statement[OF _ iso, of "lit ''rent 2026-08-24''" "[lit ''home'']"]
    unfolding trim rent_words by (simp add: plain_def topic_slug_def trimmed_def is_ws_def is_journal_slug_def is_iso_shape_def lit_def)
  moreover have "plain (lit ''rent 2026-08-24 2026-08-24'')" "plain (lit ''rent 2026-08-24'')"
    by (simp_all add: plain_def lit_def)
  ultimately show ?thesis
    by (simp add: dedup_key_plain rent_words) (simp add: text_eval)
qed

end
