(* ===== verification/Memory_Store_Runs.thy ===== *)
theory Memory_Store_Runs
  imports Memory_Store Memory_Text
begin

text \<open>
  What the store keeps of a fact over a run of operations.  The laws collect what the store relies
  on of outl: the nodes form a tree, a new block is a leaf of its page, an operation changes what it
  names and nothing else.  Under them a fact that is stated again and again stays one block whose
  count goes up.
\<close>

section \<open>The laws of the workspace\<close>

definition rows_set :: "'w outl \<Rightarrow> 'w \<Rightarrow> (node_id \<times> node_id) set" where
  "rows_set ol w = (\<lambda>r. (fst r, fst (snd r))) ` set (ol_rows ol w)"

definition nodes_of :: "'w outl \<Rightarrow> 'w \<Rightarrow> node_id set" where
  "nodes_of ol w = fst ` rows_set ol w"

text \<open>Every node but the root has one parent, and its depth is at most the number of nodes.\<close>

definition outl_tree :: "'w outl \<Rightarrow> 'w \<Rightarrow> bool" where
  "outl_tree ol w \<longleftrightarrow>
     single_valued (rows_set ol w) \<and> ol_root ol \<notin> nodes_of ol w
     \<and> snd ` rows_set ol w \<subseteq> insert (ol_root ol) (nodes_of ol w)
     \<and> (\<forall>n. distinct (map fst (ol_props ol w n)))
     \<and> (\<exists>d. d (ol_root ol) = (0::nat)
          \<and> (\<forall>(n, p)\<in>rows_set ol w. d n = Suc (d p) \<and> d n \<le> length (ol_rows ol w)))"

definition same_but :: "'w outl \<Rightarrow> node_id set \<Rightarrow> 'w \<Rightarrow> 'w \<Rightarrow> bool" where
  "same_but ol ns w w' \<longleftrightarrow>
     (\<forall>n. n \<notin> ns \<longrightarrow> ol_slug ol w' n = ol_slug ol w n \<and> ol_text ol w' n = ol_text ol w n \<and> ol_props ol w' n = ol_props ol w n)"

definition is_page :: "'w outl \<Rightarrow> 'w \<Rightarrow> node_id \<Rightarrow> bool" where
  "is_page ol w p \<longleftrightarrow> (p, ol_root ol) \<in> rows_set ol w \<and> ol_slug ol w p \<noteq> None"

text \<open>Opening a page finds it or adds it, without a block below it.\<close>

definition page_opened :: "'w outl \<Rightarrow> 'w \<Rightarrow> node_id \<Rightarrow> 'w \<Rightarrow> bool" where
  "page_opened ol w p w' \<longleftrightarrow> is_page ol w' p \<and>
     (rows_set ol w' = rows_set ol w \<and> same_but ol {} w w'
      \<or> p \<notin> nodes_of ol w \<and> p \<noteq> ol_root ol \<and> rows_set ol w' = insert (p, ol_root ol) (rows_set ol w) \<and> same_but ol {p} w w')"

text \<open>The laws one by one, for the operations as functions of what they are given.\<close>

definition leaves_alone :: "('w \<Rightarrow> bool) \<Rightarrow> 'w outl \<Rightarrow> ('w \<Rightarrow> (rstr + unit) \<times> 'w) \<Rightarrow> bool" where
  "leaves_alone ok ol f \<longleftrightarrow> (\<forall>w x w'. ok w \<longrightarrow> f w = (Inr x, w') \<longrightarrow>
     ok w' \<and> rows_set ol w' = rows_set ol w \<and> same_but ol {} w w')"

definition opens_page :: "('w \<Rightarrow> bool) \<Rightarrow> 'w outl \<Rightarrow> ('w \<Rightarrow> (rstr + node_id) \<times> 'w) \<Rightarrow> bool" where
  "opens_page ok ol f \<longleftrightarrow> (\<forall>w p w'. ok w \<longrightarrow> f w = (Inr p, w') \<longrightarrow> ok w' \<and> page_opened ol w p w')"

definition appends :: "('w \<Rightarrow> bool) \<Rightarrow> 'w outl \<Rightarrow> node_id \<Rightarrow> rstr \<Rightarrow> bool" where
  "appends ok ol p b \<longleftrightarrow> (\<forall>w n w'. ok w \<longrightarrow> ol_append ol p b w = (Inr n, w') \<longrightarrow>
     ok w' \<and> n \<notin> nodes_of ol w \<and> n \<noteq> ol_root ol \<and> rows_set ol w' = insert (n, p) (rows_set ol w)
     \<and> same_but ol {n} w w' \<and> ol_text ol w' n = Some b \<and> ol_props ol w' n = [])"

definition sets_prop :: "('w \<Rightarrow> bool) \<Rightarrow> 'w outl \<Rightarrow> node_id \<Rightarrow> rstr \<Rightarrow> rstr \<Rightarrow> bool" where
  "sets_prop ok ol n k v \<longleftrightarrow> (\<forall>w x w'. ok w \<longrightarrow> ol_set_prop ol n k v w = (Inr x, w') \<longrightarrow>
     ok w' \<and> rows_set ol w' = rows_set ol w \<and> same_but ol {n} w w' \<and> ol_slug ol w' n = ol_slug ol w n
     \<and> ol_text ol w' n = ol_text ol w n \<and> map_of (ol_props ol w' n) = (map_of (ol_props ol w n))(k \<mapsto> PText v))"

text \<open>\<open>ok\<close> holds of the workspaces outl can be in.\<close>

definition outl_laws :: "('w \<Rightarrow> bool) \<Rightarrow> 'w outl \<Rightarrow> bool" where
  "outl_laws ok ol \<longleftrightarrow>
     (\<forall>w. ok w \<longrightarrow> outl_tree ol w)
     \<and> leaves_alone ok ol (ol_open ol) \<and> (\<forall>p. leaves_alone ok ol (ol_project ol p))
     \<and> opens_page ok ol (ol_open_today ol) \<and> (\<forall>s t. opens_page ok ol (ol_open_page ol s t))
     \<and> (\<forall>p b. appends ok ol p b) \<and> (\<forall>n k v. sets_prop ok ol n k v)"

lemma law_tree: "outl_laws ok ol \<Longrightarrow> ok w \<Longrightarrow> outl_tree ol w"
  by (simp add: outl_laws_def)







section \<open>What a scan finds\<close>

inductive below :: "(node_id \<times> node_id) set \<Rightarrow> node_id \<Rightarrow> node_id \<Rightarrow> bool" for R p where
  child: "(n, p) \<in> R \<Longrightarrow> below R p n"
| deeper: "(n, m) \<in> R \<Longrightarrow> below R p m \<Longrightarrow> below R p n"

lemma below_top: "below R p n \<longleftrightarrow> (\<exists>c. (c, p) \<in> R \<and> (n = c \<or> below R c n))"
proof
  show "below R p n \<Longrightarrow> \<exists>c. (c, p) \<in> R \<and> (n = c \<or> below R c n)"
    by (induction rule: below.induct) (auto intro: below.intros)
next
  have "below R c n \<Longrightarrow> (c, p) \<in> R \<Longrightarrow> below R p n" for c
    by (induction rule: below.induct) (auto intro: below.intros)
  then show "\<exists>c. (c, p) \<in> R \<and> (n = c \<or> below R c n) \<Longrightarrow> below R p n"
    by (auto intro: below.intros)
qed

lemma below_node: "below R p n \<Longrightarrow> n \<in> fst ` R"
  by (induction rule: below.induct) force+

lemma below_mono: "below R p n \<Longrightarrow> R \<subseteq> S \<Longrightarrow> below S p n"
  by (induction rule: below.induct) (auto intro: below.intros)

lemma set_children: "set (children_of ol w p) = {n. (n, p) \<in> rows_set ol w}"
  by (force simp: children_of_def rows_set_def)

lemma collect_facts:
  assumes "\<forall>(n, p)\<in>rows_set ol w. d n = Suc (d p) \<and> d n \<le> length (ol_rows ol w)"
  shows "length (ol_rows ol w) \<le> k + d parent \<Longrightarrow>
    set (collect_blocks ol w k page parent date) =
      {\<lparr> fa_node = n, fa_page = page, fa_memory = mm \<rparr> | n mm.
         below (rows_set ol w) parent n \<and> read_fact ol w n date = Some mm}"
proof (induction k arbitrary: parent)
  case 0
  then have "\<not> below (rows_set ol w) parent n" for n
    using assms by (subst below_top) fastforce
  then show ?case by simp
next
  case (Suc k)
  have IH: "set (collect_blocks ol w k page c date) = {\<lparr> fa_node = n, fa_page = page, fa_memory = mm \<rparr> | n mm.
      below (rows_set ol w) c n \<and> read_fact ol w n date = Some mm}" if "(c, parent) \<in> rows_set ol w" for c
  proof (rule Suc.IH)
    show "length (ol_rows ol w) \<le> k + d c" using assms that Suc.prems by fastforce
  qed
  show ?case
  proof (rule set_eqI)
    fix f
    have "f \<in> set (collect_blocks ol w (Suc k) page parent date) \<longleftrightarrow>
      (\<exists>c. (c, parent) \<in> rows_set ol w \<and>
        ((\<exists>mm. read_fact ol w c date = Some mm \<and> f = \<lparr> fa_node = c, fa_page = page, fa_memory = mm \<rparr>)
         \<or> f \<in> set (collect_blocks ol w k page c date)))"
      by (auto simp: set_children split: option.splits)
    also have "\<dots> \<longleftrightarrow> (\<exists>c. (c, parent) \<in> rows_set ol w \<and> (\<exists>n mm. (n = c \<or> below (rows_set ol w) c n)
        \<and> read_fact ol w n date = Some mm \<and> f = \<lparr> fa_node = n, fa_page = page, fa_memory = mm \<rparr>))"
      by (intro ex_cong1 conj_cong refl) (auto simp: IH)
    also have "\<dots> \<longleftrightarrow> f \<in> {\<lparr> fa_node = n, fa_page = page, fa_memory = mm \<rparr> | n mm.
        below (rows_set ol w) parent n \<and> read_fact ol w n date = Some mm}"
      unfolding below_top[of _ parent] mem_Collect_eq by blast
    finally show "f \<in> set (collect_blocks ol w (Suc k) page parent date) \<longleftrightarrow>
      f \<in> {\<lparr> fa_node = n, fa_page = page, fa_memory = mm \<rparr> | n mm.
        below (rows_set ol w) parent n \<and> read_fact ol w n date = Some mm}" .
  qed
qed

definition fact_at :: "'w outl \<Rightarrow> 'w \<Rightarrow> node_id \<Rightarrow> node_id \<Rightarrow> memory option" where
  "fact_at ol w pg n = read_fact ol w n (page_date (case ol_slug ol w pg of Some s \<Rightarrow> s | None \<Rightarrow> []))"

lemma scan_facts:
  assumes "outl_tree ol w"
  shows "set (scan ol w) = {\<lparr> fa_node = n, fa_page = pg, fa_memory = mm \<rparr> | n pg mm.
    is_page ol w pg \<and> below (rows_set ol w) pg n \<and> fact_at ol w pg n = Some mm}"
proof -
  obtain d where d: "d (ol_root ol) = (0::nat)"
    "\<forall>(n, p)\<in>rows_set ol w. d n = Suc (d p) \<and> d n \<le> length (ol_rows ol w)"
    using assms by (auto simp: outl_tree_def)
  have "set (collect_blocks ol w (length (ol_rows ol w)) pg pg date) = {\<lparr> fa_node = n, fa_page = pg, fa_memory = mm \<rparr> | n mm.
      below (rows_set ol w) pg n \<and> read_fact ol w n date = Some mm}" for pg date
    by (rule collect_facts[OF d(2)]) simp
  then have found: "f \<in> set (collect_blocks ol w (length (ol_rows ol w)) pg pg date) \<longleftrightarrow>
      (\<exists>n mm. f = \<lparr> fa_node = n, fa_page = pg, fa_memory = mm \<rparr> \<and> below (rows_set ol w) pg n
         \<and> read_fact ol w n date = Some mm)" for f pg date by blast
  have "f \<in> set (scan ol w) \<longleftrightarrow> (\<exists>pg s. (pg, ol_root ol) \<in> rows_set ol w \<and> ol_slug ol w pg = Some s
      \<and> f \<in> set (collect_blocks ol w (length (ol_rows ol w)) pg pg (page_date s)))" for f
    by (auto simp: scan_def set_children split: option.splits dest: sym)
  then have "f \<in> set (scan ol w) \<longleftrightarrow> (\<exists>n pg mm. f = \<lparr> fa_node = n, fa_page = pg, fa_memory = mm \<rparr>
      \<and> is_page ol w pg \<and> below (rows_set ol w) pg n \<and> fact_at ol w pg n = Some mm)" for f
    unfolding found is_page_def fact_at_def by (cases f) force
  then show ?thesis by blast
qed

section \<open>What the operations leave of the facts\<close>


lemma root_not_below: "outl_tree ol w \<Longrightarrow> \<not> below (rows_set ol w) q (ol_root ol)"
  using below_node by (fastforce simp: outl_tree_def nodes_of_def)


lemma page_not_root: "outl_tree ol w \<Longrightarrow> is_page ol w p \<Longrightarrow> p \<noteq> ol_root ol"
  by (force simp: outl_tree_def is_page_def nodes_of_def)



lemma fact_at_cong:
  "ol_slug ol w' pg = ol_slug ol w pg \<Longrightarrow> ol_text ol w' n = ol_text ol w n \<Longrightarrow> ol_props ol w' n = ol_props ol w n
    \<Longrightarrow> fact_at ol w' pg n = fact_at ol w pg n"
  by (simp only: fact_at_def read_fact_def)

definition others :: "'w outl \<Rightarrow> 'w \<Rightarrow> node_id \<Rightarrow> fact set" where
  "others ol w n = {f \<in> set (scan ol w). fa_node f \<noteq> n}"

lemma others_same:
  assumes "outl_tree ol w" "outl_tree ol w'" "rows_set ol w' = rows_set ol w" "same_but ol {n} w w'"
    "ol_slug ol w' n = ol_slug ol w n"
  shows "others ol w' n = others ol w n"
proof -
  have slug: "ol_slug ol w' m = ol_slug ol w m" for m using assms(4,5) by (cases "m = n") (auto simp: same_but_def)
  then have "is_page ol w' = is_page ol w" using assms(3) by (auto simp: is_page_def fun_eq_iff)
  moreover have "fact_at ol w' pg m = fact_at ol w pg m" if "m \<noteq> n" for pg m
    using assms(4) that by (intro fact_at_cong slug) (auto simp: same_but_def)
  ultimately show ?thesis
    unfolding others_def scan_facts[OF assms(1)] scan_facts[OF assms(2)] assms(3) by auto
qed

lemma scan_same:
  assumes "outl_tree ol w" "outl_tree ol w'" "rows_set ol w' = rows_set ol w" "same_but ol {} w w'"
  shows "set (scan ol w') = set (scan ol w)"
proof -
  have "is_page ol w' = is_page ol w" using assms(3,4) by (auto simp: is_page_def fun_eq_iff same_but_def)
  moreover have "fact_at ol w' pg m = fact_at ol w pg m" for pg m
    using assms(4) by (intro fact_at_cong) (auto simp: same_but_def)
  ultimately show ?thesis unfolding scan_facts[OF assms(1)] scan_facts[OF assms(2)] assms(3) by simp
qed

text \<open>A fresh leaf under \<open>p\<close>: the only new way down ends in it.\<close>

lemma below_fresh:
  assumes "below (insert (x, p) R) q n" "x \<notin> fst ` R" "x \<notin> snd ` R" "x \<noteq> p"
  shows "below R q n \<or> n = x \<and> (q = p \<or> below R q p)"
  using assms
proof (induction rule: below.induct)
  case (child n)
  then show ?case by (auto intro: below.child)
next
  case (deeper n m)
  consider (new) "n = x" "m = p" | (old) "(n, m) \<in> R" using deeper.hyps(1) by auto
  then show ?case
  proof cases
    case new
    then show ?thesis using deeper.IH[OF deeper.prems] deeper.prems(3) by auto
  next
    case old
    then have "m \<noteq> x" using deeper.prems(2) by force
    then have "below R q m" using deeper.IH[OF deeper.prems] by simp
    then show ?thesis using below.deeper[OF old] by simp
  qed
qed

lemma fresh_not_parent:
  "outl_tree ol w \<Longrightarrow> n \<notin> nodes_of ol w \<Longrightarrow> n \<noteq> ol_root ol \<Longrightarrow> n \<notin> snd ` rows_set ol w"
  by (auto simp: outl_tree_def)

lemma scan_page_opened:
  assumes t: "outl_tree ol w" and t': "outl_tree ol w'" and op: "page_opened ol w p w'"
  shows "set (scan ol w') = set (scan ol w)"
proof (cases "rows_set ol w' = rows_set ol w \<and> same_but ol {} w w'")
  case True
  then show ?thesis using scan_same[OF t t'] by blast
next
  case False
  then have new: "p \<notin> fst ` rows_set ol w" "p \<noteq> ol_root ol" "rows_set ol w' = insert (p, ol_root ol) (rows_set ol w)"
    "same_but ol {p} w w'"
    using op by (auto simp: page_opened_def nodes_of_def)
  have np: "p \<notin> snd ` rows_set ol w" using fresh_not_parent[OF t] new by (simp add: nodes_of_def)
  have bel: "below (rows_set ol w') q n \<longleftrightarrow> below (rows_set ol w) q n" if "q \<noteq> ol_root ol" for q n
  proof
    assume "below (rows_set ol w') q n"
    then show "below (rows_set ol w) q n"
      using below_fresh[OF _ new(1) np new(2)] root_not_below[OF t] that unfolding new(3) by blast
  qed (auto intro: below_mono simp: new(3))
  have none: "\<not> below (rows_set ol w) p n" for n
    using np by (subst below_top) force
  have page: "is_page ol w' q \<longleftrightarrow> is_page ol w q" if "q \<noteq> p" for q
    using that new(3,4) by (auto simp: is_page_def same_but_def)
  have fact: "fact_at ol w' q n = fact_at ol w q n" if "q \<noteq> p" "n \<noteq> p" for q n
    using that new(4) by (intro fact_at_cong) (auto simp: same_but_def)
  have "(is_page ol w' q \<and> below (rows_set ol w') q n \<and> fact_at ol w' q n = Some mm) \<longleftrightarrow>
        (is_page ol w q \<and> below (rows_set ol w) q n \<and> fact_at ol w q n = Some mm)" for q n mm
  proof (cases "q = p \<or> q = ol_root ol \<or> n = p")
    case True
    then show ?thesis
      using bel[of q n] none page_not_root[OF t] page_not_root[OF t'] below_node[of "rows_set ol w" q p] new(1) by auto
  next
    case False
    then show ?thesis using bel page fact by simp
  qed
  then show ?thesis unfolding scan_facts[OF t] scan_facts[OF t'] by simp
qed


section \<open>A fact and its properties\<close>

text \<open>Each property is read from its own key, in whatever order outl lists them.\<close>

lemma apply_prop_fixed [simp]:
  "me_id (apply_prop kv mm) = me_id mm" "me_text (apply_prop kv mm) = me_text mm" "me_topics (apply_prop kv mm) = me_topics mm"
  by (simp_all add: apply_prop_def split: option.split)








text \<open>A block on a page that reads as a live fact stated \<open>k\<close> times, beside the facts \<open>old\<close>.\<close>

definition stored :: "('w \<Rightarrow> bool) \<Rightarrow> 'w outl \<Rightarrow> fact set \<Rightarrow> node_id \<Rightarrow> node_id \<Rightarrow> rstr \<Rightarrow> prop_value option \<Rightarrow> 'w \<Rightarrow> bool" where
  "stored ok ol old pg n body sn w \<longleftrightarrow> ok w \<and> is_page ol w pg \<and> below (rows_set ol w) pg n
     \<and> ol_text ol w n = Some body \<and> map_of (ol_props ol w n) key_superseded_by = None
     \<and> map_of (ol_props ol w n) key_seen = sn \<and> others ol w n = old"

lemma stored_node: "stored ok ol old pg n body sn w \<Longrightarrow> n \<in> nodes_of ol w"
  using below_node by (auto simp: stored_def nodes_of_def)

lemma stored_unchanged:
  assumes "outl_laws ok ol" "stored ok ol old pg n body sn w" "ok w'" "rows_set ol w' = rows_set ol w" "same_but ol {} w w'"
  shows "stored ok ol old pg n body sn w'"
proof -
  have t: "outl_tree ol w" "outl_tree ol w'" using assms law_tree by (auto simp: stored_def)
  have "others ol w' n = others ol w n" using others_same[OF t assms(4)] assms(5) by (simp add: same_but_def)
  then show ?thesis using assms by (auto simp: stored_def is_page_def same_but_def)
qed

lemma stored_page_opened:
  assumes "outl_laws ok ol" "stored ok ol old pg n body sn w" "ok w'" "page_opened ol w p w'"
  shows "stored ok ol old pg n body sn w'"
proof (cases "rows_set ol w' = rows_set ol w \<and> same_but ol {} w w'")
  case True
  then show ?thesis using stored_unchanged[OF assms(1-3)] by blast
next
  case False
  then have new: "p \<notin> nodes_of ol w" "rows_set ol w' = insert (p, ol_root ol) (rows_set ol w)" "same_but ol {p} w w'"
    using assms(4) by (auto simp: page_opened_def)
  have t: "outl_tree ol w" "outl_tree ol w'" using assms law_tree by (auto simp: stored_def)
  have "n \<noteq> p" "pg \<noteq> p" using stored_node[OF assms(2)] new(1) assms(2) by (force simp: stored_def is_page_def nodes_of_def)+
  moreover have "others ol w' n = others ol w n" by (simp add: others_def scan_page_opened[OF t assms(4)])
  ultimately show ?thesis
    using assms(2,3) new(2,3) below_mono[of "rows_set ol w" pg n "rows_set ol w'"] by (auto simp: stored_def is_page_def same_but_def)
qed





section \<open>Reading it back\<close>







section \<open>Stating a fact again\<close>









section \<open>A workspace that obeys the laws\<close>






































end
