(* ===== verification/Retention.thy ===== *)
theory Retention
  imports Prelude
begin

text \<open>
  The retention sweep (\<open>dotagent-telemetry/src/retention.rs\<close>): which log files are compressed and
  deleted, and which windows of \<open>state/windows/\<close> are deleted with their locks.  A directory is a map
  from file names to files; what the system answers (the order of \<open>read_dir\<close>, whether a removal
  succeeds, whether a lock can be taken) is given by parameters.
\<close>

section \<open>File names\<close>

text \<open>\<open>Path::extension\<close>, \<open>Path::file_stem\<close> and \<open>Path::with_extension\<close> of a plain file name.\<close>

definition extension :: "rstr \<Rightarrow> rstr option" where
  "extension name = (case rsplit_once 46 name of
     Some (stem, ext) \<Rightarrow> if stem = [] then None else Some ext | None \<Rightarrow> None)"

definition file_stem :: "rstr \<Rightarrow> rstr" where
  "file_stem name = (case rsplit_once 46 name of
     Some (stem, ext) \<Rightarrow> if stem = [] then name else stem | None \<Rightarrow> name)"

definition with_extension :: "rstr \<Rightarrow> rstr \<Rightarrow> rstr" where
  "with_extension ext name = file_stem name @ [46] @ ext"

definition ext_json :: rstr where "ext_json = lit ''json''"
definition ext_lock :: rstr where "ext_lock = lit ''lock''"
definition ext_gz :: rstr where "ext_gz = lit ''gz''"
definition ext_log :: rstr where "ext_log = lit ''log''"

section \<open>Directories\<close>

record file_entry =
  fe_mtime :: instant
  fe_data :: rstr

type_synonym dir = "rstr \<rightharpoonup> file_entry"

record fs_answers =
  fs_removable :: "rstr \<Rightarrow> bool"
  fs_lockable :: "rstr \<Rightarrow> bool"
  fs_readable :: "rstr \<Rightarrow> bool"
  fs_gzip :: "rstr \<Rightarrow> rstr option"

definition day_secs :: int where "day_secs = 86400"

text \<open>\<open>duration_since\<close> fails for a time in the future; the age is then 0.\<close>

definition age_in_days :: "instant \<Rightarrow> instant \<Rightarrow> int" where
  "age_in_days now when = (if now < when then 0 else (now - when) div second div day_secs)"

definition as_u32 :: "int \<Rightarrow> nat" where
  "as_u32 i = nat (i mod 2 ^ 32)"

definition is_aged_out :: "dir \<Rightarrow> rstr \<Rightarrow> nat \<Rightarrow> instant \<Rightarrow> bool" where
  "is_aged_out d path retention_days now = (case d path of
     None \<Rightarrow> False | Some f \<Rightarrow> retention_days < as_u32 (age_in_days now (fe_mtime f)))"

definition remove :: "fs_answers \<Rightarrow> rstr \<Rightarrow> dir \<Rightarrow> bool \<times> dir" where
  "remove fs path d = (if d path \<noteq> None \<and> fs_removable fs path then (True, d(path := None)) else (False, d))"

definition try_hold :: "fs_answers \<Rightarrow> rstr \<Rightarrow> dir \<Rightarrow> bool" where
  "try_hold fs lock_path d \<longleftrightarrow> d lock_path \<noteq> None \<and> fs_lockable fs lock_path"

section \<open>Windows\<close>

record sweep_stats =
  ss_compressed :: nat
  ss_deleted :: nat
  ss_scanned :: nat
  ss_windows_scanned :: nat
  ss_windows_deleted :: nat

definition no_stats :: sweep_stats where
  "no_stats = \<lparr> ss_compressed = 0, ss_deleted = 0, ss_scanned = 0, ss_windows_scanned = 0, ss_windows_deleted = 0 \<rparr>"

definition window_for_sidecar :: "rstr \<Rightarrow> rstr" where
  "window_for_sidecar path = with_extension ext_json path"

definition delete_window :: "fs_answers \<Rightarrow> rstr \<Rightarrow> dir \<Rightarrow> bool \<times> dir" where
  "delete_window fs json d =
     (let lock_path = with_extension ext_lock json
      in if d lock_path = None then remove fs json d
         else if \<not> try_hold fs lock_path d then (False, d)
         else case remove fs json d of (removed, d1) \<Rightarrow>
           (removed, if removed then snd (remove fs lock_path d1) else d1))"

definition delete_orphan_lock :: "fs_answers \<Rightarrow> rstr \<Rightarrow> dir \<Rightarrow> bool \<times> dir" where
  "delete_orphan_lock fs lock_path d =
     (if \<not> try_hold fs lock_path d then (False, d) else remove fs lock_path d)"

definition count_window :: "bool \<Rightarrow> sweep_stats \<Rightarrow> sweep_stats" where
  "count_window gone st = (if gone then st\<lparr> ss_windows_deleted := ss_windows_deleted st + 1 \<rparr> else st)"

definition sweep_window :: "fs_answers \<Rightarrow> nat \<Rightarrow> instant \<Rightarrow> rstr \<Rightarrow> dir \<times> sweep_stats \<Rightarrow> dir \<times> sweep_stats" where
  "sweep_window fs retention_days now path s = (case s of (d, st) \<Rightarrow>
     if extension path \<noteq> Some ext_json
     then if d (window_for_sidecar path) \<noteq> None then (d, st)
          else if \<not> is_aged_out d path retention_days now then (d, st)
          else (case (if extension path = Some ext_lock then delete_orphan_lock fs path d else remove fs path d) of
                  (gone, d1) \<Rightarrow> (d1, count_window gone st))
     else (let st1 = st\<lparr> ss_windows_scanned := ss_windows_scanned st + 1 \<rparr>
           in if \<not> is_aged_out d path retention_days now then (d, st1)
              else (case delete_window fs path d of (gone, d1) \<Rightarrow> (d1, count_window gone st1))))"

text \<open>The names are the snapshot \<open>read_dir\<close> gives, or none when the directory cannot be read.\<close>

definition sweep_windows_dir ::
  "fs_answers \<Rightarrow> rstr list option \<Rightarrow> nat \<Rightarrow> instant \<Rightarrow> dir \<times> sweep_stats \<Rightarrow> dir \<times> sweep_stats" where
  "sweep_windows_dir fs names retention_days now s =
     (if retention_days = 0 then s
      else case names of None \<Rightarrow> s
      | Some ns \<Rightarrow> fold (sweep_window fs retention_days now) (filter (\<lambda>p. fst s p \<noteq> None) ns) s)"

section \<open>Logs\<close>

definition is_active_log :: "rstr \<Rightarrow> bool" where
  "is_active_log name \<longleftrightarrow> 46 \<notin> set name \<or> (case rsplit_once 46 name of Some (_, e) \<Rightarrow> e = ext_log | None \<Rightarrow> False)"

definition gz_name :: "rstr \<Rightarrow> rstr" where
  "gz_name name = name @ [46] @ ext_gz"

text \<open>\<open>gzip_file\<close> reads the file, writes the compressed copy beside it as a new file, and removes the
  original; a failed removal leaves both.\<close>

definition gzip_file :: "fs_answers \<Rightarrow> instant \<Rightarrow> rstr \<Rightarrow> dir \<Rightarrow> bool \<times> dir" where
  "gzip_file fs now path d = (case d path of
     None \<Rightarrow> (False, d)
   | Some f \<Rightarrow>
       if \<not> fs_readable fs path then (False, d)
       else case fs_gzip fs (fe_data f) of
         None \<Rightarrow> (False, d(gz_name path \<mapsto> \<lparr> fe_mtime = now, fe_data = [] \<rparr>))
       | Some z \<Rightarrow> remove fs path (d(gz_name path \<mapsto> \<lparr> fe_mtime = now, fe_data = z \<rparr>)))"

definition sweep_log :: "fs_answers \<Rightarrow> nat \<Rightarrow> nat \<Rightarrow> instant \<Rightarrow> rstr \<Rightarrow> dir \<times> sweep_stats \<Rightarrow> dir \<times> sweep_stats" where
  "sweep_log fs compress_after_days retention_days now path s = (case s of (d, st) \<Rightarrow>
     case d path of None \<Rightarrow> (d, st)
     | Some f \<Rightarrow>
       let st = st\<lparr> ss_scanned := ss_scanned st + 1 \<rparr>;
           age_days = as_u32 (age_in_days now (fe_mtime f));
           is_gz = (extension path = Some ext_gz);
           is_active = is_active_log path
       in if \<not> is_active \<and> retention_days < age_days
          then (case remove fs path d of (gone, d1) \<Rightarrow> (d1, if gone then st\<lparr> ss_deleted := ss_deleted st + 1 \<rparr> else st))
          else if \<not> is_gz \<and> \<not> is_active \<and> compress_after_days < age_days
          then (case gzip_file fs now path d of (done, d1) \<Rightarrow> (d1, if done then st\<lparr> ss_compressed := ss_compressed st + 1 \<rparr> else st))
          else (d, st))"

definition sweep_dir ::
  "fs_answers \<Rightarrow> rstr list option \<Rightarrow> nat \<Rightarrow> nat \<Rightarrow> instant \<Rightarrow> dir \<times> sweep_stats \<Rightarrow> dir \<times> sweep_stats" where
  "sweep_dir fs names compress_after_days retention_days now s = (case names of
     None \<Rightarrow> s | Some ns \<Rightarrow> fold (sweep_log fs compress_after_days retention_days now) ns s)"

section \<open>One pass\<close>

record logging_config =
  lc_compress_after_days :: nat
  lc_retention_days :: nat
  lc_per_agent_retention_days :: nat

record telemetry_dirs =
  td_daemon :: dir
  td_agents :: "(rstr \<times> dir) list"
  td_windows :: dir

type_synonym listing = "dir \<Rightarrow> rstr list option"

fun sweep_agents ::
  "fs_answers \<Rightarrow> listing \<Rightarrow> logging_config \<Rightarrow> instant \<Rightarrow> (rstr \<times> dir) list \<Rightarrow> sweep_stats \<Rightarrow> (rstr \<times> dir) list \<times> sweep_stats" where
  "sweep_agents fs ls lc now [] st = ([], st)"
| "sweep_agents fs ls lc now ((a, d) # rest) st =
     (case sweep_dir fs (ls d) (lc_compress_after_days lc) (lc_per_agent_retention_days lc) now (d, st) of
        (d1, st1) \<Rightarrow> (case sweep_agents fs ls lc now rest st1 of (rest1, st2) \<Rightarrow> ((a, d1) # rest1, st2)))"

definition sweep_all_with ::
  "fs_answers \<Rightarrow> listing \<Rightarrow> logging_config \<Rightarrow> nat \<Rightarrow> instant \<Rightarrow> telemetry_dirs \<Rightarrow> telemetry_dirs \<times> sweep_stats" where
  "sweep_all_with fs ls lc window_retention_days now t =
     (case sweep_dir fs (ls (td_daemon t)) (lc_compress_after_days lc) (lc_retention_days lc) now (td_daemon t, no_stats) of
        (daemon, st1) \<Rightarrow>
      case sweep_agents fs ls lc now (td_agents t) st1 of (agents, st2) \<Rightarrow>
      case sweep_windows_dir fs (ls (td_windows t)) window_retention_days now (td_windows t, st2) of
        (windows, st3) \<Rightarrow> (\<lparr> td_daemon = daemon, td_agents = agents, td_windows = windows \<rparr>, st3))"

section \<open>Names and their sidecars\<close>


lemma split_once_first: "c \<notin> set a \<Longrightarrow> split_once c (a @ c # b) = Some (a, b)"
  by (induction a) auto

lemma rsplit_once_last: "c \<notin> set b \<Longrightarrow> rsplit_once c (a @ [c] @ b) = Some (a, b)"
  using split_once_first[of c "rev b" "rev a"] by (simp add: rsplit_once_def)

lemma extension_dot: "46 \<notin> set e \<Longrightarrow> a \<noteq> [] \<Longrightarrow> extension (a @ [46] @ e) = Some e \<and> file_stem (a @ [46] @ e) = a"
  using rsplit_once_last[of 46 e a] by (simp add: extension_def file_stem_def)


lemma exts: "46 \<notin> set ext_json" "46 \<notin> set ext_lock" "46 \<notin> set ext_gz" "ext_json \<noteq> ext_lock" "ext_gz \<noteq> ext_log" "ext_json \<noteq> ext_gz"
  by (simp_all add: ext_json_def ext_lock_def ext_gz_def ext_log_def lit_def)



section \<open>The window sweep\<close>

















definition sample_fs :: fs_answers where
  "sample_fs = \<lparr> fs_removable = (\<lambda>_. True), fs_lockable = (\<lambda>_. True), fs_readable = (\<lambda>_. True), fs_gzip = Some \<rparr>"




section \<open>The log sweep\<close>

lemma gz_name_ext: "p \<noteq> [] \<Longrightarrow> extension (gz_name p) = Some ext_gz"
  using extension_dot[OF exts(3)] by (simp add: gz_name_def)

lemma gz_not_active: "\<not> is_active_log (gz_name p)"
  using rsplit_once_last[OF exts(3), of p] exts(5) by (simp add: is_active_log_def gz_name_def)

lemma gz_name_inj: "gz_name p = gz_name q \<longleftrightarrow> p = q"
  by (simp add: gz_name_def)

lemma age_now: "age_in_days now now = 0" "as_u32 0 = 0"
  by (simp_all add: age_in_days_def as_u32_def)

lemma sweep_log_cases:
  obtains (same) "fst (sweep_log fs c r now p (d, st)) = d"
  | (removed) f where "d p = Some f" "\<not> is_active_log p" "r < as_u32 (age_in_days now (fe_mtime f))"
      "fst (sweep_log fs c r now p (d, st)) = d(p := None)"
  | (partial) f where "d p = Some f" "extension p \<noteq> Some ext_gz" "\<not> is_active_log p" "fs_gzip fs (fe_data f) = None"
      "fst (sweep_log fs c r now p (d, st)) = d(gz_name p \<mapsto> \<lparr> fe_mtime = now, fe_data = [] \<rparr>)"
  | (gz) f z rm where "d p = Some f" "extension p \<noteq> Some ext_gz" "\<not> is_active_log p" "c < as_u32 (age_in_days now (fe_mtime f))"
      "fs_gzip fs (fe_data f) = Some z"
      "fst (sweep_log fs c r now p (d, st)) =
        (if rm then (d(gz_name p \<mapsto> \<lparr> fe_mtime = now, fe_data = z \<rparr>))(p := None) else d(gz_name p \<mapsto> \<lparr> fe_mtime = now, fe_data = z \<rparr>))"
proof (cases "d p")
  case None
  then show ?thesis using same by (simp add: sweep_log_def)
next
  case (Some f)
  consider (a) "\<not> is_active_log p \<and> r < as_u32 (age_in_days now (fe_mtime f))"
    | (b) "\<not> (\<not> is_active_log p \<and> r < as_u32 (age_in_days now (fe_mtime f)))" "extension p \<noteq> Some ext_gz \<and> \<not> is_active_log p \<and> c < as_u32 (age_in_days now (fe_mtime f))"
    | (c) "\<not> (\<not> is_active_log p \<and> r < as_u32 (age_in_days now (fe_mtime f)))" "\<not> (extension p \<noteq> Some ext_gz \<and> \<not> is_active_log p \<and> c < as_u32 (age_in_days now (fe_mtime f)))"
    by blast
  then show ?thesis
  proof cases
    case a
    show ?thesis
    proof (cases "fs_removable fs p")
      case True
      have "fst (sweep_log fs c r now p (d, st)) = d(p := None)"
        using a True Some by (simp add: sweep_log_def Let_def remove_def)
      then show ?thesis using removed[OF Some] a by blast
    next
      case False
      have "fst (sweep_log fs c r now p (d, st)) = d"
        using a False Some by (simp add: sweep_log_def Let_def remove_def)
      then show ?thesis by (rule same)
    qed
  next
    case b
    have g: "fst (sweep_log fs c r now p (d, st)) = snd (gzip_file fs now p d)"
      using b Some by (auto simp: sweep_log_def Let_def split: prod.split)
    show ?thesis
    proof (cases "fs_readable fs p")
      case False
      then show ?thesis using same g Some by (simp add: gzip_file_def)
    next
      case True
      show ?thesis
      proof (cases "fs_gzip fs (fe_data f)")
        case None
        then show ?thesis using partial[OF Some] b(2) g True Some by (simp add: gzip_file_def)
      next
        case z: (Some z)
        have "p \<noteq> gz_name p" by (simp add: gz_name_def)
        then have "snd (gzip_file fs now p d) = (if fs_removable fs p
            then (d(gz_name p \<mapsto> \<lparr> fe_mtime = now, fe_data = z \<rparr>))(p := None) else d(gz_name p \<mapsto> \<lparr> fe_mtime = now, fe_data = z \<rparr>))"
          using True Some z by (simp add: gzip_file_def remove_def)
        then show ?thesis using gz[OF Some _ _ _ z] b(2) g by metis
      qed
    qed
  next
    case c
    have "fst (sweep_log fs c r now p (d, st)) = d"
      using c Some unfolding sweep_log_def Let_def by (simp only: prod.case option.case if_False fst_conv)
    then show ?thesis by (rule same)
  qed
qed

text \<open>The compressed copy of a file, as the sweep leaves it.\<close>

definition archived :: "fs_answers \<Rightarrow> instant \<Rightarrow> nat \<Rightarrow> rstr \<Rightarrow> file_entry \<Rightarrow> dir \<Rightarrow> bool" where
  "archived fs now c f e d \<longleftrightarrow> \<not> is_active_log f \<and> c < as_u32 (age_in_days now (fe_mtime e))
     \<and> (\<exists>z. fs_gzip fs (fe_data e) = Some z \<and> d (gz_name f) = Some \<lparr> fe_mtime = now, fe_data = z \<rparr>)"

definition log_safe :: "fs_answers \<Rightarrow> instant \<Rightarrow> nat \<Rightarrow> dir \<Rightarrow> rstr \<Rightarrow> file_entry \<Rightarrow> dir \<Rightarrow> bool" where
  "log_safe fs now c d0 f e d \<longleftrightarrow> d [] = None \<and> (\<forall>q. d q \<noteq> None \<longrightarrow> d0 q \<noteq> None \<or> extension q = Some ext_gz)
     \<and> (d f = Some e \<or> d f = None \<and> archived fs now c f e d)"

lemma sweep_log_safe:
  assumes safe: "log_safe fs now c d0 f e d" and f: "f \<noteq> []" "\<forall>q. d0 q \<noteq> None \<longrightarrow> f \<noteq> gz_name q"
    and young: "is_active_log f \<or> as_u32 (age_in_days now (fe_mtime e)) \<le> r"
  shows "log_safe fs now c d0 f e (fst (sweep_log fs c r now p (d, st)))"
proof (cases rule: sweep_log_cases[of fs c r now p d st])
  case same
  then show ?thesis using safe by simp
next
  case (removed g)
  have "p \<noteq> f" using removed(1-3) young safe by (auto simp: log_safe_def)
  moreover have "d p = Some g \<Longrightarrow> archived fs now c f e d \<Longrightarrow> p \<noteq> gz_name f"
    using removed(3) by (auto simp: archived_def age_now)
  ultimately show ?thesis using safe removed(1) unfolding removed(4) by (auto simp: log_safe_def archived_def)
next
  case (partial g)
  have p: "p \<noteq> []" "d0 p \<noteq> None" using safe partial(1,2) by (auto simp: log_safe_def)
  have "f \<noteq> gz_name p" using f(2) p(2) by blast
  moreover have "p = f \<Longrightarrow> \<not> archived fs now c f e d" if "d f = Some e"
    using partial(1,4) that by (auto simp: archived_def)
  ultimately show ?thesis using safe partial(1) gz_name_ext[OF p(1)] unfolding partial(5)
    by (auto simp: log_safe_def archived_def gz_name_inj) (auto simp: gz_name_def)
next
  case (gz g z rm)
  have p: "p \<noteq> []" "d0 p \<noteq> None" using safe gz(1,2) by (auto simp: log_safe_def)
  have ne: "f \<noteq> gz_name p" "p \<noteq> gz_name f" "p \<noteq> gz_name p"
    using f(2) p(2) gz(2) gz_name_ext[OF f(1)] gz_name_ext[OF p(1)] by auto
  have own: "p = f \<Longrightarrow> g = e" using gz(1) safe by (auto simp: log_safe_def)
  let ?d = "d(gz_name p \<mapsto> \<lparr> fe_mtime = now, fe_data = z \<rparr>)"
  have arch: "archived fs now c f e d \<or> p = f \<Longrightarrow> archived fs now c f e d'" if "d' (gz_name f) = ?d (gz_name f)" for d'
    using that own gz by (auto simp: archived_def gz_name_inj)
  have base: "log_safe fs now c d0 f e ?d"
    using safe gz_name_ext[OF p(1)] ne arch[of ?d] by (auto simp: log_safe_def gz_name_def)
  have "log_safe fs now c d0 f e (?d(p := None))"
    using base ne own arch[of "?d(p := None)"] by (auto simp: log_safe_def archived_def)
  then show ?thesis using base unfolding gz(6) by simp
qed

text \<open>A log that is not past its retention, or that is active, keeps its contents: it is left as it was,
  or it is replaced by its compressed copy; an active log is left as it was whatever its age.  The
  file is not itself the compressed name of another one, which compressing that one would overwrite.
\<close>

theorem logs_swept_safely:
  assumes "sweep_dir fs (Some ns) c r now (d, st) = (d', st')" "d f = Some e" "d [] = None"
    and "\<forall>q. d q \<noteq> None \<longrightarrow> f \<noteq> gz_name q" "is_active_log f \<or> as_u32 (age_in_days now (fe_mtime e)) \<le> r"
  shows "(d' f = Some e \<or> d' f = None \<and> archived fs now c f e d') \<and> (is_active_log f \<longrightarrow> d' f = Some e)"
proof -
  have f: "f \<noteq> []" using assms(2,3) by auto
  have "log_safe fs now c d f e d1 \<Longrightarrow> log_safe fs now c d f e (fst (fold (sweep_log fs c r now) ns (d1, st1)))" for d1 st1
  proof (induction ns arbitrary: d1 st1)
    case (Cons p ns)
    obtain d2 st2 where s: "sweep_log fs c r now p (d1, st1) = (d2, st2)" by force
    have "log_safe fs now c d f e d2"
      using sweep_log_safe[OF Cons.prems f assms(4,5), of p st1] by (simp add: s)
    from Cons.IH[OF this] show ?case by (simp add: s)
  qed simp
  moreover have "log_safe fs now c d f e d" using assms(2,3) by (simp add: log_safe_def)
  ultimately have "log_safe fs now c d f e d'" using assms(1) by (metis fst_conv option.simps(5) sweep_dir_def)
  then show ?thesis by (auto simp: log_safe_def archived_def)
qed

definition agent_log :: dir where
  "agent_log = [lit ''a.log'' \<mapsto> \<lparr> fe_mtime = 0, fe_data = lit ''x'' \<rparr>]"

lemma logs_swept_safely_witness:
  "fst (sweep_dir sample_fs (Some [lit ''a.log'']) 1 14 (40 * day_secs * second) (agent_log, no_stats)) (lit ''a.log'')
    = Some \<lparr> fe_mtime = 0, fe_data = lit ''x'' \<rparr>"
proof -
  obtain d' st' where s: "sweep_dir sample_fs (Some [lit ''a.log'']) 1 14 (40 * day_secs * second) (agent_log, no_stats) = (d', st')"
    by force
  have "rsplit_once 46 ([97] @ [46] @ ext_log) = Some ([97], ext_log)"
    by (rule rsplit_once_last) (simp add: ext_log_def lit_def)
  then have "is_active_log (lit ''a.log'')" by (simp add: is_active_log_def lit_def ext_log_def)
  moreover have "lit ''a.log'' \<noteq> gz_name q" if "agent_log q \<noteq> None" for q
    using that by (auto simp: agent_log_def gz_name_def split: if_splits)
  ultimately have "d' (lit ''a.log'') = Some \<lparr> fe_mtime = 0, fe_data = lit ''x'' \<rparr>"
    using logs_swept_safely[OF s, of "lit ''a.log''" "\<lparr> fe_mtime = 0, fe_data = lit ''x'' \<rparr>"]
    by (simp add: agent_log_def)
  then show ?thesis unfolding s by simp
qed

text \<open>The compressed copy is a new file: its age starts again, and the retention counts from the day
  it was compressed.\<close>

lemma archive_restarts_age:
  "archived fs now c f e d \<Longrightarrow> \<exists>z. d (gz_name f) = Some z \<and> as_u32 (age_in_days now (fe_mtime z)) = 0"
  by (auto simp: archived_def age_now)

text \<open>The temporary file of a window is \<open><window>.json.tmp\<close>; the window looked for on its behalf is
  another file.\<close>

lemma tmp_misses_window:
  "window_for_sidecar (lit ''a.json.tmp'') = lit ''a.json.json''"
proof -
  have "lit ''a.json.tmp'' = lit ''a.json'' @ [46] @ lit ''tmp''" by (simp add: lit_def)
  moreover have "file_stem (lit ''a.json'' @ [46] @ lit ''tmp'') = lit ''a.json''"
    using extension_dot[of "lit ''tmp''" "lit ''a.json''"] by (simp add: lit_def)
  ultimately show ?thesis by (simp add: window_for_sidecar_def with_extension_def ext_json_def lit_def)
qed

end
