(* ===== verification/Local_Api.thy ===== *)
theory Local_Api
  imports Telegram_Inbound State_Store
begin

text \<open>
  The local API (\<open>dotagent/src/local_api/protocol.rs\<close> and the framing and routing of
  \<open>local_api/server.rs\<close>): the wire types and their validation, the bounded line reader, the recovery
  of a request id, and what one request line is answered.  Bytes are numbers; decoding UTF-8, JSON
  parsing and the handler behind the server are parameters.
\<close>

section \<open>Wire types\<close>

definition max_connections :: nat where "max_connections = 16"
definition max_event_queue_bytes :: nat where "max_event_queue_bytes = 1024 * 1024"
definition rate_per_minute :: nat where "rate_per_minute = 30"

definition code_too_many_connections :: rstr where "code_too_many_connections = lit ''too_many_connections''"
definition code_internal :: rstr where "code_internal = lit ''internal''"

record server_error =
  se_code :: rstr
  se_message :: rstr

record server_response =
  sr_id :: rstr
  sr_result :: "json option"
  sr_error :: "server_error option"

definition resp_ok :: "rstr \<Rightarrow> json \<Rightarrow> server_response" where
  "resp_ok i v = \<lparr> sr_id = i, sr_result = Some v, sr_error = None \<rparr>"

definition resp_err :: "rstr \<Rightarrow> rstr \<Rightarrow> rstr \<Rightarrow> server_response" where
  "resp_err i code msg = \<lparr> sr_id = i, sr_result = None, sr_error = Some \<lparr> se_code = code, se_message = msg \<rparr> \<rparr>"

record server_event =
  ev_event :: rstr
  ev_session_id :: "rstr option"
  ev_agent :: "rstr option"
  ev_line :: "rstr option"
  ev_text :: "rstr option"

definition ev_typing :: "rstr \<Rightarrow> server_event" where
  "ev_typing s = \<lparr> ev_event = lit ''typing'', ev_session_id = Some s, ev_agent = None, ev_line = None, ev_text = None \<rparr>"
definition ev_run_started :: "rstr \<Rightarrow> rstr \<Rightarrow> server_event" where
  "ev_run_started s a = \<lparr> ev_event = lit ''run.started'', ev_session_id = Some s, ev_agent = Some a, ev_line = None, ev_text = None \<rparr>"
definition ev_reply_delta :: "rstr \<Rightarrow> rstr \<Rightarrow> server_event" where
  "ev_reply_delta s l = \<lparr> ev_event = lit ''reply.delta'', ev_session_id = Some s, ev_agent = None, ev_line = Some l, ev_text = None \<rparr>"
definition ev_reply :: "rstr \<Rightarrow> rstr \<Rightarrow> server_event" where
  "ev_reply s t = \<lparr> ev_event = lit ''reply'', ev_session_id = Some s, ev_agent = None, ev_line = None, ev_text = Some t \<rparr>"












section \<open>Reading a line\<close>


datatype bounded_line = Complete "nat list" | Oversized "nat list"

text \<open>The chunks are what \<open>fill_buf\<close> gives in turn; none is empty before the end of the input.  The
  result also says what was left unread.\<close>

definition strip_cr_byte :: "nat list \<Rightarrow> nat list" where
  "strip_cr_byte l = (if l \<noteq> [] \<and> last l = 13 then butlast l else l)"

fun read_bounded :: "nat \<Rightarrow> nat list \<Rightarrow> nat list list \<Rightarrow> bounded_line option \<times> nat list list" where
  "read_bounded limit line [] = ((if line = [] then None else Some (Complete line)), [])"
| "read_bounded limit line (buffer # rest) =
     (let content = takeWhile (\<lambda>b. b \<noteq> 10) buffer; remaining = limit - length line
      in if remaining < length content
         then (Some (Oversized (line @ take remaining buffer)), drop (remaining + 1) buffer # rest)
         else if 10 \<in> set buffer
         then (Some (Complete (strip_cr_byte (line @ content))), drop (length content + 1) buffer # rest)
         else read_bounded limit (line @ content) rest)"

definition read_bounded_line :: "nat \<Rightarrow> nat list list \<Rightarrow> bounded_line option \<times> nat list list" where
  "read_bounded_line limit chunks = read_bounded limit [] chunks"

section \<open>Recovering an id\<close>











section \<open>Routing\<close>

record peer_info =
  pi_pid :: "nat option"
  pi_uid :: "nat option"

definition peer_actor :: "peer_info \<Rightarrow> rstr" where
  "peer_actor p = (case (pi_pid p, pi_uid p) of
     (Some pid, Some uid) \<Rightarrow> lit ''pid='' @ show_nat pid @ lit '' uid='' @ show_nat uid
   | (Some pid, None) \<Rightarrow> lit ''pid='' @ show_nat pid
   | (None, Some uid) \<Rightarrow> lit ''uid='' @ show_nat uid
   | (None, None) \<Rightarrow> lit ''local'')"


definition resp_of :: "rstr \<Rightarrow> server_error + json \<Rightarrow> server_response" where
  "resp_of i r = (case r of Inl e \<Rightarrow> resp_err i (se_code e) (se_message e) | Inr v \<Rightarrow> resp_ok i v)"



section \<open>One frame of a connection\<close>







section \<open>The line reader against the stream\<close>

definition read_line_spec :: "nat \<Rightarrow> nat list \<Rightarrow> bounded_line option \<times> nat list" where
  "read_line_spec limit s =
     (let content = takeWhile (\<lambda>b. b \<noteq> 10) s
      in if limit < length content then (Some (Oversized (take limit s)), drop (limit + 1) s)
         else if 10 \<in> set s then (Some (Complete (strip_cr_byte content)), drop (length content + 1) s)
         else if s = [] then (None, []) else (Some (Complete s), []))"

lemma takeWhile_all: "c \<notin> set a \<Longrightarrow> takeWhile (\<lambda>b. b \<noteq> c) (a @ s) = a @ takeWhile (\<lambda>b. b \<noteq> c) s"
  by (induction a) auto

lemma takeWhile_prefix: "c \<in> set a \<Longrightarrow> takeWhile (\<lambda>b. b \<noteq> c) (a @ s) = takeWhile (\<lambda>b. b \<noteq> c) a"
  by (induction a) auto

lemma takeWhile_none: "c \<notin> set a \<Longrightarrow> takeWhile (\<lambda>b. b \<noteq> c) a = a"
  by (induction a) auto

lemma read_bounded_spec:
  assumes "10 \<notin> set line" "length line \<le> limit"
  shows "(fst (read_bounded limit line chunks), concat (snd (read_bounded limit line chunks)))
    = read_line_spec limit (line @ concat chunks)"
  using assms
proof (induction limit line chunks rule: read_bounded.induct)
  case (1 limit line)
  then show ?case by (simp add: read_line_spec_def takeWhile_none Let_def)
next
  case (2 limit line buffer rest)
  let ?s = "line @ buffer @ concat rest" and ?c = "takeWhile (\<lambda>b. b \<noteq> 10) buffer"
  have all: "takeWhile (\<lambda>b. b \<noteq> 10) ?s = line @ takeWhile (\<lambda>b. b \<noteq> 10) (buffer @ concat rest)"
    by (rule takeWhile_all[OF "2.prems"(1)])
  have le: "length ?c \<le> length buffer" by (rule length_takeWhile_le)
  have longer: "length ?c \<le> length (takeWhile (\<lambda>b. b \<noteq> 10) (buffer @ concat rest))"
    by (cases "10 \<in> set buffer") (simp_all add: takeWhile_prefix takeWhile_all takeWhile_none)
  consider (over) "limit - length line < length ?c" | (found) "\<not> limit - length line < length ?c" "10 \<in> set buffer"
    | (more) "\<not> limit - length line < length ?c" "10 \<notin> set buffer" by blast
  then show ?case
  proof cases
    case over
    then have "limit < length (takeWhile (\<lambda>b. b \<noteq> 10) ?s)" unfolding all using longer "2.prems"(2) by simp
    then show ?thesis using over "2.prems"(2) le by (simp add: read_line_spec_def Let_def Suc_diff_le)
  next
    case found
    have "takeWhile (\<lambda>b. b \<noteq> 10) ?s = line @ ?c" unfolding all by (simp add: takeWhile_prefix[OF found(2)])
    moreover have "length ?c < length buffer"
      using found(2) le takeWhile_eq_all_conv[of "\<lambda>b. b \<noteq> 10" buffer] takeWhile_dropWhile_id[of "\<lambda>b. b \<noteq> 10" buffer]
      by (metis le_neq_implies_less length_append add_cancel_left_right length_0_conv append_Nil2)
    ultimately show ?thesis using found "2.prems"(2) by (simp add: read_line_spec_def Let_def)
  next
    case more
    have c: "?c = buffer" by (rule takeWhile_none[OF more(2)])
    have "10 \<notin> set (line @ ?c)" "length (line @ ?c) \<le> limit" unfolding c using more[unfolded c] "2.prems" by auto
    note ih = "2.IH"[OF refl refl more(1) _ this]
    have "read_bounded limit line (buffer # rest) = read_bounded limit (line @ buffer) rest"
      using more unfolding c by (simp only: read_bounded.simps Let_def c if_False)
    then show ?thesis using ih more(2) unfolding c by simp
  qed
qed

text \<open>C32. However the bytes of a connection are cut into chunks, the reader gives the line the stream holds:
  the bytes before the first line feed without a trailing carriage return, or, as soon as more than
  the limit precede it, their prefix of that length; and it leaves the rest of the stream unread.
\<close>

theorem bounded_line_exact:
  "read_bounded_line limit chunks = (r, rest) \<Longrightarrow> (r, concat rest) = read_line_spec limit (concat chunks)"
  using read_bounded_spec[of "[]" limit chunks] by (simp add: read_bounded_line_def)

lemma bounded_line_exact_witness:
  "(Some (Complete [97, 98]), [99]) = read_line_spec 8 (concat [[97], [98, 13], [10, 99]])"
  using bounded_line_exact[of 8 "[[97], [98, 13], [10, 99]]" "Some (Complete [97, 98])" "[[99]]"]
  by (simp add: read_bounded_line_def strip_cr_byte_def)

section \<open>Every request is answered\<close>

definition one_half :: "server_response \<Rightarrow> bool" where
  "one_half r \<longleftrightarrow> (sr_result r = None) \<noteq> (sr_error r = None)"

lemma one_half_simps [simp]: "one_half (resp_ok i v)" "one_half (resp_err i c t)" "one_half (resp_of i r)"
  by (simp_all add: one_half_def resp_ok_def resp_err_def resp_of_def split: sum.split)

lemma resp_ids [simp]: "sr_id (resp_ok i v) = i" "sr_id (resp_err i c t) = i" "sr_id (resp_of i r) = i"
  by (simp_all add: resp_ok_def resp_err_def resp_of_def split: sum.split)










end
