(* ===== verification/Local_Api_Conn.thy ===== *)
theory Local_Api_Conn
  imports Local_Api
begin

text \<open>
  The connections of the local API (\<open>dotagent/src/local_api/server.rs\<close>): who may bind the socket and
  who is let in, how many are served, and one connection as its tasks share it.  Producers of events
  (clones of \<open>EventTx\<close>), the reader that queues responses and the writer run interleaved; one step is
  one access to what they share: the byte counter, the poison flag, the bounded queue.  Setting the
  poison flag and storing the wake-up is one step.
\<close>

section \<open>Binding the socket\<close>

datatype path_state = PathAbsent | PathError | PathOther | PathSocket bool nat

datatype bind_error = NotASocket | AddrInUse | NotOurs | BindIo

text \<open>\<open>PathSocket answered uid\<close>: whether somebody accepts a connection there, and the owner.  The result
  says whether the file was removed.\<close>

definition ensure_bindable :: "nat \<Rightarrow> bool \<Rightarrow> path_state \<Rightarrow> (bind_error + unit) \<times> bool" where
  "ensure_bindable euid removable st = (case st of
     PathAbsent \<Rightarrow> (Inr (), False)
   | PathError \<Rightarrow> (Inl BindIo, False)
   | PathOther \<Rightarrow> (Inl NotASocket, False)
   | PathSocket answered uid \<Rightarrow>
       if answered then (Inl AddrInUse, False)
       else if uid \<noteq> euid then (Inl NotOurs, False)
       else if removable then (Inr (), True) else (Inl BindIo, False))"

lemma removes_only_dead_own_socket:
  "snd (ensure_bindable euid rm st) \<Longrightarrow> st = PathSocket False euid"
  by (auto simp: ensure_bindable_def split: path_state.splits if_splits)

text \<open>A peer whose uid is known must be the daemon's; an unknown one is let in.\<close>

definition admit_peer :: "nat \<Rightarrow> peer_info \<Rightarrow> bool" where
  "admit_peer euid peer = (case pi_uid peer of Some uid \<Rightarrow> uid = euid | None \<Rightarrow> True)"

definition peer_rejection :: server_response where
  "peer_rejection = resp_err [] code_internal (lit ''peer credentials do not match the daemon uid'')"

definition overflow_rejection :: "nat \<Rightarrow> server_response" where
  "overflow_rejection n = resp_err [] code_too_many_connections
     (lit ''connection limit ('' @ show_nat n @ lit '') reached; try again later'')"

section \<open>The accept loop\<close>

text \<open>\<open>live\<close> is the counter of the loop; a connection task that panics is gone without giving its
  place back.\<close>

record listener =
  li_live :: nat
  li_serving :: nat
  li_panicked :: nat

inductive accept_step :: "nat \<Rightarrow> listener \<Rightarrow> listener \<Rightarrow> bool" for limit where
  serve: "li_live s < limit \<Longrightarrow> accept_step limit s (s\<lparr> li_live := li_live s + 1, li_serving := li_serving s + 1 \<rparr>)"
| reject: "limit \<le> li_live s \<Longrightarrow> accept_step limit s s"
| finish: "0 < li_serving s \<Longrightarrow> accept_step limit s (s\<lparr> li_live := li_live s - 1, li_serving := li_serving s - 1 \<rparr>)"
| panic: "0 < li_serving s \<Longrightarrow> accept_step limit s (s\<lparr> li_serving := li_serving s - 1, li_panicked := li_panicked s + 1 \<rparr>)"

definition no_connections :: listener where
  "no_connections = \<lparr> li_live = 0, li_serving = 0, li_panicked = 0 \<rparr>"

inductive accept_reach :: "nat \<Rightarrow> listener \<Rightarrow> bool" for limit where
  start: "accept_reach limit no_connections"
| step: "accept_reach limit s \<Longrightarrow> accept_step limit s s' \<Longrightarrow> accept_reach limit s'"

lemma accept_invariant:
  "accept_reach limit s \<Longrightarrow> li_live s = li_serving s + li_panicked s \<and> li_live s \<le> limit"
proof (induction rule: accept_reach.induct)
  case start then show ?case by (simp add: no_connections_def)
next
  case (step s s')
  from step.hyps(2) step.IH show ?case by cases auto
qed

lemma panicked_places_are_lost:
  "accept_reach limit s \<Longrightarrow> li_panicked s = limit \<Longrightarrow> li_serving s = 0 \<and> \<not> li_live s < limit"
  using accept_invariant[of limit s] by simp

section \<open>One connection\<close>

definition event_queue_slots :: nat where "event_queue_slots = 512"

datatype conn_frame = FEvent rstr | FResponse rstr | FClose rstr

datatype producer = PIdle | PLoaded rstr nat | PReserved rstr | PReady rstr

datatype conn_writer = WIdle | WWrite conn_frame | WGone

datatype conn_reader = RIdle | RSend rstr bool | RClosing | RGone

record conn =
  co_queue :: "conn_frame list"
  co_bytes :: nat
  co_poisoned :: bool
  co_permit :: bool
  co_prods :: "producer list"
  co_writer :: conn_writer
  co_reader :: conn_reader
  co_written :: "conn_frame list"
  co_accepted :: "conn_frame list"
  co_lost :: nat

definition conn_init :: "nat \<Rightarrow> conn" where
  "conn_init n = \<lparr> co_queue = [], co_bytes = 0, co_poisoned = False, co_permit = False, co_prods = replicate n PIdle,
     co_writer = WIdle, co_reader = RIdle, co_written = [], co_accepted = [], co_lost = 0 \<rparr>"

definition poison_connection :: "conn \<Rightarrow> conn" where
  "poison_connection c = c\<lparr> co_poisoned := True, co_permit := True \<rparr>"

definition set_prod :: "nat \<Rightarrow> producer \<Rightarrow> conn \<Rightarrow> conn" where
  "set_prod i p c = c\<lparr> co_prods := (co_prods c)[i := p] \<rparr>"

text \<open>The test of \<open>reserve_bytes\<close> on the value it has loaded.\<close>

definition over_budget :: "nat \<Rightarrow> nat \<Rightarrow> nat \<Rightarrow> bool" where
  "over_budget limit queued len \<longleftrightarrow> limit < queued \<or> limit - queued < len"

definition release :: "nat \<Rightarrow> conn \<Rightarrow> conn" where
  "release len c = c\<lparr> co_bytes := co_bytes c - len \<rparr>"

definition queue_frame :: "conn_frame \<Rightarrow> conn \<Rightarrow> conn" where
  "queue_frame f c = c\<lparr> co_queue := co_queue c @ [f], co_accepted := co_accepted c @ [f] \<rparr>"

definition has_room :: "conn \<Rightarrow> bool" where
  "has_room c \<longleftrightarrow> co_writer c \<noteq> WGone \<and> length (co_queue c) < event_queue_slots"

fun event_len :: "conn_frame \<Rightarrow> nat" where
  "event_len (FEvent l) = byte_len l"
| "event_len (FResponse l) = 0"
| "event_len (FClose l) = 0"

fun is_close :: "conn_frame \<Rightarrow> bool" where
  "is_close (FClose l) = True"
| "is_close _ = False"

fun in_flight :: "conn_writer \<Rightarrow> conn_frame list" where
  "in_flight (WWrite f) = [f]"
| "in_flight _ = []"

text \<open>The writer ends: what is queued is dropped with the receiver, and its bytes stay counted.\<close>

definition writer_gone :: "conn \<Rightarrow> conn" where
  "writer_gone c = c\<lparr> co_writer := WGone, co_queue := [],
     co_lost := co_lost c + sum_list (map event_len (in_flight (co_writer c) @ co_queue c)) \<rparr>"

definition frame_written :: "conn_frame \<Rightarrow> conn \<Rightarrow> conn" where
  "frame_written f c =
     (let c1 = c\<lparr> co_written := co_written c @ [f], co_bytes := co_bytes c - event_len f, co_writer := WIdle \<rparr>
      in if is_close f then writer_gone c1 else c1)"

inductive conn_step :: "nat \<Rightarrow> conn \<Rightarrow> conn \<Rightarrow> bool" for limit where
  p_load: "i < length (co_prods c) \<Longrightarrow> co_prods c ! i = PIdle \<Longrightarrow> \<not> co_poisoned c \<Longrightarrow>
     conn_step limit c (set_prod i (PLoaded line (co_bytes c)) c)"
| p_over: "i < length (co_prods c) \<Longrightarrow> co_prods c ! i = PLoaded line q \<Longrightarrow> over_budget limit q (byte_len line) \<Longrightarrow>
     conn_step limit c (poison_connection (set_prod i PIdle c))"
| p_swap: "i < length (co_prods c) \<Longrightarrow> co_prods c ! i = PLoaded line q \<Longrightarrow> \<not> over_budget limit q (byte_len line) \<Longrightarrow>
     co_bytes c = q \<Longrightarrow> conn_step limit c (set_prod i (PReserved line) (c\<lparr> co_bytes := q + byte_len line \<rparr>))"
| p_retry: "i < length (co_prods c) \<Longrightarrow> co_prods c ! i = PLoaded line q \<Longrightarrow> \<not> over_budget limit q (byte_len line) \<Longrightarrow>
     conn_step limit c (set_prod i (PLoaded line (co_bytes c)) c)"
| p_late: "i < length (co_prods c) \<Longrightarrow> co_prods c ! i = PReserved line \<Longrightarrow> co_poisoned c \<Longrightarrow>
     conn_step limit c (set_prod i PIdle (release (byte_len line) c))"
| p_check: "i < length (co_prods c) \<Longrightarrow> co_prods c ! i = PReserved line \<Longrightarrow> \<not> co_poisoned c \<Longrightarrow>
     conn_step limit c (set_prod i (PReady line) c)"
| p_queue: "i < length (co_prods c) \<Longrightarrow> co_prods c ! i = PReady line \<Longrightarrow> has_room c \<Longrightarrow>
     conn_step limit c (set_prod i PIdle (queue_frame (FEvent line) c))"
| p_refused: "i < length (co_prods c) \<Longrightarrow> co_prods c ! i = PReady line \<Longrightarrow> \<not> has_room c \<Longrightarrow>
     conn_step limit c (poison_connection (set_prod i PIdle (release (byte_len line) c)))"
| r_check: "co_reader c = RIdle \<Longrightarrow> \<not> co_poisoned c \<Longrightarrow> conn_step limit c (c\<lparr> co_reader := RSend line close \<rparr>)"
| r_queue: "co_reader c = RSend line False \<Longrightarrow> has_room c \<Longrightarrow>
     conn_step limit c ((queue_frame (FResponse line) c)\<lparr> co_reader := RIdle \<rparr>)"
| r_queue_close: "co_reader c = RSend line True \<Longrightarrow> has_room c \<Longrightarrow>
     conn_step limit c ((queue_frame (FClose line) c)\<lparr> co_reader := RClosing \<rparr>)"
| r_closing: "co_reader c = RClosing \<Longrightarrow> conn_step limit c (c\<lparr> co_poisoned := True, co_reader := RGone \<rparr>)"
| r_refused: "co_reader c = RSend line close \<Longrightarrow> \<not> has_room c \<Longrightarrow>
     conn_step limit c ((poison_connection c)\<lparr> co_reader := RGone \<rparr>)"
| r_end: "co_reader c = RIdle \<Longrightarrow> conn_step limit c (c\<lparr> co_reader := RGone \<rparr>)"
| r_error: "co_reader c = RIdle \<Longrightarrow> conn_step limit c ((poison_connection c)\<lparr> co_reader := RGone \<rparr>)"
| w_recv: "co_writer c = WIdle \<Longrightarrow> co_queue c = f # fs \<Longrightarrow> conn_step limit c (c\<lparr> co_writer := WWrite f, co_queue := fs \<rparr>)"
| w_done: "co_writer c = WWrite f \<Longrightarrow> conn_step limit c (frame_written f c)"
| w_fail: "co_writer c = WWrite f \<Longrightarrow> conn_step limit c (writer_gone c)"
| w_poison: "co_writer c = WIdle \<Longrightarrow> co_permit c \<Longrightarrow> conn_step limit c (writer_gone (c\<lparr> co_permit := False \<rparr>))"
| w_end: "co_writer c = WIdle \<Longrightarrow> conn_step limit c (writer_gone c)"

inductive conn_reach :: "nat \<Rightarrow> nat \<Rightarrow> conn \<Rightarrow> bool" for limit n where
  start: "conn_reach limit n (conn_init n)"
| step: "conn_reach limit n c \<Longrightarrow> conn_step limit c c' \<Longrightarrow> conn_reach limit n c'"

section \<open>What holds of it at every moment\<close>

fun held :: "producer \<Rightarrow> nat" where
  "held (PReserved l) = byte_len l"
| "held (PReady l) = byte_len l"
| "held _ = 0"

definition accounted :: "conn \<Rightarrow> nat" where
  "accounted c = sum_list (map held (co_prods c)) + sum_list (map event_len (in_flight (co_writer c) @ co_queue c)) + co_lost c"

lemma held_update:
  assumes "i < length ps"
  shows "sum_list (map held (ps[i := p])) + held (ps ! i) = sum_list (map held ps) + held p"
  using assms
proof (induction ps arbitrary: i)
  case (Cons a ps)
  then show ?case by (cases i) auto
qed simp

lemma held_le: "i < length ps \<Longrightarrow> held (ps ! i) \<le> sum_list (map held ps)"
  by (simp add: member_le_sum_list)

definition budget_inv :: "nat \<Rightarrow> conn \<Rightarrow> bool" where
  "budget_inv limit c \<longleftrightarrow> co_bytes c = accounted c \<and> co_bytes c \<le> limit \<and> length (co_queue c) \<le> event_queue_slots"

definition order_inv :: "conn \<Rightarrow> bool" where
  "order_inv c \<longleftrightarrow> prefix (co_written c) (co_accepted c)
     \<and> (co_writer c \<noteq> WGone \<longrightarrow> co_accepted c = co_written c @ in_flight (co_writer c) @ co_queue c
          \<and> \<not> list_ex is_close (co_written c) \<and> co_lost c = 0)
     \<and> (co_writer c = WGone \<longrightarrow> co_queue c = []) \<and> \<not> list_ex is_close (butlast (co_written c))"

lemmas conn_ops = set_prod_def poison_connection_def release_def queue_frame_def writer_gone_def frame_written_def Let_def

lemma within_budget: "\<not> over_budget limit q len \<longleftrightarrow> q + len \<le> limit"
  by (auto simp: over_budget_def)

lemma budget_step: "conn_step limit c c' \<Longrightarrow> budget_inv limit c \<Longrightarrow> budget_inv limit c'"
proof (induction rule: conn_step.induct)
  case (p_load i c line)
  then show ?case using held_update[of i "co_prods c"] by (simp add: budget_inv_def accounted_def conn_ops)
next
  case (p_over i c line q)
  then show ?case using held_update[of i "co_prods c"] by (simp add: budget_inv_def accounted_def conn_ops)
next
  case (p_swap i c line q)
  then show ?case using held_update[of i "co_prods c" "PReserved line"]
    unfolding within_budget by (simp add: budget_inv_def accounted_def conn_ops)
next
  case (p_retry i c line q)
  then show ?case using held_update[of i "co_prods c"] by (simp add: budget_inv_def accounted_def conn_ops)
next
  case (p_late i c line)
  then show ?case using held_update[of i "co_prods c" PIdle] held_le[of i "co_prods c"]
    by (simp add: budget_inv_def accounted_def conn_ops) arith
next
  case (p_check i c line)
  then show ?case using held_update[of i "co_prods c" "PReady line"] by (simp add: budget_inv_def accounted_def conn_ops)
next
  case (p_queue i c line)
  then show ?case using held_update[of i "co_prods c" PIdle]
    by (simp add: budget_inv_def accounted_def conn_ops has_room_def)
next
  case (p_refused i c line)
  then show ?case using held_update[of i "co_prods c" PIdle] held_le[of i "co_prods c"]
    by (simp add: budget_inv_def accounted_def conn_ops) arith
qed (auto simp: budget_inv_def accounted_def conn_ops has_room_def)

lemma order_step: "conn_step limit c c' \<Longrightarrow> order_inv c \<Longrightarrow> order_inv c'"
proof (induction rule: conn_step.induct)
  case (w_done c f)
  then show ?case by (cases "is_close f") (auto simp: order_inv_def conn_ops butlast_append list_ex_iff dest: in_set_butlastD)
qed (auto simp: order_inv_def conn_ops has_room_def butlast_append list_ex_iff prefix_def dest: in_set_butlastD)

text \<open>C34. Whatever the interleaving of any number of event producers, the reader and the writer: the byte
  counter of a connection is what is reserved, queued, being written or dropped with the writer, so
  no subtraction ever goes below zero; it never exceeds the budget; the queue never exceeds its
  slots; the client is sent the frames in the order the queue took them, all that were taken before
  it; and nothing follows a response that closes.
\<close>

theorem connection_bounded_and_ordered:
  assumes "conn_reach limit n c"
  shows "co_bytes c = accounted c \<and> co_bytes c \<le> limit \<and> length (co_queue c) \<le> event_queue_slots
    \<and> (\<forall>i < length (co_prods c). held (co_prods c ! i) \<le> co_bytes c)
    \<and> (\<forall>f. co_writer c = WWrite f \<longrightarrow> event_len f \<le> co_bytes c)
    \<and> prefix (co_written c) (co_accepted c)
    \<and> (co_writer c \<noteq> WGone \<longrightarrow> co_accepted c = co_written c @ in_flight (co_writer c) @ co_queue c)
    \<and> (list_ex is_close (co_written c) \<longrightarrow> co_writer c = WGone \<and> is_close (last (co_written c)))"
proof -
  have "budget_inv limit c \<and> order_inv c"
    using assms
  proof (induction rule: conn_reach.induct)
    case start
    then show ?case by (simp add: budget_inv_def order_inv_def conn_init_def accounted_def sum_list_replicate)
  next
    case (step c c')
    then show ?case using budget_step order_step by blast
  qed
  then have b: "budget_inv limit c" and o: "order_inv c" by blast+
  have "held (co_prods c ! i) \<le> co_bytes c" if "i < length (co_prods c)" for i
    using held_le[OF that] b by (simp add: budget_inv_def accounted_def)
  moreover have "is_close (last (co_written c))" if "list_ex is_close (co_written c)"
  proof (cases "co_written c" rule: rev_cases)
    case (snoc fs f)
    then show ?thesis using that o by (auto simp: order_inv_def)
  qed (use that in simp)
  ultimately show ?thesis using b o by (auto simp: budget_inv_def order_inv_def accounted_def)
qed

text \<open>A run in which an event of two bytes is queued, written and released under a budget of two.\<close>

definition sent_once :: conn where
  "sent_once = (conn_init 1)\<lparr> co_written := [FEvent [97, 10]], co_accepted := [FEvent [97, 10]] \<rparr>"

lemma sample_conn_run: "conn_reach 2 1 sent_once"
proof -
  let ?l = "[97, 10] :: rstr"
  have len: "byte_len ?l = 2" by (simp add: byte_len_def utf8_width_def)
  have 1: "conn_reach 2 1 (conn_init 1)" by (rule conn_reach.start)
  have 2: "conn_reach 2 1 (set_prod 0 (PLoaded ?l 0) (conn_init 1))"
    using conn_reach.step[OF 1 p_load[of 0 "conn_init 1" 2 ?l]] by (simp add: conn_init_def)
  have 3: "conn_reach 2 1 (set_prod 0 (PReserved ?l) ((conn_init 1)\<lparr> co_bytes := 2 \<rparr>))"
    using conn_reach.step[OF 2 p_swap[of 0 _ ?l 0 2]] by (simp add: conn_init_def set_prod_def within_budget len numeral_2_eq_2)
  have 4: "conn_reach 2 1 (set_prod 0 (PReady ?l) ((conn_init 1)\<lparr> co_bytes := 2 \<rparr>))"
    using conn_reach.step[OF 3 p_check[of 0 _ ?l 2]] by (simp add: conn_init_def set_prod_def)
  have 5: "conn_reach 2 1 ((conn_init 1)\<lparr> co_bytes := 2, co_queue := [FEvent ?l], co_accepted := [FEvent ?l] \<rparr>)"
    using conn_reach.step[OF 4 p_queue[of 0 _ ?l 2]]
    by (simp add: conn_init_def set_prod_def has_room_def event_queue_slots_def queue_frame_def)
  have 6: "conn_reach 2 1 ((conn_init 1)\<lparr> co_bytes := 2, co_writer := WWrite (FEvent ?l), co_accepted := [FEvent ?l] \<rparr>)"
    using conn_reach.step[OF 5 w_recv[of _ "FEvent ?l" "[]" 2]] by (simp add: conn_init_def)
  show ?thesis
    using conn_reach.step[OF 6 w_done[of _ "FEvent ?l" 2]]
    by (simp add: conn_init_def frame_written_def len sent_once_def)
qed

lemma connection_bounded_and_ordered_witness:
  "co_bytes sent_once = accounted sent_once \<and> prefix (co_written sent_once) (co_accepted sent_once)"
  using connection_bounded_and_ordered[OF sample_conn_run] by blast

end
