(* ===== verification/Discovery.thy ===== *)
theory Discovery
  imports Dispatch Commands
begin

text \<open>
  What is installed: the scans for agents (\<open>dotagent/src/discovery.rs\<close>), skills
  (\<open>dotagent/src/skills.rs\<close>) and slash commands (\<open>dotagent/src/slash.rs\<close>), and the resolution of a
  path inside a skill.  The disk is a record of what the system answers; file names are the text
  \<open>to_string_lossy\<close> gives.  Decoding a manifest from TOML is part of the answer.
\<close>

section \<open>The disk\<close>

record disk =
  dk_dir :: "rstr \<Rightarrow> bool"
  dk_file :: "rstr \<Rightarrow> bool"
  dk_exec :: "rstr \<Rightarrow> bool"
  dk_entries :: "rstr \<Rightarrow> rstr list option"
  dk_text :: "rstr \<Rightarrow> rstr + rstr"
  dk_manifest :: "rstr \<Rightarrow> rstr + agent_manifest"
  dk_canonical :: "rstr \<Rightarrow> rstr + rstr list"

definition path_join :: "rstr \<Rightarrow> rstr \<Rightarrow> rstr" where
  "path_join p r = (if starts_with [47] r \<or> p = [] then r
     else if last p = 47 then p @ r else p @ [47] @ r)"

text \<open>A canonical path is the list of its components below the root.\<close>

definition abs_path :: "rstr list \<Rightarrow> rstr" where
  "abs_path cs = (if cs = [] then [47] else concat (map (\<lambda>c. 47 # c) cs))"

datatype component = RootDir | CurDir | ParentDir | Normal rstr

definition components :: "rstr \<Rightarrow> component list" where
  "components s = (let ps = split_on 47 s in
     (if starts_with [47] s then [RootDir] else if hd ps = [46] then [CurDir] else [])
     @ List.map_filter (\<lambda>p. if p = [] \<or> p = [46] then None
          else Some (if p = [46, 46] then ParentDir else Normal p)) ps)"

section \<open>Agents\<close>

record agent_discovery =
  ad_agents :: "discovered_agent list"
  ad_invalid :: "(rstr \<times> rstr) list"
  ad_seen :: "rstr list"

definition no_agents :: agent_discovery where
  "no_agents = \<lparr> ad_agents = [], ad_invalid = [], ad_seen = [] \<rparr>"

definition scan_agent :: "disk \<Rightarrow> rstr \<Rightarrow> rstr \<Rightarrow> agent_discovery \<Rightarrow> agent_discovery" where
  "scan_agent d root name out = (
     let path = path_join root name; manifest_path = path_join path (lit ''agent.toml'')
     in if \<not> dk_file d manifest_path then out
        else case dk_manifest d manifest_path of
          Inl e \<Rightarrow> out\<lparr> ad_invalid := ad_invalid out @ [(manifest_path, e)] \<rparr>
        | Inr m \<Rightarrow> (let n = am_name (mf_agent m)
            in if n \<in> set (ad_seen out) then out
               else out\<lparr> ad_agents := ad_agents out @ [\<lparr> da_manifest = m, da_dir = path \<rparr>],
                          ad_seen := n # ad_seen out \<rparr>))"

definition scan_agent_root :: "disk \<Rightarrow> rstr \<Rightarrow> agent_discovery \<Rightarrow> agent_discovery" where
  "scan_agent_root d root out = (if \<not> dk_dir d root then out
     else case dk_entries d root of None \<Rightarrow> out | Some names \<Rightarrow> fold (scan_agent d root) names out)"

definition discover_agents :: "disk \<Rightarrow> rstr list \<Rightarrow> agent_discovery" where
  "discover_agents d roots = fold (scan_agent_root d) roots no_agents"

definition find_agent :: "agent_discovery \<Rightarrow> rstr \<Rightarrow> rstr + discovered_agent" where
  "find_agent found name = (case find (\<lambda>a. da_name a = name) (ad_agents found) of
     Some a \<Rightarrow> Inr a
   | None \<Rightarrow> Inl (if ad_invalid found = [] then lit ''agent not found: '' @ name
       else lit ''agent not found: '' @ name @ lit '' ('' @ show_nat (length (ad_invalid found))
         @ lit '' manifest(s) failed to load and may be the one you meant: ''
         @ join (lit '', '') (map fst (ad_invalid found)) @ lit '')''))"

definition schedule_by_id :: "agent_manifest \<Rightarrow> rstr \<Rightarrow> rstr + schedule" where
  "schedule_by_id m i = (case find (\<lambda>s. sched_id s = i) (mf_schedules m) of
     Some s \<Rightarrow> Inr s | None \<Rightarrow> Inl (lit ''schedule id not found: '' @ i))"

text \<open>The surroundings the search roots come from.\<close>

record places =
  pl_env_root :: "rstr option"
  pl_agents_dir :: rstr
  pl_skills_dir :: rstr
  pl_commands_dir :: rstr
  pl_home :: "rstr option"
  pl_cwd :: "rstr option"

definition env_roots :: "places \<Rightarrow> rstr list" where
  "env_roots p = (case pl_env_root p of None \<Rightarrow> [] | Some e \<Rightarrow> filter (\<lambda>r. r \<noteq> []) (split_on 58 e))"

definition agent_roots :: "places \<Rightarrow> rstr list" where
  "agent_roots p = env_roots p @ [pl_agents_dir p]
     @ (case pl_cwd p of None \<Rightarrow> [] | Some c \<Rightarrow> [path_join c (lit ''agents''), c])"

section \<open>Skills\<close>

record discovered_skill =
  ds_manifest :: skill_manifest
  ds_dir :: rstr

definition ds_name :: "discovered_skill \<Rightarrow> rstr" where
  "ds_name s = sm_name (ds_manifest s)"

record skill_discovery =
  sd_skills :: "discovered_skill list"
  sd_invalid :: "(rstr \<times> rstr) list"
  sd_seen :: "rstr list"

definition no_skills :: skill_discovery where
  "no_skills = \<lparr> sd_skills = [], sd_invalid = [], sd_seen = [] \<rparr>"

text \<open>\<open>SkillManifest::load\<close>: the fallback name is the name of the directory.\<close>

definition load_skill_file :: "disk \<Rightarrow> (nat \<Rightarrow> bool) \<Rightarrow> rstr \<Rightarrow> rstr \<Rightarrow> rstr + skill_manifest" where
  "load_skill_file d u file dir_name = (case dk_text d file of
     Inl e \<Rightarrow> Inl e | Inr raw \<Rightarrow> sm_parse u raw dir_name)"

definition scan_skill :: "disk \<Rightarrow> (nat \<Rightarrow> bool) \<Rightarrow> rstr \<Rightarrow> rstr \<Rightarrow> skill_discovery \<Rightarrow> skill_discovery" where
  "scan_skill d u root name out = (
     let dir = path_join root name; file = path_join dir skill_file
     in if \<not> dk_file d file then out
        else case load_skill_file d u file name of
          Inl e \<Rightarrow> out\<lparr> sd_invalid := sd_invalid out @ [(file, e)] \<rparr>
        | Inr m \<Rightarrow> (if sm_name m \<in> set (sd_seen out) then out
            else out\<lparr> sd_skills := sd_skills out @ [\<lparr> ds_manifest = m, ds_dir = dir \<rparr>],
                       sd_seen := sm_name m # sd_seen out \<rparr>))"

text \<open>Paths of one directory sort by their last component.\<close>

definition scan_skill_root :: "disk \<Rightarrow> (nat \<Rightarrow> bool) \<Rightarrow> rstr \<Rightarrow> skill_discovery \<Rightarrow> skill_discovery" where
  "scan_skill_root d u root out = (case dk_entries d root of
     None \<Rightarrow> out | Some names \<Rightarrow> fold (scan_skill d u root) (sort names) out)"

definition discover_skills :: "disk \<Rightarrow> (nat \<Rightarrow> bool) \<Rightarrow> rstr list \<Rightarrow> skill_discovery" where
  "discover_skills d u roots = fold (scan_skill_root d u) roots no_skills"

definition find_skill :: "skill_discovery \<Rightarrow> rstr \<Rightarrow> rstr + discovered_skill" where
  "find_skill found name = (case find (\<lambda>s. ds_name s = name) (sd_skills found) of
     Some s \<Rightarrow> Inr s | None \<Rightarrow> Inl (lit ''skill not found: '' @ name))"

definition push_root :: "disk \<Rightarrow> rstr \<Rightarrow> rstr list \<Rightarrow> rstr list" where
  "push_root d p roots = (if dk_dir d p \<and> components p \<notin> components ` set roots then roots @ [p] else roots)"

definition configured :: "rstr list \<Rightarrow> rstr list" where
  "configured paths = map trim (filter (\<lambda>p. trim p \<noteq> []) paths)"

definition claude_roots :: "places \<Rightarrow> rstr \<Rightarrow> rstr list" where
  "claude_roots p what =
     (case pl_home p of None \<Rightarrow> [] | Some h \<Rightarrow> [path_join h (lit ''.claude/'' @ what)])
     @ (case pl_cwd p of None \<Rightarrow> [] | Some c \<Rightarrow> [path_join c (lit ''.claude/'' @ what)])"

definition cwd_root :: "places \<Rightarrow> rstr \<Rightarrow> rstr list" where
  "cwd_root p what = (case pl_cwd p of None \<Rightarrow> [] | Some c \<Rightarrow> [path_join c what])"

definition skill_roots :: "disk \<Rightarrow> places \<Rightarrow> rstr list \<Rightarrow> bool \<Rightarrow> rstr list" where
  "skill_roots d p paths claude = fold (push_root d)
     (configured paths
      @ concat (map (\<lambda>r. [path_join r (lit ''skills''), r]) (env_roots p))
      @ [pl_skills_dir p] @ (if claude then claude_roots p (lit ''skills'') else [])
      @ cwd_root p (lit ''skills'')) []"

section \<open>Inside a skill\<close>

definition max_listed_files :: nat where "max_listed_files = 100"
definition max_list_depth :: nat where "max_list_depth = 4"
definition skip_dirs :: "rstr list" where
  "skip_dirs = map lit [''.git'', ''node_modules'', ''target'', ''__pycache__'', ''.venv'']"

definition hidden :: "rstr \<Rightarrow> bool" where
  "hidden name \<longleftrightarrow> starts_with [46] name \<or> name \<in> set skip_dirs"

text \<open>The counter is what is left of the depth; the path below the skill is the list of its names.\<close>

primrec walk_files :: "disk \<Rightarrow> rstr \<Rightarrow> nat \<Rightarrow> rstr list \<Rightarrow> rstr list \<Rightarrow> rstr list" where
  "walk_files d base 0 rel out = out"
| "walk_files d base (Suc k) rel out =
     (if max_listed_files \<le> length out then out
      else case dk_entries d (foldl path_join base rel) of None \<Rightarrow> out
      | Some names \<Rightarrow> fold (\<lambda>name out.
          if hidden name then out
          else if dk_dir d (foldl path_join base (rel @ [name])) then walk_files d base k (rel @ [name]) out
          else if name \<noteq> skill_file then out @ [join [47] (rel @ [name])] else out) names out)"

definition skill_files :: "disk \<Rightarrow> discovered_skill \<Rightarrow> rstr list" where
  "skill_files d s = take max_listed_files (sort (walk_files d (ds_dir s) (max_list_depth + 1) [] []))"

definition plain_component :: "component \<Rightarrow> bool" where
  "plain_component c = (case c of Normal _ \<Rightarrow> True | CurDir \<Rightarrow> True | _ \<Rightarrow> False)"

definition resolve_within :: "disk \<Rightarrow> rstr \<Rightarrow> rstr \<Rightarrow> rstr + rstr list" where
  "resolve_within d dir rel0 = (let rel = trim rel0 in
     if rel = [] then Inl (lit ''no path given'')
     else if starts_with [47] rel then Inl (lit ''path must be relative to the skill directory: '' @ rel)
     else if \<not> list_all plain_component (components rel) then Inl (lit ''path escapes the skill directory: '' @ rel)
     else case dk_canonical d dir of
       Inl e \<Rightarrow> Inl (lit ''skill directory unreadable: '' @ e)
     | Inr base \<Rightarrow> (case dk_canonical d (path_join (abs_path base) rel) of
         Inl _ \<Rightarrow> Inl (lit ''no such file in this skill: '' @ rel)
       | Inr resolved \<Rightarrow> (if prefix base resolved then Inr resolved
           else Inl (lit ''path escapes the skill directory: '' @ rel))))"

definition resolve_readable :: "disk \<Rightarrow> discovered_skill \<Rightarrow> rstr \<Rightarrow> rstr + rstr list" where
  "resolve_readable d s rel = (case resolve_within d (ds_dir s) rel of
     Inl e \<Rightarrow> Inl e
   | Inr path \<Rightarrow> (if dk_file d (abs_path path) then Inr path else Inl (lit ''not a file: '' @ rel)))"

text \<open>The directory a script must lie in: canonical, or as written when it cannot be resolved.\<close>

definition scripts_dir :: "disk \<Rightarrow> discovered_skill \<Rightarrow> component list" where
  "scripts_dir d s = (let scripts = path_join (ds_dir s) (lit ''scripts'') in
     case dk_canonical d scripts of Inl _ \<Rightarrow> components scripts | Inr cs \<Rightarrow> RootDir # map Normal cs)"

definition resolve_script :: "disk \<Rightarrow> discovered_skill \<Rightarrow> rstr \<Rightarrow> rstr + rstr list" where
  "resolve_script d s rel = (case resolve_within d (ds_dir s) rel of
     Inl e \<Rightarrow> Inl e
   | Inr path \<Rightarrow>
       if \<not> prefix (scripts_dir d s) (RootDir # map Normal path)
       then Inl (lit ''scripts must live under scripts/ '' @ [0x2014] @ lit '' refusing '' @ rel)
       else if \<not> dk_file d (abs_path path) then Inl (lit ''not a file: '' @ rel)
       else if \<not> dk_exec d (abs_path path)
       then Inl (rel @ lit '' is not executable '' @ [0x2014] @ lit '' chmod +x it to make it callable'')
       else Inr path)"

section \<open>Slash commands\<close>

definition max_scan_depth :: nat where "max_scan_depth = 3"
definition command_ext :: rstr where "command_ext = lit ''md''"
definition namespace_sep :: nat where "namespace_sep = 58"

definition file_parts :: "rstr \<Rightarrow> rstr \<times> rstr option" where
  "file_parts name = (case rsplit_once 46 name of
     Some (before, after) \<Rightarrow> (if before = [] then (name, None) else (before, Some after))
   | None \<Rightarrow> (name, None))"

text \<open>The path of a file below the root, as the names of its directories and its own.\<close>

definition name_from_path :: "rstr list \<Rightarrow> rstr \<Rightarrow> rstr" where
  "name_from_path parents name = join [namespace_sep] (parents @ [fst (file_parts name)])"

record command_discovery =
  cd_commands :: "discovered_command list"
  cd_invalid :: "(rstr \<times> rstr) list"
  cd_seen :: "rstr list"

definition no_commands :: command_discovery where
  "no_commands = \<lparr> cd_commands = [], cd_invalid = [], cd_seen = [] \<rparr>"

definition scan_command :: "disk \<Rightarrow> (nat \<Rightarrow> bool) \<Rightarrow> (nat \<Rightarrow> rstr) \<Rightarrow> rstr \<Rightarrow> rstr list \<Rightarrow> rstr
    \<Rightarrow> command_discovery \<Rightarrow> command_discovery" where
  "scan_command d u lw root rel name out = (
     let path = foldl path_join root (rel @ [name])
     in if snd (file_parts name) \<noteq> Some command_ext \<or> name = skill_file then out
        else case dk_text d path of
          Inl e \<Rightarrow> out\<lparr> cd_invalid := cd_invalid out @ [(path, e)] \<rparr>
        | Inr raw \<Rightarrow> (case cm_parse u lw raw (name_from_path rel name) of
            Inl e \<Rightarrow> out\<lparr> cd_invalid := cd_invalid out @ [(path, e)] \<rparr>
          | Inr m \<Rightarrow> (if cm_name m \<in> set (cd_seen out) then out
              else out\<lparr> cd_commands := cd_commands out @ [\<lparr> dc_manifest = m, dc_path = path \<rparr>],
                         cd_seen := cm_name m # cd_seen out \<rparr>)))"

primrec scan_commands :: "disk \<Rightarrow> (nat \<Rightarrow> bool) \<Rightarrow> (nat \<Rightarrow> rstr) \<Rightarrow> rstr \<Rightarrow> nat \<Rightarrow> rstr list
    \<Rightarrow> command_discovery \<Rightarrow> command_discovery" where
  "scan_commands d u lw root 0 rel out = out"
| "scan_commands d u lw root (Suc k) rel out = (case dk_entries d (foldl path_join root rel) of
     None \<Rightarrow> out
   | Some names \<Rightarrow> fold (\<lambda>name out.
       if hidden name then out
       else if dk_dir d (foldl path_join root (rel @ [name]))
       then scan_commands d u lw root k (rel @ [name]) out
       else scan_command d u lw root rel name out) (sort names) out)"

definition discover_commands :: "disk \<Rightarrow> (nat \<Rightarrow> bool) \<Rightarrow> (nat \<Rightarrow> rstr) \<Rightarrow> bool \<Rightarrow> rstr list \<Rightarrow> command_discovery" where
  "discover_commands d u lw enabled roots = (if \<not> enabled then no_commands
     else fold (\<lambda>root. scan_commands d u lw root (max_scan_depth + 1) []) roots no_commands)"

definition command_roots :: "disk \<Rightarrow> places \<Rightarrow> rstr list \<Rightarrow> bool \<Rightarrow> rstr list" where
  "command_roots d p paths claude = fold (push_root d)
     (configured paths
      @ map (\<lambda>r. path_join r (lit ''commands'')) (env_roots p)
      @ [pl_commands_dir p] @ (if claude then claude_roots p (lit ''commands'') else [])
      @ cwd_root p (lit ''commands'')) []"

section \<open>The first of a name wins\<close>

text \<open>The three scans share a contract: a file that does not load is passed over, and of those that
  load under one name the first is kept.\<close>

fun first_by :: "('a \<Rightarrow> rstr) \<Rightarrow> rstr set \<Rightarrow> 'a list \<Rightarrow> 'a list" where
  "first_by key taken [] = []"
| "first_by key taken (x # xs) =
     (if key x \<in> taken then first_by key taken xs else x # first_by key (insert (key x) taken) xs)"

lemma first_by_mem: "x \<in> set (first_by key taken xs) \<Longrightarrow> x \<in> set xs \<and> key x \<notin> taken"
  by (induction key taken xs rule: first_by.induct) (auto split: if_splits)

lemma first_by_distinct: "distinct (map key (first_by key taken xs))"
  by (induction key taken xs rule: first_by.induct) (auto dest: first_by_mem)

lemma first_by_keys: "key ` set (first_by key taken xs) = key ` set xs - taken"
  by (induction key taken xs rule: first_by.induct) auto

locale first_wins =
  fixes step :: "'f \<Rightarrow> 'o \<Rightarrow> 'o"
    and found :: "'o \<Rightarrow> 'a list"
    and seen :: "'o \<Rightarrow> rstr list"
    and key :: "'a \<Rightarrow> rstr"
    and loads :: "'f \<Rightarrow> 'a option"
  assumes found_step: "found (step f out) = found out @ (case loads f of None \<Rightarrow> []
        | Some a \<Rightarrow> if key a \<in> set (seen out) then [] else [a])"
    and seen_step: "set (seen (step f out)) = set (seen out) \<union> (case loads f of None \<Rightarrow> {} | Some a \<Rightarrow> {key a})"
begin

lemma found_fold: "found (fold step fs out) = found out @ first_by key (set (seen out)) (List.map_filter loads fs)"
proof (induction fs arbitrary: out)
  case (Cons f fs)
  then show ?case
    by (cases "loads f") (auto simp: found_step seen_step map_filter_simps insert_absorb)
qed (simp add: map_filter_simps)

lemma found_distinct: "found out = [] \<Longrightarrow> distinct (map key (found (fold step fs out)))"
  by (simp add: found_fold first_by_distinct)

end

definition agent_at :: "disk \<Rightarrow> rstr \<times> rstr \<Rightarrow> discovered_agent option" where
  "agent_at d f = (let path = path_join (fst f) (snd f); manifest = path_join path (lit ''agent.toml'') in
     if \<not> dk_file d manifest then None
     else case dk_manifest d manifest of Inl _ \<Rightarrow> None | Inr m \<Rightarrow> Some \<lparr> da_manifest = m, da_dir = path \<rparr>)"

interpretation agent_scan: first_wins "\<lambda>f. scan_agent d (fst f) (snd f)" ad_agents ad_seen da_name "agent_at d" for d
  by unfold_locales (auto simp: scan_agent_def agent_at_def Let_def da_name_def split: sum.splits)

definition skill_at :: "disk \<Rightarrow> (nat \<Rightarrow> bool) \<Rightarrow> rstr \<times> rstr \<Rightarrow> discovered_skill option" where
  "skill_at d u f = (let dir = path_join (fst f) (snd f); file = path_join dir skill_file in
     if \<not> dk_file d file then None
     else case load_skill_file d u file (snd f) of Inl _ \<Rightarrow> None | Inr m \<Rightarrow> Some \<lparr> ds_manifest = m, ds_dir = dir \<rparr>)"

interpretation skill_scan: first_wins "\<lambda>f. scan_skill d u (fst f) (snd f)" sd_skills sd_seen ds_name "skill_at d u" for d u
  by unfold_locales (auto simp: scan_skill_def skill_at_def Let_def ds_name_def split: sum.splits)

definition command_at :: "disk \<Rightarrow> (nat \<Rightarrow> bool) \<Rightarrow> (nat \<Rightarrow> rstr) \<Rightarrow> rstr \<times> rstr list \<times> rstr \<Rightarrow> discovered_command option" where
  "command_at d u lw f = (case f of (root, rel, name) \<Rightarrow>
     let path = foldl path_join root (rel @ [name]) in
     if snd (file_parts name) \<noteq> Some command_ext \<or> name = skill_file then None
     else case dk_text d path of Inl _ \<Rightarrow> None
     | Inr raw \<Rightarrow> (case cm_parse u lw raw (name_from_path rel name) of Inl _ \<Rightarrow> None
        | Inr m \<Rightarrow> Some \<lparr> dc_manifest = m, dc_path = path \<rparr>))"

interpretation command_scan: first_wins "\<lambda>f. scan_command d u lw (fst f) (fst (snd f)) (snd (snd f))"
    cd_commands cd_seen "\<lambda>c. cm_name (dc_manifest c)" "command_at d u lw" for d u lw
  by unfold_locales (auto simp: scan_command_def command_at_def Let_def split: sum.splits)

text \<open>The files each scan looks at, in its order.\<close>

definition agent_files :: "disk \<Rightarrow> rstr list \<Rightarrow> (rstr \<times> rstr) list" where
  "agent_files d roots = concat (map (\<lambda>r. if \<not> dk_dir d r then [] else map (Pair r) (case dk_entries d r of
     None \<Rightarrow> [] | Some ns \<Rightarrow> ns)) roots)"

definition skill_dirs :: "disk \<Rightarrow> rstr list \<Rightarrow> (rstr \<times> rstr) list" where
  "skill_dirs d roots = concat (map (\<lambda>r. map (Pair r) (case dk_entries d r of None \<Rightarrow> [] | Some ns \<Rightarrow> sort ns)) roots)"

primrec command_files :: "disk \<Rightarrow> rstr \<Rightarrow> nat \<Rightarrow> rstr list \<Rightarrow> (rstr \<times> rstr list \<times> rstr) list" where
  "command_files d root 0 rel = []"
| "command_files d root (Suc k) rel = concat (map (\<lambda>name. if hidden name then []
     else if dk_dir d (foldl path_join root (rel @ [name])) then command_files d root k (rel @ [name])
     else [(root, rel, name)]) (case dk_entries d (foldl path_join root rel) of None \<Rightarrow> [] | Some ns \<Rightarrow> sort ns))"

lemma fold_concat: "fold (\<lambda>x. fold f (g x)) xs = fold f (concat (map g xs))"
  by (induction xs) auto

lemma scan_agent_roots: "discover_agents d roots = fold (\<lambda>f. scan_agent d (fst f) (snd f)) (agent_files d roots) no_agents"
proof -
  have "scan_agent_root d = (\<lambda>r. fold (\<lambda>f. scan_agent d (fst f) (snd f)) (if \<not> dk_dir d r then []
      else map (Pair r) (case dk_entries d r of None \<Rightarrow> [] | Some ns \<Rightarrow> ns)))"
    by (rule ext, rule ext) (auto simp: scan_agent_root_def fold_map comp_def split: option.splits)
  then show ?thesis by (simp add: discover_agents_def agent_files_def fold_concat)
qed

lemma scan_skill_roots: "discover_skills d u roots = fold (\<lambda>f. scan_skill d u (fst f) (snd f)) (skill_dirs d roots) no_skills"
proof -
  have "scan_skill_root d u = (\<lambda>r. fold (\<lambda>f. scan_skill d u (fst f) (snd f))
      (map (Pair r) (case dk_entries d r of None \<Rightarrow> [] | Some ns \<Rightarrow> sort ns)))"
    by (rule ext, rule ext) (auto simp: scan_skill_root_def fold_map comp_def split: option.splits)
  then show ?thesis by (simp add: discover_skills_def skill_dirs_def fold_concat)
qed

lemma scan_commands_files:
  "scan_commands d u lw root k rel = fold (\<lambda>f. scan_command d u lw (fst f) (fst (snd f)) (snd (snd f))) (command_files d root k rel)"
proof (induction k arbitrary: rel)
  case 0
  show ?case by (rule ext) simp
next
  case (Suc k)
  let ?step = "\<lambda>f. scan_command d u lw (fst f) (fst (snd f)) (snd (snd f))"
  have "(\<lambda>name out. if hidden name then out
      else if dk_dir d (foldl path_join root (rel @ [name])) then scan_commands d u lw root k (rel @ [name]) out
      else scan_command d u lw root rel name out)
    = (\<lambda>name. fold ?step (if hidden name then []
      else if dk_dir d (foldl path_join root (rel @ [name])) then command_files d root k (rel @ [name])
      else [(root, rel, name)]))"
    by (rule ext, rule ext) (simp add: Suc.IH)
  then show ?case
    by (intro ext) (simp only: scan_commands.simps command_files.simps fold_concat[symmetric], simp split: option.splits)
qed

text \<open>What the scans return: of the files that load, the first of each name, whatever else fails to load.\<close>

lemma discovered_agents:
  "ad_agents (discover_agents d roots) = first_by da_name {} (List.map_filter (agent_at d) (agent_files d roots))"
  by (simp add: scan_agent_roots agent_scan.found_fold no_agents_def)

lemma discovered_skills:
  "sd_skills (discover_skills d u roots) = first_by ds_name {} (List.map_filter (skill_at d u) (skill_dirs d roots))"
  by (simp add: scan_skill_roots skill_scan.found_fold no_skills_def)

lemma discovered_commands:
  "cd_commands (discover_commands d u lw True roots) = first_by (\<lambda>c. cm_name (dc_manifest c)) {}
     (List.map_filter (command_at d u lw) (concat (map (\<lambda>r. command_files d r (max_scan_depth + 1) []) roots)))"
  by (simp add: discover_commands_def scan_commands_files fold_concat command_scan.found_fold no_commands_def
      del: scan_commands.simps command_files.simps)

end
