(* ===== verification/Mcp_Wire.thy ===== *)
theory Mcp_Wire
  imports Discovery Os_Policy
begin

text \<open>
  The wire types of the MCP server (\<open>dotagent-mcp/src/lib.rs\<close>) and the catalog of its tools
  (\<open>tools_list\<close> of \<open>dotagent/src/commands/mcp.rs\<close>).  The fixed English sentences of the built-in
  tools and of their schemas are the parameter \<open>say\<close>, by the name of the tool and of the property;
  what a description says about an agent, a skill, a command or a remediation is modelled.
\<close>

section \<open>JSON-RPC\<close>

definition default_protocol_version :: rstr where "default_protocol_version = lit ''2024-11-05''"

definition rpc_parse_error :: int where "rpc_parse_error = -32700"
definition rpc_method_not_found :: int where "rpc_method_not_found = -32601"
definition rpc_invalid_params :: int where "rpc_invalid_params = -32602"
definition rpc_internal_error :: int where "rpc_internal_error = -32603"

record rpc_request =
  rq_jsonrpc :: rstr
  rq_id :: "json option"
  rq_method :: rstr
  rq_params :: "json option"

definition is_notification :: "rpc_request \<Rightarrow> bool" where
  "is_notification r \<longleftrightarrow> rq_id r = None"

record rpc_error =
  re_code :: int
  re_message :: rstr

record rpc_response =
  rp_id :: json
  rp_result :: "json option"
  rp_error :: "rpc_error option"

definition rpc_ok :: "json \<Rightarrow> json \<Rightarrow> rpc_response" where
  "rpc_ok i v = \<lparr> rp_id = i, rp_result = Some v, rp_error = None \<rparr>"

definition rpc_err :: "json \<Rightarrow> int \<Rightarrow> rstr \<Rightarrow> rpc_response" where
  "rpc_err i code msg = \<lparr> rp_id = i, rp_result = None, rp_error = Some \<lparr> re_code = code, re_message = msg \<rparr> \<rparr>"

text \<open>The derived decoding: by field names from an object in which none of them comes twice, by order
  from an array.  A defaulted field may be missing; an optional one may be \<open>null\<close>.\<close>

definition defaulted :: "rstr \<Rightarrow> json option \<Rightarrow> rstr option" where
  "defaulted dflt j = (case j of None \<Rightarrow> Some dflt | Some v \<Rightarrow> as_str v)"

definition request_of :: "json option \<Rightarrow> json option \<Rightarrow> json option \<Rightarrow> json option \<Rightarrow> rpc_request option" where
  "request_of version i mthd params = (case (defaulted [] version, Option.bind mthd as_str) of
     (Some v, Some m) \<Rightarrow> Some \<lparr> rq_jsonrpc = v, rq_id = opt_value i, rq_method = m, rq_params = opt_value params \<rparr>
   | _ \<Rightarrow> None)"

definition once :: "rstr list \<Rightarrow> (rstr \<times> json) list \<Rightarrow> bool" where
  "once ks kvs \<longleftrightarrow> list_all (\<lambda>k. length (filter (\<lambda>kv. fst kv = k) kvs) \<le> 1) ks"

definition decode_request :: "json \<Rightarrow> rpc_request option" where
  "decode_request j = (case j of
     JObject kvs \<Rightarrow> (if \<not> once (map lit [''jsonrpc'', ''id'', ''method'', ''params'']) kvs then None
       else request_of (map_of kvs (lit ''jsonrpc'')) (map_of kvs (lit ''id'')) (map_of kvs (lit ''method''))
              (map_of kvs (lit ''params'')))
   | JArray [v, i, m] \<Rightarrow> request_of (Some v) (Some i) (Some m) None
   | JArray [v, i, m, p] \<Rightarrow> request_of (Some v) (Some i) (Some m) (Some p)
   | _ \<Rightarrow> None)"

section \<open>Tools and their results\<close>

record tool =
  tl_name :: rstr
  tl_description :: rstr
  tl_schema :: json

record call_result =
  cr_text :: rstr
  cr_is_error :: bool

definition text_result :: "rstr \<Rightarrow> bool \<Rightarrow> call_result" where
  "text_result body err = \<lparr> cr_text = body, cr_is_error = err \<rparr>"

definition result_json :: "call_result \<Rightarrow> json" where
  "result_json r = JObject [(lit ''content'', JArray [JObject [(lit ''type'', JString (lit ''text'')),
     (lit ''text'', JString (cr_text r))]]), (lit ''isError'', JBool (cr_is_error r))]"

definition tool_json :: "tool \<Rightarrow> json" where
  "tool_json t = JObject [(lit ''name'', JString (tl_name t)), (lit ''description'', JString (tl_description t)),
     (lit ''inputSchema'', tl_schema t)]"

record call_params =
  cp_name :: rstr
  cp_arguments :: "json option"

definition decode_call :: "json \<Rightarrow> call_params option" where
  "decode_call j = (let mk = (\<lambda>n a. map_option (\<lambda>s. \<lparr> cp_name = s, cp_arguments = opt_value a \<rparr>) (Option.bind n as_str))
     in case j of
       JObject kvs \<Rightarrow> mk (map_of kvs (lit ''name'')) (map_of kvs (lit ''arguments''))
     | JArray [n] \<Rightarrow> mk (Some n) None
     | JArray [n, a] \<Rightarrow> mk (Some n) (Some a)
     | _ \<Rightarrow> None)"

record run_arguments =
  ra_schedule :: "rstr option"
  ra_args :: "rstr list"

definition no_run_arguments :: run_arguments where
  "no_run_arguments = \<lparr> ra_schedule = None, ra_args = [] \<rparr>"

definition opt_string :: "json option \<Rightarrow> rstr option option" where
  "opt_string j = (case opt_value j of None \<Rightarrow> Some None | Some (JString s) \<Rightarrow> Some (Some s) | _ \<Rightarrow> None)"

definition strings_of :: "json option \<Rightarrow> rstr list option" where
  "strings_of j = (case j of None \<Rightarrow> Some []
     | Some (JArray vs) \<Rightarrow> (if list_all (\<lambda>v. as_str v \<noteq> None) vs then Some (List.map_filter as_str vs) else None)
     | _ \<Rightarrow> None)"

definition run_args_of :: "json option \<Rightarrow> json option \<Rightarrow> run_arguments option" where
  "run_args_of s a = (case (opt_string s, strings_of a) of
     (Some sch, Some xs) \<Rightarrow> Some \<lparr> ra_schedule = sch, ra_args = xs \<rparr> | _ \<Rightarrow> None)"

definition decode_run_args :: "json \<Rightarrow> run_arguments option" where
  "decode_run_args j = (case j of
     JObject kvs \<Rightarrow> run_args_of (map_of kvs (lit ''schedule'')) (map_of kvs (lit ''args''))
   | JArray [] \<Rightarrow> run_args_of None None
   | JArray [s] \<Rightarrow> run_args_of (Some s) None
   | JArray [s, a] \<Rightarrow> run_args_of (Some s) (Some a)
   | _ \<Rightarrow> None)"

section \<open>Names\<close>

definition name_char :: "nat \<Rightarrow> nat" where
  "name_char c = (if is_alnum_c c \<or> c = 95 \<or> c = 45 then c else 45)"

definition sanitize :: "rstr \<Rightarrow> rstr" where "sanitize name = map name_char name"

definition remediation_tool_name_for :: "rstr \<Rightarrow> rstr \<Rightarrow> rstr" where
  "remediation_tool_name_for agent plugin = lit ''remediate-'' @ sanitize agent @ [45] @ sanitize plugin"

definition skill_tool_name_for :: "rstr \<Rightarrow> rstr" where
  "skill_tool_name_for skill = lit ''skill-'' @ sanitize skill"

definition tool_name_for :: "rstr \<Rightarrow> rstr" where
  "tool_name_for agent = lit ''run-'' @ sanitize agent"

section \<open>Schemas\<close>

type_synonym wording = "rstr \<Rightarrow> rstr \<Rightarrow> rstr"

definition str_prop :: "wording \<Rightarrow> rstr \<Rightarrow> string \<Rightarrow> rstr \<times> json" where
  "str_prop say t p = (lit p, JObject [(lit ''type'', JString (lit ''string'')), (lit ''description'', JString (say t (lit p)))])"

definition int_prop :: "wording \<Rightarrow> rstr \<Rightarrow> string \<Rightarrow> rstr \<times> json" where
  "int_prop say t p = (lit p, JObject [(lit ''type'', JString (lit ''integer'')), (lit ''description'', JString (say t (lit p)))])"

definition list_prop :: "string \<Rightarrow> rstr \<Rightarrow> rstr \<times> json" where
  "list_prop p desc = (lit p, JObject [(lit ''type'', JString (lit ''array'')),
     (lit ''items'', JObject [(lit ''type'', JString (lit ''string''))]), (lit ''description'', JString desc)])"

definition schema :: "(rstr \<times> json) list \<Rightarrow> string list \<Rightarrow> json" where
  "schema props required = JObject ([(lit ''type'', JString (lit ''object'')), (lit ''properties'', JObject props)]
     @ (if required = [] then [] else [(lit ''required'', JArray (map (\<lambda>r. JString (lit r)) required))])
     @ [(lit ''additionalProperties'', JBool False)])"

definition run_input_schema :: "wording \<Rightarrow> json" where
  "run_input_schema say = schema [str_prop say (lit ''run'') ''schedule'', list_prop ''args'' (say (lit ''run'') (lit ''args''))] []"

definition no_input_schema :: json where "no_input_schema = schema [] []"

definition skill_read_input_schema :: "wording \<Rightarrow> json" where
  "skill_read_input_schema say = (let t = lit ''skill-read'' in
     schema [str_prop say t ''skill'', str_prop say t ''path''] [''skill'', ''path''])"

definition skill_run_input_schema :: "wording \<Rightarrow> json" where
  "skill_run_input_schema say = (let t = lit ''skill-run'' in
     schema [str_prop say t ''skill'', str_prop say t ''script'', list_prop ''args'' (say t (lit ''args''))] [''skill'', ''script''])"

definition command_get_input_schema :: "wording \<Rightarrow> json" where
  "command_get_input_schema say = (let t = lit ''command-get'' in
     schema [str_prop say t ''name'', str_prop say t ''args''] [''name''])"

definition os_run_input_schema :: "wording \<Rightarrow> json" where
  "os_run_input_schema say = (let t = lit ''os-run'' in
     schema [str_prop say t ''bin'', list_prop ''args'' (say t (lit ''args''))] [''bin''])"

definition os_tool_input_schema :: "rstr \<Rightarrow> rstr list \<Rightarrow> json" where
  "os_tool_input_schema bin fixed = (let invocation = (if fixed = [] then bin else bin @ [32] @ join [32] fixed)
     in schema [list_prop ''args'' (lit ''Arguments appended after '' @ [96] @ invocation @ [96]
          @ lit '', one per element. Never interpreted by a shell.'')] [])"

section \<open>The catalog\<close>

text \<open>Pairing with names: of those that want one name the first gets it.\<close>

fun pair_names :: "('a \<Rightarrow> rstr) \<Rightarrow> rstr list \<Rightarrow> 'a list \<Rightarrow> (rstr \<times> 'a) list" where
  "pair_names nm taken [] = []"
| "pair_names nm taken (x # xs) = (if nm x \<in> set taken then pair_names nm taken xs
     else (nm x, x) # pair_names nm (nm x # taken) xs)"

definition catalog :: "discovered_agent list \<Rightarrow> (rstr \<times> discovered_agent) list" where
  "catalog agents = pair_names (\<lambda>a. tool_name_for (da_name a)) [] agents"

definition skill_catalog :: "discovered_skill list \<Rightarrow> (rstr \<times> discovered_skill) list" where
  "skill_catalog skills = pair_names (\<lambda>s. skill_tool_name_for (ds_name s)) [] skills"

definition described :: "rstr option \<Rightarrow> bool" where
  "described d \<longleftrightarrow> (case d of Some t \<Rightarrow> trim t \<noteq> [] | None \<Rightarrow> False)"

definition describe :: "discovered_agent \<Rightarrow> rstr" where
  "describe a = (let d = am_description (mf_agent (da_manifest a)); ids = map sched_id (mf_schedules (da_manifest a))
     in if described d then the d
        else if ids = [] then lit ''Run the '' @ da_name a @ lit '' agent.''
        else lit ''Run the '' @ da_name a @ lit '' agent (schedules: '' @ join (lit '', '') ids @ lit '').'')"

text \<open>The remediations the manifests declare: agent, plugin and the trimmed command.\<close>

definition declared_command :: "plugin_ref \<Rightarrow> rstr option" where
  "declared_command pr = (case pr_remediation pr of None \<Rightarrow> None
     | Some c \<Rightarrow> (if trim c = [] then None else Some (trim c)))"

definition remediations :: "discovered_agent list \<Rightarrow> (rstr \<times> rstr \<times> rstr) list" where
  "remediations agents = concat (map (\<lambda>a. List.map_filter (\<lambda>pr. map_option (\<lambda>c. (da_name a, pr_plugin pr, c))
     (declared_command pr)) (mf_preflight (da_manifest a))) agents)"

definition remediation_name :: "rstr \<times> rstr \<times> rstr \<Rightarrow> rstr" where
  "remediation_name r = remediation_tool_name_for (fst r) (fst (snd r))"

definition remediation_tool :: "rstr \<times> rstr \<times> rstr \<times> rstr \<Rightarrow> tool" where
  "remediation_tool x = (case x of (name, agent, plugin, command) \<Rightarrow>
     \<lparr> tl_name = name,
       tl_description = lit ''Fix what makes '' @ plugin @ lit '' block '' @ agent @ lit '', by running: '' @ command
         @ [10, 10] @ lit ''Declared in '' @ agent @ [39] @ lit ''s manifest. Ask before calling this '' @ [0x2014]
         @ lit '' it changes the machine, unlike reading a log.'',
       tl_schema = no_input_schema \<rparr>)"

definition remediation_tools :: "discovered_agent list \<Rightarrow> tool list" where
  "remediation_tools agents = map remediation_tool (pair_names remediation_name [] (remediations agents))"

definition resolve_remediation :: "discovered_agent list \<Rightarrow> rstr \<Rightarrow> (rstr \<times> rstr \<times> rstr) option" where
  "resolve_remediation agents t = find (\<lambda>r. remediation_name r = t) (remediations agents)"

definition fixed_tool :: "wording \<Rightarrow> string \<Rightarrow> json \<Rightarrow> tool" where
  "fixed_tool say n sch = \<lparr> tl_name = lit n, tl_description = say (lit n) [], tl_schema = sch \<rparr>"

definition agent_tools :: "wording \<Rightarrow> discovered_agent list \<Rightarrow> tool list" where
  "agent_tools say agents = map (\<lambda>(n, a). \<lparr> tl_name = n, tl_description = describe a, tl_schema = run_input_schema say \<rparr>)
     (catalog agents)"

definition introspection_tools :: "wording \<Rightarrow> tool list" where
  "introspection_tools say = [
     fixed_tool say ''dotagent-status'' no_input_schema,
     fixed_tool say ''dotagent-inspect'' (schema [(lit ''agent'', JObject [(lit ''type'', JString (lit ''string''))])] [''agent'']),
     fixed_tool say ''dotagent-doctor'' no_input_schema,
     fixed_tool say ''dotagent-next-runs'' no_input_schema,
     fixed_tool say ''dotagent-logs'' (schema [str_prop say (lit ''dotagent-logs'') ''agent'',
       int_prop say (lit ''dotagent-logs'') ''lines''] [''agent''])]"

definition memory_tools :: "wording \<Rightarrow> bool \<Rightarrow> tool list" where
  "memory_tools say enabled = (if \<not> enabled then [] else [
     fixed_tool say ''memory-remember'' (schema [str_prop say (lit ''memory-remember'') ''text'',
       list_prop ''topics'' (say (lit ''memory-remember'') (lit ''topics''))] [''text'']),
     fixed_tool say ''memory-topics'' no_input_schema,
     fixed_tool say ''memory-recall'' (schema [str_prop say (lit ''memory-recall'') ''query'',
       str_prop say (lit ''memory-recall'') ''topic'', int_prop say (lit ''memory-recall'') ''limit''] []),
     fixed_tool say ''memory-supersede'' (schema [str_prop say (lit ''memory-supersede'') ''id'',
       str_prop say (lit ''memory-supersede'') ''text'',
       list_prop ''topics'' (say (lit ''memory-supersede'') (lit ''topics''))] [''id'', ''text'']),
     fixed_tool say ''memory-forget'' (schema [str_prop say (lit ''memory-forget'') ''id''] [''id''])])"

definition skill_tools :: "wording \<Rightarrow> bool \<Rightarrow> discovered_skill list \<Rightarrow> tool list" where
  "skill_tools say enabled skills = (if \<not> enabled \<or> skills = [] then [] else
     map (\<lambda>(n, s). \<lparr> tl_name = n, tl_description = trim (sm_description (ds_manifest s)) @ [10, 10]
         @ lit ''Calling this returns the written procedure '' @ [0x2014] @ lit '' it does not perform it.'',
         tl_schema = no_input_schema \<rparr>) (skill_catalog skills)
     @ [fixed_tool say ''skill-read'' (skill_read_input_schema say), fixed_tool say ''skill-run'' (skill_run_input_schema say)])"

definition command_tools :: "wording \<Rightarrow> bool \<Rightarrow> discovered_command list \<Rightarrow> tool list" where
  "command_tools say enabled commands = (if \<not> enabled \<or> commands = [] then [] else
     [fixed_tool say ''command-get'' (command_get_input_schema say), fixed_tool say ''command-list'' no_input_schema])"

definition os_tool_list :: "wording \<Rightarrow> os_config \<Rightarrow> tool list" where
  "os_tool_list say c = (if \<not> os_is_active c then [] else
     [fixed_tool say ''os-list'' no_input_schema, fixed_tool say ''os-run'' (os_run_input_schema say)]
     @ map (\<lambda>t. \<lparr> tl_name = tool_name t, tl_description = ot_description t,
         tl_schema = os_tool_input_schema (ot_bin t) (ot_args t) \<rparr>) (os_tools c))"

end
