(* ===== verification/Mcp.thy ===== *)
theory Mcp
  imports Mcp_Wire Memory_Store Trigger
begin

text \<open>
  The MCP server (\<open>dotagent/src/commands/mcp.rs\<close>): what one line of the client is answered and which
  processes it starts.  Everything the handlers ask of their surroundings is a field of \<open>mcp_env\<close>:
  what discovery finds, the configuration, what a child process did, what \<open>run_scoped\<close> returned.
  It is one answer for one line; the lines of a session may each meet a different one.
\<close>

section \<open>Surroundings and effects\<close>

datatype self_answer = NoExe | SelfFailed rstr | SelfOutput rstr rstr bool

datatype mcp_effect =
  RanAgent run_spec
| RanRemediation rstr rstr rstr "rstr list"
| RanScript discovered_skill "rstr list" "rstr list"
| RanBinary rstr "rstr list"
| RanSelf "rstr list"
| Logged audit_event

record 'w mcp_env =
  mv_disk :: disk
  mv_agents :: agent_discovery
  mv_skills_enabled :: bool
  mv_skills :: skill_discovery
  mv_commands_enabled :: bool
  mv_commands :: command_discovery
  mv_alnum :: "nat \<Rightarrow> bool"
  mv_lower :: "nat \<Rightarrow> rstr"
  mv_os :: os_config
  mv_memory_enabled :: bool
  mv_override :: bool
  mv_workspace :: rstr
  mv_outl :: "'w outl"
  mv_unicode :: unicode
  mv_ranking :: ranking
  mv_parse_day :: "rstr \<Rightarrow> int option"
  mv_day :: int
  mv_today :: rstr
  mv_child :: "rstr \<Rightarrow> rstr list \<Rightarrow> os_child"
  mv_self :: "rstr list \<Rightarrow> self_answer"
  mv_run :: "run_spec \<Rightarrow> rstr + orchestrated_outcome"
  mv_home :: "rstr + unit"
  mv_audit_ok :: bool
  mv_sha :: "rstr \<Rightarrow> rstr option"
  mv_version :: rstr
  mv_say :: wording
  mv_parse :: "rstr \<Rightarrow> rstr + json"
  mv_request_error :: "json \<Rightarrow> rstr"
  mv_call_error :: "json \<Rightarrow> rstr"
  mv_args_error :: "json \<Rightarrow> rstr"

type_synonym handled = "call_result \<times> mcp_effect list"

definition logged :: "'w mcp_env \<Rightarrow> audit_event \<Rightarrow> mcp_effect list" where
  "logged e ev = (if mv_audit_ok e then [Logged ev] else [])"

section \<open>Arguments\<close>

definition string_array :: "json \<Rightarrow> rstr \<Rightarrow> rstr list" where
  "string_array args key = (case object_get key args of Some (JArray vs) \<Rightarrow> List.map_filter as_str vs | _ \<Rightarrow> [])"

definition raw_arg :: "json \<Rightarrow> rstr \<Rightarrow> rstr" where
  "raw_arg args key = (case Option.bind (object_get key args) as_str of Some s \<Rightarrow> s | None \<Rightarrow> [])"

definition str_arg :: "json \<Rightarrow> rstr \<Rightarrow> rstr" where
  "str_arg args key = trim (raw_arg args key)"

definition num_arg :: "json \<Rightarrow> rstr \<Rightarrow> nat \<Rightarrow> nat \<Rightarrow> nat" where
  "num_arg args key dflt most =
     (let n = (case Option.bind (object_get key args) as_u64 of Some n \<Rightarrow> n | None \<Rightarrow> dflt)
      in if n < 1 then 1 else if most < n then most else n)"

definition cap_text :: "rstr \<Rightarrow> nat \<Rightarrow> rstr" where
  "cap_text body most = (if byte_len body \<le> most then body
     else take_bytes most body @ [10, 10] @ lit ''[truncated: '' @ show_nat (byte_len (take_bytes most body))
       @ lit '' of '' @ show_nat (byte_len body) @ lit '' bytes shown]'')"

definition skill_body_max_bytes :: nat where "skill_body_max_bytes = 32 * 1024"
definition skill_file_max_bytes :: nat where "skill_file_max_bytes = 64 * 1024"
definition skill_output_max_bytes :: nat where "skill_output_max_bytes = 16 * 1024"
definition command_body_max_bytes :: nat where "command_body_max_bytes = 32 * 1024"
definition remediation_timeout_seconds :: nat where "remediation_timeout_seconds = 120"

section \<open>Binaries\<close>

definition os_list :: "os_config \<Rightarrow> call_result" where
  "os_list c = (if \<not> os_is_active c then text_result (lit ''No binaries are allowed on this machine.'') True
     else if is_wildcard c then text_result (lit ''Every installed binary is allowed. Resolution goes through PATH, and a path is still refused where a name belongs.'') False
     else text_result (join [10] (List.map_filter (\<lambda>entry. case split_ws entry of
         [] \<Rightarrow> None
       | bin # scope \<Rightarrow> Some (if scope = [] then bin @ lit '' (any subcommand)''
           else bin @ [32] @ join [32] scope @ lit '' (only)'')) (os_allow c))) False)"

definition needs_person :: "rstr \<Rightarrow> rstr \<Rightarrow> call_result" where
  "needs_person bin line = text_result (tick bin @ lit '' needs a person to confirm it. Tell whoever asked to send ''
     @ tick (33 # bin @ line) @ lit '' themselves '' @ [0x2014] @ lit '' you cannot confirm on their behalf.'') True"

definition os_effects :: "os_effect list \<Rightarrow> mcp_effect list" where
  "os_effects es = map (\<lambda>x. case x of OsSpawned b a \<Rightarrow> RanBinary b a | OsAudited ev \<Rightarrow> Logged ev) es"

definition os_spawn :: "'w mcp_env \<Rightarrow> rstr \<Rightarrow> rstr list \<Rightarrow> handled" where
  "os_spawn e bin args = (case run_allowed (mv_os e) bin args refusal (mv_child e bin args) (mv_audit_ok e) of
     (out, es) \<Rightarrow> (text_result (oo_text out) (oo_is_error out), os_effects es))"

definition os_run :: "'w mcp_env \<Rightarrow> json \<Rightarrow> handled" where
  "os_run e raw = (let bin = raw_arg raw (lit ''bin''); args = string_array raw (lit ''args'') in
     if decide (mv_os e) bin args = Confirm
     then (needs_person bin (if args = [] then [] else [32] @ join [32] args), [])
     else os_spawn e bin args)"

definition os_named_tool :: "'w mcp_env \<Rightarrow> rstr \<Rightarrow> json \<Rightarrow> handled option" where
  "os_named_tool e t raw = (case find (\<lambda>x. tool_name x = t) (os_tools (mv_os e)) of
     None \<Rightarrow> None
   | Some declared \<Rightarrow> (let argv = tool_argv declared (string_array raw (lit ''args'')) in
       Some (if decide (mv_os e) (ot_bin declared) argv = Confirm
             then (needs_person (ot_bin declared) ([32] @ join [32] argv), [])
             else os_spawn e (ot_bin declared) argv)))"

definition call_os :: "'w mcp_env \<Rightarrow> rstr \<Rightarrow> json \<Rightarrow> handled option" where
  "call_os e t raw = (if t = lit ''os-list'' then Some (os_list (mv_os e), [])
     else if t = lit ''os-run'' then Some (os_run e raw) else os_named_tool e t raw)"

section \<open>Remediations\<close>

definition exit_of :: "int option \<Rightarrow> int" where
  "exit_of status = (case status of Some c \<Rightarrow> c | None \<Rightarrow> -1)"

text \<open>\<open>Inl\<close> is a child that never started: nothing ran, nothing is audited.\<close>

definition remediation_outcome :: "rstr \<Rightarrow> rstr \<Rightarrow> os_child \<Rightarrow> rstr + rstr \<times> bool \<times> int \<times> bool" where
  "remediation_outcome agent command child = (case child of
     NotStarted err \<Rightarrow> Inl (lit ''Could not start '' @ tick command @ lit '': '' @ err)
   | Finished status out err \<Rightarrow> (let code = exit_of status; stdout = trim out; stderr = trim err in
       if code = 0
       then Inr (lit ''Ran '' @ tick command @ lit ''. It exited 0.'' @ (if stdout = [] then [] else 10 # stdout)
              @ [10, 10] @ lit ''This does not re-run '' @ agent @ [32, 0x2014] @ lit '' ask for that separately.'', False, code, False)
       else Inr (tick command @ lit '' exited '' @ show_int code @ lit ''.'' @ [10] @ cap_text stderr skill_output_max_bytes,
              True, code, False))
   | Overran secs \<Rightarrow> Inr (tick command @ lit '' was still running after '' @ show_nat secs @ lit ''s and was killed.'', True, -1, True)
   | WaitFailure err \<Rightarrow> Inr (tick command @ lit '' could not run: '' @ err, True, -1, False))"

definition call_remediation :: "'w mcp_env \<Rightarrow> rstr \<Rightarrow> handled option" where
  "call_remediation e t = (if \<not> starts_with (lit ''remediate-'') t then None
     else Some (case resolve_remediation (ad_agents (mv_agents e)) t of
       None \<Rightarrow> (text_result (lit ''No declared remediation named '' @ t @ lit ''.'') True, [])
     | Some (agent, plugin, command) \<Rightarrow> (case split_ws command of
         [] \<Rightarrow> (text_result (agent @ lit '': remediation for '' @ plugin @ lit '' is empty.'') True, [])
       | program # args \<Rightarrow> (case remediation_outcome agent command (mv_child e program args) of
           Inl body \<Rightarrow> (text_result body True, [])
         | Inr (body, is_error, code, timed_out) \<Rightarrow>
             (text_result body is_error, RanRemediation agent plugin program args
                # logged e (RemediationInvoked agent plugin command code timed_out))))))"

section \<open>Skills\<close>

definition file_line :: "disk \<Rightarrow> discovered_skill \<Rightarrow> rstr \<Rightarrow> rstr" where
  "file_line d s f = lit ''  '' @ f
     @ (if is_ok (resolve_script d s f) then lit ''  (executable '' @ [0x2014] @ lit '' run with skill-run)'' else []) @ [10]"

definition load_skill :: "disk \<Rightarrow> discovered_skill \<Rightarrow> call_result" where
  "load_skill d s = (let body = cap_text (sm_body (ds_manifest s)) skill_body_max_bytes; files = skill_files d s in
     text_result (if files = [] then body
       else body @ [10, 10] @ lit ''---'' @ [10] @ lit ''Files in this skill (fetch with skill-read, passing skill='' @ [34]
            @ ds_name s @ [34] @ lit ''):'' @ [10] @ concat (map (file_line d s) files)) False)"

definition read_skill_file :: "'w mcp_env \<Rightarrow> json \<Rightarrow> call_result" where
  "read_skill_file e args = (let name = str_arg args (lit ''skill''); rel = str_arg args (lit ''path'') in
     if name = [] \<or> rel = [] then text_result (lit ''Both skill and path are required.'') True
     else case find_skill (mv_skills e) name of
       Inl err \<Rightarrow> text_result err True
     | Inr s \<Rightarrow> (case resolve_readable (mv_disk e) s rel of
         Inl err \<Rightarrow> text_result err True
       | Inr path \<Rightarrow> (case dk_text (mv_disk e) (abs_path path) of
           Inl err \<Rightarrow> text_result (lit ''Could not read '' @ rel @ lit '': '' @ err) True
         | Inr body \<Rightarrow> text_result (cap_text body skill_file_max_bytes) False)))"

definition script_outcome :: "rstr \<Rightarrow> os_child \<Rightarrow> rstr + rstr \<times> bool \<times> int \<times> bool" where
  "script_outcome rel child = (case child of
     NotStarted err \<Rightarrow> Inl (lit ''Could not start '' @ rel @ lit '': '' @ err)
   | Finished status out err \<Rightarrow> (let code = exit_of status; stdout = trim out; stderr = trim err in
       if code = 0
       then Inr (if stdout = [] then rel @ lit '' finished with no output.'' else cap_text stdout skill_output_max_bytes,
              False, code, False)
       else Inr (rel @ lit '' exited '' @ show_int code @ lit ''.'' @ [10] @ cap_text stderr skill_output_max_bytes, True, code, False))
   | Overran secs \<Rightarrow> Inr (rel @ lit '' timed out after '' @ show_nat secs @ lit ''s and was killed.'', True, -1, True)
   | WaitFailure err \<Rightarrow> Inr (rel @ lit '' could not run: '' @ err, True, -1, False))"

definition run_skill_script :: "'w mcp_env \<Rightarrow> json \<Rightarrow> handled" where
  "run_skill_script e args = (let name = str_arg args (lit ''skill''); rel = str_arg args (lit ''script'') in
     if name = [] \<or> rel = [] then (text_result (lit ''Both skill and script are required.'') True, [])
     else let extra = string_array args (lit ''args'') in
     case find_skill (mv_skills e) name of
       Inl err \<Rightarrow> (text_result err True, [])
     | Inr s \<Rightarrow> (case resolve_script (mv_disk e) s rel of
         Inl err \<Rightarrow> (text_result err True, [])
       | Inr script \<Rightarrow> (case script_outcome rel (mv_child e (abs_path script) extra) of
           Inl body \<Rightarrow> (text_result body True, [])
         | Inr (body, is_error, code, timed_out) \<Rightarrow>
             (text_result body is_error, RanScript s script extra # logged e (SkillInvoked (ds_name s) rel code timed_out)))))"

definition resolve_skill :: "discovered_skill list \<Rightarrow> rstr \<Rightarrow> discovered_skill option" where
  "resolve_skill skills t = map_option snd (find (\<lambda>p. fst p = t) (skill_catalog skills))"

definition call_skill :: "'w mcp_env \<Rightarrow> rstr \<Rightarrow> json \<Rightarrow> handled option" where
  "call_skill e t args = (if \<not> starts_with (lit ''skill-'') t \<or> \<not> mv_skills_enabled e then None
     else if t = lit ''skill-read'' then Some (read_skill_file e args, [])
     else if t = lit ''skill-run'' then Some (run_skill_script e args)
     else map_option (\<lambda>s. (load_skill (mv_disk e) s, [])) (resolve_skill (sd_skills (mv_skills e)) t))"

section \<open>Commands\<close>

definition get_command :: "'w mcp_env \<Rightarrow> json \<Rightarrow> call_result" where
  "get_command e args = (let name = str_arg args (lit ''name''); cmds = cd_commands (mv_commands e) in
     if name = [] then text_result (lit ''Which command? Pass command.name from the payload.'') True
     else case resolve_command (mv_lower e) cmds name of
       None \<Rightarrow> (let inst = installed (mv_lower e) cmds in
         text_result (lit ''No command named '' @ [39] @ name @ [39, 46]
           @ (if inst = [] then [] else lit '' Installed: '' @ inst @ lit ''.'')) True)
     | Some cmd \<Rightarrow> (let rendered = cap_text (render (mv_alnum e) (dc_manifest cmd) (str_arg args (lit ''args''))) command_body_max_bytes in
         text_result (case cm_allowed_tools (dc_manifest cmd) of
           Some tools \<Rightarrow> rendered @ [10, 10] @ lit ''---'' @ [10] @ lit ''The command suggests these tools: '' @ tools @ [10]
             @ lit ''(A hint from its author, not a restriction dotagent enforces.)''
         | None \<Rightarrow> rendered) False))"

definition list_commands :: "'w mcp_env \<Rightarrow> call_result" where
  "list_commands e = (let menu = telegram_menu (mv_lower e) (cd_commands (mv_commands e)) in
     if menu = [] then text_result (lit ''No commands installed.'') False
     else text_result (join [10] (map (\<lambda>(tg, cmd). menu_line tg cmd) menu)) False)"

definition call_command :: "'w mcp_env \<Rightarrow> rstr \<Rightarrow> json \<Rightarrow> handled option" where
  "call_command e t args = (if \<not> mv_commands_enabled e then None
     else if t = lit ''command-get'' then Some (get_command e args, [])
     else if t = lit ''command-list'' then Some (list_commands e, [])
     else None)"

section \<open>Introspection\<close>

definition run_readonly :: "'w mcp_env \<Rightarrow> rstr list \<Rightarrow> handled" where
  "run_readonly e argv = (case mv_self e argv of
     NoExe \<Rightarrow> (text_result (lit ''Could not locate the dotagent binary.'') True, [])
   | SelfFailed err \<Rightarrow> (text_result (lit ''Could not run dotagent '' @ hd argv @ lit '': '' @ err) True, [])
   | SelfOutput out err success \<Rightarrow>
       ((if trim out = [] then text_result (lit ''No output. '' @ trim err) (\<not> success)
         else text_result (trim out) False), [RanSelf argv]))"

definition read_agent_logs :: "'w mcp_env \<Rightarrow> json \<Rightarrow> handled" where
  "read_agent_logs e args = (let agent = str_arg args (lit ''agent'') in
     if agent = [] then (text_result (lit ''Which agent?'') True, [])
     else if \<not> is_ok (find_agent (mv_agents e) agent) then (text_result (lit ''No agent named '' @ agent @ lit ''.'') True, [])
     else run_readonly e [lit ''logs'', agent, lit ''-n'', show_nat (num_arg args (lit ''lines'') 40 400)])"

definition inspect_agent :: "'w mcp_env \<Rightarrow> json \<Rightarrow> handled" where
  "inspect_agent e args = (let agent = str_arg args (lit ''agent'') in
     if agent = [] then (text_result (lit ''Which agent?'') True, [])
     else if \<not> is_ok (find_agent (mv_agents e) agent) then (text_result (lit ''No agent named '' @ agent @ lit ''.'') True, [])
     else run_readonly e [lit ''inspect'', agent])"

definition call_introspection :: "'w mcp_env \<Rightarrow> rstr \<Rightarrow> json \<Rightarrow> handled option" where
  "call_introspection e t args =
     (if t = lit ''dotagent-logs'' then Some (read_agent_logs e args)
      else if t = lit ''dotagent-status'' then Some (run_readonly e [lit ''status''])
      else if t = lit ''dotagent-doctor'' then Some (run_readonly e [lit ''doctor''])
      else if t = lit ''dotagent-next-runs'' then Some (run_readonly e [lit ''tick'', lit ''--dry-run''])
      else if t = lit ''dotagent-inspect'' then Some (inspect_agent e args)
      else None)"

section \<open>Memory\<close>

definition memory_error_text :: "rstr \<Rightarrow> memory_error \<Rightarrow> rstr" where
  "memory_error_text path x = (case x of
     NoWorkspace \<Rightarrow> lit ''no outl workspace at '' @ path @ [32, 0x2014] @ lit '' run '' @ tick (lit ''outl init'') @ lit '' there first''
   | OpenFailed t \<Rightarrow> lit ''opening workspace: '' @ t
   | WriteFailed t \<Rightarrow> lit ''writing memory: '' @ t
   | EmptyMemory \<Rightarrow> lit ''refusing to store an empty memory''
   | MemoryNotFound i \<Rightarrow> lit ''no memory with id '' @ i)"

definition render_memory :: "memory \<Rightarrow> rstr" where
  "render_memory m = [91] @ me_id m @ lit ''] '' @ (if me_date m = [] then [] else me_date m @ lit '': '') @ me_text m
     @ (if me_topics m = [] then [] else lit '' (topics: '' @ join (lit '', '') (me_topics m) @ lit '')'')"

definition render_memories :: "memory list \<Rightarrow> rstr" where
  "render_memories hits = join [10] (map render_memory hits)"

text \<open>An operation of the store, its failure said behind a phrase.\<close>

definition said :: "'w mcp_env \<Rightarrow> string \<Rightarrow> ('w, 'a) act \<Rightarrow> ('a \<Rightarrow> call_result) \<Rightarrow> 'w \<Rightarrow> call_result \<times> 'w" where
  "said e phrase f ok w = (case f w of
     (Inl x, w') \<Rightarrow> (text_result (lit phrase @ lit '': '' @ memory_error_text (mv_workspace e) x) True, w')
   | (Inr v, w') \<Rightarrow> (ok v, w'))"

definition tell_hits :: "memory list \<Rightarrow> call_result" where
  "tell_hits hits = (if hits = [] then text_result (lit ''Nothing remembered about that.'') False
     else text_result (render_memories hits) False)"

definition recall_tool :: "'w mcp_env \<Rightarrow> json \<Rightarrow> 'w \<Rightarrow> call_result \<times> 'w" where
  "recall_tool e args = (let limit = num_arg args (lit ''limit'') 10 50; topic = str_arg args (lit ''topic'') in
     said e ''Could not recall''
       (if topic \<noteq> [] then seq (recall_topic (mv_unicode e) (mv_outl e) topic) (\<lambda>hits. give (take limit hits))
        else recall (mv_unicode e) (mv_ranking e) (mv_outl e) (mv_parse_day e) (mv_day e) (raw_arg args (lit ''query'')) limit)
       tell_hits)"

definition memory_names :: "rstr list" where
  "memory_names = map lit [''memory-remember'', ''memory-recall'', ''memory-topics'', ''memory-supersede'', ''memory-forget'']"

definition memory_tool :: "'w mcp_env \<Rightarrow> rstr \<Rightarrow> json \<Rightarrow> 'w \<Rightarrow> call_result \<times> 'w" where
  "memory_tool e t args =
     (if t = lit ''memory-topics'' then said e ''Could not list topics'' (topic_slugs (mv_outl e))
        (\<lambda>ts. if ts = [] then text_result (lit ''No topics yet.'') False else text_result (join [10] ts) False)
      else if t = lit ''memory-remember'' then said e ''Could not remember''
        (remember_fact (mv_unicode e) (mv_outl e) (mv_today e) (raw_arg args (lit ''text'')) (string_array args (lit ''topics'')))
        (\<lambda>m. text_result (lit ''Remembered ('' @ me_date m @ lit ''): '' @ me_text m) False)
      else if t = lit ''memory-recall'' then recall_tool e args
      else if t = lit ''memory-supersede'' then said e ''Could not supersede''
        (supersede (mv_unicode e) (mv_outl e) (mv_today e) (raw_arg args (lit ''id'')) (raw_arg args (lit ''text''))
          (string_array args (lit ''topics'')) no_provenance)
        (\<lambda>m. text_result (lit ''Replaced. Now: '' @ me_text m) False)
      else said e ''Could not forget'' (forget (mv_outl e) (raw_arg args (lit ''id'')))
        (\<lambda>done. if done then text_result (lit ''Forgotten.'') False
           else text_result (lit ''No memory with id '' @ raw_arg args (lit ''id'') @ lit ''.'') True))"

text \<open>\<open>commands::memory::store\<close>: a configured workspace must exist, the default one is made.\<close>

definition memory_store :: "'w mcp_env \<Rightarrow> ('w, unit) act" where
  "memory_store e = (if mv_override e then store_open (mv_outl e) else open_or_init (mv_outl e))"

definition call_memory :: "'w mcp_env \<Rightarrow> rstr \<Rightarrow> json \<Rightarrow> 'w \<Rightarrow> (handled \<times> 'w) option" where
  "call_memory e t args w = (case call_introspection e t args of
     Some h \<Rightarrow> Some (h, w)
   | None \<Rightarrow> (if t \<notin> set memory_names then None
       else Some (case memory_store e w of
         (Inl x, w') \<Rightarrow> ((text_result (lit ''Memory unavailable: '' @ memory_error_text (mv_workspace e) x) True, []), w')
       | (Inr _, w') \<Rightarrow> (case memory_tool e t args w' of (r, w'') \<Rightarrow> ((r, []), w'')))))"

section \<open>Agents\<close>

definition run_request :: "'w mcp_env \<Rightarrow> rstr \<Rightarrow> run_arguments \<Rightarrow> rstr + run_spec" where
  "run_request e name a = (case find_agent (mv_agents e) name of
     Inl err \<Rightarrow> Inl err
   | Inr ag \<Rightarrow> (let m = da_manifest ag in
       case (case ra_schedule a of
           Some i \<Rightarrow> (case schedule_by_id m i of Inl err \<Rightarrow> Inl err | Inr s \<Rightarrow> Inr (sched_id s, sched_args s))
         | None \<Rightarrow> Inr (case mf_schedules m of s # _ \<Rightarrow> (sched_id s, sched_args s) | [] \<Rightarrow> (trigger_schedule_id, []))) of
         Inl err \<Rightarrow> Inl err
       | Inr (sid, args) \<Rightarrow> (case mv_home e of Inl err \<Rightarrow> Inl err
           | Inr _ \<Rightarrow> Inr \<lparr> rs_manifest = m, rs_manifest_dir = da_dir ag, rs_schedule_id = sid, rs_args = args @ ra_args a,
               rs_dry_run = False, rs_manifest_sha256 = mv_sha e (path_join (da_dir ag) (lit ''agent.toml'')),
               rs_slug_override = Some (source_slug FromMcp),
               rs_extra_env = [(lit ''AGENT_TRIGGER_SOURCE'', show_source FromMcp)] \<rparr>)))"

definition run_text :: "rstr \<Rightarrow> orchestrated_outcome \<Rightarrow> call_result" where
  "run_text name out = (case out of
     Ran o1 \<Rightarrow> (if ro_exit_code o1 = 0
        then text_result (if trim (ro_stdout_tail o1) = [] then name @ lit '' finished with no output.'' else ro_stdout_tail o1) False
        else text_result (name @ [32] @ (if ro_timed_out o1 then lit ''timed out after '' @ show_int (ro_duration_seconds o1) @ lit ''s''
             else lit ''exited '' @ show_int (ro_exit_code o1)) @ lit ''.'' @ [10] @ ro_stderr_tail o1) True)
   | PreflightAborted plugin suggest \<Rightarrow> text_result (name @ lit '' was blocked by preflight check '' @ plugin
        @ (case suggest of Some s \<Rightarrow> lit '': '' @ s | None \<Rightarrow> [])) True)"

definition execute :: "'w mcp_env \<Rightarrow> rstr \<Rightarrow> run_arguments \<Rightarrow> handled" where
  "execute e name a = (let failed = (\<lambda>err. text_result (lit ''Could not run '' @ name @ lit '': '' @ err) True) in
     case run_request e name a of
       Inl err \<Rightarrow> (failed err, [])
     | Inr spec \<Rightarrow> ((case mv_run e spec of Inl err \<Rightarrow> failed err | Inr out \<Rightarrow> run_text name out), [RanAgent spec]))"

definition resolve_agent :: "'w mcp_env \<Rightarrow> rstr \<Rightarrow> rstr option" where
  "resolve_agent e t = map_option (\<lambda>p. da_name (snd p)) (find (\<lambda>p. fst p = t) (catalog (ad_agents (mv_agents e))))"

definition call_agent :: "'w mcp_env \<Rightarrow> json \<Rightarrow> call_params \<Rightarrow> rpc_response \<times> mcp_effect list" where
  "call_agent e i call = (case resolve_agent e (cp_name call) of
     None \<Rightarrow> (rpc_err i rpc_invalid_params (lit ''unknown tool '' @ [39] @ cp_name call @ [39]), [])
   | Some name \<Rightarrow> (case (case cp_arguments call of None \<Rightarrow> Inr no_run_arguments
         | Some a \<Rightarrow> (case decode_run_args a of None \<Rightarrow> Inl (mv_args_error e a) | Some r \<Rightarrow> Inr r)) of
       Inl err \<Rightarrow> (rpc_err i rpc_invalid_params err, [])
     | Inr r \<Rightarrow> (case execute e name r of (res, es) \<Rightarrow> (rpc_ok i (result_json res), es))))"

section \<open>One line\<close>

definition raw_arguments :: "call_params \<Rightarrow> json" where
  "raw_arguments call = (case cp_arguments call of Some a \<Rightarrow> a | None \<Rightarrow> JNull)"

text \<open>What answers a call before the agents are asked, in the order of the code.\<close>

definition call_builtin :: "'w mcp_env \<Rightarrow> rstr \<Rightarrow> json \<Rightarrow> 'w \<Rightarrow> (handled \<times> 'w) option" where
  "call_builtin e t args w = (case call_remediation e t of Some h \<Rightarrow> Some (h, w)
     | None \<Rightarrow> (case call_os e t args of Some h \<Rightarrow> Some (h, w)
     | None \<Rightarrow> (case call_skill e t args of Some h \<Rightarrow> Some (h, w)
     | None \<Rightarrow> (case call_command e t args of Some h \<Rightarrow> Some (h, w)
     | None \<Rightarrow> call_memory e t args w))))"

definition tools_call :: "'w mcp_env \<Rightarrow> json \<Rightarrow> json option \<Rightarrow> 'w \<Rightarrow> rpc_response \<times> mcp_effect list \<times> 'w" where
  "tools_call e i params w = (case params of
     None \<Rightarrow> (rpc_err i rpc_invalid_params (lit ''missing params''), [], w)
   | Some p \<Rightarrow> (case decode_call p of
       None \<Rightarrow> (rpc_err i rpc_invalid_params (mv_call_error e p), [], w)
     | Some call \<Rightarrow> (case call_builtin e (cp_name call) (raw_arguments call) w of
         Some ((r, es), w') \<Rightarrow> (rpc_ok i (result_json r), es, w')
       | None \<Rightarrow> (case call_agent e i call of (resp, es) \<Rightarrow> (resp, es, w)))))"

definition all_tools :: "'w mcp_env \<Rightarrow> tool list" where
  "all_tools e = agent_tools (mv_say e) (ad_agents (mv_agents e)) @ introspection_tools (mv_say e)
     @ remediation_tools (ad_agents (mv_agents e)) @ memory_tools (mv_say e) (mv_memory_enabled e)
     @ skill_tools (mv_say e) (mv_skills_enabled e) (sd_skills (mv_skills e))
     @ command_tools (mv_say e) (mv_commands_enabled e) (cd_commands (mv_commands e))
     @ os_tool_list (mv_say e) (mv_os e)"

definition tools_list :: "'w mcp_env \<Rightarrow> rstr + tool list" where
  "tools_list e = (let bad = ad_invalid (mv_agents e) in
     if bad \<noteq> []
     then Inl (show_nat (length bad) @ lit '' manifest(s) failed to load '' @ [0x2014, 32]
            @ join (lit ''; '') (map (\<lambda>b. fst b @ lit '': '' @ snd b) bad))
     else Inr (all_tools e))"

definition initialize :: "'w mcp_env \<Rightarrow> json option \<Rightarrow> json" where
  "initialize e params = JObject [
     (lit ''protocolVersion'', JString (case Option.bind (Option.bind params (object_get (lit ''protocolVersion''))) as_str of
        Some v \<Rightarrow> v | None \<Rightarrow> default_protocol_version)),
     (lit ''capabilities'', JObject [(lit ''tools'', JObject [(lit ''listChanged'', JBool False)])]),
     (lit ''serverInfo'', JObject [(lit ''name'', JString (lit ''dotagent'')), (lit ''version'', JString (mv_version e))])]"

definition answer_request :: "'w mcp_env \<Rightarrow> json \<Rightarrow> rpc_request \<Rightarrow> 'w \<Rightarrow> rpc_response \<times> mcp_effect list \<times> 'w" where
  "answer_request e i req w =
     (if rq_method req = lit ''initialize'' then (rpc_ok i (initialize e (rq_params req)), [], w)
      else if rq_method req = lit ''ping'' then (rpc_ok i (JObject []), [], w)
      else if rq_method req = lit ''tools/list'' then
        ((case tools_list e of Inr ts \<Rightarrow> rpc_ok i (JObject [(lit ''tools'', JArray (map tool_json ts))])
          | Inl err \<Rightarrow> rpc_err i rpc_internal_error err), [], w)
      else if rq_method req = lit ''tools/call'' then tools_call e i (rq_params req) w
      else (rpc_err i rpc_method_not_found (lit ''unknown method '' @ [39] @ rq_method req @ [39]), [], w))"

definition handle_line :: "'w mcp_env \<Rightarrow> rstr \<Rightarrow> 'w \<Rightarrow> rpc_response option \<times> mcp_effect list \<times> 'w" where
  "handle_line e line w =
     (case (case mv_parse e line of Inl err \<Rightarrow> Inl err
        | Inr j \<Rightarrow> (case decode_request j of None \<Rightarrow> Inl (mv_request_error e j) | Some r \<Rightarrow> Inr r)) of
       Inl err \<Rightarrow> (Some (rpc_err JNull rpc_parse_error (lit ''invalid JSON: '' @ err)), [], w)
     | Inr req \<Rightarrow> (case rq_id req of None \<Rightarrow> (None, [], w)
         | Some i \<Rightarrow> (case answer_request e i req w of (resp, es, w') \<Rightarrow> (Some resp, es, w'))))"

text \<open>The loop over the lines of the client; an empty one is passed over.\<close>

fun mcp_session :: "('w mcp_env \<times> rstr) list \<Rightarrow> 'w \<Rightarrow> rpc_response list \<times> mcp_effect list \<times> 'w" where
  "mcp_session [] w = ([], [], w)"
| "mcp_session ((e, line) # rest) w =
     (if trim line = [] then mcp_session rest w
      else case handle_line e line w of (resp, es, w1) \<Rightarrow>
        (case mcp_session rest w1 of (rs, es', w2) \<Rightarrow>
          ((case resp of Some r \<Rightarrow> [r] | None \<Rightarrow> []) @ rs, es @ es', w2)))"

end
