(* ===== verification/Mcp_Runs.thy ===== *)
theory Mcp_Runs
  imports Mcp
begin

text \<open>
  What the MCP server may start, and that its catalog is honest: a process is always one the operator
  declared, a name outside the catalog starts nothing, and a listed name is answered by the very agent,
  remediation, skill or binary it was listed for.
\<close>

section \<open>Declared processes\<close>

definition declared_args :: "agent_manifest \<Rightarrow> rstr \<Rightarrow> rstr list \<Rightarrow> bool" where
  "declared_args m sid args \<longleftrightarrow> (if mf_schedules m = [] then sid = trigger_schedule_id
     else list_ex (\<lambda>s. sched_id s = sid \<and> prefix (sched_args s) args) (mf_schedules m))"

definition script_of :: "disk \<Rightarrow> discovered_skill \<Rightarrow> rstr list \<Rightarrow> bool" where
  "script_of d s path \<longleftrightarrow> (case dk_canonical d (ds_dir s) of Inl _ \<Rightarrow> False | Inr base \<Rightarrow> prefix base path)
     \<and> prefix (scripts_dir d s) (RootDir # map Normal path)
     \<and> dk_file d (abs_path path) \<and> dk_exec d (abs_path path)"

definition self_command :: "agent_discovery \<Rightarrow> rstr list \<Rightarrow> bool" where
  "self_command found argv \<longleftrightarrow> argv \<in> {[lit ''status''], [lit ''doctor''], [lit ''tick'', lit ''--dry-run'']}
     \<or> list_ex (\<lambda>a. argv = [lit ''inspect'', da_name a]) (ad_agents found)
     \<or> (case argv of [c, n, o1, k] \<Rightarrow> c = lit ''logs'' \<and> o1 = lit ''-n'' \<and> n \<in> da_name ` set (ad_agents found)
           \<and> k \<in> show_nat ` {1..400} | _ \<Rightarrow> False)"

fun permitted :: "'w mcp_env \<Rightarrow> mcp_effect \<Rightarrow> bool" where
  "permitted e (RanAgent spec) = (rs_slug_override spec = Some (source_slug FromMcp)
     \<and> list_ex (\<lambda>a. rs_manifest spec = da_manifest a \<and> rs_manifest_dir spec = da_dir a
          \<and> declared_args (da_manifest a) (rs_schedule_id spec) (rs_args spec)) (ad_agents (mv_agents e)))"
| "permitted e (RanRemediation agent plugin program args) = list_ex (\<lambda>a. da_name a = agent
     \<and> list_ex (\<lambda>pr. pr_plugin pr = plugin \<and> map_option split_ws (declared_command pr) = Some (program # args))
         (mf_preflight (da_manifest a))) (ad_agents (mv_agents e))"
| "permitted e (RanScript s path args) = (mv_skills_enabled e \<and> s \<in> set (sd_skills (mv_skills e)) \<and> script_of (mv_disk e) s path)"
| "permitted e (RanBinary bin args) = (decide (mv_os e) bin args = Allow)"
| "permitted e (RanSelf argv) = self_command (mv_agents e) argv"
| "permitted e (Logged ev) = True"

fun is_process :: "mcp_effect \<Rightarrow> bool" where
  "is_process (Logged ev) = False"
| "is_process _ = True"

definition fine :: "'w mcp_env \<Rightarrow> mcp_effect list \<Rightarrow> bool" where
  "fine e es \<longleftrightarrow> list_all (permitted e) es \<and> length (filter is_process es) \<le> 1"

lemma fine_Nil [simp]: "fine e []" by (simp add: fine_def)

lemma fine_logged [simp]: "is_process x \<Longrightarrow> fine e (x # logged e ev) \<longleftrightarrow> permitted e x"
  by (auto simp: fine_def logged_def)

lemma fine_one [simp]: "is_process x \<Longrightarrow> fine e [x] \<longleftrightarrow> permitted e x"
  by (auto simp: fine_def)

section \<open>Handler by handler\<close>






















section \<open>Outside the catalog\<close>

definition names :: "tool list \<Rightarrow> rstr set" where "names ts = tl_name ` set ts"

lemma names_append [simp]: "names (a @ b) = names a \<union> names b" by (auto simp: names_def)






















section \<open>Inside the catalog\<close>

lemma find_nothing [simp]: "find (\<lambda>x. False) xs = None"
  by (induction xs) auto












text \<open>What shadows a listed name: a skill called \<open>run\<close>, a binary called \<open>list\<close>.\<close>

lemma skill_verb_shadows:
  "ds_name s = lit ''run'' \<Longrightarrow> skill_tool_name_for (ds_name s) = lit ''skill-run''"
  "mv_skills_enabled e \<Longrightarrow> call_skill e (lit ''skill-run'') args = Some (run_skill_script e args)"
  by (simp_all add: skill_tool_name_for_def sanitize_def name_char_def is_alnum_c_def is_lower_c_def is_upper_c_def is_digit_c_def
      call_skill_def lit_def)

text \<open>With memory switched off its tools are not listed, and they still work.\<close>

lemma memory_off_still_callable:
  "names (memory_tools say False) = {}"
  "call_introspection e (lit ''memory-forget'') args = None"
  "memory_store e w = (Inr (), w1) \<Longrightarrow> call_memory e (lit ''memory-forget'') args w
     = Some ((case memory_tool e (lit ''memory-forget'') args w1 of (r, w2) \<Rightarrow> ((r, []), w2)))"
  by (simp_all add: names_def memory_tools_def call_introspection_def call_memory_def memory_names_def)

section \<open>A concrete server\<close>

definition sample_disk :: disk where
  "sample_disk = \<lparr> dk_dir = (\<lambda>p. p = lit ''/r''), dk_file = (\<lambda>p. p = lit ''/r/a/agent.toml''), dk_exec = (\<lambda>_. False),
     dk_entries = (\<lambda>p. if p = lit ''/r'' then Some [lit ''a''] else None), dk_text = (\<lambda>_. Inl []),
     dk_manifest = (\<lambda>_. Inr ((plain_manifest [])\<lparr> mf_preflight := [\<lparr> pr_plugin = lit ''vpn'', pr_config = JNull,
        pr_events = [], pr_remediation = Some (lit ''vpn up''), pr_timeout_seconds = None \<rparr>] \<rparr>)),
     dk_canonical = (\<lambda>_. Inl []) \<rparr>"

definition no_outl :: "unit outl" where
  "no_outl = \<lparr> ol_present = (\<lambda>_. False), ol_init = (\<lambda>w. (Inl [], w)), ol_open = (\<lambda>w. (Inl [], w)), ol_root = 0,
     ol_show = show_nat, ol_rows = (\<lambda>_. []), ol_slug = (\<lambda>_ _. None), ol_text = (\<lambda>_ _. None), ol_props = (\<lambda>_ _. []),
     ol_pages = (\<lambda>_. []), ol_open_today = (\<lambda>w. (Inl [], w)), ol_open_page = (\<lambda>_ _ w. (Inl [], w)),
     ol_append = (\<lambda>_ _ w. (Inl [], w)), ol_edit = (\<lambda>_ _ w. (Inl [], w)), ol_delete = (\<lambda>_ w. (Inl [], w)),
     ol_set_prop = (\<lambda>_ _ _ w. (Inl [], w)), ol_project = (\<lambda>_ w. (Inl [], w)) \<rparr>"

definition call_vpn :: json where
  "call_vpn = JObject [(lit ''id'', JInt 1), (lit ''method'', JString (lit ''tools/call'')),
     (lit ''params'', JObject [(lit ''name'', JString (lit ''remediate-probe-vpn''))])]"

definition sample_env :: "unit mcp_env" where
  "sample_env = \<lparr> mv_disk = sample_disk, mv_agents = discover_agents sample_disk [lit ''/r''], mv_skills_enabled = False,
     mv_skills = no_skills, mv_commands_enabled = False, mv_commands = no_commands, mv_alnum = (\<lambda>_. False), mv_lower = (\<lambda>c. [c]),
     mv_os = default_os, mv_memory_enabled = False, mv_override = True, mv_workspace = [], mv_outl = no_outl,
     mv_unicode = \<lparr> uc_alnum = (\<lambda>_. False), uc_lower = (\<lambda>c. [c]), uc_upper = (\<lambda>c. [c]) \<rparr>, mv_ranking = \<lparr> rk_score = (\<lambda>_ _ _ _. 0), rk_baseline = (\<lambda>_ _. 0) \<rparr>,
     mv_parse_day = (\<lambda>_. None), mv_day = 0, mv_today = [], mv_child = (\<lambda>_ _. Finished (Some 0) [] []),
     mv_self = (\<lambda>_. NoExe), mv_run = (\<lambda>_. Inl []), mv_home = Inr (), mv_audit_ok = True, mv_sha = (\<lambda>_. None),
     mv_version = [], mv_say = (\<lambda>_ _. []), mv_parse = (\<lambda>_. Inr call_vpn), mv_request_error = (\<lambda>_. []),
     mv_call_error = (\<lambda>_. []), mv_args_error = (\<lambda>_. []) \<rparr>"

definition sample_agent :: discovered_agent where
  "sample_agent = \<lparr> da_manifest = (plain_manifest [])\<lparr> mf_preflight := [\<lparr> pr_plugin = lit ''vpn'', pr_config = JNull,
        pr_events = [], pr_remediation = Some (lit ''vpn up''), pr_timeout_seconds = None \<rparr>] \<rparr>, da_dir = lit ''/r/a'' \<rparr>"

lemma sample_found: "discover_agents sample_disk [lit ''/r''] = \<lparr> ad_agents = [sample_agent], ad_invalid = [], ad_seen = [lit ''probe''] \<rparr>"
proof -
  have "path_join (lit ''/r'') (lit ''a'') = lit ''/r/a''" "path_join (lit ''/r/a'') (lit ''agent.toml'') = lit ''/r/a/agent.toml''"
    by (simp_all add: path_join_def lit_def)
  then show ?thesis
    by (simp add: discover_agents_def scan_agent_root_def scan_agent_def sample_disk_def no_agents_def Let_def plain_manifest_def
        sample_agent_def)
qed

lemma sample_agent_name [simp]: "da_name sample_agent = lit ''probe''"
  by (simp add: da_name_def sample_agent_def plain_manifest_def)




lemma sample_fields [simp]:
  "mv_agents sample_env = \<lparr> ad_agents = [sample_agent], ad_invalid = [], ad_seen = [lit ''probe''] \<rparr>"
  "mv_parse sample_env l = Inr call_vpn" "mv_child sample_env p as = Finished (Some 0) [] []" "mv_audit_ok sample_env"
  by (simp_all add: sample_env_def sample_found)






end
