(* ===== verification/Redact.thy ===== *)
theory Redact
  imports Os_Policy Memory_Record
begin

text \<open>
  Cutting a message to what a backend accepts (\<open>dotagent-notify/src/limits.rs\<close>) and keeping
  credentials out of what is logged (\<open>dotagent-notify/src/redact.rs\<close>).
\<close>

section \<open>Size limits\<close>

definition truncation_notice :: rstr where "truncation_notice = 10 # lit ''[truncated]''"
definition ellipsis_notice :: rstr where "ellipsis_notice = [0x2026]"

definition truncate_chars :: "rstr \<Rightarrow> nat \<Rightarrow> rstr \<Rightarrow> rstr" where
  "truncate_chars body max_chars notice =
     (if length body \<le> max_chars then body
      else if max_chars \<le> length notice then take max_chars body
      else take (max_chars - length notice) body @ notice)"

definition utf16_width :: "nat \<Rightarrow> nat" where
  "utf16_width c = (if c < 0x10000 then 1 else 2)"

definition utf16_len :: "rstr \<Rightarrow> nat" where
  "utf16_len s = sum_list (map utf16_width s)"

fun take_utf16_from :: "nat \<Rightarrow> nat \<Rightarrow> rstr \<Rightarrow> rstr" where
  "take_utf16_from used max_units [] = []"
| "take_utf16_from used max_units (c # cs) = (if max_units < used + utf16_width c then []
     else c # take_utf16_from (used + utf16_width c) max_units cs)"

definition take_utf16 :: "rstr \<Rightarrow> nat \<Rightarrow> rstr" where
  "take_utf16 body max_units = take_utf16_from 0 max_units body"

definition truncate_utf16_with :: "rstr \<Rightarrow> nat \<Rightarrow> rstr \<Rightarrow> (rstr \<Rightarrow> rstr) \<Rightarrow> rstr" where
  "truncate_utf16_with body max_units notice fixup =
     (if utf16_len body \<le> max_units then body
      else if max_units \<le> utf16_len notice then take_utf16 body max_units
      else fixup (take_utf16 body (max_units - utf16_len notice)) @ notice)"

text \<open>Walking the cut back to a character boundary keeps the characters that fit whole.\<close>

definition truncate_bytes :: "rstr \<Rightarrow> nat \<Rightarrow> rstr \<Rightarrow> rstr" where
  "truncate_bytes body max_bytes notice =
     (if byte_len body \<le> max_bytes then body
      else if byte_len notice < max_bytes then take_bytes (max_bytes - byte_len notice) body @ notice
      else take_bytes max_bytes body)"

section \<open>Redaction\<close>

definition placeholder :: rstr where "placeholder = lit ''<redacted>''"
definition max_error_detail_chars :: nat where "max_error_detail_chars = 300"

text \<open>What a transport error says about itself; nothing of the request is kept.\<close>

record transport_error =
  te_timeout :: bool
  te_connect :: bool
  te_builder :: bool
  te_request :: bool
  te_body :: bool
  te_decode :: bool
  te_status :: "rstr option"

definition error_kind :: "transport_error \<Rightarrow> rstr" where
  "error_kind e = lit (if te_timeout e then ''timeout'' else if te_connect e then ''connect''
     else if te_builder e then ''builder'' else if te_request e then ''request''
     else if te_body e then ''body'' else if te_decode e then ''decode'' else ''http'')"

definition sanitize_reqwest_err :: "rstr \<Rightarrow> transport_error \<Rightarrow> rstr" where
  "sanitize_reqwest_err driver e = driver @ lit '' transport error ('' @ error_kind e
     @ (case te_status e of Some s \<Rightarrow> lit '', status '' @ s @ lit '')'' | None \<Rightarrow> lit '')'')"

definition secret_tail :: "rstr \<Rightarrow> rstr" where
  "secret_tail secret = rev (takeWhile (\<lambda>c. c \<noteq> 58 \<and> c \<noteq> 47) (rev secret))"

definition redact :: "rstr \<Rightarrow> rstr \<Rightarrow> rstr" where
  "redact body secret0 = (let secret = trim secret0 in
     if secret = [] then body
     else let out = replace_str secret placeholder body; tail = secret_tail secret in
       if 8 \<le> byte_len tail \<and> tail \<noteq> secret then replace_str tail placeholder out else out)"

definition find_char :: "(nat \<Rightarrow> bool) \<Rightarrow> rstr \<Rightarrow> rstr" where
  "find_char p s = takeWhile (\<lambda>c. \<not> p c) s"

definition redact_url_userinfo :: "rstr \<Rightarrow> rstr" where
  "redact_url_userinfo url = (case split_at_str (lit ''://'') url of
     None \<Rightarrow> url
   | Some (scheme, rest) \<Rightarrow> (let authority = find_char (\<lambda>c. c = 47 \<or> c = 63 \<or> c = 35) rest in
       case rsplit_once 64 authority of
         None \<Rightarrow> url
       | Some (userinfo, host) \<Rightarrow> scheme @ lit ''://'' @ placeholder @ [64] @ drop (length userinfo + 1) rest))"

text \<open>\<open>char::is_control\<close>: the category Cc.\<close>

definition is_control :: "nat \<Rightarrow> bool" where
  "is_control c \<longleftrightarrow> c < 32 \<or> 127 \<le> c \<and> c \<le> 159"

definition scrub_detail :: "rstr \<Rightarrow> rstr list \<Rightarrow> rstr option" where
  "scrub_detail raw secrets =
     (let cleaned = fold (\<lambda>s c. redact c s) secrets raw;
          trimmed = trim (map (\<lambda>c. if is_control c then 32 else c) cleaned)
      in if trimmed = [] then None
         else if max_error_detail_chars < length trimmed then Some (take max_error_detail_chars trimmed @ [0x2026])
         else Some trimmed)"

section \<open>A cut text fits\<close>

lemma take_utf16_le: "used \<le> n \<Longrightarrow> used + utf16_len (take_utf16_from used n s) \<le> n"
  by (induction used n s rule: take_utf16_from.induct) (auto simp: utf16_len_def)

lemma take_utf16_prefix: "prefix (take_utf16_from used n s) s"
  by (induction used n s rule: take_utf16_from.induct) auto

lemma utf16_len_append: "utf16_len (a @ b) = utf16_len a + utf16_len b"
  by (simp add: utf16_len_def)

text \<open>
  Each cutter keeps a text that fits as it is; otherwise the result is within the cap as the backend
  counts, in characters, UTF-16 units or bytes, and is a beginning of the text with the notice behind
  it, or without when the notice alone would not fit.
\<close>

theorem cut_text_fits:
  assumes "\<And>h. utf16_len (fixup h) \<le> utf16_len h" and "\<And>h. prefix (fixup h) h"
  shows "length (truncate_chars body n notice) \<le> n
    \<and> utf16_len (truncate_utf16_with body n notice fixup) \<le> n
    \<and> byte_len (truncate_bytes body n notice) \<le> n
    \<and> (length body \<le> n \<longrightarrow> truncate_chars body n notice = body)
    \<and> (utf16_len body \<le> n \<longrightarrow> truncate_utf16_with body n notice fixup = body)
    \<and> (byte_len body \<le> n \<longrightarrow> truncate_bytes body n notice = body)
    \<and> (\<forall>t \<in> {truncate_chars body n notice, truncate_utf16_with body n notice fixup, truncate_bytes body n notice}.
         \<exists>h. prefix h body \<and> (t = h \<or> t = h @ notice))"
proof -
  have u: "utf16_len (take_utf16 body m) \<le> m" for m
    using take_utf16_le[of 0 m body] by (simp add: take_utf16_def)
  have fu: "utf16_len (fixup (take_utf16 body (n - utf16_len notice))) \<le> n - utf16_len notice"
    using assms(1) u le_trans by blast
  have p: "prefix (take_utf16 body m) body" for m by (simp add: take_utf16_def take_utf16_prefix)
  have fp: "prefix (fixup (take_utf16 body m)) body" for m using assms(2) p prefix_order.trans by blast
  have b: "byte_len (take_bytes (n - byte_len notice) body) \<le> n - byte_len notice" by (rule take_bytes_le)
  have "utf16_len (truncate_utf16_with body n notice fixup) \<le> n"
    using u[of n] fu by (auto simp: truncate_utf16_with_def utf16_len_append)
  moreover have "byte_len (truncate_bytes body n notice) \<le> n"
    using b take_bytes_le[of n body] by (auto simp: truncate_bytes_def byte_len_append)
  moreover have "length (truncate_chars body n notice) \<le> n" by (auto simp: truncate_chars_def)
  moreover have "\<exists>h. prefix h body \<and> (truncate_chars body n notice = h \<or> truncate_chars body n notice = h @ notice)"
    by (auto simp: truncate_chars_def intro: take_is_prefix)
  moreover have "\<exists>h. prefix h body \<and> (truncate_utf16_with body n notice fixup = h \<or> truncate_utf16_with body n notice fixup = h @ notice)"
    using p[of n] fp by (auto simp: truncate_utf16_with_def)
  moreover have "\<exists>h. prefix h body \<and> (truncate_bytes body n notice = h \<or> truncate_bytes body n notice = h @ notice)"
    by (auto simp: truncate_bytes_def intro: take_bytes_prefix)
  ultimately show ?thesis by (simp add: truncate_chars_def truncate_utf16_with_def truncate_bytes_def)
qed

section \<open>Placeholders in a credential field\<close>

text \<open>\<open>expand_env_with\<close> of \<open>dotagent-notify/src/secrets.rs\<close>; the getter looks in the secrets store and
  then in the environment.\<close>

function expand_env_with :: "rstr \<Rightarrow> (rstr \<Rightarrow> rstr option) \<Rightarrow> rstr \<Rightarrow> rstr \<Rightarrow> rstr + rstr" where
  "expand_env_with field getter out rest = (case split_at_str (lit ''${'') rest of
     None \<Rightarrow> Inr (out @ rest)
   | Some (before, after) \<Rightarrow> (case split_at_str (lit ''}'') after of
       None \<Rightarrow> Inl (field @ lit '': unterminated '' @ tick (lit ''${'' @ [0x2026] @ lit ''}'') @ lit '' placeholder'')
     | Some (name, rest') \<Rightarrow>
         if name = [] then Inl (field @ lit '': empty '' @ tick (lit ''${}'') @ lit '' placeholder'')
         else case getter name of
           Some v \<Rightarrow> expand_env_with field getter (out @ before @ v) rest'
         | None \<Rightarrow> Inl (field @ lit '': env var ${'' @ name @ lit ''} is unset'')))"
  by pat_completeness auto
termination
  by (relation "measure (\<lambda>(f, g, out, rest). length rest)") (auto dest!: split_at_str_eq)

declare expand_env_with.simps [simp del]

definition expand_env :: "rstr \<Rightarrow> (rstr \<Rightarrow> rstr option) \<Rightarrow> rstr \<Rightarrow> rstr + rstr" where
  "expand_env field lookup input = expand_env_with field lookup [] input"

section \<open>No credential in a logged text\<close>

lemma split_at_str_None: "split_at_str p s = None \<Longrightarrow> \<not> sublist p s"
proof (induction p s rule: split_at_str.induct)
  case (1 p s)
  have n: "strip_prefix p s = None" using 1(2) by (subst (asm) split_at_str.simps) (auto split: option.splits)
  show ?case
  proof (cases s)
    case Nil
    then show ?thesis using n by (auto simp: strip_prefix_None)
  next
    case (Cons c cs)
    then have "split_at_str p cs = None" using 1(2) n by (subst (asm) split_at_str.simps) (auto split: option.splits)
    then show ?thesis using 1(1)[OF n Cons] n Cons by (auto simp: strip_prefix_None sublist_Cons_right)
  qed
qed

lemma split_at_str_first_of: "split_at_str p s = Some (a, b) \<Longrightarrow> p \<noteq> [] \<Longrightarrow> \<not> sublist p a"
proof (induction p s arbitrary: a rule: split_at_str.induct)
  case (1 p s)
  show ?case
  proof (cases "strip_prefix p s")
    case (Some r)
    then have "a = []" using 1(2) by (subst (asm) split_at_str.simps) auto
    then show ?thesis using 1(3) by simp
  next
    case None
    then obtain c cs a' where s: "s = c # cs" "split_at_str p cs = Some (a', b)" "a = c # a'"
      using 1(2) by (subst (asm) split_at_str.simps) (auto split: list.splits)
    have "\<not> prefix p a"
    proof
      assume "prefix p a"
      moreover have "prefix a s" using split_at_str_eq[OF 1(2)] by simp
      ultimately show False using None prefix_order.trans by (auto simp: strip_prefix_None)
    qed
    then show ?thesis using 1(1)[OF None s(1,2) 1(3)] s by (auto simp: sublist_Cons_right)
  qed
qed

lemma sublist_split:
  assumes "sublist q (x @ c # y)" "c \<notin> set q"
  shows "sublist q x \<or> sublist q y"
proof -
  obtain us vs where e: "us @ q @ vs = x @ c # y" using assms(1) by (auto simp: sublist_def)
  then consider (left) ws where "us = x @ ws" "ws @ q @ vs = c # y" | (right) ws where "x = us @ ws" "q @ vs = ws @ c # y"
    by (auto simp: append_eq_append_conv2)
  then show ?thesis
  proof cases
    case left
    then show ?thesis
    proof (cases ws)
      case Nil
      then show ?thesis using left assms(2) by (cases q) auto
    next
      case (Cons d ds)
      then have "ds @ q @ vs = y" using left(2) by simp
      then show ?thesis by (auto simp: sublist_def)
    qed
  next
    case right
    then obtain zs where "q = ws @ zs \<and> zs @ vs = c # y \<or> ws = q @ zs \<and> vs = zs @ c # y"
      by (auto simp: append_eq_append_conv2)
    then show ?thesis using right(1) assms(2) by (cases zs) auto
  qed
qed

text \<open>What a text must be like for a placeholder not to bring it back.\<close>

definition plain_secret :: "rstr \<Rightarrow> bool" where
  "plain_secret q \<longleftrightarrow> q \<noteq> [] \<and> 60 \<notin> set q \<and> 62 \<notin> set q \<and> \<not> sublist q (lit ''redacted'')"

lemma placeholder_parts: "placeholder = 60 # lit ''redacted'' @ [62]"
  by (simp add: placeholder_def lit_def)

lemma sublist_placeholder:
  assumes "plain_secret q" "sublist q (x @ placeholder @ y)"
  shows "sublist q x \<or> sublist q y"
proof -
  have "sublist q (x @ 60 # (lit ''redacted'' @ 62 # y))" using assms(2) by (simp add: placeholder_parts)
  moreover have "60 \<notin> set q" "62 \<notin> set q" using assms(1) by (auto simp: plain_secret_def)
  ultimately show ?thesis using assms(1) sublist_split plain_secret_def by metis
qed

lemma sublist_mid: "sublist q a \<Longrightarrow> sublist q (a @ z)" "sublist q b \<Longrightarrow> sublist q (z @ b)"
  by (auto simp: sublist_def) (metis append_assoc)+

lemma replace_str_none_new:
  "sublist q (replace_str p placeholder s) \<Longrightarrow> plain_secret q \<Longrightarrow> sublist q s"
proof (induction p placeholder s rule: replace_str.induct)
  case (1 p s)
  show ?case
  proof (cases "p = [] \<or> split_at_str p s = None")
    case True
    then have "replace_str p placeholder s = s" by (subst replace_str.simps) auto
    then show ?thesis using 1(2) by simp
  next
    case False
    then obtain a b where ab: "split_at_str p s = Some (a, b)" by fastforce
    then have "sublist q (a @ placeholder @ replace_str p placeholder b)"
      using 1(2) False by (subst (asm) replace_str.simps) auto
    then have "sublist q a \<or> sublist q (replace_str p placeholder b)" by (rule sublist_placeholder[OF 1(3)])
    then have "sublist q a \<or> sublist q b" using 1(1)[OF _ ab refl] 1(3) False by blast
    then show ?thesis using split_at_str_eq[OF ab] by (auto simp: sublist_mid)
  qed
qed

lemma replace_str_gone: "plain_secret p \<Longrightarrow> \<not> sublist p (replace_str p placeholder s)"
proof (induction p placeholder s rule: replace_str.induct)
  case (1 p s)
  have p: "p \<noteq> []" using 1(2) by (simp add: plain_secret_def)
  show ?case
  proof (cases "split_at_str p s")
    case None
    then show ?thesis using split_at_str_None p by (subst replace_str.simps) auto
  next
    case (Some ab)
    then obtain a b where ab: "split_at_str p s = Some (a, b)" by (cases ab) auto
    then have e: "replace_str p placeholder s = a @ placeholder @ replace_str p placeholder b"
      using p by (subst replace_str.simps) simp
    have "\<not> sublist p a" by (rule split_at_str_first_of[OF ab p])
    moreover have "\<not> sublist p (replace_str p placeholder b)" using 1(1)[OF p ab refl] 1(2) by blast
    ultimately show ?thesis using sublist_placeholder[OF 1(2)] e by metis
  qed
qed

lemma secret_tail_suffix: "suffix (secret_tail s) s"
  unfolding secret_tail_def by (metis rev_rev_ident suffix_to_prefix takeWhile_is_prefix)

lemma redact_none_new: "plain_secret q \<Longrightarrow> sublist q (redact body s) \<Longrightarrow> sublist q body"
  by (auto simp: redact_def Let_def split: if_splits dest: replace_str_none_new)

text \<open>The texts a secret gives away: itself, and its last segment when that is long enough.\<close>

definition sensitive_forms :: "rstr \<Rightarrow> rstr set" where
  "sensitive_forms secret0 = (let secret = trim secret0 in
     {q. q \<noteq> [] \<and> (q = secret \<or> q = secret_tail secret \<and> 8 \<le> byte_len q)})"

lemma redact_gone:
  assumes "q \<in> sensitive_forms secret" "plain_secret q"
  shows "\<not> sublist q (redact body secret)"
proof (cases "q = trim secret")
  case True
  then show ?thesis using assms replace_str_gone[OF assms(2)] replace_str_none_new[OF _ assms(2)]
    by (auto simp: redact_def Let_def sensitive_forms_def)
next
  case False
  then have q: "q = secret_tail (trim secret)" "8 \<le> byte_len q" using assms(1) by (auto simp: sensitive_forms_def Let_def)
  then have "trim secret \<noteq> []" using assms(1) by (auto simp: sensitive_forms_def Let_def secret_tail_def)
  then show ?thesis using False q replace_str_gone[OF assms(2)] by (auto simp: redact_def Let_def)
qed

lemma redact_all_none_new: "plain_secret q \<Longrightarrow> sublist q (fold (\<lambda>s c. redact c s) ss raw) \<Longrightarrow> sublist q raw"
  by (induction ss arbitrary: raw) (auto dest: redact_none_new)

lemma redact_all_gone:
  "s \<in> set ss \<Longrightarrow> q \<in> sensitive_forms s \<Longrightarrow> plain_secret q \<Longrightarrow> \<not> sublist q (fold (\<lambda>s c. redact c s) ss raw)"
  by (induction ss arbitrary: raw) (auto dest: redact_all_none_new redact_gone)

lemma sublist_flattened:
  assumes "sublist q (map (\<lambda>c. if is_control c then 32 else c) s)" "32 \<notin> set q"
  shows "sublist q s"
proof -
  let ?f = "\<lambda>c. if is_control c then 32 else c"
  obtain us vs where "map ?f s = us @ q @ vs" using assms(1) by (auto simp: sublist_def)
  then obtain us' r' where r: "s = us' @ r'" "q @ vs = map ?f r'"
    by (auto dest!: map_eq_append_conv[THEN iffD1])
  obtain q' vs' where s: "r' = q' @ vs'" "q = map ?f q'"
    using map_eq_append_conv[THEN iffD1, OF r(2)[symmetric]] by blast
  then have "q = q'" using assms(2) by (auto intro!: map_idI simp: image_iff split: if_splits)
  then show ?thesis using r(1) s(1) by (auto simp: sublist_def)
qed

lemma trim_infix: "\<exists>u v. s = u @ trim s @ v"
proof -
  have a: "suffix (trim_start s) s" by (simp add: trim_start_def suffix_dropWhile)
  have "prefix (trim s) (trim_start s)"
    using suffix_dropWhile[of is_ws "rev (trim_start s)"] by (simp add: trim_def trim_end_def suffix_to_prefix)
  then show ?thesis using a by (auto simp: prefix_def suffix_def) metis
qed

lemma sublist_take: "sublist q (take n s) \<Longrightarrow> sublist q s"
  by (metis append_take_drop_id sublist_mid(1))

text \<open>C37. What is logged of an API's error never holds one of the listed credentials nor its last segment of
  eight bytes or more, whatever the server answered and whatever other credentials are blanked in the
  same text; it is one line without control characters and of at most 301 characters.
\<close>

theorem logged_detail_holds_no_credential:
  assumes "s \<in> set secrets" "q \<in> sensitive_forms s" "plain_secret q" "32 \<notin> set q" "0x2026 \<notin> set q"
    and "scrub_detail raw secrets = Some out"
  shows "\<not> sublist q out \<and> length out \<le> 301 \<and> (\<forall>c\<in>set out. \<not> is_control c)"
proof -
  define flat where "flat = map (\<lambda>c. if is_control c then 32 else c) (fold (\<lambda>s c. redact c s) secrets raw)"
  have out: "out = trim flat \<and> length (trim flat) \<le> 300 \<or> out = take 300 (trim flat) @ [0x2026]"
    using assms(6) by (auto simp: scrub_detail_def Let_def flat_def max_error_detail_chars_def split: if_splits)
  obtain u v where uv: "flat = u @ trim flat @ v" using trim_infix by blast
  have "\<not> sublist q flat"
    using redact_all_gone[OF assms(1-3)] sublist_flattened[OF _ assms(4)] by (auto simp: flat_def)
  then have nt: "\<not> sublist q (trim flat)" using uv sublist_mid by metis
  have "\<forall>c\<in>set flat. \<not> is_control c" by (auto simp: flat_def is_control_def)
  then have ct: "\<forall>c\<in>set (trim flat). \<not> is_control c" using uv by (metis UnCI set_append)
  from out show ?thesis
  proof
    assume "out = trim flat \<and> length (trim flat) \<le> 300"
    then show ?thesis using nt ct by auto
  next
    assume o: "out = take 300 (trim flat) @ [0x2026]"
    have "\<not> sublist q out"
      using sublist_split[of q "take 300 (trim flat)" "0x2026" "[]"] o nt sublist_take assms(3,5)
      by (auto simp: plain_secret_def)
    moreover have "\<forall>c\<in>set out. \<not> is_control c" using o ct by (auto simp: is_control_def dest: in_set_takeD)
    ultimately show ?thesis using o by simp
  qed
qed

text \<open>
  A placeholder that cannot be resolved refuses the whole field, and what is reported names the
  variable at most: two environments that set the same variables report the same error.
\<close>

lemma expand_env_error_tells_no_value:
  "expand_env_with field g out rest = Inl e \<Longrightarrow> (\<And>n. g n = None \<longleftrightarrow> g' n = None)
    \<Longrightarrow> expand_env_with field g' out' rest = Inl e"
proof (induction field g out rest arbitrary: out' rule: expand_env_with.induct)
  case (1 field g out rest)
  show ?case
  proof (cases "split_at_str (lit ''${'') rest")
    case None
    then show ?thesis using 1(2) by (simp add: expand_env_with.simps[of field g])
  next
    case (Some ba)
    then obtain b a where s: "split_at_str (lit ''${'') rest = Some (b, a)" by (cases ba) auto
    show ?thesis
    proof (cases "split_at_str (lit ''}'') a")
      case None
      then show ?thesis using 1(2) s by (simp add: expand_env_with.simps[of field])
    next
      case (Some nr)
      then obtain n r where t: "split_at_str (lit ''}'') a = Some (n, r)" by (cases nr) auto
      show ?thesis
      proof (cases "n = [] \<or> g n = None")
        case True
        then show ?thesis using 1(2) s t 1(3)[of n] by (auto simp: expand_env_with.simps[of field])
      next
        case False
        then obtain v where v: "n \<noteq> []" "g n = Some v" by auto
        then obtain v' where v': "g' n = Some v'" using 1(3)[of n] by auto
        have "expand_env_with field g (out @ b @ v) r = Inl e"
          using 1(2) s t v by (simp add: expand_env_with.simps[of field g out])
        then have "expand_env_with field g' (out' @ b @ v') r = Inl e"
          using 1(1)[OF s refl t refl v] 1(3) by blast
        then show ?thesis using s t v v' by (simp add: expand_env_with.simps[of field g' out'])
      qed
    qed
  qed
qed

section \<open>Witnesses\<close>

lemma cut_text_fits_witness:
  "utf16_len (truncate_utf16_with [97, 98, 0x1F600, 100, 101, 102] 4 ellipsis_notice id) \<le> 4
    \<and> truncate_utf16_with [97, 98, 0x1F600, 100, 101, 102] 4 ellipsis_notice id = [97, 98, 0x2026]"
proof -
  have "utf16_len (truncate_utf16_with [97, 98, 0x1F600, 100, 101, 102] 4 ellipsis_notice id) \<le> 4"
    by (rule cut_text_fits[THEN conjunct2, THEN conjunct1]) simp_all
  then show ?thesis
    by (simp add: truncate_utf16_with_def take_utf16_def utf16_len_def utf16_width_def ellipsis_notice_def)
qed

lemma logged_detail_holds_no_credential_witness:
  "\<not> sublist (lit ''abcdefgh'') (lit ''no <redacted>'')"
proof -
  have t: "trim (lit ''k:abcdefgh'') = lit ''k:abcdefgh''" "secret_tail (lit ''k:abcdefgh'') = lit ''abcdefgh''"
    by (simp_all add: trim_def trim_start_def trim_end_def is_ws_def lit_def secret_tail_def)
  have q: "lit ''abcdefgh'' \<in> sensitive_forms (lit ''k:abcdefgh'')"
    by (simp add: sensitive_forms_def t) (simp add: lit_def byte_len_def utf8_width_def)
  have p: "plain_secret (lit ''abcdefgh'')" by (auto simp: plain_secret_def lit_def dest!: set_mono_sublist)
  have n: "32 \<notin> set (lit ''abcdefgh'')" "0x2026 \<notin> set (lit ''abcdefgh'')" by (simp_all add: lit_def)
  have "redact (lit ''no abcdefgh'' @ [10]) (lit ''k:abcdefgh'') = lit ''no <redacted>'' @ [10]"
    by (simp add: redact_def Let_def t)
      (simp add: lit_def byte_len_def utf8_width_def replace_str.simps split_at_str.simps placeholder_def)
  then have d: "scrub_detail (lit ''no abcdefgh'' @ [10]) [lit ''k:abcdefgh''] = Some (lit ''no <redacted>'')"
    by (simp add: scrub_detail_def)
      (simp add: trim_def trim_start_def trim_end_def is_ws_def lit_def is_control_def max_error_detail_chars_def)
  show ?thesis using logged_detail_holds_no_credential[OF _ q p n d] by simp
qed

end
