(* ===== verification/Secrets.thy ===== *)
theory Secrets
  imports Redact Audit_Event "HOL-Library.Word"
begin

text \<open>
  The daemon's secrets (\<open>dotagent-secrets/src/lib.rs\<close>): the file with its permissions, the parser of
  its lines, the references that the 1Password program resolves, the store of the process with its
  fallback to the environment, and what the daemon does with it at start-up and on reload
  (\<open>commands/daemon.rs\<close>).  What the system and the program \<open>op\<close> answer, and the rendering of a
  string by \<open>{:?}\<close>, are parameters.
\<close>

unbundle bit_operations_syntax

section \<open>The file\<close>

type_synonym entries = "(rstr \<times> rstr) list"

datatype secrets_error =
  SecretsIo rstr
| InsecureMode "32 word"
| SecretsParse nat rstr

record secrets_store =
  ss_entries :: entries
  ss_source :: "rstr option"
  ss_unresolved :: nat

definition check_permissions :: "32 word \<Rightarrow> secrets_error + unit" where
  "check_permissions st_mode = (let mode = st_mode AND 0x1FF in
     if mode AND 0x3F \<noteq> 0 then Inl (InsecureMode mode) else Inr ())"

definition is_valid_key :: "rstr \<Rightarrow> bool" where
  "is_valid_key s = (case s of
     [] \<Rightarrow> False
   | c # cs \<Rightarrow> (is_lower_c c \<or> is_upper_c c \<or> c = 95) \<and> list_all (\<lambda>c. is_alnum_c c \<or> c = 95) cs)"

definition ensure_trailing_whitespace :: "rstr \<Rightarrow> nat \<Rightarrow> rstr + unit" where
  "ensure_trailing_whitespace chars quote_char = (case dropWhile is_ws chars of
     [] \<Rightarrow> Inr ()
   | c # _ \<Rightarrow> Inl (lit ''unexpected '' @ tick [c] @ lit '' after closing '' @ tick [quote_char]
       @ lit '' (escape with '' @ tick [92, quote_char] @ lit '' or remove it)''))"

definition unescape_char :: "nat \<Rightarrow> nat option" where
  "unescape_char c = map_of [(110, 10), (114, 13), (116, 9), (92, 92), (34, 34)] c"

fun double_quoted :: "rstr \<Rightarrow> rstr \<Rightarrow> rstr + rstr" where
  "double_quoted out [] = Inl (lit ''unterminated double-quoted value'')"
| "double_quoted out (c # cs) =
     (if c = 34 then (case ensure_trailing_whitespace cs 34 of Inl e \<Rightarrow> Inl e | Inr _ \<Rightarrow> Inr out)
      else if c = 92 then
        (case cs of
           [] \<Rightarrow> Inl (lit ''trailing '' @ tick [92] @ lit '' in double-quoted value'')
         | d # ds \<Rightarrow> (case unescape_char d of
             Some x \<Rightarrow> double_quoted (out @ [x]) ds
           | None \<Rightarrow> Inl (lit ''unsupported escape '' @ tick [92, d] @ lit '' in double-quoted value'')))
      else double_quoted (out @ [c]) cs)"

fun single_quoted :: "rstr \<Rightarrow> rstr \<Rightarrow> rstr + rstr" where
  "single_quoted out [] = Inl (lit ''unterminated single-quoted value'')"
| "single_quoted out (c # cs) =
     (if c = 39 then (case ensure_trailing_whitespace cs 39 of Inl e \<Rightarrow> Inl e | Inr _ \<Rightarrow> Inr out)
      else single_quoted (out @ [c]) cs)"

definition unquote_value :: "rstr \<Rightarrow> rstr + rstr" where
  "unquote_value raw = (let v = trim_start raw in
     case strip_prefix [34] v of
       Some rest \<Rightarrow> double_quoted [] rest
     | None \<Rightarrow> (case strip_prefix [39] v of
         Some rest \<Rightarrow> single_quoted [] rest
       | None \<Rightarrow> Inr (trim_end v)))"

text \<open>One line: skipped (\<open>None\<close>), or an entry; \<open>dbg\<close> is the Debug form of a string.\<close>

definition secret_line :: "(rstr \<Rightarrow> rstr) \<Rightarrow> rstr \<Rightarrow> rstr + (rstr \<times> rstr) option" where
  "secret_line dbg line =
     (let trimmed = trim_start line in
      if trimmed = [] \<or> starts_with [35] trimmed then Inr None
      else let b = (case strip_prefix (lit ''export '') trimmed of Some r \<Rightarrow> r | None \<Rightarrow> trimmed) in
        case split_once 61 b of
          None \<Rightarrow> Inl (lit ''expected '' @ tick (lit ''KEY=VALUE'') @ lit '', found no '' @ tick [61])
        | Some (k, raw_value) \<Rightarrow>
            let key = trim k in
            if \<not> is_valid_key key then
              Inl (lit ''invalid key '' @ dbg key @ lit '' (must match [A-Za-z_][A-Za-z0-9_]*)'')
            else (case unquote_value raw_value of Inl e \<Rightarrow> Inl e | Inr v \<Rightarrow> Inr (Some (key, v))))"

fun parse_lines :: "(rstr \<Rightarrow> rstr) \<Rightarrow> nat \<Rightarrow> entries \<Rightarrow> rstr list \<Rightarrow> secrets_error + entries" where
  "parse_lines dbg idx out [] = Inr out"
| "parse_lines dbg idx out (l # ls) = (case secret_line dbg l of
     Inl reason \<Rightarrow> Inl (SecretsParse (idx + 1) reason)
   | Inr None \<Rightarrow> parse_lines dbg (idx + 1) out ls
   | Inr (Some (k, v)) \<Rightarrow> parse_lines dbg (idx + 1) (bt_insert k v out) ls)"

definition parse_secrets :: "(rstr \<Rightarrow> rstr) \<Rightarrow> rstr \<Rightarrow> secrets_error + entries" where
  "parse_secrets dbg raw = parse_lines dbg 0 [] (str_lines raw)"

section \<open>References\<close>

definition is_op_reference :: "rstr \<Rightarrow> bool" where
  "is_op_reference v = (case strip_prefix (lit ''op://'') v of
     Some rest \<Rightarrow> 2 \<le> length (filter (\<lambda>c. c = 47) rest)
   | None \<Rightarrow> False)"

definition resolve_one :: "(rstr \<Rightarrow> rstr + rstr) \<Rightarrow> rstr \<times> rstr \<Rightarrow> entries \<times> nat \<Rightarrow> entries \<times> nat" where
  "resolve_one resolver kr st = (case resolver (snd kr) of
     Inr v \<Rightarrow> (bt_insert (fst kr) v (fst st), snd st)
   | Inl _ \<Rightarrow> (bt_remove (fst kr) (fst st), snd st + 1))"

definition resolve_references :: "(rstr \<Rightarrow> rstr + rstr) \<Rightarrow> entries \<Rightarrow> entries \<times> nat" where
  "resolve_references resolver es = fold (resolve_one resolver) (filter (\<lambda>(_, v). is_op_reference v) es) (es, 0)"

text \<open>What the child \<open>op read\<close> left: it may be missing, fail to start, or exit (with a status code when
  no signal ended it) with its output, which may not be UTF-8.\<close>

datatype op_child =
  OpNotFound
| OpSpawnError rstr
| OpExited "int option" "rstr + rstr" rstr

definition default_reference_resolver :: "(rstr \<Rightarrow> op_child) \<Rightarrow> rstr \<Rightarrow> rstr + rstr" where
  "default_reference_resolver op_read reference =
     (if \<not> is_op_reference reference then Inl (lit ''not a recognised reference scheme: '' @ reference)
      else case op_read reference of
        OpNotFound \<Rightarrow> Inl (lit ''1Password CLI ('' @ tick (lit ''op'') @ lit '') not found on PATH ''
          @ [0x2014] @ lit '' install it or remove the op:// reference'')
      | OpSpawnError e \<Rightarrow> Inl (lit ''failed to spawn '' @ tick (lit ''op read'') @ lit '': '' @ e)
      | OpExited code stdout stderr \<Rightarrow>
          if code \<noteq> Some 0 then
            Inl (tick (lit ''op read'') @ lit '' exited ''
              @ (case code of Some c \<Rightarrow> show_int c | None \<Rightarrow> lit ''signal'') @ lit '': ''
              @ trim (case str_lines stderr of [] \<Rightarrow> [] | l # _ \<Rightarrow> l))
          else (case stdout of Inr v \<Rightarrow> Inr v
            | Inl e \<Rightarrow> Inl (tick (lit ''op read'') @ lit '' returned non-utf8 output: '' @ e)))"

section \<open>Loading\<close>

text \<open>The answers of \<open>metadata\<close> and \<open>read_to_string\<close>.\<close>

datatype secrets_file =
  FileMissing
| MetaError rstr
| FileFound "32 word" "rstr + rstr"

definition load_with_resolver :: "(rstr \<Rightarrow> rstr) \<Rightarrow> rstr \<Rightarrow> secrets_file \<Rightarrow> (rstr \<Rightarrow> rstr + rstr)
    \<Rightarrow> secrets_error + secrets_store option" where
  "load_with_resolver dbg path sfile resolver = (case sfile of
     FileMissing \<Rightarrow> Inr None
   | MetaError e \<Rightarrow> Inl (SecretsIo e)
   | FileFound mode content \<Rightarrow> (case check_permissions mode of
       Inl e \<Rightarrow> Inl e
     | Inr _ \<Rightarrow> (case content of
         Inl e \<Rightarrow> Inl (SecretsIo e)
       | Inr raw \<Rightarrow> (case parse_secrets dbg raw of
           Inl e \<Rightarrow> Inl e
         | Inr es \<Rightarrow> (case resolve_references resolver es of
             (es', unresolved) \<Rightarrow> Inr (Some \<lparr> ss_entries = es', ss_source = Some path, ss_unresolved = unresolved \<rparr>))))))"

definition load_secrets :: "(rstr \<Rightarrow> rstr) \<Rightarrow> rstr \<Rightarrow> secrets_file \<Rightarrow> (rstr \<Rightarrow> op_child) \<Rightarrow> secrets_error + secrets_store option" where
  "load_secrets dbg path sfile op_read = load_with_resolver dbg path sfile (default_reference_resolver op_read)"

function show_oct :: "nat \<Rightarrow> rstr" where
  "show_oct n = (if n < 8 then [48 + n] else show_oct (n div 8) @ [48 + n mod 8])"
  by auto
termination by (relation "measure id") auto

declare show_oct.simps [simp del]

text \<open>\<open>Display\<close> of the error.\<close>

fun secrets_error_text :: "rstr \<Rightarrow> secrets_error \<Rightarrow> rstr" where
  "secrets_error_text path (SecretsIo e) = lit ''io reading '' @ path @ lit '': '' @ e"
| "secrets_error_text path (InsecureMode mode) = lit ''insecure permissions on '' @ path @ lit '': mode is ''
     @ show_oct (unat mode) @ lit '', must be owner-only (no group/world bits '' @ [0x2014]
     @ lit '' e.g. 0600). run: chmod 600 '' @ path"
| "secrets_error_text path (SecretsParse line reason) = lit ''invalid line '' @ show_nat line @ lit '' in ''
     @ path @ lit '': '' @ reason"

section \<open>The store of the process\<close>

text \<open>\<open>GLOBAL\<close> is the argument; each call holds its lock throughout.\<close>

definition install_store :: "secrets_store \<Rightarrow> secrets_store option \<Rightarrow> secrets_store option" where
  "install_store store g = Some store"

definition reset_store :: "secrets_store option \<Rightarrow> secrets_store option" where
  "reset_store g = None"

definition reset_if_present :: "secrets_store option \<Rightarrow> bool \<times> secrets_store option" where
  "reset_if_present g = (if g \<noteq> None then (True, None) else (False, g))"

definition store_get :: "rstr \<Rightarrow> secrets_store \<Rightarrow> rstr option" where
  "store_get key s = map_of (ss_entries s) key"

definition secret_lookup :: "(rstr \<Rightarrow> rstr option) \<Rightarrow> secrets_store option \<Rightarrow> rstr \<Rightarrow> rstr option" where
  "secret_lookup env g key = (case Option.bind g (store_get key) of
     Some v \<Rightarrow> Some v
   | None \<Rightarrow> env key)"

text \<open>\<open>load_secrets_at_startup\<close>, at start-up and on every reload: the new store and what is appended to
  the audit log.\<close>

definition load_secrets_at_startup :: "(rstr \<Rightarrow> rstr) \<Rightarrow> rstr \<Rightarrow> secrets_file \<Rightarrow> (rstr \<Rightarrow> op_child)
    \<Rightarrow> secrets_store option \<Rightarrow> secrets_store option \<times> audit_event list" where
  "load_secrets_at_startup dbg path sfile op_read g = (case load_secrets dbg path sfile op_read of
     Inr (Some store) \<Rightarrow> (install_store store g,
       [SecretsLoaded path (length (ss_entries store)) (ss_unresolved store)])
   | Inr None \<Rightarrow> (case reset_if_present g of
       (True, g') \<Rightarrow> (g', [SecretsRefused path (lit ''file no longer exists; previous store dropped'')])
     | (False, g') \<Rightarrow> (g', []))
   | Inl e \<Rightarrow> (case reset_if_present g of
       (dropped, g') \<Rightarrow> (g', [SecretsRefused path (secrets_error_text path e
          @ (if dropped then lit ''; previous store dropped'' else []))])))"

text \<open>Which file: the configuration, then the environment, then the default; a relative path is passed over.\<close>

definition is_absolute :: "rstr \<Rightarrow> bool" where "is_absolute p \<longleftrightarrow> starts_with [47] p"

definition join_path :: "rstr \<Rightarrow> rstr \<Rightarrow> rstr" where
  "join_path dir name = (if dir = [] then name else if last dir = 47 then dir @ name else dir @ 47 # name)"

definition secrets_file_path :: "rstr option \<Rightarrow> rstr \<Rightarrow> rstr" where
  "secrets_file_path env_file home = (case env_file of
     Some p \<Rightarrow> if p \<noteq> [] \<and> is_absolute p then p else join_path home (lit ''secrets.env'')
   | None \<Rightarrow> join_path home (lit ''secrets.env''))"

definition resolve_secrets_path :: "rstr \<Rightarrow> rstr option \<Rightarrow> rstr \<Rightarrow> rstr" where
  "resolve_secrets_path configured env_file home =
     (if configured \<noteq> [] \<and> is_absolute configured then configured else secrets_file_path env_file home)"

section \<open>A written file reads back\<close>

definition quote_char :: "nat \<Rightarrow> rstr" where
  "quote_char c = (if c = 10 then [92, 110] else if c = 13 then [92, 114] else if c = 9 then [92, 116]
     else if c = 92 then [92, 92] else if c = 34 then [92, 34] else [c])"

definition quote_value :: "rstr \<Rightarrow> rstr" where
  "quote_value v = [34] @ concat (map quote_char v) @ [34]"

definition show_entry :: "rstr \<times> rstr \<Rightarrow> rstr" where
  "show_entry e = fst e @ [61] @ quote_value (snd e)"

lemma double_quoted_reads: "double_quoted out (concat (map quote_char v) @ [34]) = Inr (out @ v)"
proof (induction v arbitrary: out)
  case (Cons c v)
  then show ?case by (auto simp: quote_char_def unescape_char_def)
qed (simp add: ensure_trailing_whitespace_def)

lemma unquote_quoted: "unquote_value (quote_value v) = Inr v"
  using double_quoted_reads[of "[]" v] by (simp add: unquote_value_def quote_value_def trim_start_def is_ws_def)

lemma key_chars: "is_valid_key k \<Longrightarrow> c \<in> set k \<Longrightarrow> is_alnum_c c \<or> c = 95"
  by (auto simp: is_valid_key_def is_alnum_c_def list_all_iff split: list.splits)

lemma key_char_plain: "is_alnum_c c \<or> c = 95 \<Longrightarrow> \<not> is_ws c \<and> c \<noteq> 61 \<and> c \<noteq> 35 \<and> c \<noteq> 10 \<and> c \<noteq> 32"
  by (auto simp: is_alnum_c_def is_digit_c_def is_lower_c_def is_upper_c_def is_ws_def)

lemma split_once_head: "c \<notin> set k \<Longrightarrow> split_once c (k @ c # r) = Some (k, r)"
  by (induction k) auto

lemma secret_line_entry:
  assumes "is_valid_key k"
  shows "secret_line dbg (show_entry (k, v)) = Inr (Some (k, v))"
proof -
  have p: "c \<in> set k \<Longrightarrow> \<not> is_ws c \<and> c \<noteq> 61 \<and> c \<noteq> 35 \<and> c \<noteq> 10 \<and> c \<noteq> 32" for c
    using key_char_plain key_chars[OF assms] by blast
  obtain c cs where k: "k = c # cs" using assms by (cases k) (auto simp: is_valid_key_def)
  have "strip_prefix (lit ''export '') (k @ 61 # quote_value v) = None"
  proof -
    have "\<not> prefix (lit ''export '') (k @ 61 # quote_value v)"
    proof
      assume a: "prefix (lit ''export '') (k @ 61 # quote_value v)"
      then have "prefix (lit ''export '') k \<or> prefix k (lit ''export '')"
        using prefix_same_cases[of "lit ''export ''" _ k] by auto
      moreover have "\<not> prefix (lit ''export '') k" using p[of 32] by (auto simp: prefix_def lit_def)
      ultimately obtain zs where z: "lit ''export '' = k @ zs" by (auto simp: prefix_def)
      have "zs \<noteq> []" using z p[of 32] by (auto simp: lit_def)
      moreover have "prefix zs (61 # quote_value v)" using a unfolding z by simp
      ultimately have "61 \<in> set (lit ''export '')" unfolding z by (cases zs) auto
      then show False by (simp add: lit_def)
    qed
    then show ?thesis by (simp add: strip_prefix_None)
  qed
  moreover have "trim k = k"
  proof -
    have "k \<noteq> []" using k by simp
    then obtain ys y where y: "k = ys @ [y]" by (metis rev_exhaust)
    have "trim_start k = k" using p[of c] k by (simp add: trim_start_def)
    moreover have "trim_end k = k" using p[of y] y by (simp add: trim_end_def)
    ultimately show ?thesis by (simp add: trim_def)
  qed
  moreover have "split_once 61 (k @ 61 # quote_value v) = Some (k, quote_value v)"
    using p by (intro split_once_head) auto
  ultimately show ?thesis using assms p[of c] k
    by (simp add: secret_line_def show_entry_def Let_def trim_start_def unquote_quoted)
qed

lemma parse_lines_entries:
  "list_all (\<lambda>e. is_valid_key (fst e)) es \<Longrightarrow>
    parse_lines dbg idx out (map show_entry es) = Inr (fold (\<lambda>(k, v). bt_insert k v) es out)"
proof (induction es arbitrary: idx out)
  case (Cons e es)
  then show ?case using secret_line_entry[of "fst e" dbg "snd e"] by (cases e) simp
qed simp

lemma quote_value_one_line: "10 \<notin> set (quote_value v)"
  by (auto simp: quote_value_def quote_char_def split: if_splits)

lemma entry_lines:
  assumes "list_all (\<lambda>e. is_valid_key (fst e)) es" "es \<noteq> []"
  shows "str_lines (join [10] (map show_entry es)) = map show_entry es"
proof -
  have n: "10 \<notin> set (show_entry e)" "show_entry e \<noteq> []" "last (show_entry e) \<noteq> 13" if "e \<in> set es" for e
    using that assms(1) key_chars key_char_plain quote_value_one_line[of "snd e"]
    by (auto simp: show_entry_def list_all_iff quote_value_def)
  have "split_on 10 (join [10] (map show_entry es)) = map show_entry es"
    using assms(2) n by (intro split_on_join) auto
  moreover have "lines_of_pieces ls = ls" if "\<forall>l\<in>set ls. l \<noteq> [] \<and> last l \<noteq> 13" for ls
    using that by (induction ls rule: lines_of_pieces.induct) (auto simp: strip_cr_def)
  ultimately show ?thesis using n by (simp add: str_lines_def)
qed

lemma fold_insert_wf: "bt_wf m \<Longrightarrow> bt_wf (fold (\<lambda>(k, v). bt_insert k v) es m)"
  by (induction es arbitrary: m) (auto intro: bt_insert_wf)

lemma fold_insert_map: "bt_wf m \<Longrightarrow>
    map_of (fold (\<lambda>(k, v). bt_insert k v) es m) = map_of m ++ map_of (rev es)"
  by (induction es arbitrary: m) (auto simp: map_of_bt_insert bt_insert_wf map_add_assoc[symmetric] map_add_def fun_eq_iff split: option.splits)

section \<open>What the store can hold\<close>

lemma resolve_fold:
  assumes "bt_wf m" "distinct (map fst refs)"
  shows "bt_wf (fst (fold (resolve_one resolver) refs (m, n)))
    \<and> snd (fold (resolve_one resolver) refs (m, n)) = n + length (filter (\<lambda>r. \<not> is_ok (resolver (snd r))) refs)
    \<and> map_of (fst (fold (resolve_one resolver) refs (m, n))) =
       (\<lambda>k. case map_of refs k of None \<Rightarrow> map_of m k
          | Some r \<Rightarrow> (case resolver r of Inr v \<Rightarrow> Some v | Inl _ \<Rightarrow> None))"
  using assms
proof (induction refs arbitrary: m n)
  case (Cons kr refs)
  obtain k r where kr: "kr = (k, r)" by (cases kr)
  have n: "map_of refs k = None" using Cons.prems(2) kr by (auto simp: map_of_eq_None_iff)
  show ?case
  proof (cases "resolver r")
    case (Inl e)
    then have "fold (resolve_one resolver) (kr # refs) (m, n) = fold (resolve_one resolver) refs (bt_remove k m, n + 1)"
      by (simp add: kr resolve_one_def)
    then show ?thesis using Cons.IH[of "bt_remove k m" "n + 1"] Cons.prems n Inl
      by (auto simp: kr bt_remove_wf map_of_bt_remove fun_eq_iff split: option.split)
  next
    case (Inr v)
    then have "fold (resolve_one resolver) (kr # refs) (m, n) = fold (resolve_one resolver) refs (bt_insert k v m, n)"
      by (simp add: kr resolve_one_def)
    then show ?thesis using Cons.IH[of "bt_insert k v m" n] Cons.prems n Inr
      by (auto simp: kr bt_insert_wf map_of_bt_insert fun_eq_iff split: option.split)
  qed
qed simp

lemma map_of_filter_value: "distinct (map fst es) \<Longrightarrow>
    map_of (filter (\<lambda>(_, v). P v) es) k = (case map_of es k of Some v \<Rightarrow> if P v then Some v else None | None \<Rightarrow> None)"
  by (induction es) (auto split: option.splits simp: map_of_eq_None_iff image_iff)

lemma resolve_references_map:
  assumes "bt_wf es"
  shows "map_of (fst (resolve_references resolver es)) k = (case map_of es k of
      None \<Rightarrow> None
    | Some v \<Rightarrow> if is_op_reference v then (case resolver v of Inr x \<Rightarrow> Some x | Inl _ \<Rightarrow> None) else Some v)"
    and "snd (resolve_references resolver es) =
      length (filter (\<lambda>(_, v). is_op_reference v \<and> \<not> is_ok (resolver v)) es)"
proof -
  let ?refs = "filter (\<lambda>(_, v). is_op_reference v) es"
  have d: "distinct (map fst es)" using assms by (rule bt_wf_distinct)
  then have "distinct (map fst ?refs)" by (simp add: distinct_map_filter)
  note r = resolve_fold[OF assms this, of resolver 0]
  show "map_of (fst (resolve_references resolver es)) k = (case map_of es k of
      None \<Rightarrow> None
    | Some v \<Rightarrow> if is_op_reference v then (case resolver v of Inr x \<Rightarrow> Some x | Inl _ \<Rightarrow> None) else Some v)"
    using r d by (auto simp: resolve_references_def map_of_filter_value split: option.splits)
  show "snd (resolve_references resolver es) = length (filter (\<lambda>(_, v). is_op_reference v \<and> \<not> is_ok (resolver v)) es)"
    using r by (simp add: resolve_references_def filter_filter case_prod_unfold conj_commute)
qed

lemma parse_lines_wf: "parse_lines dbg i out ls = Inr es \<Longrightarrow> bt_wf out \<Longrightarrow> bt_wf es"
  by (induction ls arbitrary: i out) (auto split: sum.splits option.splits intro: bt_insert_wf)

lemma owner_only: "check_permissions mode = Inr () \<longleftrightarrow> mode AND 0x3F = 0"
proof -
  have "(mode AND 0x1FF) AND 0x3F = mode AND (0x1FF AND 0x3F)" by (rule and.assoc)
  then show ?thesis by (simp add: check_permissions_def Let_def)
qed

text \<open>
  A file written one entry per line, keys of the allowed shape and values quoted, loads to exactly the
  entries: the last one of a key wins, a value comes back whatever characters it holds, except that a
  value of the shape of a reference is replaced by what the program resolves it to, or left out when
  it cannot be resolved.
\<close>

theorem secrets_file_loads_back:
  assumes "list_all (\<lambda>e. is_valid_key (fst e)) es" "es \<noteq> []" "mode AND 0x3F = 0"
  shows "\<exists>store. load_with_resolver dbg path (FileFound mode (Inr (join [10] (map show_entry es)))) resolver = Inr (Some store)
    \<and> (\<forall>k. store_get k store = (case map_of (rev es) k of
        None \<Rightarrow> None
      | Some v \<Rightarrow> if is_op_reference v then (case resolver v of Inr x \<Rightarrow> Some x | Inl _ \<Rightarrow> None) else Some v))"
proof -
  define m where "m = fold (\<lambda>(k, v). bt_insert k v) es ([] :: entries)"
  have w: "bt_wf m" unfolding m_def by (intro fold_insert_wf) simp
  have mm: "map_of m = map_of (rev es)" unfolding m_def by (subst fold_insert_map) simp_all
  have "parse_secrets dbg (join [10] (map show_entry es)) = Inr m"
    using parse_lines_entries[OF assms(1)] entry_lines[OF assms(1,2)] by (simp add: parse_secrets_def m_def)
  moreover have "check_permissions mode = Inr ()" using assms(3) by (simp add: owner_only)
  ultimately have "load_with_resolver dbg path (FileFound mode (Inr (join [10] (map show_entry es)))) resolver
      = Inr (Some \<lparr> ss_entries = fst (resolve_references resolver m), ss_source = Some path,
          ss_unresolved = snd (resolve_references resolver m) \<rparr>)"
    by (simp add: load_with_resolver_def case_prod_unfold)
  then show ?thesis using resolve_references_map(1)[OF w] mm by (simp add: store_get_def)
qed

section \<open>What the daemon serves\<close>

definition secret_events_ok :: "rstr \<Rightarrow> secrets_store option \<Rightarrow> audit_event list \<Rightarrow> bool" where
  "secret_events_ok path store events \<longleftrightarrow> (case store of
     Some s \<Rightarrow> events = [SecretsLoaded path (length (ss_entries s)) (ss_unresolved s)]
   | None \<Rightarrow> events = [] \<or> (\<exists>reason. events = [SecretsRefused path reason]))"

lemma loaded_values:
  assumes "load_secrets dbg path sfile op_read = Inr (Some store)" "store_get k store = Some v"
  shows "\<exists>mode raw es. sfile = FileFound mode (Inr raw) \<and> mode AND 0x3F = 0 \<and> parse_secrets dbg raw = Inr es
    \<and> (map_of es k = Some v \<and> \<not> is_op_reference v
      \<or> (\<exists>r err. map_of es k = Some r \<and> is_op_reference r \<and> op_read r = OpExited (Some 0) (Inr v) err))"
proof -
  obtain mode raw es where f: "sfile = FileFound mode (Inr raw)" "check_permissions mode = Inr ()"
      "parse_secrets dbg raw = Inr es" "store = \<lparr> ss_entries = fst (resolve_references (default_reference_resolver op_read) es),
        ss_source = Some path, ss_unresolved = snd (resolve_references (default_reference_resolver op_read) es) \<rparr>"
    using assms(1) by (auto simp: load_secrets_def load_with_resolver_def split: secrets_file.splits sum.splits prod.splits)
  have w: "bt_wf es" using f(3) parse_lines_wf[of dbg 0 "[]"] by (simp add: parse_secrets_def)
  have mode: "mode AND 0x3F = 0" using f(2) by (simp add: owner_only)
  have "\<exists>err. op_read r = OpExited (Some 0) (Inr v) err" if "default_reference_resolver op_read r = Inr v" for r
    using that by (auto simp: default_reference_resolver_def split: if_splits op_child.splits sum.splits)
  then show ?thesis using assms(2) f mode resolve_references_map(1)[OF w, of "default_reference_resolver op_read" k]
    by (auto simp: store_get_def split: option.splits if_splits sum.splits)
qed

text \<open>C40. After a start-up or a reload the store is the one of the file as it is now, or there is none: a file
  others may read, that cannot be read, that does not parse or that is gone never leaves the previous
  values in use.  Every value served is the file's own or what a reference of the file resolved to, so
  the text of a reference is served only when the program itself answered with one; and whenever a
  file was refused the audit log says so, with one critical entry.
\<close>

theorem served_secrets_are_current:
  assumes "load_secrets_at_startup dbg path sfile op_read g = (g', events)"
  shows "secret_events_ok path g' events
    \<and> (g' = None \<longrightarrow> events = [] \<longrightarrow> sfile = FileMissing)
    \<and> (g' = None \<longrightarrow> secret_lookup env g' = env)
    \<and> (\<forall>k v. Option.bind g' (store_get k) = Some v \<longrightarrow> (\<exists>mode raw es. sfile = FileFound mode (Inr raw)
        \<and> mode AND 0x3F = 0 \<and> parse_secrets dbg raw = Inr es
        \<and> (map_of es k = Some v \<and> \<not> is_op_reference v
          \<or> (\<exists>r err. map_of es k = Some r \<and> is_op_reference r \<and> op_read r = OpExited (Some 0) (Inr v) err))))"
proof -
  have l: "secret_lookup env None = env" by (simp add: secret_lookup_def fun_eq_iff)
  show ?thesis
  proof (cases "load_secrets dbg path sfile op_read")
    case (Inl e)
    then have "g' = None" "\<exists>r. events = [SecretsRefused path r]"
      using assms by (auto simp: load_secrets_at_startup_def reset_if_present_def split: if_splits)
    then show ?thesis using l by (auto simp: secret_events_ok_def)
  next
    case (Inr os)
    show ?thesis
    proof (cases os)
      case None
      then have "g' = None" "events = [] \<or> (\<exists>r. events = [SecretsRefused path r])"
        using assms Inr by (auto simp: load_secrets_at_startup_def reset_if_present_def split: if_splits)
      moreover have "sfile = FileMissing"
        using Inr None by (auto simp: load_secrets_def load_with_resolver_def split: secrets_file.splits sum.splits prod.splits)
      ultimately show ?thesis using l by (auto simp: secret_events_ok_def)
    next
      case (Some store)
      then have "g' = Some store" "events = [SecretsLoaded path (length (ss_entries store)) (ss_unresolved store)]"
        using assms Inr by (auto simp: load_secrets_at_startup_def install_store_def)
      then show ?thesis using loaded_values[OF Inr[unfolded Some]] by (auto simp: secret_events_ok_def)
    qed
  qed
qed

text \<open>The reason of a refusal is written to the audit log.  A line of a value that was broken over two
  lines is shown there as an invalid key.\<close>

lemma refusal_shows_the_line:
  "secret_line dbg (lit ''c2VjcmV0+a2V5=='') = Inl (lit ''invalid key '' @ dbg (lit ''c2VjcmV0+a2V5'')
     @ lit '' (must match [A-Za-z_][A-Za-z0-9_]*)'')"
  by (simp add: secret_line_def Let_def lit_def trim_def trim_start_def trim_end_def is_ws_def is_valid_key_def
      is_lower_c_def is_upper_c_def is_alnum_c_def is_digit_c_def)

section \<open>Witnesses\<close>

lemma secrets_file_loads_back_witness:
  "\<exists>store. load_with_resolver (\<lambda>s. s) [] (FileFound 0x180 (Inr (join [10] (map show_entry [(lit ''TOKEN'', [34, 10, 92])])))) Inl = Inr (Some store)
     \<and> store_get (lit ''TOKEN'') store = Some [34, 10, 92]"
proof -
  have "list_all (\<lambda>e. is_valid_key (fst e)) [(lit ''TOKEN'', [34, 10, 92 :: nat])]"
    by (simp add: is_valid_key_def lit_def is_upper_c_def is_alnum_c_def)
  moreover have "(0x180 :: 32 word) AND 0x3F = 0" by simp
  ultimately show ?thesis
    using secrets_file_loads_back[of "[(lit ''TOKEN'', [34, 10, 92])]" "0x180" "\<lambda>s. s" "[]" Inl]
    by (auto simp: is_op_reference_def lit_def)
qed

lemma served_secrets_are_current_witness:
  "secret_events_ok [] None [SecretsRefused [] (lit ''file no longer exists; previous store dropped'')]"
proof -
  let ?g = "Some \<lparr> ss_entries = [], ss_source = None, ss_unresolved = 0 \<rparr>"
  have "load_secrets_at_startup (\<lambda>s. s) [] FileMissing (\<lambda>_. OpNotFound) ?g
      = (None, [SecretsRefused [] (lit ''file no longer exists; previous store dropped'')])"
    by (simp add: load_secrets_at_startup_def load_secrets_def load_with_resolver_def reset_if_present_def)
  from served_secrets_are_current[OF this] show ?thesis by blast
qed

end
