(* ===== verification/Outl_Translate.thy ===== *)
theory Outl_Translate
  imports Memory_Record
begin

text \<open>
  The rewriting of Roam text into Outl text (\<open>src/plugins/sink-outl/src/translate.rs\<close>): task markers,
  embeds, ordinal dates, code fences that are left alone, and the compiler from Roam queries to the
  line-oriented filters of outl.  A cursor is the text that is left.  The regular expressions are
  written out as matchers at a position; chrono's calendar and the Unicode tables for characters
  outside ASCII are parameters.
\<close>

section \<open>Plain text\<close>

record calendar =
  cal_ymd :: "int \<Rightarrow> nat \<Rightarrow> nat \<Rightarrow> bool"
  cal_iso :: "rstr \<Rightarrow> bool"
  cal_digit :: "nat \<Rightarrow> bool"
  cal_alnum :: "nat \<Rightarrow> bool"

text \<open>\<open>Regex::replace_all\<close>: at the leftmost position where the matcher finds something (a replacement
  and how many characters it covers), go on behind the match.\<close>

fun rx_replace :: "(rstr \<Rightarrow> (rstr \<times> nat) option) \<Rightarrow> nat \<Rightarrow> rstr \<Rightarrow> rstr" where
  "rx_replace match skip [] = []"
| "rx_replace match (Suc skip) (c # cs) = rx_replace match skip cs"
| "rx_replace match 0 (c # cs) = (case match (c # cs) of
     Some (out, n) \<Rightarrow> out @ rx_replace match (n - 1) cs
   | None \<Rightarrow> c # rx_replace match 0 cs)"

definition rewrite_todo :: "rstr \<Rightarrow> rstr" where
  "rewrite_todo s = replace_str (lit ''{{[[TODO]]}}'') (lit ''TODO'') s"

definition rewrite_done :: "rstr \<Rightarrow> rstr" where
  "rewrite_done s = replace_str (lit ''{{[[DONE]]}}'') (lit ''DONE'') s"

definition embed_match :: "rstr \<Rightarrow> (rstr \<times> nat) option" where
  "embed_match s = (case strip_prefix (lit ''{{[[embed]]:'') s of
     None \<Rightarrow> None
   | Some r \<Rightarrow> (case strip_prefix (lit ''(('') (trim_start r) of
       None \<Rightarrow> None
     | Some r \<Rightarrow> (case strip_prefix (lit ''))}}'') (dropWhile (\<lambda>c. c \<noteq> 41) r) of
         None \<Rightarrow> None
       | Some r \<Rightarrow> Some ([], length s - length (trim_start r)))))"

definition drop_embed :: "rstr \<Rightarrow> rstr" where
  "drop_embed s = rx_replace embed_match 0 s"

definition months :: "rstr list" where
  "months = map lit [''January'', ''February'', ''March'', ''April'', ''May'', ''June'', ''July'',
     ''August'', ''September'', ''October'', ''November'', ''December'']"

definition month_to_num :: "rstr \<Rightarrow> nat option" where
  "month_to_num s = map_of (zip months [1, 2, 3, 4, 5, 6, 7, 8, 9, 10, 11, 12]) s"

definition rx_digit :: "calendar \<Rightarrow> nat \<Rightarrow> bool" where
  "rx_digit cal c \<longleftrightarrow> is_digit_c c \<or> 128 \<le> c \<and> cal_digit cal c"

text \<open>\<open>\s+\<close>\<close>

definition rx_blank :: "rstr \<Rightarrow> rstr option" where
  "rx_blank s = (case s of c # cs \<Rightarrow> if is_ws c then Some (trim_start cs) else None | [] \<Rightarrow> None)"

text \<open>\<open>(month)\s+(\d{1,2})(?:st|nd|rd|th),\s+(\d{4})\<close>: month, day, year and what follows.\<close>

definition ordinal_date :: "calendar \<Rightarrow> rstr \<Rightarrow> (rstr \<times> rstr \<times> rstr \<times> rstr) option" where
  "ordinal_date cal s = (case find (\<lambda>m. starts_with m s) months of
     None \<Rightarrow> None
   | Some month \<Rightarrow> (case rx_blank (drop (length month) s) of
       None \<Rightarrow> None
     | Some s \<Rightarrow> let day = takeWhile (rx_digit cal) (take 2 s); s = drop (length day) s in
         if day = [] \<or> \<not> list_ex (\<lambda>suffix. starts_with (lit suffix) s) [''st'', ''nd'', ''rd'', ''th''] then None
         else case drop 2 s of
           [] \<Rightarrow> None
         | c # s \<Rightarrow> if c \<noteq> 44 then None
             else case rx_blank s of
               None \<Rightarrow> None
             | Some s \<Rightarrow> let year = takeWhile (rx_digit cal) (take 4 s) in
                 if length year = 4 then Some (month, day, year, drop 4 s) else None))"

definition pad_zeros :: "nat \<Rightarrow> nat \<Rightarrow> rstr" where
  "pad_zeros w n = replicate (w - length (show_nat n)) 48 @ show_nat n"

definition or_zero :: "nat option \<Rightarrow> nat" where
  "or_zero v = (case v of Some n \<Rightarrow> n | None \<Rightarrow> 0)"

definition ordinal_match :: "calendar \<Rightarrow> rstr \<Rightarrow> (rstr \<times> nat) option" where
  "ordinal_match cal s = (case strip_prefix (lit ''[['') s of
     None \<Rightarrow> None
   | Some r \<Rightarrow> (case ordinal_date cal r of
       None \<Rightarrow> None
     | Some (month_name, day, year, r) \<Rightarrow> (case strip_prefix (lit '']]'') r of
         None \<Rightarrow> None
       | Some r \<Rightarrow> let n = length s - length r; y = or_zero (parse_u32 year); d = or_zero (parse_u32 day) in
           Some ((case month_to_num month_name of
              Some m \<Rightarrow> if cal_ymd cal (int y) m d
                then lit ''[['' @ pad_zeros 4 y @ [45] @ pad_zeros 2 m @ [45] @ pad_zeros 2 d @ lit '']]''
                else take n s
            | None \<Rightarrow> take n s), n))))"

definition rewrite_ordinal_daily :: "calendar \<Rightarrow> rstr \<Rightarrow> rstr" where
  "rewrite_ordinal_daily cal s = rx_replace (ordinal_match cal) 0 s"

definition rewrite_plain :: "calendar \<Rightarrow> rstr \<Rightarrow> rstr" where
  "rewrite_plain cal s = rewrite_ordinal_daily cal (drop_embed (rewrite_done (rewrite_todo s)))"

section \<open>Fences and query components\<close>

definition fence_mark :: rstr where "fence_mark = lit ''```''"

text \<open>From the line behind the opening one: how many characters the fence still holds.\<close>

function fence_rest :: "rstr \<Rightarrow> nat" where
  "fence_rest j = (if j = [] then 0
     else let line = takeWhile (\<lambda>c. c \<noteq> 10) j; more = drop (length line) j in
       if starts_with fence_mark line then (if more \<noteq> [] then length line + 1 else length line)
       else if more \<noteq> [] then length line + 1 + fence_rest (tl more)
       else length line)"
  by auto
termination by (relation "measure length") auto

declare fence_rest.simps [simp del]

definition fence_end :: "rstr \<Rightarrow> nat option" where
  "fence_end s = (if \<not> starts_with fence_mark s then None
     else let line = takeWhile (\<lambda>c. c \<noteq> 10) s in
       if length line = length s then Some (length s)
       else Some (length line + 1 + fence_rest (drop (length line + 1) s)))"

definition query_rest :: "rstr \<Rightarrow> rstr option" where
  "query_rest s0 = (let s = trim_start s0 in
     Option.bind (case strip_prefix (lit ''[['') s of
         Some r \<Rightarrow> Option.bind (strip_prefix (lit ''query'') (trim_start r)) (\<lambda>r. strip_prefix (lit '']]'') (trim_start r))
       | None \<Rightarrow> strip_prefix (lit ''query'') s)
       (\<lambda>r. strip_prefix [58] (trim_start r)))"

definition is_query_header :: "rstr \<Rightarrow> bool" where
  "is_query_header s \<longleftrightarrow> Option.bind (strip_prefix (lit ''{{'') s) query_rest \<noteq> None"

fun close_brace :: "int \<Rightarrow> rstr \<Rightarrow> nat option" where
  "close_brace depth [] = None"
| "close_brace depth (c # cs) =
     (if c = 123 then map_option Suc (close_brace (depth + 1) cs)
      else if c = 125 then (if depth - 1 = 0 then Some 1 else map_option Suc (close_brace (depth - 1) cs))
      else map_option Suc (close_brace depth cs))"

definition query_end :: "rstr \<Rightarrow> nat option" where
  "query_end s = (if \<not> is_query_header s then None else close_brace 0 s)"

section \<open>Queries\<close>

text \<open>A refusal carries the reason; \<open>OutOfFuel\<close> is of the model and is shown never to be reached.\<close>

datatype query_error = Refused rstr | OutOfFuel

datatype atom = Todo | Done | Tag rstr | Text rstr

datatype filt = Filt (f_neg: bool) (f_kind: atom)

fun render_filt :: "filt \<Rightarrow> rstr" where
  "render_filt (Filt neg Todo) = (if neg then lit ''not-status: todo'' else lit ''status: todo'')"
| "render_filt (Filt neg Done) = (if neg then lit ''not-status: done'' else lit ''status: done'')"
| "render_filt (Filt neg (Tag name)) = (if neg then lit ''not-tag: '' else lit ''tag: '') @ name"
| "render_filt (Filt neg (Text v)) = (if neg then lit ''not-text: '' else lit ''text: '') @ v"

definition query_body :: "rstr \<Rightarrow> query_error + rstr" where
  "query_body raw = (case strip_prefix (lit ''{{'') raw of
     None \<Rightarrow> Inl (Refused (lit ''not a query component''))
   | Some r \<Rightarrow> (case strip_suffix (lit ''}}'') r of
       None \<Rightarrow> Inl (Refused (lit ''not a query component''))
     | Some inner \<Rightarrow> (case query_rest inner of
         None \<Rightarrow> Inl (Refused (lit ''not a query component''))
       | Some body \<Rightarrow> Inr body)))"

fun title_end :: "rstr \<Rightarrow> rstr option" where
  "title_end [] = None"
| "title_end [c] = (if c = 34 then Some [] else None)"
| "title_end (c # d # cs) = (if c = 92 then title_end cs else if c = 34 then Some (d # cs) else title_end (d # cs))"

definition skip_title :: "rstr \<Rightarrow> query_error + rstr" where
  "skip_title c = (case strip_prefix [34] (trim_start c) of
     None \<Rightarrow> Inr (trim_start c)
   | Some r \<Rightarrow> (case title_end r of
       Some r \<Rightarrow> Inr r
     | None \<Rightarrow> Inl (Refused (lit ''unterminated query title''))))"

fun page_scan :: "int \<Rightarrow> rstr \<Rightarrow> (rstr \<times> rstr) option" where
  "page_scan depth [] = None"
| "page_scan depth [c] = None"
| "page_scan depth (c # d # cs) =
     (if c = 91 \<and> d = 91 then map_option (\<lambda>(name, r). (c # d # name, r)) (page_scan (depth + 1) cs)
      else if c = 93 \<and> d = 93 then
        (if depth - 1 = 0 then Some ([], cs)
         else map_option (\<lambda>(name, r). (c # d # name, r)) (page_scan (depth - 1) cs))
      else map_option (\<lambda>(name, r). (c # name, r)) (page_scan depth (d # cs)))"

definition parse_page :: "rstr \<Rightarrow> query_error + rstr \<times> rstr" where
  "parse_page c = (case strip_prefix (lit ''[['') c of
     None \<Rightarrow> Inl (Refused (lit ''expected [[page]]''))
   | Some r \<Rightarrow> (case page_scan 1 r of
       Some (name, r) \<Rightarrow> Inr (name, r)
     | None \<Rightarrow> Inl (Refused (lit ''unclosed [[page]]''))))"

definition ordinal_daily :: "calendar \<Rightarrow> rstr \<Rightarrow> bool" where
  "ordinal_daily cal name = (case ordinal_date cal name of
     Some (month_name, day, year, r) \<Rightarrow> r = [] \<and> (case (month_to_num month_name, parse_u32 day, parse_u32 year) of
        (Some m, Some d, Some y) \<Rightarrow> cal_ymd cal (int y) m d | _ \<Rightarrow> False)
   | None \<Rightarrow> False)"

definition relative_pages :: "rstr list" where
  "relative_pages = map lit [''today'', ''yesterday'', ''tomorrow'', ''last week'', ''next week'', ''last month'', ''next month'']"

definition is_daily_note_page :: "calendar \<Rightarrow> rstr \<Rightarrow> bool" where
  "is_daily_note_page cal name \<longleftrightarrow> name \<in> set relative_pages \<or> cal_iso cal name \<or> ordinal_daily cal name"

definition page_atom :: "calendar \<Rightarrow> rstr \<Rightarrow> query_error + atom" where
  "page_atom cal name0 = (let name = trim name0 in
     if name = [] then Inl (Refused (lit ''empty [[page]]''))
     else if name = lit ''TODO'' then Inr Todo
     else if name = lit ''DONE'' then Inr Done
     else if is_daily_note_page cal name then
       Inl (Refused (lit ''[['' @ name @ lit '']] is a daily-note page and outl has no calendar filter (since: is relative, page: is not a directive)''))
     else Inr (Text (lit ''[['' @ name @ lit '']]'')))"

definition tag_char :: "calendar \<Rightarrow> nat \<Rightarrow> bool" where
  "tag_char cal c \<longleftrightarrow> is_alnum_c c \<or> 128 \<le> c \<and> cal_alnum cal c \<or> c = 45 \<or> c = 95 \<or> c = 47"

definition page_clause :: "calendar \<Rightarrow> rstr \<Rightarrow> query_error + atom \<times> rstr" where
  "page_clause cal c = (case parse_page c of
     Inl e \<Rightarrow> Inl e
   | Inr (name, r) \<Rightarrow> (case page_atom cal name of Inl e \<Rightarrow> Inl e | Inr a \<Rightarrow> Inr (a, r)))"

definition parse_tag :: "calendar \<Rightarrow> rstr \<Rightarrow> query_error + atom \<times> rstr" where
  "parse_tag cal c = (case strip_prefix [35] c of
     None \<Rightarrow> Inl (Refused (lit ''expected #tag''))
   | Some r \<Rightarrow> if starts_with (lit ''[['') r then page_clause cal r
       else let name = takeWhile (tag_char cal) r in
         if name = [] then Inl (Refused (lit ''#tag has no name''))
         else Inr (Tag name, drop (length name) r))"

definition task_markers :: "(rstr \<times> atom) list" where
  "task_markers = [(lit ''{{[[TODO]]}}'', Todo), (lit ''{{[[DONE]]}}'', Done), (lit ''{{TODO}}'', Todo), (lit ''{{DONE}}'', Done)]"

definition try_task_marker :: "rstr \<Rightarrow> (atom \<times> rstr) option" where
  "try_task_marker c = map_option (\<lambda>(mark, kind). (kind, drop (length mark) c))
     (find (\<lambda>(mark, kind). starts_with mark c) task_markers)"

definition single :: "query_error + atom \<times> rstr \<Rightarrow> query_error + filt list \<times> rstr" where
  "single r = (case r of Inl e \<Rightarrow> Inl e | Inr (a, c) \<Rightarrow> Inr ([Filt False a], c))"

definition brace_char :: "nat \<Rightarrow> bool" where "brace_char c \<longleftrightarrow> is_alnum_c c \<or> c = 45"

definition parse_search :: "rstr \<Rightarrow> query_error + filt list \<times> rstr" where
  "parse_search c = (let raw = takeWhile (\<lambda>x. x \<noteq> 125) c; body = trim raw in
     if length raw = length c then Inl (Refused (lit ''unclosed {search:}''))
     else if body = [] then Inl (Refused (lit ''{search:} is empty''))
     else if 10 \<in> set body then Inl (Refused (lit ''{search:} spans more than one line''))
     else Inr ([Filt False (Text body)], drop (length raw + 1) c))"

definition close_not :: "filt list \<Rightarrow> rstr \<Rightarrow> query_error + filt list \<times> rstr" where
  "close_not inner c = (case strip_prefix [125] (trim_start c) of
     None \<Rightarrow> Inl (Refused (lit ''{not:} takes exactly one condition''))
   | Some r \<Rightarrow> (case inner of
       [Filt neg kind] \<Rightarrow> Inr ([Filt (\<not> neg) kind], r)
     | _ \<Rightarrow> Inl (Refused (lit ''{not:} of a compound condition has no outl equivalent (no boolean grouping)''))))"

text \<open>\<open>parse_clause\<close>, \<open>parse_brace\<close> and the loop of \<open>{and:}\<close>.\<close>

fun parse_clause :: "calendar \<Rightarrow> nat \<Rightarrow> rstr \<Rightarrow> query_error + filt list \<times> rstr"
and parse_brace :: "calendar \<Rightarrow> nat \<Rightarrow> rstr \<Rightarrow> query_error + filt list \<times> rstr"
and parse_and :: "calendar \<Rightarrow> nat \<Rightarrow> filt list \<Rightarrow> rstr \<Rightarrow> query_error + filt list \<times> rstr" where
  "parse_clause cal 0 c0 = Inl OutOfFuel"
| "parse_clause cal (Suc k) c0 = (let c = trim_start c0 in
     case try_task_marker c of
       Some (a, r) \<Rightarrow> Inr ([Filt False a], r)
     | None \<Rightarrow>
         if starts_with (lit ''[['') c then single (page_clause cal c)
         else if starts_with [35] c then single (parse_tag cal c)
         else if starts_with (lit ''(('') c then
           Inl (Refused (lit ''((block ref)) has no outl equivalent; Roam UIDs do not map to block handles''))
         else if starts_with [123] c then parse_brace cal k c
         else Inl (Refused (lit ''unsupported query syntax at '' @ [39] @ take 24 c @ [39])))"
| "parse_brace cal 0 c = Inl OutOfFuel"
| "parse_brace cal (Suc k) c = (case strip_prefix [123] c of
     None \<Rightarrow> Inl (Refused (lit ''expected a clause''))
   | Some r \<Rightarrow> let r = trim_start r; name = takeWhile brace_char r in
       if name = [] then Inl (Refused (lit ''unsupported query syntax at '' @ [39, 123, 39]))
       else case strip_prefix [58] (trim_start (drop (length name) r)) of
         None \<Rightarrow> Inl (Refused (lit ''{'' @ name @ lit ''} is missing its colon''))
       | Some look \<Rightarrow>
           if name = lit ''and'' then parse_and cal k [] look
           else if name = lit ''or'' then Inl (Refused (lit ''{or:} is not expressible; the DSL ANDs every line and has no OR''))
           else if name = lit ''between'' then
             Inl (Refused (lit ''{between:} matches a calendar range; since: only takes a relative duration (Nd, Nw, Nm)''))
           else if name = lit ''not'' then
             (if starts_with [125] (trim_start look) then Inl (Refused (lit ''{not:} takes exactly one condition''))
              else case parse_clause cal k look of
                Inl e \<Rightarrow> Inl e
              | Inr (inner, r) \<Rightarrow> close_not inner r)
           else if name = lit ''search'' then parse_search look
           else if name = lit ''daily-notes'' then
             Inl (Refused (lit ''{daily-notes:} has no outl equivalent (kind: journal is only the hosting page)''))
           else Inl (Refused (lit ''{'' @ name @ lit '':} has no outl equivalent'')))"
| "parse_and cal 0 out c0 = Inl OutOfFuel"
| "parse_and cal (Suc k) out c0 = (let c = trim_start c0 in
     case strip_prefix [125] c of
       Some r \<Rightarrow> if out = [] then Inl (Refused (lit ''empty {and:} would match every block'')) else Inr (out, r)
     | None \<Rightarrow>
         if c = [] then Inl (Refused (lit ''unclosed {and:}''))
         else case parse_clause cal k c of
           Inl e \<Rightarrow> Inl e
         | Inr (fs, r) \<Rightarrow> parse_and cal k (out @ fs) r)"

fun parse_all :: "calendar \<Rightarrow> nat \<Rightarrow> filt list \<Rightarrow> rstr \<Rightarrow> query_error + filt list" where
  "parse_all cal 0 out c0 = Inl OutOfFuel"
| "parse_all cal (Suc k) out c0 = (let c = trim_start c0 in
     if c = [] then Inr out
     else case parse_clause cal k c of
       Inl e \<Rightarrow> Inl e
     | Inr (fs, r) \<Rightarrow> parse_all cal k (out @ fs) r)"

definition query_fuel :: "rstr \<Rightarrow> nat" where
  "query_fuel raw = 3 * length raw + 4"

definition translate_query :: "calendar \<Rightarrow> rstr \<Rightarrow> query_error + rstr" where
  "translate_query cal raw = (case query_body raw of
     Inl e \<Rightarrow> Inl e
   | Inr body \<Rightarrow> (case skip_title body of
       Inl e \<Rightarrow> Inl e
     | Inr c \<Rightarrow> (case parse_all cal (query_fuel raw) [] c of
         Inl e \<Rightarrow> Inl e
       | Inr filts \<Rightarrow> if filts = [] then Inl (Refused (lit ''query has no conditions''))
           else Inr (join [10] (map render_filt filts)))))"

section \<open>The whole text\<close>

fun prose_len :: "rstr \<Rightarrow> nat" where
  "prose_len [] = 0"
| "prose_len (c # cs) = (if fence_end (c # cs) = None \<and> query_end (c # cs) = None then Suc (prose_len cs) else 0)"

definition kept_query :: "rstr \<Rightarrow> query_error \<Rightarrow> rstr list" where
  "kept_query raw e = (case e of
     Refused reason \<Rightarrow> [lit ''Roam query has no outl equivalent ('' @ reason @ lit ''); kept the original in a code block'']
   | OutOfFuel \<Rightarrow> [])"

lemma fence_end_pos: "fence_end s = Some n \<Longrightarrow> 0 < n"
  by (cases s) (auto simp: fence_end_def fence_mark_def lit_def Let_def split: if_splits)

lemma close_brace_pos: "close_brace d s = Some n \<Longrightarrow> 0 < n"
  by (cases s) (auto split: if_splits)

lemma query_end_pos: "query_end s = Some n \<Longrightarrow> 0 < n"
  by (auto simp: query_end_def close_brace_pos split: if_splits)

function roam_to_outl_parts :: "calendar \<Rightarrow> rstr \<Rightarrow> rstr \<times> rstr list" where
  "roam_to_outl_parts cal s = (if s = [] then ([], [])
     else case fence_end s of
       Some n \<Rightarrow> let (out, warnings) = roam_to_outl_parts cal (drop n s) in (take n s @ out, warnings)
     | None \<Rightarrow> (case query_end s of
         Some n \<Rightarrow> let raw = take n s; (out, warnings) = roam_to_outl_parts cal (drop n s) in
           (case translate_query cal raw of
              Inr body \<Rightarrow> (lit ''```query'' @ [10] @ body @ [10] @ fence_mark @ out, warnings)
            | Inl e \<Rightarrow> (fence_mark @ [10] @ raw @ [10] @ fence_mark @ out, kept_query raw e @ warnings))
       | None \<Rightarrow> let n = Suc (prose_len (tl s)); (out, warnings) = roam_to_outl_parts cal (drop n s) in
           (rewrite_plain cal (take n s) @ out, warnings)))"
  by auto
termination
  by (relation "measure (\<lambda>(cal, s). length s)") (auto dest: fence_end_pos query_end_pos)

declare roam_to_outl_parts.simps [simp del]

definition roam_to_outl :: "calendar \<Rightarrow> rstr \<Rightarrow> rstr" where
  "roam_to_outl cal input = fst (roam_to_outl_parts cal input)"

end
