(* ===== verification/Outl_Meaning.thy ===== *)
theory Outl_Meaning
  imports Outl_Translate
begin

text \<open>
  What the query compiler of \<open>sink-outl\<close> promises: it always answers, and for every well-formed Roam
  query it answers either with filters that select exactly the blocks the query selects or with a
  refusal, and it refuses only what outl has no words for.
\<close>

section \<open>The parser answers\<close>

lemma length_trim_start: "length (trim_start s) \<le> length s"
  by (simp add: trim_start_def length_dropWhile_le)

lemma strip_prefix_length: "strip_prefix p s = Some r \<Longrightarrow> length s = length p + length r"
  by (auto simp: strip_prefix_Some)

lemma page_scan_shorter: "page_scan d s = Some (n, r) \<Longrightarrow> length r < length s"
  by (induction d s arbitrary: n r rule: page_scan.induct) (fastforce split: if_splits)+

lemma parse_page_shorter: "parse_page c = Inr (n, r) \<Longrightarrow> length r < length c"
  by (auto simp: parse_page_def dest!: page_scan_shorter strip_prefix_length split: option.splits)

lemma page_clause_shorter: "page_clause cal c = Inr (a, r) \<Longrightarrow> length r < length c"
  by (auto simp: page_clause_def dest: parse_page_shorter split: sum.splits)

lemma parse_tag_shorter: "parse_tag cal c = Inr (a, r) \<Longrightarrow> length r < length c"
  by (auto simp: parse_tag_def Let_def dest!: strip_prefix_length page_clause_shorter split: option.splits if_splits)

lemma single_Inr: "single x = Inr (fs, r) \<longleftrightarrow> (\<exists>a. x = Inr (a, r) \<and> fs = [Filt False a])"
  by (cases x) (auto simp: single_def)

lemma try_task_marker_shorter: "try_task_marker c = Some (a, r) \<Longrightarrow> length r < length c"
  by (auto simp: try_task_marker_def task_markers_def lit_def prefix_def split: if_splits)

lemma parse_search_shorter: "parse_search c = Inr (fs, r) \<Longrightarrow> length r < length c"
proof -
  assume a: "parse_search c = Inr (fs, r)"
  have "length (takeWhile (\<lambda>x. x \<noteq> 125) c) \<le> length c" by (rule length_takeWhile_le)
  then show ?thesis using a by (auto simp: parse_search_def Let_def split: if_splits)
qed

lemma close_not_shorter: "close_not fs c = Inr (gs, r) \<Longrightarrow> length r < length c"
  using length_trim_start[of c]
  by (auto simp: close_not_def dest!: strip_prefix_length split: option.splits list.splits filt.splits)

text \<open>What the opening of a brace clause leaves: its name and the text behind the colon.\<close>

lemma brace_look_shorter:
  assumes "strip_prefix [123] c = Some r"
    and "strip_prefix [58] (trim_start (drop n (trim_start r))) = Some look"
  shows "Suc (Suc (length look)) \<le> length c"
  using strip_prefix_length[OF assms(1)] strip_prefix_length[OF assms(2)]
    length_trim_start[of r] length_trim_start[of "drop n (trim_start r)"] by simp

lemma parse_brace_Inr:
  "parse_brace cal (Suc k) c = Inr x \<Longrightarrow> \<exists>look. Suc (Suc (length look)) \<le> length c
    \<and> (parse_and cal k [] look = Inr x \<or> parse_search look = Inr x
      \<or> (\<exists>inner r. parse_clause cal k look = Inr (inner, r) \<and> close_not inner r = Inr x))"
  by (auto simp: Let_def split: option.splits if_splits sum.splits) (metis brace_look_shorter)+

lemma parse_shorter_all:
  "(parse_clause cal k c = Inr (fs, r) \<longrightarrow> length r < length c)
    \<and> (parse_brace cal k c = Inr (fs, r) \<longrightarrow> length r < length c)
    \<and> (parse_and cal k out c = Inr (fs, r) \<longrightarrow> length r < length c)"
proof (induction k arbitrary: c fs r out)
  case (Suc k)
  have l: "length (trim_start c) \<le> length c" by (rule length_trim_start)
  have "length r < length (trim_start c)" if "parse_clause cal (Suc k) c = Inr (fs, r)"
    using that Suc by (auto simp: Let_def single_Inr
        dest: try_task_marker_shorter page_clause_shorter parse_tag_shorter split: option.splits if_splits)
  moreover have "length r < length c" if b: "parse_brace cal (Suc k) c = Inr (fs, r)"
  proof -
    obtain look where k: "Suc (Suc (length look)) \<le> length c" and "parse_and cal k [] look = Inr (fs, r)
        \<or> parse_search look = Inr (fs, r)
        \<or> (\<exists>inner r'. parse_clause cal k look = Inr (inner, r') \<and> close_not inner r' = Inr (fs, r))"
      using parse_brace_Inr[OF b] by blast
    then have "length r < length look" using Suc parse_search_shorter close_not_shorter by (meson order.strict_trans)
    then show ?thesis using k by simp
  qed
  moreover have "length r < length (trim_start c)" if a: "parse_and cal (Suc k) out c = Inr (fs, r)"
  proof (cases "strip_prefix [125] (trim_start c)")
    case None
    then obtain gs r' where "parse_clause cal k (trim_start c) = Inr (gs, r')" "parse_and cal k (out @ gs) r' = Inr (fs, r)"
      using a by (auto simp: Let_def split: if_splits sum.splits)
    then show ?thesis using Suc by (meson order.strict_trans)
  next
    case (Some r')
    then show ?thesis using a by (auto simp: Let_def dest: strip_prefix_length split: if_splits)
  qed
  ultimately show ?case using l by force
qed simp

lemma parse_shorter:
  "parse_clause cal k c = Inr (fs, r) \<Longrightarrow> length r < length c"
  using parse_shorter_all by blast

lemma not_out_of_fuel:
  "close_not fs c \<noteq> Inl OutOfFuel" "parse_search c \<noteq> Inl OutOfFuel" "page_clause cal c \<noteq> Inl OutOfFuel"
  "parse_tag cal c \<noteq> Inl OutOfFuel"
  by (auto simp: close_not_def parse_search_def page_clause_def parse_page_def page_atom_def parse_tag_def Let_def
      split: option.splits list.splits filt.splits sum.splits)

lemma single_fuel: "x \<noteq> Inl OutOfFuel \<Longrightarrow> single x \<noteq> Inl OutOfFuel"
  by (cases x) (auto simp: single_def)

lemma parse_brace_fuel:
  "parse_brace cal (Suc k) c = Inl OutOfFuel \<Longrightarrow> \<exists>look. Suc (Suc (length look)) \<le> length c
    \<and> (parse_and cal k [] look = Inl OutOfFuel \<or> parse_clause cal k look = Inl OutOfFuel)"
  using not_out_of_fuel
  by (auto simp: Let_def split: option.splits if_splits sum.splits) (metis brace_look_shorter)+

lemma fuel_enough_all:
  "(3 * length c + 2 \<le> k \<longrightarrow> parse_clause cal k c \<noteq> Inl OutOfFuel)
    \<and> (3 * length c + 1 \<le> k \<longrightarrow> parse_brace cal k c \<noteq> Inl OutOfFuel)
    \<and> (3 * length c + 3 \<le> k \<longrightarrow> parse_and cal k out c \<noteq> Inl OutOfFuel)"
proof (induction k arbitrary: c out)
  case (Suc k)
  have l: "length (trim_start c) \<le> length c" by (rule length_trim_start)
  have "parse_clause cal (Suc k) c \<noteq> Inl OutOfFuel" if "3 * length c + 2 \<le> Suc k"
  proof -
    have "parse_brace cal k (trim_start c) \<noteq> Inl OutOfFuel" using Suc that l by simp
    then show ?thesis using not_out_of_fuel single_fuel by (auto simp: Let_def split: option.splits)
  qed
  moreover have "parse_brace cal (Suc k) c \<noteq> Inl OutOfFuel" if b: "3 * length c + 1 \<le> Suc k"
  proof
    assume "parse_brace cal (Suc k) c = Inl OutOfFuel"
    then obtain look where "Suc (Suc (length look)) \<le> length c"
        "parse_and cal k [] look = Inl OutOfFuel \<or> parse_clause cal k look = Inl OutOfFuel"
      using parse_brace_fuel by blast
    then show False using Suc[of look "[]"] b by auto
  qed
  moreover have "parse_and cal (Suc k) out c \<noteq> Inl OutOfFuel" if a: "3 * length c + 3 \<le> Suc k"
  proof (cases "parse_clause cal k (trim_start c)")
    case (Inl e)
    then have "e \<noteq> OutOfFuel" using Suc[of "trim_start c"] a l by auto
    then show ?thesis using Inl by (auto simp: Let_def split: option.splits)
  next
    case (Inr x)
    obtain fs r where x: "x = (fs, r)" by (cases x)
    have "length r < length (trim_start c)" using parse_shorter Inr x by blast
    then have "parse_and cal k (out @ fs) r \<noteq> Inl OutOfFuel" using Suc[of r "out @ fs"] a l by simp
    then show ?thesis using Inr x by (auto simp: Let_def split: option.splits)
  qed
  ultimately show ?case by blast
qed simp

lemma fuel_enough: "3 * length c + 2 \<le> k \<Longrightarrow> parse_clause cal k c \<noteq> Inl OutOfFuel"
  using fuel_enough_all by blast

lemma parse_all_fuel: "3 * length c + 3 \<le> k \<Longrightarrow> parse_all cal k out c \<noteq> Inl OutOfFuel"
proof (induction cal k out c rule: parse_all.induct)
  case (2 cal k out c0)
  have l: "length (trim_start c0) \<le> length c0" by (rule length_trim_start)
  show ?case
  proof (cases "parse_clause cal k (trim_start c0)")
    case (Inl e)
    then show ?thesis using fuel_enough[of "trim_start c0" k cal] 2(2) l by (auto simp: Let_def)
  next
    case (Inr x)
    obtain fs r where x: "x = (fs, r)" by (cases x)
    have "length r < length (trim_start c0)" using parse_shorter Inr x by blast
    then show ?thesis using 2(1)[OF refl _ Inr x[symmetric]] 2(2) l Inr x by (auto simp: Let_def)
  qed
qed simp

section \<open>Roam queries and what they select\<close>

text \<open>A query as Roam's editor writes it, and the directive of outl each atom stands for.\<close>

datatype clause = CTask bool | CPage rstr | CTag rstr | CSearch rstr | CAnd "clause list" | CNot clause

primrec show_clause :: "clause \<Rightarrow> rstr" where
  "show_clause (CTask d) = (if d then lit ''{{[[DONE]]}}'' else lit ''{{[[TODO]]}}'')"
| "show_clause (CPage n) = lit ''[['' @ n @ lit '']]''"
| "show_clause (CTag n) = 35 # n"
| "show_clause (CSearch t) = lit ''{search: '' @ t @ [125]"
| "show_clause (CAnd cs) = lit ''{and: '' @ concat (map (\<lambda>s. s @ [32]) (map show_clause cs)) @ [125]"
| "show_clause (CNot c) = lit ''{not: '' @ show_clause c @ [125]"

primrec wf_clause :: "calendar \<Rightarrow> clause \<Rightarrow> bool" where
  "wf_clause cal (CTask d) \<longleftrightarrow> True"
| "wf_clause cal (CPage n) \<longleftrightarrow> n \<noteq> [] \<and> trim n = n \<and> 91 \<notin> set n \<and> 93 \<notin> set n"
| "wf_clause cal (CTag n) \<longleftrightarrow> n \<noteq> [] \<and> list_all (tag_char cal) n"
| "wf_clause cal (CSearch t) \<longleftrightarrow> t \<noteq> [] \<and> trim t = t \<and> 125 \<notin> set t \<and> 10 \<notin> set t"
| "wf_clause cal (CAnd cs) \<longleftrightarrow> list_all (wf_clause cal) cs"
| "wf_clause cal (CNot c) \<longleftrightarrow> wf_clause cal c"


definition page_means :: "rstr \<Rightarrow> atom" where
  "page_means n = (if n = lit ''TODO'' then Todo else if n = lit ''DONE'' then Done
     else Text (lit ''[['' @ n @ lit '']]''))"



text \<open>What outl can say: no calendar day, no empty conjunction, no negation of several conditions.\<close>

primrec expressed :: "calendar \<Rightarrow> clause \<Rightarrow> filt list option" where
  "expressed cal (CTask d) = Some [Filt False (if d then Done else Todo)]"
| "expressed cal (CPage n) = (if page_means n \<noteq> Todo \<and> page_means n \<noteq> Done \<and> is_daily_note_page cal n then None
     else Some [Filt False (page_means n)])"
| "expressed cal (CTag n) = Some [Filt False (Tag n)]"
| "expressed cal (CSearch t) = Some [Filt False (Text t)]"
| "expressed cal (CAnd cs) = (case those (map (expressed cal) cs) of
     Some fss \<Rightarrow> if concat fss = [] then None else Some (concat fss)
   | None \<Rightarrow> None)"
| "expressed cal (CNot c) = (case expressed cal c of
     Some [Filt neg kind] \<Rightarrow> Some [Filt (\<not> neg) kind] | _ \<Rightarrow> None)"



section \<open>The parser on shown queries\<close>

lemma shown_head: "wf_clause cal c \<Longrightarrow> \<exists>x s. show_clause c = x # s \<and> \<not> is_ws x \<and> x \<noteq> 125"
  by (cases c) (auto simp: lit_def is_ws_def)

lemma trim_start_shown [simp]: "wf_clause cal c \<Longrightarrow> trim_start (show_clause c @ r) = show_clause c @ r"
  using shown_head[of cal c] by (auto simp: trim_start_def)

definition no_tag_head :: "calendar \<Rightarrow> rstr \<Rightarrow> bool" where
  "no_tag_head cal s \<longleftrightarrow> (case s of [] \<Rightarrow> True | c # _ \<Rightarrow> \<not> tag_char cal c)"

lemma page_scan_plain: "91 \<notin> set n \<Longrightarrow> 93 \<notin> set n \<Longrightarrow> page_scan 1 (n @ 93 # 93 # r) = Some (n, r)"
proof (induction n)
  case (Cons c n)
  then show ?case by (cases n) auto
qed simp

lemma parse_page_shown: "wf_clause cal (CPage n) \<Longrightarrow> parse_page (lit ''[['' @ n @ lit '']]'' @ r) = Inr (n, r)"
  using page_scan_plain[of n r] by (simp add: parse_page_def lit_def)

lemma page_atom_shown: "wf_clause cal (CPage n) \<Longrightarrow> case expressed cal (CPage n) of
     Some fs \<Rightarrow> \<exists>a. page_atom cal n = Inr a \<and> fs = [Filt False a]
   | None \<Rightarrow> \<exists>e. page_atom cal n = Inl e"
  by (auto simp: page_atom_def page_means_def Let_def)

lemma brace_char_not_ws: "brace_char c \<Longrightarrow> \<not> is_ws c"
  by (auto simp: brace_char_def is_alnum_c_def is_digit_c_def is_lower_c_def is_upper_c_def is_ws_def)

lemma brace_named:
  assumes "list_all brace_char nm" "nm \<noteq> []"
  shows "strip_prefix [123] (123 # nm @ 58 # look) = Some (nm @ 58 # look)"
    and "trim_start (nm @ 58 # look) = nm @ 58 # look"
    and "takeWhile brace_char (nm @ 58 # look) = nm"
    and "strip_prefix [58] (trim_start (drop (length nm) (nm @ 58 # look))) = Some look"
proof -
  obtain c cs where c: "nm = c # cs" using assms(2) by (cases nm) auto
  then show "trim_start (nm @ 58 # look) = nm @ 58 # look"
    using assms(1) brace_char_not_ws by (simp add: trim_start_def)
  have n: "\<not> brace_char 58" by (simp add: brace_char_def is_alnum_c_def is_digit_c_def is_lower_c_def is_upper_c_def)
  have "takeWhile brace_char (nm @ 58 # look) = nm @ takeWhile brace_char (58 # look)"
    using assms(1) by (intro takeWhile_append2) (auto simp: list_all_iff)
  then show "takeWhile brace_char (nm @ 58 # look) = nm" using n by simp
qed (simp_all add: trim_start_def is_ws_def)

lemma no_marker: "c \<noteq> 123 \<or> d \<noteq> 123 \<Longrightarrow> try_task_marker (c # d # s) = None"
  by (auto simp: try_task_marker_def task_markers_def lit_def)

lemma parse_clause_brace:
  assumes "list_all brace_char nm" "nm \<noteq> []"
  shows "parse_clause cal (Suc k) (123 # nm @ s) = parse_brace cal k (123 # nm @ s)"
proof -
  obtain c cs where c: "nm = c # cs" using assms(2) by (cases nm) auto
  then have "c \<noteq> 123" using assms(1) by (auto simp: brace_char_def is_alnum_c_def is_digit_c_def is_lower_c_def is_upper_c_def)
  then have "try_task_marker (123 # nm @ s) = None" using no_marker[of 123 c] c by simp
  moreover have "trim_start (123 # nm @ s) = 123 # nm @ s" by (simp add: trim_start_def is_ws_def)
  ultimately show ?thesis by (simp add: Let_def lit_def)
qed

definition parsed :: "query_error + filt list \<times> rstr \<Rightarrow> filt list option \<Rightarrow> rstr \<Rightarrow> bool" where
  "parsed res ofs rest \<longleftrightarrow> (case ofs of Some fs \<Rightarrow> res = Inr (fs, rest) | None \<Rightarrow> \<exists>e. res = Inl e)"

definition parses :: "calendar \<Rightarrow> clause \<Rightarrow> bool" where
  "parses cal c \<longleftrightarrow> (\<forall>k rest. no_tag_head cal rest \<longrightarrow> 3 * length (show_clause c @ rest) + 2 \<le> k \<longrightarrow>
     parsed (parse_clause cal k (show_clause c @ rest)) (expressed cal c) rest)"

lemma parsesI:
  assumes "\<And>k rest. no_tag_head cal rest \<Longrightarrow> 3 * length (show_clause c @ rest) + 1 \<le> k
     \<Longrightarrow> parsed (parse_clause cal (Suc k) (show_clause c @ rest)) (expressed cal c) rest"
  shows "parses cal c"
  unfolding parses_def
proof (intro allI impI)
  fix k rest assume a: "no_tag_head cal rest" "3 * length (show_clause c @ rest) + 2 \<le> k"
  then obtain k' where "k = Suc k'" by (cases k) auto
  then show "parsed (parse_clause cal k (show_clause c @ rest)) (expressed cal c) rest" using assms a by simp
qed

lemma parsesD:
  "parses cal c \<Longrightarrow> no_tag_head cal rest \<Longrightarrow> 3 * length (show_clause c @ rest) + 2 \<le> k
    \<Longrightarrow> parsed (parse_clause cal k (show_clause c @ rest)) (expressed cal c) rest"
  by (simp add: parses_def)

lemma no_tag_head_simps [simp]: "no_tag_head cal (32 # s)" "no_tag_head cal (125 # s)" "no_tag_head cal []"
  by (auto simp: no_tag_head_def tag_char_def is_alnum_c_def is_digit_c_def is_lower_c_def is_upper_c_def)

lemma parse_and_space: "parse_and cal k out (32 # s) = parse_and cal k out s"
  by (cases k) (auto simp: trim_start_def is_ws_def)

lemma not_closed: "wf_clause cal c \<Longrightarrow> strip_prefix [125] (show_clause c @ r) = None \<and> show_clause c \<noteq> []"
  using shown_head[of cal c] by auto

lemma parse_and_shown:
  assumes "\<And>c. c \<in> set cs \<Longrightarrow> parses cal c \<and> wf_clause cal c"
    and "3 * length (concat (map (\<lambda>c. show_clause c @ [32]) cs) @ 125 # rest) + 3 \<le> k"
  shows "parsed (parse_and cal k out (concat (map (\<lambda>c. show_clause c @ [32]) cs) @ 125 # rest))
     (case those (map (expressed cal) cs) of
        Some fss \<Rightarrow> if out @ concat fss = [] then None else Some (out @ concat fss) | None \<Rightarrow> None) rest"
  using assms
proof (induction cs arbitrary: k out)
  case Nil
  then obtain k' where "k = Suc k'" by (cases k) auto
  then show ?case by (auto simp: parsed_def trim_start_def is_ws_def)
next
  case (Cons c cs)
  define s where "s = concat (map (\<lambda>c. show_clause c @ [32]) cs) @ 125 # rest"
  obtain k' where k: "k = Suc k'" using Cons.prems(2) by (cases k) auto
  have w: "wf_clause cal c" "parses cal c" using Cons.prems(1) by auto
  have p: "parsed (parse_clause cal k' (show_clause c @ 32 # s)) (expressed cal c) (32 # s)"
    by (rule parsesD[OF w(2)]) (use Cons.prems(2) k in \<open>auto simp: s_def\<close>)
  have step: "parse_and cal k out (show_clause c @ 32 # s) = (case parse_clause cal k' (show_clause c @ 32 # s) of
      Inl e \<Rightarrow> Inl e | Inr (fs, r) \<Rightarrow> parse_and cal k' (out @ fs) r)"
    using not_closed[OF w(1), of "32 # s"] w(1) by (simp add: k Let_def)
  have IH: "parsed (parse_and cal k' out' s)
     (case those (map (expressed cal) cs) of
        Some fss \<Rightarrow> if out' @ concat fss = [] then None else Some (out' @ concat fss) | None \<Rightarrow> None) rest" for out'
    unfolding s_def by (rule Cons.IH) (use Cons.prems k in auto)
  show ?case
  proof (cases "expressed cal c")
    case None
    then have "\<exists>e. parse_and cal k out (show_clause c @ 32 # s) = Inl e" using p step by (auto simp: parsed_def)
    then show ?thesis using None by (simp add: parsed_def s_def)
  next
    case (Some fs)
    then have "parse_and cal k out (show_clause c @ 32 # s) = parse_and cal k' (out @ fs) s"
      using p step by (simp add: parsed_def parse_and_space)
    then show ?thesis using IH[of "out @ fs"] Some
      by (cases "those (map (expressed cal) cs)") (auto simp: s_def split: if_splits)
  qed
qed

lemma lit_and: "lit ''{and: '' = 123 # lit ''and'' @ [58, 32]" by (simp add: lit_def)
lemma lit_not: "lit ''{not: '' = 123 # lit ''not'' @ [58, 32]" by (simp add: lit_def)
lemma lit_search: "lit ''{search: '' = 123 # lit ''search'' @ [58, 32]" by (simp add: lit_def)

lemma names_ok: "list_all brace_char (lit ''and'')" "list_all brace_char (lit ''not'')" "list_all brace_char (lit ''search'')"
  by (simp_all add: lit_def brace_char_def is_alnum_c_def is_digit_c_def is_lower_c_def is_upper_c_def)

lemma parse_clause_named:
  assumes "list_all brace_char nm" "nm \<noteq> []"
  shows "parse_clause cal (Suc (Suc k)) (123 # nm @ 58 # look) =
    (if nm = lit ''and'' then parse_and cal k [] look
     else parse_brace cal (Suc k) (123 # nm @ 58 # look))"
  using parse_clause_brace[OF assms, of cal "Suc k" "58 # look"] brace_named[OF assms, of look]
  by (simp add: Let_def assms(2))

lemma parses_task: "parses cal (CTask d)"
proof -
  have "parse_clause cal k (show_clause (CTask d) @ rest) = Inr ([Filt False (if d then Done else Todo)], rest)"
    if "2 \<le> k" for k rest
  proof -
    obtain k' where "k = Suc k'" using \<open>2 \<le> k\<close> by (cases k) auto
    then show ?thesis by (simp add: Let_def trim_start_def is_ws_def try_task_marker_def task_markers_def lit_def)
  qed
  then show ?thesis by (simp add: parses_def parsed_def)
qed

lemma parses_page:
  assumes "wf_clause cal (CPage n)"
  shows "parses cal (CPage n)"
proof -
  have "parsed (parse_clause cal (Suc k) (lit ''[['' @ n @ lit '']]'' @ rest)) (expressed cal (CPage n)) rest" for k rest
  proof -
    have "try_task_marker (lit ''[['' @ n @ lit '']]'' @ rest) = None" by (simp add: lit_def no_marker)
    moreover have "trim_start (lit ''[['' @ n @ lit '']]'' @ rest) = lit ''[['' @ n @ lit '']]'' @ rest"
      by (simp add: lit_def trim_start_def is_ws_def)
    ultimately have "parse_clause cal (Suc k) (lit ''[['' @ n @ lit '']]'' @ rest)
        = single (page_clause cal (lit ''[['' @ n @ lit '']]'' @ rest))" by (simp add: Let_def)
    then show ?thesis using page_atom_shown[OF assms] parse_page_shown[OF assms, of rest]
      by (auto simp del: expressed.simps simp: parsed_def page_clause_def single_def split: option.splits)
  qed
  then show ?thesis by (intro parsesI) simp
qed

lemma parses_tag:
  assumes "wf_clause cal (CTag n)"
  shows "parses cal (CTag n)"
proof -
  have "parsed (parse_clause cal (Suc k) (35 # n @ rest)) (expressed cal (CTag n)) rest" if r: "no_tag_head cal rest" for k rest
  proof -
    have t: "takeWhile (tag_char cal) (n @ rest) = n"
    proof -
      have "takeWhile (tag_char cal) (n @ rest) = n @ takeWhile (tag_char cal) rest"
        using assms by (intro takeWhile_append2) (auto simp: list_all_iff)
      then show ?thesis using r by (cases rest) (auto simp: no_tag_head_def)
    qed
    obtain x s where x: "n @ rest = x # s" "tag_char cal x" using assms by (cases n) auto
    then have "x \<noteq> 91" by (auto simp: tag_char_def is_alnum_c_def is_digit_c_def is_lower_c_def is_upper_c_def)
    then have "\<not> starts_with (lit ''[['') (n @ rest)" using x by (auto simp: lit_def)
    moreover have "try_task_marker (35 # n @ rest) = None" using x no_marker[of 35 x s] by simp
    ultimately show ?thesis using t assms
      by (simp add: parsed_def Let_def trim_start_def is_ws_def parse_tag_def single_def) (simp add: lit_def)
  qed
  then show ?thesis by (intro parsesI) simp
qed

lemma parses_search:
  assumes "wf_clause cal (CSearch t)"
  shows "parses cal (CSearch t)"
proof (rule parsesI)
  fix k rest assume k: "3 * length (show_clause (CSearch t) @ rest) + 1 \<le> k"
  then obtain k' where k': "k = Suc k'" by (cases k) auto
  define look where "look = 32 # t @ 125 # rest"
  have "takeWhile (\<lambda>x. x \<noteq> 125) (t @ 125 # rest) = t"
    using assms by (subst takeWhile_append2) auto
  then have "takeWhile (\<lambda>x. x \<noteq> 125) look = 32 # t" by (simp add: look_def)
  moreover have "trim (32 # t) = t"
    using assms trim_start_def by (simp add: trim_def is_ws_def)
  ultimately have "parse_search look = Inr ([Filt False (Text t)], rest)"
    using assms by (simp add: parse_search_def Let_def look_def)
  moreover have "parse_clause cal (Suc k) (123 # lit ''search'' @ 58 # look) = parse_search look"
    using parse_clause_brace[OF names_ok(3), of cal k "58 # look"] brace_named[OF names_ok(3), of look]
    by (simp add: k' Let_def)
  ultimately show "parsed (parse_clause cal (Suc k) (show_clause (CSearch t) @ rest)) (expressed cal (CSearch t)) rest"
    by (simp add: parsed_def lit_search look_def)
qed

lemma parses_and:
  assumes "\<And>c. c \<in> set cs \<Longrightarrow> parses cal c" "wf_clause cal (CAnd cs)"
  shows "parses cal (CAnd cs)"
proof (rule parsesI)
  fix k rest assume k: "3 * length (show_clause (CAnd cs) @ rest) + 1 \<le> k"
  then obtain k' where k': "k = Suc k'" by (cases k) auto
  define s where "s = concat (map (\<lambda>c. show_clause c @ [32]) cs) @ 125 # rest"
  have len: "3 * length s + 3 \<le> k'" using k k' by (simp add: s_def lit_def comp_def)
  have "parse_clause cal (Suc k) (123 # lit ''and'' @ 58 # 32 # s) = parse_and cal k' [] s"
    using parse_clause_brace[OF names_ok(1), of cal k "58 # 32 # s"] brace_named[OF names_ok(1), of "32 # s"]
    by (simp add: k' Let_def parse_and_space)
  moreover have "parsed (parse_and cal k' [] s) (expressed cal (CAnd cs)) rest"
    using parse_and_shown[of cs cal rest k' "[]", unfolded append_Nil] assms len by (simp add: s_def list_all_iff)
  ultimately show "parsed (parse_clause cal (Suc k) (show_clause (CAnd cs) @ rest)) (expressed cal (CAnd cs)) rest"
    by (simp add: lit_and s_def comp_def del: expressed.simps)
qed

lemma parses_not:
  assumes "parses cal c" "wf_clause cal (CNot c)"
  shows "parses cal (CNot c)"
proof (rule parsesI)
  fix k rest assume k: "3 * length (show_clause (CNot c) @ rest) + 1 \<le> k"
  then obtain k' where k': "k = Suc k'" by (cases k) auto
  define s where "s = show_clause c @ 125 # rest"
  have w: "wf_clause cal c" using assms(2) by simp
  obtain k'' where k'': "k' = Suc k''" using k k' by (cases k') (auto simp: lit_def)
  have sp: "parse_clause cal k' (32 # s) = parse_clause cal k' s"
    by (simp add: k'' trim_start_def is_ws_def)
  have p: "parsed (parse_clause cal k' s) (expressed cal c) (125 # rest)"
    unfolding s_def by (rule parsesD[OF assms(1)]) (use k k' in \<open>auto simp: lit_def\<close>)
  have "trim_start (32 # s) = s" using w trim_start_shown[OF w, of "125 # rest"]
    by (simp add: s_def trim_start_def is_ws_def)
  moreover have "\<not> starts_with [125] s" using not_closed[OF w, of "125 # rest"] by (simp add: s_def strip_prefix_None)
  ultimately have e: "parse_clause cal (Suc k) (123 # lit ''not'' @ 58 # 32 # s) =
      (case parse_clause cal k' s of Inl e \<Rightarrow> Inl e | Inr (inner, r) \<Rightarrow> close_not inner r)"
    using parse_clause_brace[OF names_ok(2), of cal k "58 # 32 # s"] brace_named[OF names_ok(2), of "32 # s"]
    by (simp add: k' Let_def sp)
  have c: "close_not fs (125 # rest) = (case fs of [Filt neg kind] \<Rightarrow> Inr ([Filt (\<not> neg) kind], rest)
     | _ \<Rightarrow> Inl (Refused (lit ''{not:} of a compound condition has no outl equivalent (no boolean grouping)'')))" for fs
    by (simp add: close_not_def trim_start_def is_ws_def)
  have "parsed (parse_clause cal (Suc k) (123 # lit ''not'' @ 58 # 32 # s)) (expressed cal (CNot c)) rest"
    unfolding e using p by (auto simp: c parsed_def split: option.splits list.splits filt.splits)
  then show "parsed (parse_clause cal (Suc k) (show_clause (CNot c) @ rest)) (expressed cal (CNot c)) rest"
    by (simp add: lit_not s_def del: expressed.simps)
qed

lemma parses_shown: "wf_clause cal c \<Longrightarrow> parses cal c"
proof (induction c)
  case (CAnd cs)
  then show ?case by (intro parses_and) (auto simp: list_all_iff)
next
  case (CNot c)
  then show ?case using parses_not by simp
qed (auto intro: parses_task parses_page parses_tag parses_search)

section \<open>The translation\<close>

definition show_query :: "clause \<Rightarrow> rstr" where
  "show_query c = lit ''{{[[query]]: '' @ show_clause c @ lit ''}}''"

lemma query_body_shown: "query_body (show_query c) = Inr (32 # show_clause c)"
proof -
  have "strip_suffix (lit ''}}'') (lit ''[[query]]: '' @ show_clause c @ lit ''}}'') = Some (lit ''[[query]]: '' @ show_clause c)"
    by (simp add: strip_suffix_def lit_def)
  then show ?thesis
    by (simp add: query_body_def show_query_def lit_def query_rest_def trim_start_def is_ws_def)
qed


lemma expressed_not_Nil: "expressed cal c \<noteq> Some []"
  by (cases c) (auto split: option.splits if_splits list.splits filt.splits)

lemma translate_shown:
  assumes "wf_clause cal c"
  shows "case expressed cal c of
     Some fs \<Rightarrow> translate_query cal (show_query c) = Inr (join [10] (map render_filt fs))
   | None \<Rightarrow> \<exists>reason. translate_query cal (show_query c) = Inl (Refused reason)"
proof -
  define k where "k = 3 * length (show_query c) + 3"
  have fuel: "query_fuel (show_query c) = Suc k" by (simp add: query_fuel_def k_def)
  have title: "skip_title (32 # show_clause c) = Inr (show_clause c)"
    using shown_head[OF assms] assms by (cases c) (auto simp: skip_title_def trim_start_def is_ws_def lit_def)
  have lk: "3 * length (show_clause c) + 2 \<le> k" by (simp add: k_def show_query_def)
  have p: "parsed (parse_clause cal k (show_clause c)) (expressed cal c) []"
    using parsesD[OF parses_shown[OF assms], of "[]" k] lk by simp
  have t: "trim_start (show_clause c) = show_clause c" "show_clause c \<noteq> []"
    using trim_start_shown[OF assms, of "[]"] not_closed[OF assms] by auto
  have all: "parse_all cal (Suc k) [] (show_clause c) = (case parse_clause cal k (show_clause c) of
      Inl e \<Rightarrow> Inl e | Inr (fs, r) \<Rightarrow> parse_all cal k fs r)"
    by (simp add: Let_def t split: sum.split)
  have nofuel: "parse_clause cal k (show_clause c) \<noteq> Inl OutOfFuel" by (rule fuel_enough[OF lk])
  have tq: "translate_query cal (show_query c) = (case parse_all cal (Suc k) [] (show_clause c) of
      Inl e \<Rightarrow> Inl e | Inr filts \<Rightarrow> if filts = [] then Inl (Refused (lit ''query has no conditions''))
        else Inr (join [10] (map render_filt filts)))"
    by (simp add: translate_query_def query_body_shown title fuel)
  show ?thesis
  proof (cases "expressed cal c")
    case None
    then obtain e where e: "parse_clause cal k (show_clause c) = Inl e" using p by (auto simp: parsed_def)
    then have "parse_all cal (Suc k) [] (show_clause c) = Inl e" by (subst all) simp
    moreover have "e \<noteq> OutOfFuel" using e nofuel by auto
    ultimately show ?thesis using None by (cases e) (simp_all only: tq, simp_all)
  next
    case (Some fs)
    then have "parse_clause cal k (show_clause c) = Inr (fs, [])" using p by (simp add: parsed_def)
    moreover have "parse_all cal k fs [] = Inr fs" using lk by (cases k) (simp_all add: trim_start_def)
    ultimately have "parse_all cal (Suc k) [] (show_clause c) = Inr fs" by (subst all) simp
    moreover have "fs \<noteq> []" using Some expressed_not_Nil by auto
    ultimately show ?thesis using Some by (simp only: tq, simp)
  qed
qed


section \<open>Witness and counterexamples\<close>

definition plain_calendar :: calendar where
  "plain_calendar = \<lparr> cal_ymd = \<lambda>y m d. 1 \<le> m \<and> m \<le> 12 \<and> 1 \<le> d \<and> d \<le> 28, cal_iso = \<lambda>_. False,
     cal_digit = \<lambda>c. 0x660 \<le> c \<and> c \<le> 0x669, cal_alnum = \<lambda>_. False \<rparr>"


text \<open>A page name over two lines comes out as two directives: the second line is taken as one of its own.\<close>

lemma page_newline_injects:
  "\<exists>body. translate_query plain_calendar (show_query (CPage (lit ''a'' @ [10] @ lit ''status: done''))) = Inr body
     \<and> split_on 10 body = [lit ''text: [[a'', lit ''status: done]]'']"
proof -
  let ?n = "lit ''a'' @ [10] @ lit ''status: done''"
  have "wf_clause plain_calendar (CPage ?n)" by (simp add: lit_def trim_def trim_start_def trim_end_def is_ws_def)
  moreover have "expressed plain_calendar (CPage ?n) = Some [Filt False (Text (lit ''[['' @ ?n @ lit '']]''))]"
    by (simp add: page_means_def is_daily_note_page_def relative_pages_def plain_calendar_def ordinal_daily_def
        ordinal_date_def months_def lit_def)
  ultimately show ?thesis using translate_shown[of plain_calendar "CPage ?n"] by (simp add: lit_def)
qed

text \<open>Markers inside markers: the second pass goes on where the first one stopped.\<close>

lemma second_pass_changes:
  "roam_to_outl cal (lit ''{{[[{{[[TODO]]}}]]}}'') = lit ''{{[[TODO]]}}''"
  "roam_to_outl cal (lit ''{{[[TODO]]}}'') = lit ''TODO''"
  by (simp_all add: lit_def roam_to_outl_def roam_to_outl_parts.simps fence_end_def fence_mark_def query_end_def
      is_query_header_def query_rest_def trim_start_def is_ws_def Let_def rewrite_plain_def rewrite_todo_def
      rewrite_done_def replace_str.simps split_at_str.simps drop_embed_def embed_match_def
      rewrite_ordinal_daily_def ordinal_match_def ordinal_date_def months_def)

text \<open>The year in digits of another script matches the expression and is read as the year 0.\<close>

lemma foreign_year_is_zero:
  "rewrite_ordinal_daily plain_calendar (lit ''[[April 22nd, '' @ [0x662, 0x660, 0x662, 0x666] @ lit '']]'')
     = lit ''[[0000-04-22]]''"
  by (simp add: rewrite_ordinal_daily_def ordinal_match_def ordinal_date_def months_def rx_blank_def
      trim_start_def is_ws_def rx_digit_def is_digit_c_def plain_calendar_def lit_def month_to_num_def
      parse_u32_def parse_nat_def or_zero_def pad_zeros_def show_nat.simps) (simp add: numeral_3_eq_3)

end
