(* ===== verification/Outl_Publish.thy ===== *)
theory Outl_Publish
  imports Outl_Meaning Tables
begin

text \<open>
  Publishing an agent's output to outl (\<open>src/plugins/sink-outl\<close>: \<open>sanitize.rs\<close>, \<open>publish.rs\<close>,
  \<open>mcp.rs\<close>, \<open>main.rs\<close>): the outline is read off the text by its indentation, the blocks a marker names
  are deleted and the new tree is appended in one batch.  What the \<open>mcp\<close> program answers, the
  calendar, JSON parsing and the regular expressions of the configuration are parameters.
\<close>

section \<open>The outline of a text\<close>

datatype sline = SRoot rstr | SL1 rstr | SL2 rstr

record outl_section =
  os_header :: rstr
  os_children :: "rstr list"

record outline =
  ot_root :: rstr
  ot_sections :: "outl_section list"

definition tag_line :: "nat \<Rightarrow> rstr \<Rightarrow> sline" where
  "tag_line indent t = (if indent \<le> 3 then SL1 t else SL2 t)"

record sanitizer =
  sn_out :: "sline list"
  sn_root_set :: bool
  sn_wrapper_pending :: bool
  sn_in_fence :: bool
  sn_fence_indent :: nat
  sn_fence_lines :: "rstr list"

definition sanitizer_start :: sanitizer where
  "sanitizer_start = \<lparr> sn_out = [], sn_root_set = False, sn_wrapper_pending = False, sn_in_fence = False,
     sn_fence_indent = 0, sn_fence_lines = [] \<rparr>"

definition strip_bullet :: "rstr \<Rightarrow> rstr" where
  "strip_bullet stripped = (case strip_prefix [45] stripped of
     Some rest \<Rightarrow> (case strip_prefix [32] rest of Some r \<Rightarrow> r | None \<Rightarrow> rest)
   | None \<Rightarrow> stripped)"

text \<open>\<open>trim_end_matches\<close> of the carriage return.\<close>

definition trim_cr :: "rstr \<Rightarrow> rstr" where
  "trim_cr raw = rev (dropWhile (\<lambda>c. c = 13) (rev raw))"

text \<open>One line; \<open>None\<close> at the separator that ends the document.\<close>

definition sanitize_line :: "rstr \<Rightarrow> sanitizer \<Rightarrow> sanitizer option" where
  "sanitize_line raw st =
     (let trimmed = trim_cr raw;
          stripped = trim_start trimmed;
          indent = length (takeWhile is_ws trimmed)
      in if sn_in_fence st then
           (let lines = sn_fence_lines st @ [stripped] in
            if starts_with fence_mark stripped
            then Some (st\<lparr> sn_out := sn_out st @ [tag_line (sn_fence_indent st) (join [10] lines)],
                           sn_in_fence := False, sn_fence_lines := [] \<rparr>)
            else Some (st\<lparr> sn_fence_lines := lines \<rparr>))
         else if starts_with fence_mark stripped then
           (if \<not> sn_root_set st then Some (st\<lparr> sn_wrapper_pending := True \<rparr>)
            else if sn_wrapper_pending st then Some (st\<lparr> sn_wrapper_pending := False \<rparr>)
            else Some (st\<lparr> sn_in_fence := True, sn_fence_indent := indent,
                           sn_fence_lines := sn_fence_lines st @ [stripped] \<rparr>))
         else if \<not> sn_root_set st then
           (if indent = 0 \<and> stripped \<noteq> []
            then Some (st\<lparr> sn_root_set := True, sn_out := sn_out st @ [SRoot trimmed] \<rparr>)
            else Some st)
         else if trim_end stripped = lit ''---'' then None
         else if strip_bullet stripped = [] then Some st
         else Some (st\<lparr> sn_out := sn_out st @ [tag_line indent (strip_bullet stripped)] \<rparr>))"

fun sanitize_lines :: "sanitizer \<Rightarrow> rstr list \<Rightarrow> sanitizer" where
  "sanitize_lines st [] = st"
| "sanitize_lines st (raw # ls) = (case sanitize_line raw st of
     None \<Rightarrow> st | Some st \<Rightarrow> sanitize_lines st ls)"

definition sanitize_text :: "rstr \<Rightarrow> sline list" where
  "sanitize_text input = (let st = sanitize_lines sanitizer_start (str_lines input) in
     if sn_fence_lines st \<noteq> [] then sn_out st @ [tag_line (sn_fence_indent st) (join [10] (sn_fence_lines st))]
     else sn_out st)"

fun group_lines :: "outl_section option \<Rightarrow> sline list \<Rightarrow> outl_section list" where
  "group_lines cur [] = (case cur of Some s \<Rightarrow> [s] | None \<Rightarrow> [])"
| "group_lines cur (SRoot t # ls) = group_lines cur ls"
| "group_lines cur (SL1 t # ls) = (case cur of Some s \<Rightarrow> [s] | None \<Rightarrow> [])
     @ group_lines (Some \<lparr> os_header = t, os_children = [] \<rparr>) ls"
| "group_lines cur (SL2 t # ls) = group_lines (map_option (\<lambda>s. s\<lparr> os_children := os_children s @ [t] \<rparr>) cur) ls"

fun line_text :: "sline \<Rightarrow> rstr" where
  "line_text (SRoot t) = t"
| "line_text (SL1 t) = t"
| "line_text (SL2 t) = t"

definition parse_hierarchy :: "rstr \<Rightarrow> outline option" where
  "parse_hierarchy input = (case sanitize_text input of
     [] \<Rightarrow> None
   | l # ls \<Rightarrow> Some \<lparr> ot_root = line_text l, ot_sections = group_lines None ls \<rparr>)"

section \<open>Where it goes\<close>

datatype target = Daily rstr | Page rstr

fun target_slug :: "target \<Rightarrow> rstr" where
  "target_slug (Daily s) = s"
| "target_slug (Page s) = s"

record publish_env =
  pe_cal :: calendar
  pe_today :: int
  pe_day :: "int \<Rightarrow> rstr"
  pe_lower :: "rstr \<Rightarrow> rstr"

definition pad_int :: "nat \<Rightarrow> int \<Rightarrow> rstr" where
  "pad_int w i = (if i < 0 then 45 # pad_zeros (w - 1) (nat (- i)) else pad_zeros w (nat i))"

definition parse_year :: "rstr \<Rightarrow> int option" where
  "parse_year s = (case parse_i64 s of Some i \<Rightarrow> if - (2 ^ 31) \<le> i \<and> i < 2 ^ 31 then Some i else None | None \<Rightarrow> None)"

definition parse_roam_ordinal_daily :: "calendar \<Rightarrow> rstr \<Rightarrow> rstr option" where
  "parse_roam_ordinal_daily cal s = Option.bind (rsplit_at_str (lit '', '') s) (\<lambda>(head, year_part).
     Option.bind (parse_year year_part) (\<lambda>year.
     Option.bind (split_once 32 head) (\<lambda>(month_name, day_part).
     Option.bind (parse_u32 (takeWhile is_digit_c day_part)) (\<lambda>day.
     Option.bind (month_to_num month_name) (\<lambda>month.
       if cal_ymd cal year month day
       then Some (pad_int 4 year @ [45] @ pad_zeros 2 month @ [45] @ pad_zeros 2 day) else None)))))"

definition resolve_target :: "publish_env \<Rightarrow> rstr \<Rightarrow> target" where
  "resolve_target env page_ref = (let trimmed = trim page_ref in
     if trimmed = lit ''today'' then Daily (pe_day env (pe_today env))
     else if trimmed = lit ''yesterday'' then Daily (pe_day env (pe_today env - 1))
     else if trimmed = lit ''tomorrow'' then Daily (pe_day env (pe_today env + 1))
     else if cal_iso (pe_cal env) trimmed then Daily trimmed
     else case parse_roam_ordinal_daily (pe_cal env) trimmed of
       Some day \<Rightarrow> Daily day
     | None \<Rightarrow> Page (pe_lower env trimmed))"

section \<open>The batch\<close>

definition text_node :: "rstr \<Rightarrow> json list \<Rightarrow> json" where
  "text_node t children = JObject ((lit ''text'', JString t)
     # (if children = [] then [] else [(lit ''children'', JArray children)]))"

definition section_to_outl :: "calendar \<Rightarrow> outl_section \<Rightarrow> json" where
  "section_to_outl cal s = text_node (roam_to_outl cal (os_header s))
     (map (\<lambda>c. text_node (roam_to_outl cal c) []) (os_children s))"

definition tree_to_outl :: "calendar \<Rightarrow> outline \<Rightarrow> json" where
  "tree_to_outl cal t = text_node (roam_to_outl cal (ot_root t)) (map (section_to_outl cal) (ot_sections t))"

definition probe_char :: "calendar \<Rightarrow> nat \<Rightarrow> bool" where
  "probe_char cal c \<longleftrightarrow> c = 35 \<or> is_alnum_c c \<or> 128 \<le> c \<and> cal_alnum cal c \<or> c = 95 \<or> c = 45"

fun probe_from :: "calendar \<Rightarrow> rstr \<Rightarrow> rstr \<Rightarrow> rstr" where
  "probe_from cal probe [] = probe"
| "probe_from cal probe (c # cs) =
     (if probe_char cal c then
        (if 32 \<le> byte_len (probe @ [c]) then probe @ [c] else probe_from cal (probe @ [c]) cs)
      else if probe \<noteq> [] then probe
      else probe_from cal probe cs)"

definition fts_probe :: "calendar \<Rightarrow> rstr \<Rightarrow> rstr" where
  "fts_probe cal pattern = (let probe = probe_from cal [] pattern in
     if probe = [] then take 32 pattern else probe)"

text \<open>What is asked of outl, and what it answers to the calls so far (an error text or a value).\<close>

datatype outl_call =
  PageCreate rstr
| SearchBlocks rstr nat
| Batch "rstr list" rstr json

type_synonym outl_answers = "outl_call list \<Rightarrow> rstr + json"

definition marker_block :: "rstr \<Rightarrow> (rstr \<Rightarrow> bool) \<Rightarrow> json \<Rightarrow> rstr option" where
  "marker_block slug is_match blk =
     (case Option.bind (object_get (lit ''text'') blk) as_str of
        None \<Rightarrow> None
      | Some t \<Rightarrow> (case Option.bind (object_get (lit ''page'') blk) as_str of
          None \<Rightarrow> None
        | Some page \<Rightarrow> if page \<noteq> slug then None
            else if is_match t then Option.bind (object_get (lit ''id'') blk) as_str
            else None))"

definition marker_ids :: "rstr \<Rightarrow> (rstr \<Rightarrow> bool) \<Rightarrow> json \<Rightarrow> rstr list" where
  "marker_ids slug is_match resp = (case object_get (lit ''blocks'') resp of
     Some (JArray blocks) \<Rightarrow> List.map_filter (marker_block slug is_match) blocks
   | _ \<Rightarrow> [])"

definition batch_root :: "(json \<Rightarrow> rstr) \<Rightarrow> json \<Rightarrow> rstr + rstr" where
  "batch_root show_json resp = (case object_get (lit ''error'') resp of
     Some err \<Rightarrow> Inl (lit ''outl_batch failed at op ''
        @ show_nat (case Option.bind (object_get (lit ''failed_at'') resp) as_u64 of Some n \<Rightarrow> n | None \<Rightarrow> 0)
        @ lit '': '' @ show_json err)
   | None \<Rightarrow>
       (let tree_id = (case object_get (lit ''results'') resp of
            Some (JArray rs) \<Rightarrow> if rs = [] then None
              else Option.bind (object_get (lit ''data'') (last rs)) (\<lambda>d. Option.bind (object_get (lit ''tree'') d)
                (\<lambda>t. Option.bind (object_get (lit ''id'') t) as_str))
          | _ \<Rightarrow> None)
        in case tree_id of Some i \<Rightarrow> Inr i
           | None \<Rightarrow> Inl (lit ''outl_batch response missing tree id: '' @ show_json resp)))"

definition page_created :: "target \<Rightarrow> outl_call list" where
  "page_created target = (case target of Page s \<Rightarrow> [PageCreate s] | Daily _ \<Rightarrow> [])"

definition publish :: "publish_env \<Rightarrow> (json \<Rightarrow> rstr) \<Rightarrow> outl_answers \<Rightarrow> rstr \<Rightarrow> rstr \<Rightarrow> rstr \<Rightarrow> (rstr \<Rightarrow> bool)
    \<Rightarrow> (rstr + rstr) \<times> outl_call list" where
  "publish env show_json answer content page_ref pattern is_match =
     (case parse_hierarchy content of
        None \<Rightarrow> (Inl (lit ''sink-outl: empty / unparseable content''), [])
      | Some tree \<Rightarrow>
          let target = resolve_target env page_ref; slug = target_slug target;
              created = page_created target
          in case (if created = [] then Inr JNull else answer created) of
               Inl e \<Rightarrow> (Inl e, created)
             | Inr _ \<Rightarrow>
                 let searched = created @ [SearchBlocks (fts_probe (pe_cal env) pattern) 50] in
                 (case answer searched of
                    Inl e \<Rightarrow> (Inl e, searched)
                  | Inr resp \<Rightarrow>
                      let sent = searched @ [Batch (marker_ids slug is_match resp) slug (tree_to_outl (pe_cal env) tree)] in
                      (case answer sent of
                         Inl e \<Rightarrow> (Inl e, sent)
                       | Inr resp \<Rightarrow> (batch_root show_json resp, sent))))"

section \<open>The program around it\<close>

text \<open>One call of the \<open>mcp\<close> program, by what the child left.\<close>

datatype mcp_child = SpawnFailed rstr | Exited "int option" rstr rstr

fun as_bool :: "json \<Rightarrow> bool option" where
  "as_bool (JBool b) = Some b"
| "as_bool _ = None"

definition json_text :: "rstr \<Rightarrow> rstr option" where
  "json_text raw = (case dropWhile (\<lambda>c. c \<noteq> 123 \<and> c \<noteq> 91) raw of [] \<Rightarrow> None | s \<Rightarrow> Some (trim s))"

definition content_text :: "json \<Rightarrow> rstr option" where
  "content_text envelope = (case object_get (lit ''content'') envelope of
     Some (JArray (c # _)) \<Rightarrow> Option.bind (object_get (lit ''text'') c) as_str
   | Some (JObject kvs) \<Rightarrow> Option.bind (map_of kvs (lit ''0'')) (\<lambda>c. Option.bind (object_get (lit ''text'') c) as_str)
   | _ \<Rightarrow> None)"

definition mcp_outl :: "(rstr \<Rightarrow> rstr + json) \<Rightarrow> (json \<Rightarrow> rstr) \<Rightarrow> rstr \<Rightarrow> mcp_child \<Rightarrow> rstr + json" where
  "mcp_outl parse show_json tool child = (case child of
     SpawnFailed _ \<Rightarrow> Inl (lit ''spawning mcp outl '' @ tool)
   | Exited code stdout stderr \<Rightarrow>
       if code \<noteq> Some 0 then
         Inl (lit ''mcp outl '' @ tool @ lit '' exited '' @ show_int (case code of Some c \<Rightarrow> c | None \<Rightarrow> - 1) @ lit '': '' @ stderr)
       else case json_text stdout of
         None \<Rightarrow> Inl (lit ''no JSON in mcp output: '' @ stdout)
       | Some s \<Rightarrow> (case parse s of
           Inl e \<Rightarrow> Inl e
         | Inr envelope \<Rightarrow>
             if Option.bind (object_get (lit ''isError'') envelope) as_bool = Some True then
               Inl (lit ''mcp outl '' @ tool @ lit '' returned error: ''
                 @ (case content_text envelope of Some t \<Rightarrow> t | None \<Rightarrow> lit ''<no detail>''))
             else case content_text envelope of
               None \<Rightarrow> Inl (lit ''mcp envelope missing .content[0].text: '' @ show_json envelope)
             | Some t \<Rightarrow> if starts_with [123] (trim_start t) \<or> starts_with [91] (trim_start t)
                 then (case parse t of Inl e \<Rightarrow> Inl (lit ''parsing inner mcp payload: '' @ t) | Inr v \<Rightarrow> Inr v)
                 else Inr (JString t)))"

record sink_config =
  sc_page :: rstr
  sc_marker_regex :: "rstr option"

record sink_response =
  sr_ok :: bool
  sr_error :: "rstr option"
  sr_root_id :: "rstr option"

definition cmd_validate :: "(rstr \<Rightarrow> bool) \<Rightarrow> sink_config \<Rightarrow> sink_response" where
  "cmd_validate is_regex cfg =
     (let errors = (if sc_page cfg = [] then [lit ''page is required''] else [])
        @ (case sc_marker_regex cfg of
             Some rx \<Rightarrow> if is_regex rx then [] else [lit ''marker_regex is not a valid regex''] | None \<Rightarrow> [])
      in \<lparr> sr_ok = errors = [], sr_error = (if errors = [] then None else Some (join (lit ''; '') errors)), sr_root_id = None \<rparr>)"

definition no_marker_regex :: rstr where "no_marker_regex = lit ''$^''"

text \<open>\<open>cmd_invoke\<close>: the response printed, or \<open>None\<close> when the program ends with an error before it.\<close>

definition cmd_invoke :: "publish_env \<Rightarrow> (json \<Rightarrow> rstr) \<Rightarrow> outl_answers \<Rightarrow> (rstr \<Rightarrow> (rstr \<Rightarrow> bool) option)
    \<Rightarrow> sink_config \<Rightarrow> rstr option \<Rightarrow> sink_response option \<times> outl_call list" where
  "cmd_invoke env show_json answer regex cfg message =
     (let content = (case message of Some t \<Rightarrow> t | None \<Rightarrow> []) in
      if trim content = [] then
        (Some \<lparr> sr_ok = False, sr_error = Some (lit ''empty message''), sr_root_id = None \<rparr>, [])
      else let pattern = (case sc_marker_regex cfg of Some rx \<Rightarrow> rx | None \<Rightarrow> no_marker_regex) in
        case regex pattern of
          None \<Rightarrow> (None, [])
        | Some is_match \<Rightarrow>
            (case publish env show_json answer content (sc_page cfg) pattern is_match of
               (Inr root_id, calls) \<Rightarrow> (Some \<lparr> sr_ok = True, sr_error = None, sr_root_id = Some root_id \<rparr>, calls)
             | (Inl e, calls) \<Rightarrow> (Some \<lparr> sr_ok = False, sr_error = Some e, sr_root_id = None \<rparr>, calls)))"

section \<open>An outline reads back\<close>

definition show_doc :: "outline \<Rightarrow> rstr list" where
  "show_doc t = ot_root t # concat (map (\<lambda>s. (lit ''  - '' @ os_header s) # map (\<lambda>c. lit ''      - '' @ c) (os_children s))
     (ot_sections t))"

definition line_ok :: "rstr \<Rightarrow> bool" where
  "line_ok t \<longleftrightarrow> t \<noteq> [] \<and> 10 \<notin> set t \<and> last t \<noteq> 13"

definition wf_outline :: "outline \<Rightarrow> bool" where
  "wf_outline t \<longleftrightarrow> line_ok (ot_root t) \<and> \<not> is_ws (hd (ot_root t)) \<and> \<not> starts_with fence_mark (ot_root t)
     \<and> (\<forall>s\<in>set (ot_sections t). line_ok (os_header s) \<and> list_all line_ok (os_children s))"

lemma trim_cr_id: "t \<noteq> [] \<Longrightarrow> last t \<noteq> 13 \<Longrightarrow> trim_cr t = t"
  by (cases t rule: rev_cases) (auto simp: trim_cr_def)

lemma sanitize_bullet:
  assumes "line_ok t" "sn_root_set st" "\<not> sn_in_fence st"
  shows "sanitize_line (replicate n 32 @ 45 # 32 # t) st = Some (st\<lparr> sn_out := sn_out st @ [tag_line n t] \<rparr>)"
proof -
  let ?l = "replicate n 32 @ 45 # 32 # t"
  have t: "t \<noteq> []" "last t \<noteq> 13" using assms(1) by (auto simp: line_ok_def)
  then have 1: "trim_cr ?l = ?l"
    by (intro trim_cr_id) auto
  have w: "is_ws 32" "\<not> is_ws 45" by (auto simp: is_ws_def)
  then have 2: "trim_start ?l = 45 # 32 # t" by (induction n) (auto simp: trim_start_def)
  have 3: "length (takeWhile is_ws ?l) = n" using w by (induction n) auto
  have 4: "trim_end (45 # 32 # t) \<noteq> lit ''---''"
  proof
    assume "trim_end (45 # 32 # t) = lit ''---''"
    moreover have "prefix (trim_end (45 # 32 # t)) (45 # 32 # t)"
      using suffix_dropWhile[of is_ws "rev (45 # 32 # t)"] by (simp add: trim_end_def suffix_to_prefix)
    ultimately show False by (simp add: lit_def)
  qed
  show ?thesis using assms(2,3) t 4
    by (simp add: sanitize_line_def 1 2 3 Let_def fence_mark_def strip_bullet_def) (simp add: lit_def)
qed

lemma sanitize_root:
  assumes "line_ok t" "\<not> is_ws (hd t)" "\<not> starts_with fence_mark t" "\<not> sn_root_set st" "\<not> sn_in_fence st"
  shows "sanitize_line t st = Some (st\<lparr> sn_root_set := True, sn_out := sn_out st @ [SRoot t] \<rparr>)"
proof -
  have "trim_cr t = t" using assms(1) by (intro trim_cr_id) (auto simp: line_ok_def)
  moreover have "trim_start t = t" "takeWhile is_ws t = []"
    using assms(1,2) by (cases t; auto simp: line_ok_def trim_start_def)+
  ultimately show ?thesis using assms by (simp add: sanitize_line_def Let_def line_ok_def)
qed

definition doc_lines :: "outl_section list \<Rightarrow> rstr list" where
  "doc_lines ss = concat (map (\<lambda>s. (lit ''  - '' @ os_header s) # map (\<lambda>c. lit ''      - '' @ c) (os_children s)) ss)"

definition doc_slines :: "outl_section list \<Rightarrow> sline list" where
  "doc_slines ss = concat (map (\<lambda>s. SL1 (os_header s) # map SL2 (os_children s)) ss)"

lemma bullets: "lit ''  - '' @ t = replicate 2 32 @ 45 # 32 # t" "lit ''      - '' @ t = replicate 6 32 @ 45 # 32 # t"
  by (simp_all add: lit_def eval_nat_numeral)

lemma sanitize_children:
  assumes "list_all line_ok cs" "sn_root_set st" "\<not> sn_in_fence st"
  shows "sanitize_lines st (map (\<lambda>c. lit ''      - '' @ c) cs @ ls)
    = sanitize_lines (st\<lparr> sn_out := sn_out st @ map SL2 cs \<rparr>) ls"
  using assms
proof (induction cs arbitrary: st)
  case (Cons c cs)
  then show ?case by (simp add: bullets(2) sanitize_bullet tag_line_def)
qed simp

lemma sanitize_sections:
  assumes "\<forall>s\<in>set ss. line_ok (os_header s) \<and> list_all line_ok (os_children s)" "sn_root_set st" "\<not> sn_in_fence st"
  shows "sanitize_lines st (doc_lines ss) = st\<lparr> sn_out := sn_out st @ doc_slines ss \<rparr>"
  using assms
proof (induction ss arbitrary: st)
  case (Cons s ss)
  then show ?case
    by (simp add: doc_lines_def doc_slines_def bullets(1) sanitize_bullet tag_line_def sanitize_children)
qed (simp add: doc_lines_def doc_slines_def)

lemma group_children:
  "group_lines (Some \<lparr> os_header = h, os_children = xs \<rparr>) (map SL2 cs @ ls)
    = group_lines (Some \<lparr> os_header = h, os_children = xs @ cs \<rparr>) ls"
  by (induction cs arbitrary: xs) auto

lemma group_sections:
  "group_lines cur (doc_slines ss) = (case cur of Some s \<Rightarrow> [s] | None \<Rightarrow> []) @ ss"
proof (induction ss arbitrary: cur)
  case (Cons s ss)
  then show ?case by (cases s) (simp add: doc_slines_def group_children)
qed (simp add: doc_slines_def)

lemma str_lines_join:
  assumes "ls \<noteq> []" "\<forall>l\<in>set ls. line_ok l"
  shows "str_lines (join [10] ls) = ls"
proof -
  have s: "split_on 10 (join [10] ls) = ls" using assms by (intro split_on_join) (auto simp: line_ok_def)
  have "lines_of_pieces ls = ls" if "\<forall>l\<in>set ls. line_ok l"
    using that by (induction ls rule: lines_of_pieces.induct) (auto simp: strip_cr_def line_ok_def)
  then show ?thesis using s assms(2) by (simp add: str_lines_def)
qed

text \<open>A document of one root line and two levels of bullets is read as exactly that outline: each header
  under the root, each child under the header before it, every text as it was written (it may itself
  begin with a dash, a fence or white space).
\<close>

theorem outline_reads_back:
  assumes "wf_outline t"
  shows "parse_hierarchy (join [10] (show_doc t)) = Some t"
proof -
  have d: "show_doc t = ot_root t # doc_lines (ot_sections t)" by (simp add: show_doc_def doc_lines_def)
  have "\<forall>l\<in>set (show_doc t). line_ok l"
    using assms by (auto simp: show_doc_def wf_outline_def line_ok_def lit_def list_all_iff)
  then have l: "str_lines (join [10] (show_doc t)) = show_doc t" by (intro str_lines_join) (simp add: show_doc_def)
  define st where "st = sanitizer_start\<lparr> sn_root_set := True, sn_out := [SRoot (ot_root t)] \<rparr>"
  have "sanitize_line (ot_root t) sanitizer_start = Some st"
    using sanitize_root[of "ot_root t" sanitizer_start] assms by (simp add: wf_outline_def sanitizer_start_def st_def)
  moreover have "sanitize_lines st (doc_lines (ot_sections t)) = st\<lparr> sn_out := sn_out st @ doc_slines (ot_sections t) \<rparr>"
    using assms by (intro sanitize_sections) (auto simp: wf_outline_def st_def sanitizer_start_def)
  ultimately have "sanitize_text (join [10] (show_doc t)) = SRoot (ot_root t) # doc_slines (ot_sections t)"
    unfolding sanitize_text_def l unfolding d by (simp add: Let_def st_def sanitizer_start_def)
  then show ?thesis by (cases t) (simp add: parse_hierarchy_def group_sections)
qed

section \<open>What a publication does to the workspace\<close>

lemma marker_ids_D:
  assumes "i \<in> set (marker_ids slug is_match resp)"
  shows "\<exists>blocks blk t. object_get (lit ''blocks'') resp = Some (JArray blocks) \<and> blk \<in> set blocks
     \<and> object_get (lit ''id'') blk = Some (JString i) \<and> object_get (lit ''page'') blk = Some (JString slug)
     \<and> object_get (lit ''text'') blk = Some (JString t) \<and> is_match t"
proof -
  obtain blocks where b: "object_get (lit ''blocks'') resp = Some (JArray blocks)"
  proof (cases "object_get (lit ''blocks'') resp")
    case (Some j)
    then show ?thesis using assms that by (cases j) (auto simp: marker_ids_def)
  qed (use assms in \<open>simp add: marker_ids_def\<close>)
  then obtain blk where k: "blk \<in> set blocks" "marker_block slug is_match blk = Some i"
    using assms by (auto simp: marker_ids_def map_filter_def)
  have "as_str j = Some x \<longleftrightarrow> j = JString x" for j x by (cases j) auto
  then show ?thesis using b k by (fastforce simp: marker_block_def split: option.splits if_splits bind_splits)
qed

lemma publish_cases:
  assumes "publish env show_json answer content page_ref pattern is_match = (res, calls)"
  obtains (refused) e where "parse_hierarchy content = None" "calls = []" "res = Inl e"
  | (stopped) tree e where "parse_hierarchy content = Some tree" "res = Inl e"
      "calls = page_created (resolve_target env page_ref)
        \<or> calls = page_created (resolve_target env page_ref) @ [SearchBlocks (fts_probe (pe_cal env) pattern) 50]"
  | (sent) tree resp where "parse_hierarchy content = Some tree"
      "answer (page_created (resolve_target env page_ref) @ [SearchBlocks (fts_probe (pe_cal env) pattern) 50]) = Inr resp"
      "calls = page_created (resolve_target env page_ref) @ [SearchBlocks (fts_probe (pe_cal env) pattern) 50,
         Batch (marker_ids (target_slug (resolve_target env page_ref)) is_match resp)
           (target_slug (resolve_target env page_ref)) (tree_to_outl (pe_cal env) tree)]"
      "(\<exists>e. answer calls = Inl e \<and> res = Inl e) \<or> (\<exists>r. answer calls = Inr r \<and> res = batch_root show_json r)"
proof (cases "parse_hierarchy content")
  case None
  then show ?thesis using assms refused by (auto simp: publish_def)
next
  case (Some tree)
  define created where "created = page_created (resolve_target env page_ref)"
  define searched where "searched = created @ [SearchBlocks (fts_probe (pe_cal env) pattern) 50]"
  define slug where "slug = target_slug (resolve_target env page_ref)"
  have p: "(res, calls) = (case (if created = [] then Inr JNull else answer created) of
       Inl e \<Rightarrow> (Inl e, created)
     | Inr _ \<Rightarrow> (case answer searched of
           Inl e \<Rightarrow> (Inl e, searched)
         | Inr resp \<Rightarrow>
             let sent = searched @ [Batch (marker_ids slug is_match resp) slug (tree_to_outl (pe_cal env) tree)] in
             (case answer sent of Inl e \<Rightarrow> (Inl e, sent) | Inr resp \<Rightarrow> (batch_root show_json resp, sent))))"
    using assms[symmetric] by (simp only: publish_def Some option.case Let_def created_def searched_def slug_def)
  show ?thesis
  proof (cases "\<exists>e. (if created = [] then Inr JNull else answer created) = Inl e \<or> answer searched = Inl e")
    case True
    then show ?thesis using p Some stopped[of tree] by (auto simp: created_def searched_def split: sum.splits)
  next
    case False
    then obtain resp where a: "answer searched = Inr resp" by (cases "answer searched") auto
    define sent_calls where "sent_calls = searched @ [Batch (marker_ids slug is_match resp) slug (tree_to_outl (pe_cal env) tree)]"
    have "(res, calls) = (case answer sent_calls of Inl e \<Rightarrow> (Inl e, sent_calls) | Inr r \<Rightarrow> (batch_root show_json r, sent_calls))"
      using p False a by (auto simp: Let_def sent_calls_def split: sum.splits)
    then show ?thesis
      using Some a by (intro sent[of tree resp]) (auto simp: sent_calls_def searched_def created_def slug_def split: sum.splits)
  qed
qed

lemma publish_calls:
  assumes "publish env show_json answer content page_ref pattern is_match = (res, calls)"
  shows "calls = [] \<or> (\<exists>tree ids. parse_hierarchy content = Some tree \<and>
        prefix calls (page_created (resolve_target env page_ref) @ [SearchBlocks (fts_probe (pe_cal env) pattern) 50,
          Batch ids (target_slug (resolve_target env page_ref)) (tree_to_outl (pe_cal env) tree)]))"
    and "Batch ids slug tree \<in> set calls \<Longrightarrow> i \<in> set ids \<Longrightarrow> \<exists>resp blocks blk t. answer (butlast calls) = Inr resp
       \<and> object_get (lit ''blocks'') resp = Some (JArray blocks) \<and> blk \<in> set blocks
       \<and> object_get (lit ''id'') blk = Some (JString i) \<and> object_get (lit ''page'') blk = Some (JString slug)
       \<and> object_get (lit ''text'') blk = Some (JString t) \<and> is_match t"
    and "res = Inr root_id \<Longrightarrow> \<exists>ids slug tree resp. last calls = Batch ids slug tree \<and> answer calls = Inr resp
       \<and> object_get (lit ''error'') resp = None"
proof -
  have e: "object_get (lit ''error'') r = None" if "batch_root show_json r = Inr root_id" for r
    using that by (auto simp: batch_root_def split: option.splits)
  have pc: "Batch ids slug tree \<notin> set (page_created t)" for t by (cases t) (auto simp: page_created_def)
  show "calls = [] \<or> (\<exists>tree ids. parse_hierarchy content = Some tree \<and>
        prefix calls (page_created (resolve_target env page_ref) @ [SearchBlocks (fts_probe (pe_cal env) pattern) 50,
          Batch ids (target_slug (resolve_target env page_ref)) (tree_to_outl (pe_cal env) tree)]))"
    using assms by (cases rule: publish_cases) auto
  show "\<exists>resp blocks blk t. answer (butlast calls) = Inr resp
       \<and> object_get (lit ''blocks'') resp = Some (JArray blocks) \<and> blk \<in> set blocks
       \<and> object_get (lit ''id'') blk = Some (JString i) \<and> object_get (lit ''page'') blk = Some (JString slug)
       \<and> object_get (lit ''text'') blk = Some (JString t) \<and> is_match t"
    if b: "Batch ids slug tree \<in> set calls" and i: "i \<in> set ids"
    using assms
  proof (cases rule: publish_cases)
    case (sent tree' resp)
    then have "i \<in> set (marker_ids slug is_match resp)" using b i pc by auto
    from marker_ids_D[OF this] show ?thesis using sent(2,3) by (auto simp: butlast_append)
  qed (use b pc in auto)
  show "\<exists>ids slug tree resp. last calls = Batch ids slug tree \<and> answer calls = Inr resp
       \<and> object_get (lit ''error'') resp = None" if "res = Inr root_id"
    using assms
  proof (cases rule: publish_cases)
    case (sent tree' resp)
    then show ?thesis using that e by auto
  qed (use that in auto)
qed

text \<open>C39. Every call a publication makes, whatever is answered: nothing without an outline; otherwise at most
  the creation of the named page, one search and one batch, in this order.  The batch deletes only
  blocks the search reported on the target page with a text the marker matches, and appends the whole
  outline to that page.  The publication succeeds only if the batch was sent and answered without
  an error.
\<close>

theorem publish_replaces_only_marked:
  assumes "publish env show_json answer content page_ref pattern is_match = (res, calls)"
  shows "(calls = [] \<or> (\<exists>tree ids. parse_hierarchy content = Some tree \<and>
        prefix calls (page_created (resolve_target env page_ref) @ [SearchBlocks (fts_probe (pe_cal env) pattern) 50,
          Batch ids (target_slug (resolve_target env page_ref)) (tree_to_outl (pe_cal env) tree)])))
    \<and> (\<forall>ids slug tree. Batch ids slug tree \<in> set calls \<longrightarrow> (\<forall>i\<in>set ids. \<exists>resp blocks blk t. answer (butlast calls) = Inr resp
       \<and> object_get (lit ''blocks'') resp = Some (JArray blocks) \<and> blk \<in> set blocks
       \<and> object_get (lit ''id'') blk = Some (JString i) \<and> object_get (lit ''page'') blk = Some (JString slug)
       \<and> object_get (lit ''text'') blk = Some (JString t) \<and> is_match t))
    \<and> (\<forall>root_id. res = Inr root_id \<longrightarrow> (\<exists>ids slug tree resp. last calls = Batch ids slug tree \<and> answer calls = Inr resp
       \<and> object_get (lit ''error'') resp = None))"
  using publish_calls[OF assms] by blast

text \<open>The probe is a piece of the pattern, so it can be letters that no matching text needs to hold: the
  letter of a character class, or one of two alternatives.  The blocks without them are not found.\<close>

lemma probe_of_a_class: "fts_probe cal (92 # lit ''d+ items'') = lit ''d''"
  by (simp add: fts_probe_def lit_def probe_char_def is_alnum_c_def is_digit_c_def is_lower_c_def is_upper_c_def
      byte_len_def utf8_width_def)

lemma probe_of_an_alternative: "fts_probe cal (lit ''a|b'') = lit ''a''"
  by (simp add: fts_probe_def lit_def probe_char_def is_alnum_c_def is_digit_c_def is_lower_c_def is_upper_c_def
      byte_len_def utf8_width_def)

text \<open>A log line before the answer that holds a bracket is taken for the beginning of the answer.\<close>

lemma log_bracket_is_the_answer:
  "json_text (lit ''INFO [main] ready'' @ [10] @ lit ''{}'') = Some (lit ''[main] ready'' @ [10] @ lit ''{}'')"
  by (simp add: json_text_def lit_def trim_def trim_start_def trim_end_def is_ws_def)

section \<open>Witnesses\<close>

lemma outline_reads_back_witness:
  "parse_hierarchy (lit ''Report'' @ [10] @ lit ''  - Done'' @ [10] @ lit ''      - one'')
     = Some \<lparr> ot_root = lit ''Report'', ot_sections = [\<lparr> os_header = lit ''Done'', os_children = [lit ''one''] \<rparr>] \<rparr>"
proof -
  let ?t = "\<lparr> ot_root = lit ''Report'', ot_sections = [\<lparr> os_header = lit ''Done'', os_children = [lit ''one''] \<rparr>] \<rparr>"
  have "wf_outline ?t" by (simp add: wf_outline_def line_ok_def is_ws_def fence_mark_def lit_def)
  from outline_reads_back[OF this] show ?thesis by (simp add: show_doc_def lit_def)
qed

definition sample_hits :: json where
  "sample_hits = JObject [(lit ''blocks'', JArray [JObject [(lit ''text'', JString (lit ''#TAG x'')),
     (lit ''page'', JString (lit ''2026-06-01'')), (lit ''id'', JString (lit ''b1''))]])]"

definition sample_result :: json where
  "sample_result = JObject [(lit ''results'', JArray [JObject [(lit ''data'',
     JObject [(lit ''tree'', JObject [(lit ''id'', JString (lit ''r1''))])])]])]"

definition sample_answers :: outl_answers where
  "sample_answers calls = Inr (if length calls = 1 then sample_hits else sample_result)"

definition sink_env :: publish_env where
  "sink_env = \<lparr> pe_cal = plain_calendar, pe_today = 0, pe_day = \<lambda>_. lit ''2026-06-01'', pe_lower = id \<rparr>"

lemma publish_replaces_only_marked_witness:
  "\<exists>calls. publish sink_env (\<lambda>_. []) sample_answers (lit ''Report'') (lit ''today'') (lit ''#TAG'') (\<lambda>_. True) = (Inr (lit ''r1''), calls)
     \<and> (\<exists>ids slug tree. last calls = Batch ids slug tree)"
proof -
  have t: "resolve_target sink_env (lit ''today'') = Daily (lit ''2026-06-01'')"
    by (simp add: resolve_target_def Let_def trim_def trim_start_def trim_end_def is_ws_def lit_def sink_env_def)
  have "wf_outline \<lparr> ot_root = lit ''Report'', ot_sections = [] \<rparr>"
    by (simp add: wf_outline_def line_ok_def is_ws_def fence_mark_def lit_def)
  then have h: "parse_hierarchy (lit ''Report'') = Some \<lparr> ot_root = lit ''Report'', ot_sections = [] \<rparr>"
    using sanitize_root[of "lit ''Report''" sanitizer_start]
    by (simp add: parse_hierarchy_def sanitize_text_def wf_outline_def sanitizer_start_def str_lines_def) (simp add: lit_def)
  have b: "batch_root (\<lambda>_. []) sample_result = Inr (lit ''r1'')"
    by (simp add: batch_root_def sample_result_def object_get_def)
  obtain calls where c: "publish sink_env (\<lambda>_. []) sample_answers (lit ''Report'') (lit ''today'') (lit ''#TAG'') (\<lambda>_. True)
      = (Inr (lit ''r1''), calls)"
    unfolding publish_def h t by (simp add: page_created_def Let_def sample_answers_def b)
  then show ?thesis using publish_replaces_only_marked[OF c] by blast
qed

end
