(* ===== verification/Spec2Isabelle.thy ===== *)
theory Spec2Isabelle
  imports Daemon_Loop Run_Env Audit_Log Ingress Gateway_Runs Gateway_Worker Pool_Runs Supervisor_Runs Memory_Store_Runs Retention Local_Api_Conn Mcp_Runs Secrets Outl_Publish
begin

text \<open>
  A verification development for dotagent, a daemon that runs scheduled agents, answers people over
  Telegram and local clients, and keeps records of all of it (a Rust workspace: \<open>src/crates\<close> holds
  the daemon and its libraries, \<open>src/plugins\<close> programs it starts).

  \<^bold>\<open>The program and its parts.\<close>  An agent is a directory with an \<open>agent.toml\<close>.  The daemon loop
  (\<open>dotagent/src/commands/daemon.rs\<close>) wakes up, discovers the agents, compares their manifests with
  the ones on record, asks the scheduler which windows are due, and dispatches each due window to the
  runner, which starts the agent's process, fires plugins and notifiers, and writes a heartbeat; the
  outcome is entered in the window's file, which decides about the next retry.  A second sweep turns
  conditions that stay true (stale, failing, given up) into alerts on a backoff ladder.  Everything
  that matters is appended to a hash-chained audit log.  Beside the schedules, triggers arrive from
  Telegram (polled, screened, rate limited) and from the local API (a Unix socket); the gateway
  queues them per conversation, one worker each, and a turn's answer goes back where it came from.
  Persistent agents are kept alive in a pool and spoken to in JSON lines; every child process belongs
  to a supervisor, and what a daemon that died left behind is reaped by the next one.  Facts are
  remembered in an outline workspace.  The MCP server exposes agents, skills, remediations, commands
  and memory as tools.  Retention deletes what is old.

  \<^bold>\<open>Theories and sources.\<close>  A theory's operations carry the names of the functions they model; a
  struct is a record whose fields have a short prefix, an enum a datatype with the source's
  constructors.

  \<^item> \<open>Prelude\<close>: strings (lists of Unicode scalar values), the string and integer operations of the
    standard library the code uses, JSON values, the time unit, and the collections of rewrite rules;
    \<open>Ordered_Map\<close>: \<open>BTreeMap\<close> and the eviction loop of bounded tables; \<open>Ladder\<close>: the backoff contract.
  \<^item> \<open>Notify\<close>, \<open>Manifest\<close> (\<open>dotagent-core\<close>: manifest, lifecycle, security, power, heartbeat, window
    records and \<open>validate\<close>), \<open>Scheduler\<close> (\<open>dotagent-scheduler\<close>), \<open>State_Store\<close> (\<open>dotagent-state/src/lib.rs\<close>,
    \<open>dotagent-core/src/slug.rs\<close>), \<open>Tables\<close> (\<open>thread_sessions.rs\<close>, \<open>sent_messages.rs\<close>), \<open>Dedup\<close>
    (\<open>notify_dedup.rs\<close>).
  \<^item> \<open>Audit_Event\<close>, \<open>Audit_Log\<close> (\<open>dotagent-core/src/audit.rs\<close>, \<open>dotagent-state/src/audit.rs\<close>): the files
    of the log directory as lists of bytes, append, rotation, repair, backwards tail read, verification.
  \<^item> \<open>Hooks\<close>, \<open>Runner\<close>, \<open>Run_Env\<close>, \<open>Protocol\<close> (\<open>dotagent-runner\<close>): one run, from preflight to
    notifications, over a record \<open>world\<close> (state files, tables and the trace of calls) and a record
    \<open>outside\<close> (what plugins, drivers, child processes and the clock answer).
  \<^item> \<open>Dispatch\<close>, \<open>Alerts\<close>, \<open>Manifest_Cache\<close>, \<open>Health_Sweep\<close>, \<open>Daemon_Loop\<close> (\<open>commands/daemon.rs\<close>,
    \<open>commands/status.rs\<close>, \<open>power.rs\<close>): what one tick does and when the loop wakes.
  \<^item> \<open>Trigger\<close>, \<open>Telegram_Inbound\<close>, \<open>Ingress\<close>, \<open>Os_Policy\<close>, \<open>Commands\<close>, \<open>Discovery\<close>: a trigger, the
    Telegram poll, the screening of a message, typed operating-system commands, slash commands and
    skills, and the scans that find agents, skills and commands on disk.
  \<^item> \<open>Memo\<close>, \<open>Assistant_Registry\<close> (\<open>dotagent-assistant\<close>, \<open>assistant_harness.rs\<close>): what an assistant
    run is given and what is recorded after it.
  \<^item> \<open>Gateway\<close>, \<open>Gateway_Runs\<close>, \<open>Gateway_Worker\<close> (\<open>dotagent/src/gateway\<close>): the state is the
    supervisor's map, the workers and their channels; one action is one critical section, and a run of
    the gateway is a list of actions.
  \<^item> \<open>Pool_Exchange\<close>, \<open>Persistent_Pool\<close>, \<open>Pool_Invariant\<close>, \<open>Pool_Runs\<close> (\<open>persistent.rs\<close>): one
    exchange, and the pool as tasks that share the slot map, the allocation mutex and the slots.  The
    ceiling of an agent is fixed over a run, and spawning with its handshake is one step.
    (\<open>persistent.rs\<close> carries a copy of \<open>sanitize_key\<close>; the model has the one of \<open>slug.rs\<close>.)
  \<^item> \<open>Orphan\<close>, \<open>Supervisor\<close>, \<open>Supervisor_Runs\<close> (\<open>dotagent-supervisor\<close>): processes, who may end them,
    and the trace of signals.
  \<^item> \<open>Memory_Record\<close>, \<open>Memory_Text\<close>, \<open>Memory_Store\<close>, \<open>Memory_Store_Runs\<close> (\<open>dotagent-memory\<close>): a fact
    as an outline block, and the store over an outline workspace that is a parameter; what the store
    relies on of it is a hypothesis, which a small concrete workspace meets in the witness.
  \<^item> \<open>Retention\<close> (\<open>dotagent-telemetry/src/retention.rs\<close>), \<open>Redact\<close> (\<open>dotagent-notify\<close>: \<open>limits.rs\<close>,
    \<open>redact.rs\<close>, \<open>secrets.rs\<close>), \<open>Secrets\<close> (\<open>dotagent-secrets\<close>, and its use in \<open>daemon.rs\<close>).
  \<^item> \<open>Local_Api\<close>, \<open>Local_Api_Conn\<close> (\<open>dotagent/src/local_api\<close>): the wire protocol, the bounded line
    reader, the answer to a line, and one connection as interleaved steps of producers, reader, writer.
  \<^item> \<open>Mcp_Wire\<close>, \<open>Mcp\<close>, \<open>Mcp_Runs\<close> (\<open>dotagent-mcp\<close>, \<open>commands/mcp.rs\<close>): the catalog, every handler,
    the session.
  \<^item> \<open>Outl_Translate\<close>, \<open>Outl_Meaning\<close>, \<open>Outl_Publish\<close> (\<open>src/plugins/sink-outl\<close>): the rewriting of Roam
    text, the compiler of Roam queries and what its filters select, the outline parser, publication.

  \<^bold>\<open>What the lemmas show.\<close>  Each component has its well-formedness invariant and the lemma that every
  operation keeps it; the properties are numbered C1, C2, ... where they stand.  Scheduling: validation accepts
  exactly the well-formed manifests, expected windows are the greatest tick or the last listed time,
  retries and alerts stay on their ladder and within their bounds, the dry run predicts the dispatch,
  nothing is served twice and nothing due is slept through.  Records: tables stay bounded and
  sound, the audit log always verifies back to its genesis and its last hash pins the whole history.
  Concurrency: the gateway serialises a conversation in order and its retirement ends; the pool
  keeps one process per key, sends a request at most once and never deadlocks; the supervisor reports
  each end once; a local connection stays within its byte budget and delivers in order.  Authority:
  who may cause a run, an operating-system command, an MCP call, a signal to an orphan; an agent's
  environment cannot be spoofed; a credential does not reach the log.  Text: stored facts read back
  to what was stored, a translated query selects what the query selected, keys are file-name safe, a bounded reader agrees with the unbounded one.
  Some properties state what goes wrong, where the code does (an undecodable audit line wedges
  the log; lemmas such as \<open>Orphan.boot_ignores_live_peer\<close>, \<open>Gateway_Runs.panicked_drain_wedges\<close>
  and \<open>Mcp_Runs.memory_off_still_callable\<close> do the same).

  \<^bold>\<open>Interfaces.\<close>  Locales state what a client relies on and are interpreted on the model:
  \<open>backoff_ladder\<close> (retries and alert episodes), \<open>local_time\<close> and \<open>wall_clock\<close> (time zones, with
  a zone that has a gap and an overlap), \<open>reply_table\<close> (both tables), \<open>gateway_runner\<close> (the
  daemon's runner), \<open>first_wins\<close> (agents, skills, commands).

  \<^bold>\<open>Bounds and fuel.\<close>  Loops are structural recursion or carry a measure.  Where a bound is an
  argument it is the code's own (scan depths, chunk sizes, capacities, the gateway's idle and drain
  limits) or large enough by construction: the walk over an outline page (\<open>collect_blocks\<close>) gets as
  much fuel as the workspace has nodes, so that on a tree it visits all of them; the query parser gets three
  units for each character, which is shown never to run out.  Counters of width
  32 or 64 are naturals or integers where the program keeps them far from their limits
  (attempt counters are proved to stay below \<open>max_retries\<close>); saturating and clamped
  arithmetic is written out.

  \<^bold>\<open>Parameters.\<close>  Code that is not part of the sources is an argument: the operating system, the clock,
  chrono's time zones, serde's parsing, SHA-256, gzip, the Unicode tables for non-ASCII characters,
  the outl workspace, HTTP services.  Log lines are dropped, except where a property is about them.

  \<^bold>\<open>Not modelled.\<close>  TOML decoding of manifests and of the configuration file (serde derives);
  the HTTP requests of the notification drivers and the AppleScript and \<open>notify-send\<close> calls;
  the wire client of plugins (\<open>dotagent-plugin\<close>: one child process and one JSON document each way, a
  parameter of the callers); launchd and systemd unit files (\<open>dotagent-unit-gen\<close>); rendering of status, audit, output and daily
  summary for a terminal or a message; argument parsing, completions and the other utility commands;
  paths (\<open>paths.rs\<close>: joins under the home directory); set-up of logging; power probing;
  delivery of signals (\<open>signal.rs\<close>) and the task that writes the orphan snapshot; the other plugin programs, which pass their message on.  They are input and output, or text for people, around the logic above.
\<close>

end
